(* ===== verification/Rattler_Prelude.thy ===== *)
theory Rattler_Prelude
  imports Main "HOL-Library.Word" "HOL-Library.Char_ord" "HOL-Library.List_Lexorder"
    "HOL-Library.More_List"
begin

text \<open>
  Shared vocabulary of the development: Rust's three-valued \<open>Ordering\<close>, the laws of
  \<open>Ord::cmp\<close> as a locale, early-return loops as first-difference searches, the padded
  ("infinite run of defaults") reading of lists, iterator adaptors used by several crates, and
  decimal printing of unsigned integers.
\<close>

section \<open>Collections of facts\<close>

named_theorems ordering_simps \<open>equations for three-valued orderings\<close>
named_theorems bits_simps \<open>field access of the packed words\<close>
named_theorems view_simps \<open>what an operation does to the abstract view of a value\<close>

section \<open>Machine integers\<close>

type_synonym u8 = "8 word"
type_synonym u16 = "16 word"
type_synonym u64 = "64 word"

section \<open>Three-valued comparison\<close>

datatype ordering = Ord_Less | Ord_Equal | Ord_Greater

fun rev_ordering :: "ordering \<Rightarrow> ordering" where
  "rev_ordering Ord_Less = Ord_Greater"
| "rev_ordering Ord_Equal = Ord_Equal"
| "rev_ordering Ord_Greater = Ord_Less"

fun then_with :: "ordering \<Rightarrow> ordering \<Rightarrow> ordering" where
  "then_with Ord_Equal o2 = o2"
| "then_with o1 o2 = o1"

definition cmp_of :: "'a::linorder \<Rightarrow> 'a \<Rightarrow> ordering" where
  "cmp_of x y = (if x < y then Ord_Less else if x = y then Ord_Equal else Ord_Greater)"

text \<open>A loop over an iterator of comparison results that returns at the first unequal one.\<close>

fun first_non_equal :: "ordering list \<Rightarrow> ordering" where
  "first_non_equal [] = Ord_Equal"
| "first_non_equal (r # rs) = (if r = Ord_Equal then first_non_equal rs else r)"

lemma rev_ordering_rev [ordering_simps, simp]: "rev_ordering (rev_ordering r) = r"
  by (cases r) auto

lemma rev_ordering_eq_iff [ordering_simps, simp]:
  "rev_ordering r = Ord_Equal \<longleftrightarrow> r = Ord_Equal"
  "rev_ordering r = Ord_Less \<longleftrightarrow> r = Ord_Greater"
  "rev_ordering r = Ord_Greater \<longleftrightarrow> r = Ord_Less"
  by (cases r; simp)+

lemma then_with_eq_iff [ordering_simps]:
  "then_with a b = Ord_Equal \<longleftrightarrow> a = Ord_Equal \<and> b = Ord_Equal"
  "then_with a b = Ord_Less \<longleftrightarrow> a = Ord_Less \<or> a = Ord_Equal \<and> b = Ord_Less"
  "then_with a b = Ord_Greater \<longleftrightarrow> a = Ord_Greater \<or> a = Ord_Equal \<and> b = Ord_Greater"
  by (cases a; simp)+

lemma rev_then_with [ordering_simps]:
  "rev_ordering (then_with a b) = then_with (rev_ordering a) (rev_ordering b)"
  by (cases a) auto

lemma cmp_of_eq_iff [ordering_simps]:
  "cmp_of x y = Ord_Equal \<longleftrightarrow> x = y"
  "cmp_of x y = Ord_Less \<longleftrightarrow> x < y"
  "cmp_of x y = Ord_Greater \<longleftrightarrow> y < x"
  by (auto simp: cmp_of_def)

lemma cmp_of_refl [simp]: "cmp_of x x = Ord_Equal"
  by (simp add: cmp_of_def)

lemma rev_cmp_of: "rev_ordering (cmp_of x y) = cmp_of y x"
  by (auto simp: cmp_of_def)

lemma then_with_not_Equal [simp]: "a \<noteq> Ord_Equal \<Longrightarrow> then_with a b = a"
  by (cases a) auto

lemma first_non_equal_append:
  "first_non_equal (xs @ ys) = then_with (first_non_equal xs) (first_non_equal ys)"
  by (induction xs) auto

lemma first_non_equal_Equal_iff:
  "first_non_equal rs = Ord_Equal \<longleftrightarrow> (\<forall>r \<in> set rs. r = Ord_Equal)"
  by (induction rs) auto

lemma first_non_equal_position:
  assumes "r \<noteq> Ord_Equal"
  shows "first_non_equal rs = r \<longleftrightarrow>
    (\<exists>i < length rs. rs ! i = r \<and> (\<forall>j < i. rs ! j = Ord_Equal))"
  using assms by (induction rs) (auto simp: Ex_less_Suc2 All_less_Suc2)

subsection \<open>The laws of \<open>Ord::cmp\<close>\<close>

locale total_preorder_cmp =
  fixes cmp :: "'a \<Rightarrow> 'a \<Rightarrow> ordering"
  assumes cmp_rev: "cmp y x = rev_ordering (cmp x y)"
    and cmp_trans: "cmp x y \<noteq> Ord_Greater \<Longrightarrow> cmp y z \<noteq> Ord_Greater \<Longrightarrow> cmp x z \<noteq> Ord_Greater"
begin

lemma cmp_refl: "cmp x x = Ord_Equal"
  using cmp_rev [of x x] by (cases "cmp x x") auto

lemma cmp_flip:
  "cmp x y = Ord_Less \<Longrightarrow> cmp y x = Ord_Greater"
  "cmp x y = Ord_Greater \<Longrightarrow> cmp y x = Ord_Less"
  "cmp x y = Ord_Equal \<Longrightarrow> cmp y x = Ord_Equal"
  by (simp_all add: cmp_rev [of y x])

lemma cmp_ge_trans: "cmp x y \<noteq> Ord_Less \<Longrightarrow> cmp y z \<noteq> Ord_Less \<Longrightarrow> cmp x z \<noteq> Ord_Less"
  using cmp_trans [of z y x] cmp_flip by metis

lemma cmp_equal_trans: "cmp x y = Ord_Equal \<Longrightarrow> cmp y z = Ord_Equal \<Longrightarrow> cmp x z = Ord_Equal"
  using cmp_trans [of x y z] cmp_ge_trans [of x y z] by (cases "cmp x z") auto

lemma cmp_equal_left:
  assumes "cmp x y = Ord_Equal"
  shows "cmp x z = cmp y z"
proof (rule ordering.exhaust [of "cmp y z"])
  assume "cmp y z = Ord_Less"
  then show ?thesis
    using assms cmp_trans [of x y z] cmp_ge_trans [of y x z] cmp_flip(3) [OF assms]
    by (cases "cmp x z") auto
next
  assume "cmp y z = Ord_Equal"
  then show ?thesis using assms cmp_equal_trans by simp
next
  assume "cmp y z = Ord_Greater"
  then show ?thesis
    using assms cmp_ge_trans [of x y z] cmp_trans [of y x z] cmp_flip(3) [OF assms]
    by (cases "cmp x z") auto
qed

lemma cmp_equal_right: "cmp x y = Ord_Equal \<Longrightarrow> cmp z x = cmp z y"
  using cmp_equal_left [of x y z] by (simp add: cmp_rev [of z])

lemma cmp_less_trans:
  assumes "cmp x y = Ord_Less" and "cmp y z \<noteq> Ord_Greater"
  shows "cmp x z = Ord_Less"
proof (cases "cmp x z")
  case Ord_Equal
  then have "cmp z y = Ord_Less" using assms(1) cmp_equal_left [of x z y] by simp
  with assms(2) show ?thesis using cmp_flip(1) by simp
qed (use assms cmp_trans [of x y z] in auto)

lemma cmp_less_trans2: "cmp x y \<noteq> Ord_Greater \<Longrightarrow> cmp y z = Ord_Less \<Longrightarrow> cmp x z = Ord_Less"
  using cmp_less_trans [of x y z] cmp_equal_left [of x y z]
  by (cases "cmp x y") auto

lemmas cmp_laws = cmp_refl cmp_rev cmp_trans cmp_equal_trans cmp_less_trans cmp_less_trans2

end

text \<open>
  Comparison on a key, on two keys in turn (\<open>a.cmp(b).then_with(..)\<close>), and pointwise along a
  list of positions, all inherit the laws.
\<close>

lemma total_preorder_cmpI_less:
  assumes "\<And>x y. cmp y x = rev_ordering (cmp x y)"
    and "\<And>x y z. cmp x y = Ord_Less \<Longrightarrow> cmp y z = Ord_Less \<Longrightarrow> cmp x z = Ord_Less"
    and "\<And>x y z. cmp x y = Ord_Equal \<Longrightarrow> cmp x z = cmp y z"
  shows "total_preorder_cmp cmp"
proof
  fix x y z
  show "cmp y x = rev_ordering (cmp x y)" by (rule assms(1))
  assume xy: "cmp x y \<noteq> Ord_Greater" and yz: "cmp y z \<noteq> Ord_Greater"
  show "cmp x z \<noteq> Ord_Greater"
  proof (cases "cmp x y = Ord_Equal")
    case True
    then show ?thesis using assms(3) [of x y z] yz by simp
  next
    case False
    then have less: "cmp x y = Ord_Less" using xy by (cases "cmp x y") auto
    show ?thesis
    proof (cases "cmp y z = Ord_Equal")
      case True
      then have "cmp y x = cmp z x" using assms(3) [of y z x] by simp
      then show ?thesis using less assms(1) [of x z] assms(1) [of y x] by simp
    next
      case False
      then have "cmp y z = Ord_Less" using yz by (cases "cmp y z") auto
      then show ?thesis using assms(2) [of x y z] less by simp
    qed
  qed
qed

lemma cmp_of_total_preorder: "total_preorder_cmp cmp_of"
  by (rule total_preorder_cmpI_less) (auto simp: rev_cmp_of ordering_simps)

lemma cmp_key_total_preorder:
  assumes "total_preorder_cmp c"
  shows "total_preorder_cmp (\<lambda>x y. c (f x) (f y))"
proof -
  note c = total_preorder_cmp.cmp_rev [OF assms] total_preorder_cmp.cmp_trans [OF assms]
  show ?thesis
    by unfold_locales (rule c(1), rule c(2), assumption+)
qed

lemmas cmp_of_key = cmp_key_total_preorder [OF cmp_of_total_preorder]

lemma then_with_total_preorder:
  assumes "total_preorder_cmp c" and "total_preorder_cmp d"
  shows "total_preorder_cmp (\<lambda>x y. then_with (c x y) (d x y))"
proof (rule total_preorder_cmpI_less)
  fix x y z
  note cl = total_preorder_cmp.cmp_rev [OF assms(1)] total_preorder_cmp.cmp_less_trans [OF assms(1)]
    total_preorder_cmp.cmp_less_trans2 [OF assms(1)] total_preorder_cmp.cmp_equal_trans [OF assms(1)]
  note dl = total_preorder_cmp.cmp_rev [OF assms(2)] total_preorder_cmp.cmp_less_trans [OF assms(2)]
  show "then_with (c y x) (d y x) = rev_ordering (then_with (c x y) (d x y))"
    by (simp add: rev_then_with cl(1) [symmetric] dl(1) [symmetric])
  show "then_with (c x y) (d x y) = Ord_Less \<Longrightarrow> then_with (c y z) (d y z) = Ord_Less \<Longrightarrow>
      then_with (c x z) (d x z) = Ord_Less"
    unfolding then_with_eq_iff
    using cl(2) [of x y z] cl(3) [of x y z] cl(4) [of x y z] dl(2) [of x y z] by auto
  show "then_with (c x y) (d x y) = Ord_Equal \<Longrightarrow> then_with (c x z) (d x z) = then_with (c y z) (d y z)"
    using total_preorder_cmp.cmp_equal_left [OF assms(1), of x y z]
      total_preorder_cmp.cmp_equal_left [OF assms(2), of x y z]
    by (simp add: then_with_eq_iff)
qed

definition lex_on :: "'i list \<Rightarrow> ('a \<Rightarrow> 'a \<Rightarrow> ordering) \<Rightarrow> ('i \<Rightarrow> 'a) \<Rightarrow> ('i \<Rightarrow> 'a) \<Rightarrow> ordering" where
  "lex_on is c f g = first_non_equal (map (\<lambda>i. c (f i) (g i)) is)"

lemma lex_on_total_preorder:
  assumes "total_preorder_cmp c"
  shows "total_preorder_cmp (lex_on is c)"
proof (induction "is")
  case Nil
  show ?case by unfold_locales (auto simp: lex_on_def)
next
  case (Cons i "is")
  have "lex_on (i # is) c = (\<lambda>f g. then_with (c (f i) (g i)) (lex_on is c f g))"
    by (intro ext) (simp add: lex_on_def)
  then show ?case
    using then_with_total_preorder [OF cmp_key_total_preorder [OF assms, of "\<lambda>f. f i"] Cons]
    by simp
qed

section \<open>Outcomes: values, errors and panics\<close>

text \<open>
  A function whose body has an \<open>expect\<close>, \<open>unwrap\<close> or \<open>assert!\<close> returns a
  \<open>rust\<close> outcome: \<open>Done\<close> of the value or \<open>Panic\<close>.
\<close>

datatype 'a rust = Done 'a | Panic

fun rust_bind :: "'a rust \<Rightarrow> ('a \<Rightarrow> 'b rust) \<Rightarrow> 'b rust" where
  "rust_bind (Done x) f = f x"
| "rust_bind Panic f = Panic"

fun expect :: "'a option \<Rightarrow> 'a rust" where
  "expect (Some x) = Done x"
| "expect None = Panic"

lemma rust_bind_Done_iff: "rust_bind m f = Done y \<longleftrightarrow> (\<exists>x. m = Done x \<and> f x = Done y)"
  by (cases m) auto

lemma expect_Done_iff [simp]: "expect m = Done x \<longleftrightarrow> m = Some x"
  by (cases m) auto

section \<open>Iterator adaptors\<close>

text \<open>\<open>Itertools::zip_longest\<close> and its \<open>EitherOrBoth\<close> items.\<close>

datatype ('a, 'b) either_or_both = Both 'a 'b | OnlyLeft 'a | OnlyRight 'b

fun zip_longest :: "'a list \<Rightarrow> 'b list \<Rightarrow> ('a, 'b) either_or_both list" where
  "zip_longest [] [] = []"
| "zip_longest (a # as) [] = OnlyLeft a # zip_longest as []"
| "zip_longest [] (b # bs) = OnlyRight b # zip_longest [] bs"
| "zip_longest (a # as) (b # bs) = Both a b # zip_longest as bs"

text \<open>\<open>.map_any(Some, Some).or_default()\<close>.\<close>

fun both_options :: "('a, 'b) either_or_both \<Rightarrow> 'a option \<times> 'b option" where
  "both_options (Both a b) = (Some a, Some b)"
| "both_options (OnlyLeft a) = (Some a, None)"
| "both_options (OnlyRight b) = (None, Some b)"

definition nth_option :: "'a list \<Rightarrow> nat \<Rightarrow> 'a option" where
  "nth_option xs i = (if i < length xs then Some (xs ! i) else None)"

lemma nth_option_simps [simp]:
  "nth_option [] i = None"
  "nth_option (x # xs) 0 = Some x"
  "nth_option (x # xs) (Suc i) = nth_option xs i"
  by (auto simp: nth_option_def)

lemma upt_Suc_map: "[0..<Suc n] = 0 # map Suc [0..<n]"
  by (simp add: upt_conv_Cons map_Suc_upt)

lemma zip_longest_options:
  "map both_options (zip_longest as bs) =
     map (\<lambda>i. (nth_option as i, nth_option bs i)) [0..<max (length as) (length bs)]"
  by (induction as bs rule: zip_longest.induct)
    (simp_all add: upt_Suc_map comp_def del: upt_Suc)

definition slice :: "'a list \<Rightarrow> nat \<Rightarrow> nat \<Rightarrow> 'a list" where
  "slice xs off len = take len (drop off xs)"

lemma slice_add: "slice xs i (m + n) = slice xs i m @ slice xs (i + m) n"
  by (simp add: slice_def take_add add.commute)

lemma slice_0 [simp]: "slice xs i 0 = []"
  by (simp add: slice_def)

lemma length_slice: "length (slice xs i n) = min (length xs - i) n"
  by (simp add: slice_def min.commute)

lemma nth_default_option: "nth_default d xs i = (case nth_option xs i of None \<Rightarrow> d | Some x \<Rightarrow> x)"
  by (simp add: nth_default_def nth_option_def)

lemma nth_default_beyond: "length xs \<le> i \<Longrightarrow> nth_default d xs i = d"
  by (simp add: nth_default_def)

text \<open>A first-difference search may run past the point where both sides are padding.\<close>

lemma first_non_equal_extend:
  assumes "n \<le> m" and "\<And>i. n \<le> i \<Longrightarrow> i < m \<Longrightarrow> f i = Ord_Equal"
  shows "first_non_equal (map f [0..<m]) = first_non_equal (map f [0..<n])"
proof -
  have "[0..<m] = [0..<n] @ [n..<m]"
    using assms(1) by (metis le_add_diff_inverse plus_nat.add_0 upt_add_eq_append zero_le)
  moreover have "first_non_equal (map f [n..<m]) = Ord_Equal"
    using assms(2) by (auto simp: first_non_equal_Equal_iff)
  ultimately show ?thesis
    by (simp add: first_non_equal_append) (cases "first_non_equal (map f [0..<n])"; simp)
qed

section \<open>Text\<close>

text \<open>\<open>str::strip_suffix\<close>.\<close>

definition strip_suffix :: "string \<Rightarrow> string \<Rightarrow> string option" where
  "strip_suffix suf s = (if length suf \<le> length s \<and> drop (length s - length suf) s = suf
     then Some (take (length s - length suf) s) else None)"

lemma strip_suffix_Some_iff [simp]: "strip_suffix suf s = Some r \<longleftrightarrow> s = r @ suf"
  by (auto simp: strip_suffix_def) (metis append_take_drop_id)

lemma strip_suffix_append [simp]: "strip_suffix suf (r @ suf) = Some r"
  by simp

lemma strip_suffix_None_iff: "strip_suffix suf s = None \<longleftrightarrow> (\<forall>r. s \<noteq> r @ suf)"
  by (metis not_None_eq strip_suffix_Some_iff)

text \<open>
  \<open>str::split_once\<close>, \<open>str::rsplit_once\<close> and \<open>str::rsplitn\<close> at a character: the text
  around the first or last occurrence, and at most \<open>n\<close> pieces from the end.
\<close>

definition split_once :: "'a \<Rightarrow> 'a list \<Rightarrow> ('a list \<times> 'a list) option" where
  "split_once c s = (case dropWhile (\<lambda>x. x \<noteq> c) s of
     [] \<Rightarrow> None | _ # rest \<Rightarrow> Some (takeWhile (\<lambda>x. x \<noteq> c) s, rest))"

definition rsplit_once :: "'a \<Rightarrow> 'a list \<Rightarrow> ('a list \<times> 'a list) option" where
  "rsplit_once c s = map_option (\<lambda>(a, b). (rev b, rev a)) (split_once c (rev s))"

fun rsplitn :: "nat \<Rightarrow> char \<Rightarrow> string \<Rightarrow> string list" where
  "rsplitn 0 c s = []"
| "rsplitn (Suc 0) c s = [s]"
| "rsplitn (Suc (Suc n)) c s = (case rsplit_once c s of
     None \<Rightarrow> [s] | Some (before, after) \<Rightarrow> after # rsplitn (Suc n) c before)"

lemma split_once_Some_iff: "split_once c s = Some (a, b) \<longleftrightarrow> s = a @ c # b \<and> c \<notin> set a"
proof
  assume "split_once c s = Some (a, b)"
  then obtain x where x: "dropWhile (\<lambda>x. x \<noteq> c) s = x # b" and a: "a = takeWhile (\<lambda>x. x \<noteq> c) s"
    by (auto simp: split_once_def split: list.splits)
  then have "x = c" using hd_dropWhile [of "\<lambda>x. x \<noteq> c" s] by simp
  then show "s = a @ c # b \<and> c \<notin> set a"
    using x a takeWhile_dropWhile_id [of "\<lambda>x. x \<noteq> c" s] by (auto dest: set_takeWhileD)
next
  assume "s = a @ c # b \<and> c \<notin> set a"
  moreover from this have "takeWhile (\<lambda>x. x \<noteq> c) s = a" "dropWhile (\<lambda>x. x \<noteq> c) s = c # b"
    by (induction a arbitrary: s) auto
  ultimately show "split_once c s = Some (a, b)" by (simp add: split_once_def)
qed

lemma rsplit_once_Some_iff: "rsplit_once c s = Some (a, b) \<longleftrightarrow> s = a @ c # b \<and> c \<notin> set b"
proof -
  have "rsplit_once c s = Some (a, b) \<longleftrightarrow> split_once c (rev s) = Some (rev b, rev a)"
    by (auto simp: rsplit_once_def)
  also have "\<dots> \<longleftrightarrow> rev s = rev (a @ c # b) \<and> c \<notin> set b" by (simp add: split_once_Some_iff)
  finally show ?thesis by (simp only: rev_is_rev_conv)
qed

lemma rsplitn_3_iff:
  "rsplitn 3 c s = [after, mid, before] \<longleftrightarrow> s = before @ c # mid @ c # after \<and> c \<notin> set mid \<and> c \<notin> set after"
proof
  assume "rsplitn 3 c s = [after, mid, before]"
  then show "s = before @ c # mid @ c # after \<and> c \<notin> set mid \<and> c \<notin> set after"
    by (auto simp: numeral_3_eq_3 rsplit_once_Some_iff split: option.splits prod.splits)
next
  assume s: "s = before @ c # mid @ c # after \<and> c \<notin> set mid \<and> c \<notin> set after"
  then have "rsplit_once c s = Some (before @ c # mid, after)" "rsplit_once c (before @ c # mid) = Some (before, mid)"
    by (simp_all add: rsplit_once_Some_iff)
  then show "rsplitn 3 c s = [after, mid, before]" by (simp add: numeral_3_eq_3)
qed

section \<open>Decimal integers\<close>

definition digit_char :: "nat \<Rightarrow> char" where
  "digit_char d = char_of (48 + d)"

fun show_nat :: "nat \<Rightarrow> string" where
  "show_nat n = (if n < 10 then [digit_char n] else show_nat (n div 10) @ [digit_char (n mod 10)])"

declare show_nat.simps [simp del]

definition is_ascii_digit :: "char \<Rightarrow> bool" where
  "is_ascii_digit c \<longleftrightarrow> 48 \<le> (of_char c :: nat) \<and> (of_char c :: nat) \<le> 57"

definition digits_value :: "string \<Rightarrow> nat" where
  "digits_value ds = foldl (\<lambda>n c. 10 * n + (of_char c - 48)) 0 ds"

lemma of_char_digit_char: "d < 10 \<Longrightarrow> of_char (digit_char d) = 48 + d"
  by (simp add: digit_char_def)

lemma digits_value_append:
  "digits_value (ds @ [c]) = 10 * digits_value ds + (of_char c - 48)"
  by (simp add: digits_value_def)

lemma digits_value_show_nat: "digits_value (show_nat n) = n"
proof (induction n rule: show_nat.induct)
  case (1 n)
  show ?case
  proof (cases "n < 10")
    case True
    then show ?thesis by (simp add: show_nat.simps [of n] digits_value_def of_char_digit_char)
  next
    case False
    then show ?thesis
      using 1 by (simp add: show_nat.simps [of n] digits_value_append of_char_digit_char)
  qed
qed

lemma show_nat_digits: "\<forall>c \<in> set (show_nat n). is_ascii_digit c"
proof (induction n rule: show_nat.induct)
  case (1 n)
  have "is_ascii_digit (digit_char (n mod 10))" and "n < 10 \<Longrightarrow> is_ascii_digit (digit_char n)"
    by (auto simp: is_ascii_digit_def of_char_digit_char)
  then show ?case using 1 by (auto simp: show_nat.simps [of n])
qed

lemma show_nat_nonempty [simp]: "show_nat n \<noteq> []"
  by (subst show_nat.simps) simp

end
