(* ===== verification/Version_Bits.thy ===== *)
theory Version_Bits
  imports Rattler_Prelude
begin

unbundle bit_operations_syntax

text \<open>
  The two packed words of a parsed version (\<open>rattler_conda_version/src/version/segment.rs\<close>
  and \<open>flags.rs\<close>): a \<open>Segment\<close> packs a component count, the separator in front of the
  segment and the implicit-zero bit into a \<open>u16\<close>; \<open>Flags\<close> packs the epoch bit and the
  index of the first local segment into a \<open>u8\<close>. The model keeps the words and the bit
  operations of the source; the lemmas show that every field reads back what was stored and that
  no setter disturbs another field.
\<close>

section \<open>\<open>Segment\<close>\<close>

datatype segment = Segment (segment_word: u16)

definition COMPONENT_COUNT_MASK :: u16 where
  "COMPONENT_COUNT_MASK = push_bit 13 1 - 1"

definition COMPONENT_COUNT_OFFSET :: nat where
  "COMPONENT_COUNT_OFFSET = 0"

definition SEGMENT_SEPARATOR_MASK :: u16 where
  "SEGMENT_SEPARATOR_MASK = 0b11"

definition SEGMENT_SEPARATOR_OFFSET :: nat where
  "SEGMENT_SEPARATOR_OFFSET = 13"

definition IMPLICIT_DEFAULT_ZERO_MASK :: u16 where
  "IMPLICIT_DEFAULT_ZERO_MASK = 0b1"

definition IMPLICIT_DEFAULT_ZERO_OFFSET :: nat where
  "IMPLICIT_DEFAULT_ZERO_OFFSET = 15"

lemmas segment_layout = COMPONENT_COUNT_MASK_def COMPONENT_COUNT_OFFSET_def
  SEGMENT_SEPARATOR_MASK_def SEGMENT_SEPARATOR_OFFSET_def
  IMPLICIT_DEFAULT_ZERO_MASK_def IMPLICIT_DEFAULT_ZERO_OFFSET_def

definition segment_new :: "u16 \<Rightarrow> segment option" where
  "segment_new component_count =
     (if component_count > COMPONENT_COUNT_MASK then None
      else Some (Segment (push_bit COMPONENT_COUNT_OFFSET (component_count AND COMPONENT_COUNT_MASK))))"

definition segment_with_component_count :: "segment \<Rightarrow> u16 \<Rightarrow> segment option" where
  "segment_with_component_count s len =
     (if len > COMPONENT_COUNT_MASK then None
      else let component_mask = push_bit COMPONENT_COUNT_OFFSET (len AND COMPONENT_COUNT_MASK)
           in Some (Segment (segment_word s AND NOT (push_bit COMPONENT_COUNT_OFFSET COMPONENT_COUNT_MASK)
                OR component_mask)))"

definition segment_len :: "segment \<Rightarrow> u16" where
  "segment_len s = drop_bit COMPONENT_COUNT_OFFSET (segment_word s) AND COMPONENT_COUNT_MASK"

definition segment_with_implicit_default :: "segment \<Rightarrow> bool \<Rightarrow> segment" where
  "segment_with_implicit_default s has_implicit_default = Segment
     (if has_implicit_default
      then segment_word s OR push_bit IMPLICIT_DEFAULT_ZERO_OFFSET (1 AND IMPLICIT_DEFAULT_ZERO_MASK)
      else segment_word s AND NOT (push_bit IMPLICIT_DEFAULT_ZERO_OFFSET IMPLICIT_DEFAULT_ZERO_MASK))"

definition segment_has_implicit_default :: "segment \<Rightarrow> bool" where
  "segment_has_implicit_default s \<longleftrightarrow>
     drop_bit IMPLICIT_DEFAULT_ZERO_OFFSET (segment_word s) = IMPLICIT_DEFAULT_ZERO_MASK"

text \<open>The \<open>match separator\<close> of \<open>with_separator\<close>; an unknown character is \<open>None\<close>.\<close>

definition separator_code :: "char option \<Rightarrow> u16 option" where
  "separator_code sep =
     (if sep = Some (CHR ''-'') then Some 1
      else if sep = Some (CHR ''_'') then Some 2
      else if sep = Some (CHR ''.'') then Some 3
      else if sep = None then Some 0
      else None)"

definition segment_with_separator :: "segment \<Rightarrow> char option \<Rightarrow> segment option" where
  "segment_with_separator s sep =
     (let state = segment_word s AND NOT (push_bit SEGMENT_SEPARATOR_OFFSET SEGMENT_SEPARATOR_MASK)
      in map_option (\<lambda>code. Segment (state OR push_bit SEGMENT_SEPARATOR_OFFSET code))
           (separator_code sep))"

definition segment_without_separator :: "segment \<Rightarrow> segment" where
  "segment_without_separator s =
     Segment (segment_word s AND NOT (push_bit SEGMENT_SEPARATOR_OFFSET SEGMENT_SEPARATOR_MASK))"

text \<open>The last arm of the source's \<open>match\<close> is \<open>unreachable!()\<close>: two bits have four values.\<close>

definition segment_separator :: "segment \<Rightarrow> char option" where
  "segment_separator s =
     (let code = drop_bit SEGMENT_SEPARATOR_OFFSET (segment_word s) AND SEGMENT_SEPARATOR_MASK
      in if code = 0 then None
         else if code = 1 then Some (CHR ''-'')
         else if code = 2 then Some (CHR ''_'')
         else Some (CHR ''.''))"

section \<open>\<open>Flags\<close>\<close>

datatype flags = Flags (flags_word: u8)

definition EPOCH_MASK :: u8 where "EPOCH_MASK = 0b1"

definition EPOCH_OFFSET :: nat where "EPOCH_OFFSET = 0"

definition LOCAL_VERSION_MASK :: u8 where "LOCAL_VERSION_MASK = push_bit 7 1 - 1"

definition LOCAL_VERSION_OFFSET :: nat where "LOCAL_VERSION_OFFSET = 1"

lemmas flags_layout = EPOCH_MASK_def EPOCH_OFFSET_def LOCAL_VERSION_MASK_def LOCAL_VERSION_OFFSET_def

definition flags_default :: flags where "flags_default = Flags 0"

definition flags_with_has_epoch :: "flags \<Rightarrow> bool \<Rightarrow> flags" where
  "flags_with_has_epoch f has_epoch =
     (let flag = flags_word f AND NOT (push_bit EPOCH_OFFSET EPOCH_MASK)
      in Flags (flag OR (if has_epoch then push_bit EPOCH_OFFSET EPOCH_MASK else 0)))"

definition flags_has_epoch :: "flags \<Rightarrow> bool" where
  "flags_has_epoch f \<longleftrightarrow> drop_bit EPOCH_OFFSET (flags_word f) AND EPOCH_MASK \<noteq> 0"

definition flags_with_local_segment_index :: "flags \<Rightarrow> u8 \<Rightarrow> flags option" where
  "flags_with_local_segment_index f index =
     (if index > LOCAL_VERSION_MASK then None
      else Some (Flags ((flags_word f AND NOT (push_bit LOCAL_VERSION_OFFSET LOCAL_VERSION_MASK))
             OR push_bit LOCAL_VERSION_OFFSET index)))"

definition flags_local_segment_index :: "flags \<Rightarrow> u8" where
  "flags_local_segment_index f = drop_bit LOCAL_VERSION_OFFSET (flags_word f) AND LOCAL_VERSION_MASK"

section \<open>Masks as bit ranges\<close>

lemma segment_masks:
  "COMPONENT_COUNT_MASK = mask 13" "SEGMENT_SEPARATOR_MASK = mask 2" "IMPLICIT_DEFAULT_ZERO_MASK = mask 1"
  by (simp_all add: segment_layout mask_eq_exp_minus_1)

lemma flags_masks: "EPOCH_MASK = mask 1" "LOCAL_VERSION_MASK = mask 7"
  by (simp_all add: flags_layout mask_eq_exp_minus_1)

lemmas offsets = COMPONENT_COUNT_OFFSET_def SEGMENT_SEPARATOR_OFFSET_def
  IMPLICIT_DEFAULT_ZERO_OFFSET_def EPOCH_OFFSET_def LOCAL_VERSION_OFFSET_def

text \<open>A word that does not exceed \<open>mask n\<close> has no bit at or above \<open>n\<close>.\<close>

lemma take_bit_le_mask:
  fixes w :: "'a::len word"
  assumes "w \<le> mask n"
  shows "take_bit n w = w"
proof -
  have "uint w \<le> uint (mask n :: 'a word)" using assms by (simp add: word_le_def)
  also have "\<dots> = mask (min LENGTH('a) n)" by (rule uint_mask_eq)
  also have "\<dots> < 2 ^ min LENGTH('a) n" by (simp add: mask_eq_exp_minus_1)
  also have "\<dots> \<le> 2 ^ n" by (simp add: power_increasing)
  finally have "uint w < 2 ^ n" .
  then have "take_bit n (uint w) = uint w" by (simp add: take_bit_int_eq_self)
  then have "uint (take_bit n w) = uint w" by (simp add: unsigned_take_bit_eq)
  then show ?thesis by (simp add: word_uint_eq_iff)
qed

lemma bit_le_mask:
  fixes w :: "'a::len word"
  assumes "w \<le> mask n" and "bit w i"
  shows "i < n"
  using take_bit_le_mask [OF assms(1)] assms(2) by (metis bit_take_bit_iff)

lemma and_mask_le [simp]:
  fixes w :: "'a::len word"
  shows "w \<le> mask n \<Longrightarrow> w AND mask n = w"
  by (simp add: take_bit_eq_mask [symmetric] take_bit_le_mask)

lemma separator_code_cases:
  "separator_code sep = Some c \<Longrightarrow>
    (sep, c) \<in> {(None, 0), (Some (CHR ''-''), 1), (Some (CHR ''_''), 2), (Some (CHR ''.''), 3)}"
  by (auto simp: separator_code_def split: if_splits)

lemma separator_code_le: "separator_code sep = Some c \<Longrightarrow> c \<le> mask 2"
  by (drule separator_code_cases) (auto simp: mask_eq_exp_minus_1)

lemma bit_32768: "bit (32768 :: int) i \<longleftrightarrow> i = 15"
proof -
  have "(32768 :: int) = 2 ^ 15" by simp
  then show ?thesis by (simp only: bit_exp_iff) auto
qed

lemma bit_implicit: "segment_has_implicit_default s \<longleftrightarrow> bit (segment_word s) 15"
proof -
  have "drop_bit 15 w = mask 1 \<longleftrightarrow> bit w 15" for w :: u16
  proof
    assume "drop_bit 15 w = mask 1"
    then have "bit (drop_bit 15 w) 0" by (simp add: bit_simps)
    then show "bit w 15" by (simp add: bit_simps)
  next
    assume w: "bit w 15"
    show "drop_bit 15 w = mask 1"
    proof (rule bit_word_eqI)
      fix n assume "n < LENGTH(16)"
      show "bit (drop_bit 15 w) n = bit (mask 1 :: u16) n"
        using w bit_imp_le_length [of w "15 + n"] by (cases n) (auto simp: bit_simps)
    qed
  qed
  then show ?thesis by (simp add: segment_has_implicit_default_def offsets segment_masks)
qed

lemma segment_len_eqI:
  "(\<And>i. i < 13 \<Longrightarrow> bit (segment_word s) i = bit (segment_word t) i) \<Longrightarrow> segment_len s = segment_len t"
  unfolding segment_len_def offsets segment_masks
  by (rule bit_word_eqI) (auto simp: bit_simps)

lemma segment_separator_eqI:
  "bit (segment_word s) 13 = bit (segment_word t) 13 \<Longrightarrow> bit (segment_word s) 14 = bit (segment_word t) 14 \<Longrightarrow>
   segment_separator s = segment_separator t"
proof -
  assume a: "bit (segment_word s) 13 = bit (segment_word t) 13"
    "bit (segment_word s) 14 = bit (segment_word t) 14"
  have "drop_bit 13 (segment_word s) AND mask 2 = drop_bit 13 (segment_word t) AND mask 2"
  proof (rule bit_word_eqI)
    fix n assume "n < LENGTH(16)"
    consider "n = 0" | "n = 1" | "n \<ge> 2" by linarith
    then show "bit (drop_bit 13 (segment_word s) AND mask 2) n = bit (drop_bit 13 (segment_word t) AND mask 2) n"
      using a by cases (auto simp: bit_simps)
  qed
  then show ?thesis by (simp add: segment_separator_def offsets segment_masks)
qed

section \<open>Every field reads back what was stored\<close>

lemma segment_len_new [bits_simps]: "segment_new n = Some s \<Longrightarrow> segment_len s = n"
  by (auto simp: segment_new_def segment_len_def offsets segment_masks not_less split: if_splits)

lemma segment_new_fields [bits_simps]:
  assumes "segment_new n = Some s"
  shows "\<not> segment_has_implicit_default s" and "segment_separator s = None"
proof -
  from assms have n: "n \<le> mask 13" and s: "segment_word s = n"
    by (auto simp: segment_new_def offsets segment_masks not_less split: if_splits)
  have "\<not> bit n i" if "13 \<le> i" for i using bit_le_mask [OF n, of i] that by auto
  then have "\<not> bit n 15" and "drop_bit 13 n = 0"
    by (auto simp: bit_eq_iff [where ?'a = "16 word"] bit_simps)
  then show "\<not> segment_has_implicit_default s" and "segment_separator s = None"
    by (auto simp: bit_implicit s segment_separator_def offsets)
qed

lemma segment_new_None_iff [bits_simps]: "segment_new n = None \<longleftrightarrow> n > 8191"
  by (simp add: segment_new_def segment_layout)

lemma segment_with_component_count_fields [bits_simps]:
  assumes "segment_with_component_count s n = Some t"
  shows "segment_len t = n"
    and "segment_has_implicit_default t = segment_has_implicit_default s"
    and "segment_separator t = segment_separator s"
proof -
  from assms have n: "n \<le> mask 13" and t: "segment_word t = segment_word s AND NOT (mask 13) OR n"
    by (auto simp: segment_with_component_count_def offsets segment_masks not_less Let_def split: if_splits)
  have high: "\<not> bit n i" if "13 \<le> i" for i using bit_le_mask [OF n, of i] that by auto
  have "segment_len t = segment_len (Segment n)"
    by (rule segment_len_eqI) (simp add: t bit_simps)
  also have "segment_len (Segment n) = n"
    using n by (simp add: segment_len_def offsets segment_masks)
  finally show "segment_len t = n" .
  show "segment_has_implicit_default t = segment_has_implicit_default s"
    by (simp add: bit_implicit t bit_simps high)
  show "segment_separator t = segment_separator s"
    by (rule segment_separator_eqI) (simp_all add: t bit_simps high)
qed

lemma segment_with_implicit_default_word:
  "bit (segment_word (segment_with_implicit_default s b)) i =
     (if i = 15 then b else bit (segment_word s) i)"
  using bit_imp_le_length [of "segment_word s" i]
  by (auto simp: segment_with_implicit_default_def offsets segment_masks bit_simps bit_32768)

lemma segment_with_implicit_default_fields [bits_simps]:
  "segment_len (segment_with_implicit_default s b) = segment_len s"
  "segment_has_implicit_default (segment_with_implicit_default s b) = b"
  "segment_separator (segment_with_implicit_default s b) = segment_separator s"
    apply (rule segment_len_eqI, simp add: segment_with_implicit_default_word)
   apply (simp add: bit_implicit segment_with_implicit_default_word)
  apply (rule segment_separator_eqI; simp add: segment_with_implicit_default_word)
  done

lemma segment_without_separator_word:
  "bit (segment_word (segment_without_separator s)) i =
     (bit (segment_word s) i \<and> i \<noteq> 13 \<and> i \<noteq> 14)"
  using bit_imp_le_length [of "segment_word s" i]
  by (auto simp: segment_without_separator_def offsets segment_masks bit_simps)

lemma segment_without_separator_fields [bits_simps]:
  "segment_len (segment_without_separator s) = segment_len s"
  "segment_has_implicit_default (segment_without_separator s) = segment_has_implicit_default s"
  "segment_separator (segment_without_separator s) = None"
    apply (rule segment_len_eqI, simp add: segment_without_separator_word)
   apply (simp add: bit_implicit segment_without_separator_word)
  apply (subst segment_separator_eqI [of _ "Segment 0"])
    apply (simp_all add: segment_without_separator_word segment_separator_def)
  done

lemma segment_with_separator_fields [bits_simps]:
  assumes "segment_with_separator s sep = Some t"
  shows "segment_len t = segment_len s"
    and "segment_has_implicit_default t = segment_has_implicit_default s"
    and "segment_separator t = sep"
proof -
  from assms obtain c where c: "separator_code sep = Some c"
    and t: "segment_word t = segment_word (segment_without_separator s) OR push_bit 13 c"
    by (auto simp: segment_with_separator_def segment_without_separator_def offsets segment_masks Let_def)
  have c_high: "bit c i \<Longrightarrow> i < 2" for i using bit_le_mask [OF separator_code_le [OF c]] by blast
  have bits: "bit (segment_word t) i =
      (if i = 13 \<or> i = 14 then bit c (i - 13) else bit (segment_word s) i)" for i
    using c_high [of "i - 13"] bit_imp_le_length [of "segment_word s" i]
    by (auto simp: t bit_simps segment_without_separator_word)
  show "segment_len t = segment_len s" by (rule segment_len_eqI) (simp add: bits)
  show "segment_has_implicit_default t = segment_has_implicit_default s"
    by (simp add: bit_implicit bits)
  have "drop_bit 13 (segment_word t) AND mask 2 = c"
  proof (rule bit_word_eqI)
    fix n
    show "bit (drop_bit 13 (segment_word t) AND mask 2) n = bit c n"
      using c_high [of n] by (auto simp: bit_simps bits less_Suc_eq numeral_2_eq_2)
  qed
  then show "segment_separator t = sep"
    using separator_code_cases [OF c] by (auto simp: segment_separator_def offsets segment_masks)
qed

lemma segment_with_separator_None_iff [bits_simps]:
  "segment_with_separator s sep = None \<longleftrightarrow> sep \<notin> {None, Some (CHR ''-''), Some (CHR ''_''), Some (CHR ''.'')}"
  by (auto simp: segment_with_separator_def separator_code_def Let_def)

text \<open>Two segments with the same three fields are the same word: the layout uses all 16 bits.\<close>

lemma segment_fields_determine:
  assumes "segment_len s = segment_len t"
    and "segment_has_implicit_default s = segment_has_implicit_default t"
    and "segment_separator s = segment_separator t"
  shows "s = t"
proof -
  have sep: "drop_bit 13 (segment_word s) AND mask 2 = drop_bit 13 (segment_word t) AND mask 2"
  proof -
    have four: "w = 0 \<or> w = 1 \<or> w = 2 \<or> w = 3" if "w \<le> mask 2" for w :: u16
    proof -
      have "unat w < 4" using that by (simp add: word_le_nat_alt mask_eq_exp_minus_1)
      then have "unat w \<in> {0, 1, 2, 3}" by auto
      then show ?thesis by (auto simp: word_unat_eq_iff)
    qed
    have le: "(v :: u16) AND mask 2 \<le> mask 2" for v by (rule word_and_le1)
    show ?thesis
      using assms(3) four [OF le [of "drop_bit 13 (segment_word s)"]]
        four [OF le [of "drop_bit 13 (segment_word t)"]]
      by (auto simp: segment_separator_def offsets segment_masks Let_def)
  qed
  have "bit (segment_word s) i = bit (segment_word t) i" if i16: "i < 16" for i
  proof -
    consider "i < 13" | "i = 13 \<or> i = 14" | "i = 15" using i16 by linarith
    then show ?thesis
    proof cases
      case 1
      have "bit (segment_len s) i = bit (segment_len t) i" using assms(1) by simp
      then show ?thesis using 1 by (simp add: segment_len_def offsets segment_masks bit_simps)
    next
      case 2
      have "bit (drop_bit 13 (segment_word s) AND mask 2) (i - 13) =
          bit (drop_bit 13 (segment_word t) AND mask 2) (i - 13)" using sep by simp
      then show ?thesis using 2 by (auto simp: bit_simps)
    next
      case 3
      then show ?thesis using assms(2) by (simp add: bit_implicit)
    qed
  qed
  then have "segment_word s = segment_word t" by (intro bit_word_eqI) simp
  then show ?thesis by (rule segment.expand)
qed

section \<open>\<open>Flags\<close> fields\<close>

lemma bit_epoch: "flags_has_epoch f \<longleftrightarrow> bit (flags_word f) 0"
proof -
  have "w AND mask 1 = 0 \<longleftrightarrow> \<not> bit w 0" for w :: u8
    by (simp add: take_bit_eq_mask [symmetric] take_bit_eq_0_iff bit_0 mask_eq_exp_minus_1)
      (simp add: and_one_eq even_iff_mod_2_eq_zero)
  then show ?thesis by (simp add: flags_has_epoch_def offsets flags_masks)
qed

lemma local_index_eqI:
  "(\<And>i. 0 < i \<Longrightarrow> i < 8 \<Longrightarrow> bit (flags_word f) i = bit (flags_word g) i) \<Longrightarrow>
   flags_local_segment_index f = flags_local_segment_index g"
  unfolding flags_local_segment_index_def offsets flags_masks
  by (rule bit_word_eqI) (auto simp: bit_simps)

lemma flags_with_has_epoch_fields [bits_simps]:
  "flags_has_epoch (flags_with_has_epoch f b) = b"
  "flags_local_segment_index (flags_with_has_epoch f b) = flags_local_segment_index f"
   apply (simp add: bit_epoch flags_with_has_epoch_def offsets flags_masks bit_simps Let_def)
  apply (rule local_index_eqI)
  apply (simp add: flags_with_has_epoch_def offsets flags_masks bit_simps Let_def)
  done

lemma flags_with_local_segment_index_fields [bits_simps]:
  assumes "flags_with_local_segment_index f n = Some g"
  shows "flags_local_segment_index g = n" and "flags_has_epoch g = flags_has_epoch f"
proof -
  from assms have n: "n \<le> mask 7"
    and g: "flags_word g = flags_word f AND NOT (push_bit 1 (mask 7)) OR push_bit 1 n"
    by (auto simp: flags_with_local_segment_index_def offsets flags_masks not_less split: if_splits)
  have high: "bit n i \<Longrightarrow> i < 7" for i using bit_le_mask [OF n] by blast
  have bits: "bit (flags_word g) i = (if i = 0 then bit (flags_word f) 0 else i < 8 \<and> bit n (i - 1))" for i
    unfolding g bit_or_iff bit_and_iff bit_not_iff bit_push_bit_iff bit_mask_iff
    using high [of "i - 1"] bit_imp_le_length [of "flags_word f" i]
    by (auto simp: possible_bit_def)
  show "flags_local_segment_index g = n"
    unfolding flags_local_segment_index_def offsets flags_masks
    by (rule bit_word_eqI) (use high in \<open>auto simp: bits bit_simps\<close>)
  show "flags_has_epoch g = flags_has_epoch f"
    by (simp add: bit_epoch bits)
qed

lemma flags_with_local_segment_index_None_iff [bits_simps]:
  "flags_with_local_segment_index f n = None \<longleftrightarrow> n > 127"
  by (simp add: flags_with_local_segment_index_def flags_layout)

lemma flags_default_fields [bits_simps]:
  "\<not> flags_has_epoch flags_default" "flags_local_segment_index flags_default = 0"
  by (simp_all add: flags_has_epoch_def flags_local_segment_index_def flags_default_def)

lemma flags_local_segment_index_le: "flags_local_segment_index f \<le> 127"
proof -
  have "flags_local_segment_index f \<le> LOCAL_VERSION_MASK"
    unfolding flags_local_segment_index_def by (rule word_and_le1)
  then show ?thesis by (simp add: flags_layout)
qed

section \<open>Properties\<close>

text \<open>
  The packed segment word: a segment can be built exactly for up to 8191 components and the
  separators \<open>-\<close>, \<open>_\<close>, \<open>.\<close> or none; every setter stores its own field and
  leaves the other two, and the three fields determine the word.
\<close>

theorem segment_word_fields:
  "(segment_new n = None \<longleftrightarrow> n > 8191)
   \<and> (\<forall>s. segment_new n = Some s \<longrightarrow> segment_len s = n \<and> \<not> segment_has_implicit_default s \<and> segment_separator s = None)
   \<and> (\<forall>s t. segment_with_separator s sep = Some t \<longrightarrow> segment_separator t = sep \<and> segment_len t = segment_len s
        \<and> segment_has_implicit_default t = segment_has_implicit_default s)
   \<and> (\<forall>s b. segment_has_implicit_default (segment_with_implicit_default s b) = b
        \<and> segment_len (segment_with_implicit_default s b) = segment_len s
        \<and> segment_separator (segment_with_implicit_default s b) = segment_separator s)
   \<and> (\<forall>s t. segment_len s = segment_len t \<and> segment_has_implicit_default s = segment_has_implicit_default t
        \<and> segment_separator s = segment_separator t \<longrightarrow> s = t)"
  using segment_new_None_iff [of n] segment_len_new [of n] segment_new_fields [of n]
    segment_with_separator_fields [of _ sep] segment_with_implicit_default_fields segment_fields_determine
  by blast

theorem segment_word_fields_witness:
  "\<exists>s t. segment_new 3 = Some s \<and> segment_with_separator s (Some (CHR ''.'')) = Some t
     \<and> segment_len t = 3 \<and> segment_separator t = Some (CHR ''.'')"
proof -
  obtain s where s: "segment_new 3 = Some s" using segment_new_None_iff [of 3] by auto
  moreover obtain t where t: "segment_with_separator s (Some (CHR ''.'')) = Some t"
    using segment_with_separator_None_iff [of s "Some (CHR ''.'')"] by auto
  ultimately show ?thesis using segment_word_fields [of 3 "Some (CHR ''.'')"] by metis
qed

text \<open>
  The packed flags: the index of the local part can be stored exactly up to 127, and each setter
  stores its field and keeps the other.
\<close>

theorem flags_word_fields:
  "(flags_with_local_segment_index f i = None \<longleftrightarrow> i > 127)
   \<and> (\<forall>g. flags_with_local_segment_index f i = Some g \<longrightarrow>
        flags_local_segment_index g = i \<and> flags_has_epoch g = flags_has_epoch f)
   \<and> flags_has_epoch (flags_with_has_epoch f b) = b
   \<and> flags_local_segment_index (flags_with_has_epoch f b) = flags_local_segment_index f"
  using flags_with_local_segment_index_None_iff [of f i] flags_with_local_segment_index_fields [of f i]
    flags_with_has_epoch_fields [of f b] by blast

theorem flags_word_fields_witness:
  "\<exists>g. flags_with_local_segment_index (flags_with_has_epoch flags_default True) 5 = Some g
     \<and> flags_local_segment_index g = 5 \<and> flags_has_epoch g"
proof -
  let ?f = "flags_with_has_epoch flags_default True"
  have "flags_with_local_segment_index ?f 5 \<noteq> None" by code_simp
  then obtain g where g: "flags_with_local_segment_index ?f 5 = Some g" by auto
  then show ?thesis
    using flags_word_fields [of ?f 5] flags_word_fields [of flags_default 0 True] by blast
qed

end
