(* ===== verification/Version_Model.thy ===== *)
theory Version_Model
  imports Version_Bits
begin

text \<open>
  The parsed conda version of \<open>rattler_conda_version/src/version/mod.rs\<close>: components,
  segments and flags as the source stores them, the accessors and segment iterators, equality,
  ordering, the stream of items fed to a hasher, prefix matching, and the printed form. Out-of-range
  slices of the stored vectors panic in the source; \<open>version_ok\<close> is the representation
  invariant that rules them out, and every operation of the development is shown to keep it.
\<close>

section \<open>Data\<close>

datatype component =
    Numeral u64
  | Post
  | Dev
  | Iden string
  | UnderscoreOrDash (is_dash: bool)

record version =
  v_components :: "component list"
  v_segments :: "segment list"
  v_flags :: flags

record segment_iter =
  si_segment :: segment
  si_offset :: nat
  si_version :: version

section \<open>Components\<close>

definition default_component :: component where
  "default_component = Numeral 0"

fun as_number :: "component \<Rightarrow> u64 option" where
  "as_number (Numeral value) = Some value"
| "as_number _ = None"

fun as_iden :: "component \<Rightarrow> string option" where
  "as_iden (Iden value) = Some value"
| "as_iden _ = None"

definition component_is_post :: "component \<Rightarrow> bool" where
  "component_is_post c \<longleftrightarrow> c = Post"

definition component_is_dev :: "component \<Rightarrow> bool" where
  "component_is_dev c \<longleftrightarrow> c = Dev"

definition is_numeric :: "component \<Rightarrow> bool" where
  "is_numeric c \<longleftrightarrow> (case c of Numeral _ \<Rightarrow> True | _ \<Rightarrow> False)"

definition component_is_zero :: "component \<Rightarrow> bool" where
  "component_is_zero c \<longleftrightarrow> c = Numeral 0"

text \<open>\<open>Ord for Component\<close>, arm by arm in the order of the source.\<close>

fun component_cmp :: "component \<Rightarrow> component \<Rightarrow> ordering" where
  "component_cmp (Numeral _) (Iden _) = Ord_Greater"
| "component_cmp (Numeral _) (UnderscoreOrDash _) = Ord_Greater"
| "component_cmp (Iden _) (Numeral _) = Ord_Less"
| "component_cmp (UnderscoreOrDash _) (Numeral _) = Ord_Less"
| "component_cmp (Numeral a) (Numeral b) = cmp_of a b"
| "component_cmp (Iden a) (Iden b) = cmp_of a b"
| "component_cmp Post Post = Ord_Equal"
| "component_cmp Dev Dev = Ord_Equal"
| "component_cmp (UnderscoreOrDash _) (UnderscoreOrDash _) = Ord_Equal"
| "component_cmp (UnderscoreOrDash _) (Iden _) = Ord_Less"
| "component_cmp (Iden _) (UnderscoreOrDash _) = Ord_Greater"
| "component_cmp Post _ = Ord_Greater"
| "component_cmp _ Post = Ord_Less"
| "component_cmp Dev _ = Ord_Less"
| "component_cmp _ Dev = Ord_Greater"

fun component_display :: "component \<Rightarrow> string" where
  "component_display (Numeral n) = show_nat (unat n)"
| "component_display (Iden s) = s"
| "component_display Post = ''post''"
| "component_display Dev = ''dev''"
| "component_display (UnderscoreOrDash True) = ''-''"
| "component_display (UnderscoreOrDash False) = ''_''"

section \<open>Segment views\<close>

definition si_has_implicit_default :: "segment_iter \<Rightarrow> bool" where
  "si_has_implicit_default si = segment_has_implicit_default (si_segment si)"

definition si_separator :: "segment_iter \<Rightarrow> char option" where
  "si_separator si = segment_separator (si_segment si)"

definition component_count :: "segment_iter \<Rightarrow> nat" where
  "component_count si = unat (segment_len (si_segment si))"

definition raw_components :: "segment_iter \<Rightarrow> bool \<times> component list" where
  "raw_components si =
     (segment_has_implicit_default (si_segment si),
      slice (v_components (si_version si)) (si_offset si) (unat (segment_len (si_segment si))))"

definition si_components :: "segment_iter \<Rightarrow> component list" where
  "si_components si =
     (let segment_components = slice (v_components (si_version si)) (si_offset si)
            (unat (segment_len (si_segment si)));
          implicit_default_component =
            (if segment_has_implicit_default (si_segment si) then [Numeral 0] else [])
      in implicit_default_component @ segment_components)"

definition si_is_zero :: "segment_iter \<Rightarrow> bool" where
  "si_is_zero si = list_all component_is_zero (si_components si)"

text \<open>The \<open>map\<close> closure of \<open>segments()\<close>, with its captured running index.\<close>

fun segment_iters :: "version \<Rightarrow> nat \<Rightarrow> segment list \<Rightarrow> segment_iter list" where
  "segment_iters v idx [] = []"
| "segment_iters v idx (s # ss) =
     \<lparr>si_segment = s, si_offset = idx, si_version = v\<rparr>
     # segment_iters v (idx + unat (segment_len s)) ss"

section \<open>Accessors of a version\<close>

definition version_major :: "u64 \<Rightarrow> version rust" where
  "version_major major = rust_bind (expect (segment_new 1)) (\<lambda>segment.
     Done \<lparr>v_components = [Numeral major], v_segments = [segment], v_flags = Flags 0\<rparr>)"

definition has_epoch :: "version \<Rightarrow> bool" where
  "has_epoch v = flags_has_epoch (v_flags v)"

definition has_local :: "version \<Rightarrow> bool" where
  "has_local v \<longleftrightarrow> flags_local_segment_index (v_flags v) > 0"

definition local_segment_index :: "version \<Rightarrow> nat option" where
  "local_segment_index v =
     (let index = flags_local_segment_index (v_flags v)
      in if index > 0 then Some (unat index) else None)"

text \<open>The \<open>expect\<close> on a non-numeric first component is excluded by \<open>version_ok\<close>.\<close>

definition epoch_opt :: "version \<Rightarrow> u64 option" where
  "epoch_opt v = (if has_epoch v then as_number (nth_default Post (v_components v) 0) else None)"

definition epoch :: "version \<Rightarrow> u64" where
  "epoch v = (case epoch_opt v of Some e \<Rightarrow> e | None \<Rightarrow> 0)"

definition release_segments :: "version \<Rightarrow> segment_iter list" where
  "release_segments v =
     (let idx = of_bool (has_epoch v);
          version_segments = (case local_segment_index v of
            Some local_index \<Rightarrow> take local_index (v_segments v)
          | None \<Rightarrow> v_segments v)
      in segment_iters v idx version_segments)"

definition local_segments :: "version \<Rightarrow> segment_iter list" where
  "local_segments v = (case local_segment_index v of
     Some start \<Rightarrow>
       (let idx = of_bool (has_epoch v)
              + sum_list (map (\<lambda>segment. unat (segment_len segment)) (take start (v_segments v)))
        in segment_iters v idx (drop start (v_segments v)))
   | None \<Rightarrow> [])"

definition segment_count :: "version \<Rightarrow> nat" where
  "segment_count v = (case local_segment_index v of
     Some local_index \<Rightarrow> local_index
   | None \<Rightarrow> length (v_segments v))"

definition as_major_minor :: "version \<Rightarrow> (u64 \<times> u64) option" where
  "as_major_minor v = (case release_segments v of
     major_segment # minor_segment # _ \<Rightarrow>
       (if component_count major_segment = 1 \<and> component_count minor_segment = 1
        then (case (si_components major_segment, si_components minor_segment) of
                (c # _, d # _) \<Rightarrow> (case (as_number c, as_number d) of
                   (Some major, Some minor) \<Rightarrow> Some (major, minor)
                 | _ \<Rightarrow> None)
              | _ \<Rightarrow> None)
        else None)
   | _ \<Rightarrow> None)"

definition is_dev :: "version \<Rightarrow> bool" where
  "is_dev v = list_ex component_is_dev (concat (map si_components (release_segments v)))"

definition is_post :: "version \<Rightarrow> bool" where
  "is_post v = list_ex component_is_post (concat (map si_components (release_segments v)))"

section \<open>Comparison\<close>

definition component_at :: "bool \<Rightarrow> component list \<Rightarrow> nat \<Rightarrow> component" where
  "component_at has_implicit components index =
     (case (has_implicit, index) of
        (True, 0) \<Rightarrow> default_component
      | (True, Suc i) \<Rightarrow> nth_default default_component components i
      | (False, i) \<Rightarrow> nth_default default_component components i)"

definition opt_raw_components :: "segment_iter option \<Rightarrow> bool \<times> component list" where
  "opt_raw_components si = (case si of None \<Rightarrow> (False, []) | Some s \<Rightarrow> raw_components s)"

text \<open>
  The two nested loops of \<open>compare_segments\<close>; each returns at the first result that is not
  \<open>Equal\<close>.
\<close>

definition compare_segment_pair :: "segment_iter option \<times> segment_iter option \<Rightarrow> ordering" where
  "compare_segment_pair p =
     (let (a_implicit, a_components) = opt_raw_components (fst p);
          (b_implicit, b_components) = opt_raw_components (snd p);
          a_len = length a_components + of_bool a_implicit;
          b_len = length b_components + of_bool b_implicit
      in first_non_equal (map (\<lambda>index.
           component_cmp (component_at a_implicit a_components index)
             (component_at b_implicit b_components index)) [0..<max a_len b_len]))"

definition compare_segments :: "segment_iter list \<Rightarrow> segment_iter list \<Rightarrow> ordering" where
  "compare_segments a b =
     first_non_equal (map (\<lambda>segments. compare_segment_pair (both_options segments)) (zip_longest a b))"

definition segment_pair_equal :: "segment_iter option \<times> segment_iter option \<Rightarrow> bool" where
  "segment_pair_equal p =
     (let (a_implicit, a_components) = opt_raw_components (fst p);
          (b_implicit, b_components) = opt_raw_components (snd p);
          a_len = length a_components + of_bool a_implicit;
          b_len = length b_components + of_bool b_implicit
      in list_all (\<lambda>index. component_at a_implicit a_components index
             = component_at b_implicit b_components index) [0..<max a_len b_len])"

definition segments_equal :: "segment_iter list \<Rightarrow> segment_iter list \<Rightarrow> bool" where
  "segments_equal a b = list_all (\<lambda>segments. segment_pair_equal (both_options segments)) (zip_longest a b)"

definition version_eq :: "version \<Rightarrow> version \<Rightarrow> bool" where
  "version_eq v w \<longleftrightarrow> epoch v = epoch w
     \<and> segments_equal (release_segments v) (release_segments w)
     \<and> segments_equal (local_segments v) (local_segments w)"

definition version_cmp :: "version \<Rightarrow> version \<Rightarrow> ordering" where
  "version_cmp v w =
     then_with (cmp_of (epoch v) (epoch w))
       (then_with (compare_segments (release_segments v) (release_segments w))
         (compare_segments (local_segments v) (local_segments w)))"

section \<open>Hashing\<close>

text \<open>What a hasher receives, in order: the epoch and the components of both parts.\<close>

datatype hash_item = Hash_Epoch u64 | Hash_Component component

fun hash_segments :: "nat \<Rightarrow> segment_iter list \<Rightarrow> hash_item list" where
  "hash_segments pending [] = []"
| "hash_segments pending (s # ss) =
     (let components = dropWhile (\<lambda>c. c = default_component) (rev (si_components s))
      in if components = [] then hash_segments (pending + 1) ss
         else replicate pending (Hash_Component default_component) @ map Hash_Component components
              @ hash_segments 0 ss)"

definition version_hash :: "version \<Rightarrow> hash_item list" where
  "version_hash v = Hash_Epoch (epoch v) # hash_segments 0 (release_segments v)
     @ hash_segments 0 (local_segments v)"

section \<open>Prefix matching\<close>

text \<open>The inner loop of \<open>segments_starts_with\<close>: \<open>None\<close> is \<open>return false\<close>,
  \<open>Some b\<close> ends the loop with \<open>had_extra_left = b\<close>.\<close>

fun starts_with_components :: "(component, component) either_or_both list \<Rightarrow> bool option" where
  "starts_with_components [] = Some False"
| "starts_with_components (Both a b # rest) = (if a \<noteq> b then None else starts_with_components rest)"
| "starts_with_components (OnlyLeft _ # rest) = Some True"
| "starts_with_components (OnlyRight component # rest) =
     (if component_is_zero component then starts_with_components rest else None)"

fun starts_with_loop :: "bool \<Rightarrow> (segment_iter, segment_iter) either_or_both list \<Rightarrow> bool" where
  "starts_with_loop had_extra_left [] = True"
| "starts_with_loop had_extra_left (Both left right # rest) =
     (if had_extra_left then False
      else (case starts_with_components (zip_longest (si_components left) (si_components right)) of
              None \<Rightarrow> False
            | Some had_extra \<Rightarrow> starts_with_loop had_extra rest))"
| "starts_with_loop had_extra_left (OnlyLeft _ # rest) = True"
| "starts_with_loop had_extra_left (OnlyRight segment # rest) =
     (if si_is_zero segment then starts_with_loop had_extra_left rest else False)"

definition segments_starts_with :: "segment_iter list \<Rightarrow> segment_iter list \<Rightarrow> bool" where
  "segments_starts_with a b = starts_with_loop False (zip_longest a b)"

definition starts_with :: "version \<Rightarrow> version \<Rightarrow> bool" where
  "starts_with v other \<longleftrightarrow> epoch v = epoch other
     \<and> segments_starts_with (release_segments v) (release_segments other)
     \<and> segments_starts_with (local_segments v) (local_segments other)"

definition compatible_with :: "version \<Rightarrow> version \<Rightarrow> bool" where
  "compatible_with v other \<longleftrightarrow> version_cmp v other \<noteq> Ord_Less
     \<and> epoch v = epoch other
     \<and> segments_starts_with (release_segments v) (rev (drop 1 (rev (release_segments other))))
     \<and> segments_starts_with (local_segments v) (local_segments other)"

section \<open>Printing\<close>

definition segment_display :: "segment_iter \<Rightarrow> string" where
  "segment_display segment =
     (case si_separator segment of Some separator \<Rightarrow> [separator] | None \<Rightarrow> [])
     @ (let components = (if si_has_implicit_default segment then drop 1 (si_components segment)
                          else si_components segment)
        in concat (map component_display components))"

definition segment_formatter :: "u64 option \<Rightarrow> segment_iter list \<Rightarrow> string" where
  "segment_formatter ep iter =
     (case ep of Some e \<Rightarrow> show_nat (unat e) @ ''!'' | None \<Rightarrow> '''')
     @ concat (map segment_display iter)"

definition version_display :: "version \<Rightarrow> string" where
  "version_display v = segment_formatter (epoch_opt v) (release_segments v)
     @ (if has_local v then ''+'' @ segment_formatter None (local_segments v) else '''')"

section \<open>\<open>StrictVersion\<close> and \<open>VersionWithSource\<close>\<close>

datatype strict_version = StrictVersion (strict_inner: version)

definition strict_version_eq :: "strict_version \<Rightarrow> strict_version \<Rightarrow> bool" where
  "strict_version_eq v w \<longleftrightarrow>
     length (v_components (strict_inner v)) = length (v_components (strict_inner w))
     \<and> version_eq (strict_inner v) (strict_inner w)"

definition strict_version_cmp :: "strict_version \<Rightarrow> strict_version \<Rightarrow> ordering" where
  "strict_version_cmp v w = then_with (version_cmp (strict_inner v) (strict_inner w))
     (cmp_of (length (v_components (strict_inner v))) (length (v_components (strict_inner w))))"

definition strict_hash_segments :: "segment_iter list \<Rightarrow> hash_item list" where
  "strict_hash_segments segments = concat (map (\<lambda>s. map Hash_Component (rev (si_components s))) segments)"

definition strict_version_hash :: "strict_version \<Rightarrow> hash_item list" where
  "strict_version_hash v = Hash_Epoch (epoch (strict_inner v))
     # strict_hash_segments (release_segments (strict_inner v))
     @ strict_hash_segments (local_segments (strict_inner v))"

record version_with_source =
  vws_version :: version
  vws_source :: "string option"

definition vws_as_str :: "version_with_source \<Rightarrow> string" where
  "vws_as_str v = (case vws_source v of Some source \<Rightarrow> source | None \<Rightarrow> version_display (vws_version v))"

definition vws_eq :: "version_with_source \<Rightarrow> version_with_source \<Rightarrow> bool" where
  "vws_eq v w \<longleftrightarrow> version_eq (vws_version v) (vws_version w) \<and> vws_as_str v = vws_as_str w"

definition vws_cmp :: "version_with_source \<Rightarrow> version_with_source \<Rightarrow> ordering" where
  "vws_cmp v w = then_with (version_cmp (vws_version v) (vws_version w))
     (cmp_of (vws_as_str v) (vws_as_str w))"

text \<open>\<open>Option<Box<str>>::hash\<close> feeds the discriminant and the text, that is the option itself.\<close>

definition vws_hash :: "version_with_source \<Rightarrow> hash_item list \<times> string option" where
  "vws_hash v = (version_hash (vws_version v), vws_source v)"

section \<open>Representation invariant\<close>

definition total_len :: "segment list \<Rightarrow> nat" where
  "total_len ss = sum_list (map (\<lambda>s. unat (segment_len s)) ss)"

definition version_ok :: "version \<Rightarrow> bool" where
  "version_ok v \<longleftrightarrow>
     v_segments v \<noteq> []
     \<and> (has_epoch v \<longrightarrow> (case v_components v of c # _ \<Rightarrow> is_numeric c | [] \<Rightarrow> False))
     \<and> of_bool (has_epoch v) + total_len (v_segments v) = length (v_components v)
     \<and> unat (flags_local_segment_index (v_flags v)) < length (v_segments v)"

end
