(* ===== verification/Build_Spec.thy ===== *)
theory Build_Spec
  imports Rattler_Prelude
begin

text \<open>
  Build number constraints (\<open>rattler_conda_types/src/build_spec\<close>): evaluation, printing and
  parsing. The two scanners the parser takes from \<open>nom\<close>, \<open>take_while1\<close> and
  \<open>digit1\<close>, are parameters; \<open>takes_while1\<close> and \<open>takes_digits\<close> state what
  their documentation says.
\<close>

section \<open>Operators and constraints\<close>

datatype ord_operator = Gt | Ge | Lt | Le | Eq | Ne

record build_number_spec =
  bns_op :: ord_operator
  bns_rhs :: u64

fun ord_operator_display :: "ord_operator \<Rightarrow> string" where
  "ord_operator_display Gt = ''>''"
| "ord_operator_display Ge = ''>=''"
| "ord_operator_display Lt = ''<''"
| "ord_operator_display Le = ''<=''"
| "ord_operator_display Eq = ''==''"
| "ord_operator_display Ne = ''!=''"

definition build_number_spec_display :: "build_number_spec \<Rightarrow> string" where
  "build_number_spec_display s = ord_operator_display (bns_op s) @ show_nat (unat (bns_rhs s))"

definition build_number_spec_matches :: "build_number_spec \<Rightarrow> u64 \<Rightarrow> bool" where
  "build_number_spec_matches s build_num = (case bns_op s of
     Gt \<Rightarrow> build_num > bns_rhs s
   | Ge \<Rightarrow> build_num \<ge> bns_rhs s
   | Lt \<Rightarrow> build_num < bns_rhs s
   | Le \<Rightarrow> build_num \<le> bns_rhs s
   | Eq \<Rightarrow> build_num = bns_rhs s
   | Ne \<Rightarrow> build_num \<noteq> bns_rhs s)"

section \<open>Parsing\<close>

datatype parse_ord_operator_error = InvalidOperator string | ExpectedOperator | Op_ExpectedEof

datatype parse_build_number_spec_error =
    InvalidBuildNumber
  | Spec_InvalidOperator parse_ord_operator_error
  | Spec_ExpectedEof

text \<open>\<open>nom::Err\<close>: a recoverable error and a failure.\<close>

datatype 'e nom_err = Nom_Error 'e | Nom_Failure 'e

type_synonym scanner = "string \<Rightarrow> (string \<times> string) option"

definition operator_char :: "char \<Rightarrow> bool" where
  "operator_char c \<longleftrightarrow> c \<in> set ''=!<>''"

definition ord_operator_parser ::
  "((char \<Rightarrow> bool) \<Rightarrow> scanner) \<Rightarrow> string \<Rightarrow> parse_ord_operator_error nom_err + (string \<times> ord_operator)" where
  "ord_operator_parser take_while1 input = (case take_while1 operator_char input of
     None \<Rightarrow> Inl (Nom_Error ExpectedOperator)
   | Some (rest, operator_str) \<Rightarrow>
       (if operator_str = ''=='' then Inr (rest, Eq)
        else if operator_str = ''!='' then Inr (rest, Ne)
        else if operator_str = ''<='' then Inr (rest, Le)
        else if operator_str = ''>='' then Inr (rest, Ge)
        else if operator_str = ''<'' then Inr (rest, Lt)
        else if operator_str = ''>'' then Inr (rest, Gt)
        else Inl (Nom_Failure (InvalidOperator operator_str))))"

text \<open>\<open>str::parse::<u64>\<close> on decimal digits: an error when the value does not fit.\<close>

definition parse_u64 :: "string \<Rightarrow> u64 option" where
  "parse_u64 digits = (if digits_value digits < 2 ^ 64 then Some (of_nat (digits_value digits)) else None)"

definition build_number_spec_parser ::
  "((char \<Rightarrow> bool) \<Rightarrow> scanner) \<Rightarrow> scanner \<Rightarrow> string
     \<Rightarrow> (parse_build_number_spec_error nom_err + (string \<times> build_number_spec)) rust" where
  "build_number_spec_parser take_while1 digits1 input =
     (case (case ord_operator_parser take_while1 input of
              Inl (Nom_Failure (InvalidOperator op)) \<Rightarrow> Done (Inl (InvalidOperator op))
            | Inl (Nom_Error (InvalidOperator op)) \<Rightarrow> Done (Inl (InvalidOperator op))
            | Inl (Nom_Error _) \<Rightarrow> Done (Inr (input, None))
            | Inr (rest, op) \<Rightarrow> Done (Inr (rest, Some op))
            | _ \<Rightarrow> Panic) of
        Panic \<Rightarrow> Panic
      | Done (Inl e) \<Rightarrow> Done (Inl (Nom_Failure (Spec_InvalidOperator e)))
      | Done (Inr (input, op)) \<Rightarrow>
          (case digits1 input of
             None \<Rightarrow> Done (Inl (Nom_Error InvalidBuildNumber))
           | Some (rest, digits) \<Rightarrow>
               rust_bind (expect (parse_u64 digits)) (\<lambda>build_num.
                 Done (Inr (rest, \<lparr>bns_op = (case op of Some op \<Rightarrow> op | None \<Rightarrow> Eq), bns_rhs = build_num\<rparr>)))))"

definition build_number_spec_from_str ::
  "((char \<Rightarrow> bool) \<Rightarrow> scanner) \<Rightarrow> scanner \<Rightarrow> string
     \<Rightarrow> (parse_build_number_spec_error + build_number_spec) rust" where
  "build_number_spec_from_str take_while1 digits1 s =
     rust_bind (build_number_spec_parser take_while1 digits1 s) (\<lambda>r. Done (case r of
       Inl (Nom_Error e) \<Rightarrow> Inl e
     | Inl (Nom_Failure e) \<Rightarrow> Inl e
     | Inr (rest, spec) \<Rightarrow> (if rest = [] then Inr spec else Inl Spec_ExpectedEof)))"

text \<open>The documented behaviour of the two scanners: the longest non-empty prefix of matching characters.\<close>

definition takes_while1 :: "((char \<Rightarrow> bool) \<Rightarrow> scanner) \<Rightarrow> bool" where
  "takes_while1 tw \<longleftrightarrow> (\<forall>p s. tw p s =
     (if takeWhile p s = [] then None else Some (dropWhile p s, takeWhile p s)))"

definition takes_digits :: "scanner \<Rightarrow> bool" where
  "takes_digits d \<longleftrightarrow> (\<forall>s. d s = (if takeWhile is_ascii_digit s = [] then None
     else Some (dropWhile is_ascii_digit s, takeWhile is_ascii_digit s)))"

definition scan_while1 :: "(char \<Rightarrow> bool) \<Rightarrow> scanner" where
  "scan_while1 p s = (if takeWhile p s = [] then None else Some (dropWhile p s, takeWhile p s))"

lemma scan_while1_takes: "takes_while1 scan_while1" "takes_digits (scan_while1 is_ascii_digit)"
  by (simp_all add: takes_while1_def takes_digits_def scan_while1_def)

section \<open>Lemmas\<close>

lemma digit_not_operator: "is_ascii_digit c \<Longrightarrow> \<not> operator_char c"
  by (auto simp: is_ascii_digit_def operator_char_def)

lemma show_nat_scan:
  "takeWhile is_ascii_digit (show_nat n) = show_nat n" "dropWhile is_ascii_digit (show_nat n) = []"
  "takeWhile operator_char (show_nat n) = []"
  using show_nat_digits [of n] show_nat_nonempty [of n]
  by (auto simp: takeWhile_eq_all_conv dropWhile_eq_Nil_conv takeWhile_eq_Nil_iff digit_not_operator
      list.set_sel(1))

lemma dropWhile_operator_show_nat: "dropWhile operator_char (show_nat n) = show_nat n"
  using show_nat_scan(3) [of n] by (cases "show_nat n") (auto split: if_splits)

lemma operator_display_chars: "\<forall>c \<in> set (ord_operator_display op). operator_char c"
  by (cases op) (auto simp: operator_char_def)

lemma takeWhile_display:
  "takeWhile operator_char (ord_operator_display op @ show_nat n) = ord_operator_display op"
  "dropWhile operator_char (ord_operator_display op @ show_nat n) = show_nat n"
  using operator_display_chars [of op] show_nat_scan(3) [of n] dropWhile_operator_show_nat [of n]
  by (simp_all add: takeWhile_append2 dropWhile_append2)

lemma ord_operator_parser_display:
  assumes "takes_while1 tw"
  shows "ord_operator_parser tw (ord_operator_display op @ show_nat n) = Inr (show_nat n, op)"
  using assms takeWhile_display [of op n]
  by (cases op) (simp_all add: ord_operator_parser_def takes_while1_def)

lemma parse_u64_show_nat: "parse_u64 (show_nat (unat n)) = Some n"
  using unsigned_less [of n, where ?'a = nat] by (simp add: parse_u64_def digits_value_show_nat)

lemma build_number_spec_round_trip_aux:
  assumes tw: "takes_while1 tw" and d: "takes_digits d"
  shows "build_number_spec_from_str tw d (build_number_spec_display s) = Done (Inr s)"
  using d
  by (simp add: build_number_spec_from_str_def build_number_spec_parser_def build_number_spec_display_def
      ord_operator_parser_display [OF tw] takes_digits_def show_nat_scan parse_u64_show_nat)

text \<open>A number without an operator is an equality.\<close>

lemma build_number_spec_plain_aux:
  assumes tw: "takes_while1 tw" and d: "takes_digits d"
  shows "build_number_spec_from_str tw d (show_nat (unat n)) = Done (Inr \<lparr>bns_op = Eq, bns_rhs = n\<rparr>)"
  using d tw
  by (simp add: build_number_spec_from_str_def build_number_spec_parser_def ord_operator_parser_def
      takes_while1_def takes_digits_def show_nat_scan parse_u64_show_nat)

text \<open>A number that does not fit 64 bits reaches the \<open>expect\<close> of the parser.\<close>

lemma build_number_spec_overflow_aux:
  assumes tw: "takes_while1 tw" and d: "takes_digits d" and "2 ^ 64 \<le> n"
  shows "build_number_spec_from_str tw d (ord_operator_display op @ show_nat n) = Panic"
  using assms
  by (simp add: build_number_spec_from_str_def build_number_spec_parser_def ord_operator_parser_display [OF tw]
      takes_digits_def show_nat_scan parse_u64_def digits_value_show_nat)

lemma build_number_spec_plain_overflow_aux:
  assumes tw: "takes_while1 tw" and d: "takes_digits d" and "2 ^ 64 \<le> n"
  shows "build_number_spec_from_str tw d (show_nat n) = Panic"
  using assms
  by (simp add: build_number_spec_from_str_def build_number_spec_parser_def ord_operator_parser_def
      takes_while1_def takes_digits_def show_nat_scan parse_u64_def digits_value_show_nat)

section \<open>Properties\<close>

text \<open>
  C15. With the documented behaviour of the two scanners, a printed build number constraint parses back to itself,
  and a number without an operator parses to an equality. A number of \<open>2 ^ 64\<close> or more, which does not
  fit in 64 bits, makes the parser panic instead of returning an error, with any operator in front of it and without
  one.
\<close>

theorem build_number_spec_round_trip:
  assumes "takes_while1 tw" "takes_digits d"
  shows "build_number_spec_from_str tw d (build_number_spec_display s) = Done (Inr s)
    \<and> build_number_spec_from_str tw d (show_nat (unat n)) = Done (Inr \<lparr>bns_op = Eq, bns_rhs = n\<rparr>)
    \<and> (2 ^ 64 \<le> m \<longrightarrow> build_number_spec_from_str tw d (ord_operator_display op @ show_nat m) = Panic
         \<and> build_number_spec_from_str tw d (show_nat m) = Panic)"
  using build_number_spec_round_trip_aux [OF assms] build_number_spec_plain_aux [OF assms]
    build_number_spec_overflow_aux [OF assms] build_number_spec_plain_overflow_aux [OF assms] by blast

theorem build_number_spec_round_trip_witness:
  "build_number_spec_from_str scan_while1 (scan_while1 is_ascii_digit)
     (build_number_spec_display \<lparr>bns_op = Ge, bns_rhs = 3\<rparr>) = Done (Inr \<lparr>bns_op = Ge, bns_rhs = 3\<rparr>)
   \<and> build_number_spec_from_str scan_while1 (scan_while1 is_ascii_digit) (show_nat 18446744073709551616) = Panic"
  using build_number_spec_round_trip [OF scan_while1_takes, of "\<lparr>bns_op = Ge, bns_rhs = 3\<rparr>" 0 18446744073709551616 Ge] by simp

end
