(* ===== verification/Package_Name.thy ===== *)
theory Package_Name
  imports Rattler_Prelude
begin

text \<open>
  Package names (\<open>rattler_conda_types/src/package_name.rs\<close>): the source text with its lazily
  stored lowercase form, validation, extraction of the name from a match spec by a byte scan, and the
  two newtypes for the source and the normalized form. Strings are byte strings, as the source scans
  bytes.
\<close>

section \<open>Bytes\<close>

definition is_ascii_uppercase :: "char \<Rightarrow> bool" where
  "is_ascii_uppercase c \<longleftrightarrow> 65 \<le> (of_char c :: nat) \<and> (of_char c :: nat) \<le> 90"

definition is_ascii_lowercase :: "char \<Rightarrow> bool" where
  "is_ascii_lowercase c \<longleftrightarrow> 97 \<le> (of_char c :: nat) \<and> (of_char c :: nat) \<le> 122"

definition is_ascii_alphabetic :: "char \<Rightarrow> bool" where
  "is_ascii_alphabetic c \<longleftrightarrow> is_ascii_lowercase c \<or> is_ascii_uppercase c"

definition is_ascii_whitespace :: "char \<Rightarrow> bool" where
  "is_ascii_whitespace c \<longleftrightarrow> (of_char c :: nat) \<in> {9, 10, 12, 13, 32}"

definition ascii_lower :: "char \<Rightarrow> char" where
  "ascii_lower c = (if is_ascii_uppercase c then char_of ((of_char c :: nat) + 32) else c)"

definition to_ascii_lowercase :: "string \<Rightarrow> string" where
  "to_ascii_lowercase s = map ascii_lower s"

definition eq_ignore_ascii_case :: "string \<Rightarrow> string \<Rightarrow> bool" where
  "eq_ignore_ascii_case a b \<longleftrightarrow> to_ascii_lowercase a = to_ascii_lowercase b"

section \<open>\<open>PackageName\<close>\<close>

record package_name =
  pn_normalized :: "string option"
  pn_source :: string

datatype invalid_package_name_error = InvalidCharacters string

definition new_unchecked :: "string \<Rightarrow> package_name" where
  "new_unchecked normalized = \<lparr>pn_normalized = None, pn_source = normalized\<rparr>"

definition as_source :: "package_name \<Rightarrow> string" where
  "as_source n = pn_source n"

definition as_normalized :: "package_name \<Rightarrow> string" where
  "as_normalized n = (case pn_normalized n of Some s \<Rightarrow> s | None \<Rightarrow> pn_source n)"

definition is_matchspec_delimiter :: "char \<Rightarrow> bool" where
  "is_matchspec_delimiter b \<longleftrightarrow> is_ascii_whitespace b \<or> b \<in> set ''><=!~;[''"

text \<open>The loop of \<open>scan_matchspec_name\<close>: the index it stops at and the flag it has collected.\<close>

fun scan_bytes :: "nat \<Rightarrow> bool \<Rightarrow> string \<Rightarrow> nat \<times> bool" where
  "scan_bytes i has_upper [] = (i, has_upper)"
| "scan_bytes i has_upper (b # bs) =
     (if is_matchspec_delimiter b then (i, has_upper)
      else scan_bytes (i + 1) (has_upper \<or> is_ascii_uppercase b) bs)"

definition scan_matchspec_name :: "string \<Rightarrow> string \<times> bool" where
  "scan_matchspec_name spec = (let (stop, has_upper) = scan_bytes 0 False spec in (take stop spec, has_upper))"

definition name_from_matchspec_str :: "string \<Rightarrow> string" where
  "name_from_matchspec_str spec = fst (scan_matchspec_name spec)"

definition from_matchspec_str_unchecked :: "string \<Rightarrow> package_name" where
  "from_matchspec_str_unchecked spec =
     (let (name, has_upper) = scan_matchspec_name spec
      in \<lparr>pn_normalized = (if has_upper then Some (to_ascii_lowercase name) else None), pn_source = name\<rparr>)"

definition normalized_name_from_matchspec_str :: "string \<Rightarrow> string" where
  "normalized_name_from_matchspec_str spec =
     (let (name, has_upper) = scan_matchspec_name spec
      in if has_upper then to_ascii_lowercase name else name)"

definition valid_name_byte :: "char \<Rightarrow> bool" where
  "valid_name_byte b \<longleftrightarrow> is_ascii_lowercase b \<or> is_ascii_uppercase b \<or> is_ascii_digit b \<or> b \<in> set ''-_.''"

definition package_name_try_from :: "string \<Rightarrow> invalid_package_name_error + package_name" where
  "package_name_try_from source =
     (if \<not> list_all valid_name_byte source then Inl (InvalidCharacters source)
      else Inr \<lparr>pn_normalized = (if list_ex is_ascii_uppercase source
                                 then Some (to_ascii_lowercase source) else None),
                pn_source = source\<rparr>)"

definition from_matchspec_str :: "string \<Rightarrow> invalid_package_name_error + package_name" where
  "from_matchspec_str spec = package_name_try_from (name_from_matchspec_str spec)"

definition package_name_eq :: "package_name \<Rightarrow> package_name \<Rightarrow> bool" where
  "package_name_eq a b \<longleftrightarrow> as_normalized a = as_normalized b"

definition package_name_cmp :: "package_name \<Rightarrow> package_name \<Rightarrow> ordering" where
  "package_name_cmp a b = cmp_of (as_normalized a) (as_normalized b)"

text \<open>What the hasher of a package name receives.\<close>

definition package_name_hash :: "package_name \<Rightarrow> string" where
  "package_name_hash n = as_normalized n"

section \<open>The newtypes\<close>

datatype source_package_name = SourcePackageName (source_str: string)

datatype normalized_package_name = NormalizedPackageName (normalized_str: string)

definition source_from_package_name :: "package_name \<Rightarrow> source_package_name" where
  "source_from_package_name name = SourcePackageName (pn_source name)"

definition package_name_from_source :: "source_package_name \<Rightarrow> package_name rust" where
  "package_name_from_source name = (case package_name_try_from (source_str name) of
     Inr n \<Rightarrow> Done n | Inl _ \<Rightarrow> Panic)"

definition normalized_from_package_name :: "package_name \<Rightarrow> normalized_package_name" where
  "normalized_from_package_name name = NormalizedPackageName (as_normalized name)"

definition package_name_from_normalized :: "normalized_package_name \<Rightarrow> package_name" where
  "package_name_from_normalized name = \<lparr>pn_normalized = None, pn_source = normalized_str name\<rparr>"

section \<open>Lemmas\<close>

lemma ascii_lower_not_upper: "\<not> is_ascii_uppercase (ascii_lower c)"
  by (auto simp: ascii_lower_def is_ascii_uppercase_def)

lemma ascii_lower_id [simp]: "\<not> is_ascii_uppercase c \<Longrightarrow> ascii_lower c = c"
  by (simp add: ascii_lower_def)

lemma ascii_lower_valid: "valid_name_byte c \<Longrightarrow> valid_name_byte (ascii_lower c)"
  by (auto simp: valid_name_byte_def ascii_lower_def is_ascii_uppercase_def is_ascii_lowercase_def)

lemma to_ascii_lowercase_id: "\<not> list_ex is_ascii_uppercase s \<Longrightarrow> to_ascii_lowercase s = s"
  by (auto simp: to_ascii_lowercase_def list_ex_iff intro!: map_idI)

lemma to_ascii_lowercase_idem: "to_ascii_lowercase (to_ascii_lowercase s) = to_ascii_lowercase s"
  by (auto simp: to_ascii_lowercase_def ascii_lower_not_upper)

lemma scan_bytes_takeWhile:
  "scan_bytes i u bs = (i + length (takeWhile (\<lambda>b. \<not> is_matchspec_delimiter b) bs),
     u \<or> list_ex is_ascii_uppercase (takeWhile (\<lambda>b. \<not> is_matchspec_delimiter b) bs))"
  by (induction i u bs rule: scan_bytes.induct) auto

lemma scan_matchspec_name_takeWhile:
  "scan_matchspec_name spec = (takeWhile (\<lambda>b. \<not> is_matchspec_delimiter b) spec,
     list_ex is_ascii_uppercase (takeWhile (\<lambda>b. \<not> is_matchspec_delimiter b) spec))"
proof -
  have "take (length (takeWhile P xs)) xs = takeWhile P xs" for P and xs :: string
    by (metis takeWhile_eq_take)
  then show ?thesis by (simp add: scan_matchspec_name_def scan_bytes_takeWhile)
qed

lemma normalized_name_from_matchspec_str_lower:
  "normalized_name_from_matchspec_str spec = to_ascii_lowercase (takeWhile (\<lambda>b. \<not> is_matchspec_delimiter b) spec)"
  by (simp add: normalized_name_from_matchspec_str_def scan_matchspec_name_takeWhile to_ascii_lowercase_id)

lemma as_normalized_unchecked: "as_normalized (from_matchspec_str_unchecked spec) = normalized_name_from_matchspec_str spec"
  by (simp add: from_matchspec_str_unchecked_def normalized_name_from_matchspec_str_def as_normalized_def
      split: prod.splits)

lemma try_from_Inr:
  assumes "package_name_try_from s = Inr n"
  shows "as_source n = s" "as_normalized n = to_ascii_lowercase s" "list_all valid_name_byte s"
    and "list_all valid_name_byte (as_normalized n)"
  using assms to_ascii_lowercase_id [of s]
  by (auto simp: package_name_try_from_def as_source_def as_normalized_def to_ascii_lowercase_def list_all_iff
      ascii_lower_valid split: if_splits)

lemma from_matchspec_str_agrees:
  assumes "from_matchspec_str spec = Inr n"
  shows "n = from_matchspec_str_unchecked spec"
  using assms
  by (auto simp: from_matchspec_str_def package_name_try_from_def name_from_matchspec_str_def
      from_matchspec_str_unchecked_def scan_matchspec_name_takeWhile split: if_splits)

text \<open>The name of a match spec built from a valid name and any constraint is that name.\<close>

lemma valid_name_no_delimiter: "valid_name_byte b \<Longrightarrow> \<not> is_matchspec_delimiter b"
  by (auto simp: valid_name_byte_def is_matchspec_delimiter_def is_ascii_lowercase_def is_ascii_uppercase_def
      is_ascii_digit_def is_ascii_whitespace_def)

lemma takeWhile_valid_name:
  assumes "list_all valid_name_byte name" "constraint = [] \<or> is_matchspec_delimiter (hd constraint)"
  shows "takeWhile (\<lambda>b. \<not> is_matchspec_delimiter b) (name @ constraint) = name"
  using assms by (cases constraint) (auto simp: list_all_iff valid_name_no_delimiter takeWhile_append)

lemma package_name_cmp_total_preorder: "total_preorder_cmp package_name_cmp"
proof -
  have "package_name_cmp = (\<lambda>a b. cmp_of (as_normalized a) (as_normalized b))"
    by (intro ext) (simp add: package_name_cmp_def)
  then show ?thesis using cmp_of_key [of as_normalized] by simp
qed

interpretation package_name_ord: total_preorder_cmp package_name_cmp
  by (rule package_name_cmp_total_preorder)

lemma package_name_cmp_Equal_iff: "package_name_cmp a b = Ord_Equal \<longleftrightarrow> package_name_eq a b"
  by (simp add: package_name_cmp_def package_name_eq_def cmp_of_eq_iff)

lemma package_name_source_round_trip:
  assumes "package_name_try_from s = Inr n"
  shows "package_name_from_source (source_from_package_name n) = Done n"
  using assms try_from_Inr(1) [OF assms]
  by (simp add: package_name_from_source_def source_from_package_name_def as_source_def)

section \<open>Properties\<close>

text \<open>
  C14. Extracting the name from a match spec that starts with a valid name and continues with a
  delimiter gives that name: its normalized form is the lowercase name, the validating and the
  unchecked constructor agree, and the validated name converts to its source form and back.
\<close>

theorem matchspec_name_extracted:
  assumes "list_all valid_name_byte name" "rest = [] \<or> is_matchspec_delimiter (hd rest)"
  shows "normalized_name_from_matchspec_str (name @ rest) = to_ascii_lowercase name
    \<and> (\<exists>n. from_matchspec_str (name @ rest) = Inr n \<and> n = from_matchspec_str_unchecked (name @ rest)
        \<and> as_source n = name \<and> as_normalized n = to_ascii_lowercase name
        \<and> package_name_from_source (source_from_package_name n) = Done n)"
proof -
  have scan: "takeWhile (\<lambda>b. \<not> is_matchspec_delimiter b) (name @ rest) = name"
    by (rule takeWhile_valid_name [OF assms])
  have nm: "name_from_matchspec_str (name @ rest) = name"
    by (simp add: name_from_matchspec_str_def scan_matchspec_name_takeWhile scan)
  obtain n where n: "package_name_try_from name = Inr n" using assms(1) by (simp add: package_name_try_from_def)
  then have "from_matchspec_str (name @ rest) = Inr n" by (simp add: from_matchspec_str_def nm)
  then show ?thesis
    using from_matchspec_str_agrees [of "name @ rest" n] try_from_Inr [OF n] package_name_source_round_trip [OF n]
    by (simp add: normalized_name_from_matchspec_str_lower scan)
qed

theorem matchspec_name_extracted_witness:
  "normalized_name_from_matchspec_str (''Pillow'' @ '' >=10'') = ''pillow''"
proof -
  have "list_all valid_name_byte ''Pillow''" "is_matchspec_delimiter (hd '' >=10'')"
    "to_ascii_lowercase ''Pillow'' = ''pillow''" by code_simp+
  then show ?thesis using matchspec_name_extracted [of "''Pillow''" "'' >=10''"] by simp
qed

end
