(* ===== verification/Rust_Text.thy ===== *)
theory Rust_Text
  imports Rattler_Prelude
begin

text \<open>
  The functions of the standard library on \<open>str\<close> that several crates use: searching, splitting,
  stripping and trimming. A \<open>str\<close> is its UTF-8 bytes. Functions that the library defines on characters
  are given on the bytes: an ASCII character is one byte, and a character of several bytes, such as the
  white space beyond ASCII, is the occurrence of its encoding, which in UTF-8 starts at a character
  boundary wherever it occurs.
\<close>

section \<open>Occurrences\<close>

definition occurs_at :: "'a list \<Rightarrow> 'a list \<Rightarrow> nat \<Rightarrow> bool" where
  "occurs_at h n i \<longleftrightarrow> i + length n \<le> length h \<and> take (length n) (drop i h) = n"

fun str_find :: "'a list \<Rightarrow> 'a list \<Rightarrow> nat option" where
  "str_find [] n = (if n = [] then Some 0 else None)"
| "str_find (x # h) n = (if take (length n) (x # h) = n then Some 0 else map_option Suc (str_find h n))"

lemma occurs_at_bound: "occurs_at h n i \<Longrightarrow> i + length n \<le> length h"
  by (simp add: occurs_at_def)

lemma occurs_at_iff_append: "occurs_at h n i \<longleftrightarrow> (\<exists>a b. h = a @ n @ b \<and> length a = i)"
proof
  assume o: "occurs_at h n i"
  then have "h = take i h @ n @ drop (length n) (drop i h)"
    by (metis append_take_drop_id occurs_at_def)
  moreover have "length (take i h) = i"
    using o by (simp add: occurs_at_def)
  ultimately show "\<exists>a b. h = a @ n @ b \<and> length a = i" by blast
qed (auto simp: occurs_at_def)

lemma occurs_at_0: "occurs_at h n 0 \<longleftrightarrow> take (length n) h = n"
  by (auto simp: occurs_at_def) (metis length_take min.cobounded1)

lemma occurs_at_Suc [simp]: "occurs_at (x # h) n (Suc i) \<longleftrightarrow> occurs_at h n i"
  by (simp add: occurs_at_def)

lemma occurs_at_drop: "k \<le> length h \<Longrightarrow> occurs_at (drop k h) n i \<longleftrightarrow> occurs_at h n (k + i)"
  by (auto simp: occurs_at_def add.commute)

lemma occurs_at_slice:
  "a \<le> b \<Longrightarrow> b \<le> length h \<Longrightarrow> occurs_at (slice h a (b - a)) n i \<longleftrightarrow> occurs_at h n (a + i) \<and> a + i + length n \<le> b"
  by (auto simp: occurs_at_def slice_def take_drop min_def add.commute)

lemma str_find_Some_iff: "str_find h n = Some i \<longleftrightarrow> occurs_at h n i \<and> (\<forall>j<i. \<not> occurs_at h n j)"
proof (induction h arbitrary: i)
  case Nil
  then show ?case by (auto simp: occurs_at_def)
next
  case (Cons x h)
  show ?case
  proof (cases "occurs_at (x # h) n 0")
    case True
    then show ?thesis by (auto simp: occurs_at_0 intro: ccontr)
  next
    case False
    then have "str_find (x # h) n = map_option Suc (str_find h n)" by (simp add: occurs_at_0)
    with False show ?thesis
      by (cases i) (auto simp: Cons.IH less_Suc_eq_0_disj)
  qed
qed

lemma str_find_None_iff: "str_find h n = None \<longleftrightarrow> (\<forall>i. \<not> occurs_at h n i)"
proof
  assume none: "str_find h n = None"
  show "\<forall>i. \<not> occurs_at h n i"
  proof
    fix i show "\<not> occurs_at h n i"
    proof (induction i rule: less_induct)
      case (less i)
      with none show ?case by (metis option.distinct(1) str_find_Some_iff)
    qed
  qed
qed (metis not_None_eq str_find_Some_iff)

section \<open>Splitting, joining and stripping\<close>

fun split_char :: "char \<Rightarrow> string \<Rightarrow> string list" where
  "split_char c [] = [[]]"
| "split_char c (x # xs) = (if x = c then [] # split_char c xs
     else case split_char c xs of s # ss \<Rightarrow> (x # s) # ss | [] \<Rightarrow> [[x]])"

fun join_with :: "string \<Rightarrow> string list \<Rightarrow> string" where
  "join_with sep [] = []"
| "join_with sep [s] = s"
| "join_with sep (s # ss) = s @ sep @ join_with sep ss"

fun strip_prefix :: "'a list \<Rightarrow> 'a list \<Rightarrow> 'a list option" where
  "strip_prefix [] p = Some p"
| "strip_prefix (c # cs) (d # ds) = (if c = d then strip_prefix cs ds else None)"
| "strip_prefix (c # cs) [] = None"

lemma strip_prefix_iff: "strip_prefix pre p = Some rest \<longleftrightarrow> p = pre @ rest"
  by (induction pre p rule: strip_prefix.induct) auto

definition trim_start_matches :: "'a \<Rightarrow> 'a list \<Rightarrow> 'a list" where
  "trim_start_matches c s = dropWhile (\<lambda>x. x = c) s"

definition trim_end_matches :: "'a \<Rightarrow> 'a list \<Rightarrow> 'a list" where
  "trim_end_matches c s = rev (dropWhile (\<lambda>x. x = c) (rev s))"

definition trim_matches :: "'a \<Rightarrow> 'a list \<Rightarrow> 'a list" where
  "trim_matches c s = trim_end_matches c (trim_start_matches c s)"

definition contains_str :: "'a list \<Rightarrow> 'a list \<Rightarrow> bool" where
  "contains_str s n \<longleftrightarrow> str_find s n \<noteq> None"

text \<open>\<open>trim_start_matches\<close> with a non-empty text.\<close>

function trim_start_str :: "string \<Rightarrow> string \<Rightarrow> string" where
  "trim_start_str p s = (case strip_prefix p s of
     Some r \<Rightarrow> if p = [] then s else trim_start_str p r | None \<Rightarrow> s)"
  by auto
termination by (relation "measure (\<lambda>(p, s). length s)") (auto simp: strip_prefix_iff)

declare trim_start_str.simps [simp del]

text \<open>\<open>str::splitn\<close> at a character.\<close>

fun splitn :: "nat \<Rightarrow> char \<Rightarrow> string \<Rightarrow> string list" where
  "splitn 0 c s = []"
| "splitn (Suc 0) c s = [s]"
| "splitn (Suc (Suc n)) c s = (case split_once c s of
     None \<Rightarrow> [s] | Some (before, after) \<Rightarrow> before # splitn (Suc n) c after)"

section \<open>White space\<close>

text \<open>The encodings of the characters with the property \<open>White_Space\<close>, on which \<open>char::is_whitespace\<close> holds.\<close>

definition white_space :: "string list" where
  "white_space = [
     [CHR 0x09], [CHR 0x0A], [CHR 0x0B], [CHR 0x0C], [CHR 0x0D], [CHR 0x20], [CHR 0xC2, CHR 0x85],
     [CHR 0xC2, CHR 0xA0], [CHR 0xE1, CHR 0x9A, CHR 0x80], [CHR 0xE2, CHR 0x80, CHR 0x80],
     [CHR 0xE2, CHR 0x80, CHR 0x81], [CHR 0xE2, CHR 0x80, CHR 0x82], [CHR 0xE2, CHR 0x80, CHR 0x83],
     [CHR 0xE2, CHR 0x80, CHR 0x84], [CHR 0xE2, CHR 0x80, CHR 0x85], [CHR 0xE2, CHR 0x80, CHR 0x86],
     [CHR 0xE2, CHR 0x80, CHR 0x87], [CHR 0xE2, CHR 0x80, CHR 0x88], [CHR 0xE2, CHR 0x80, CHR 0x89],
     [CHR 0xE2, CHR 0x80, CHR 0x8A], [CHR 0xE2, CHR 0x80, CHR 0xA8], [CHR 0xE2, CHR 0x80, CHR 0xA9],
     [CHR 0xE2, CHR 0x80, CHR 0xAF], [CHR 0xE2, CHR 0x81, CHR 0x9F], [CHR 0xE3, CHR 0x80, CHR 0x80]]"

definition starts_with_space :: "string \<Rightarrow> bool" where
  "starts_with_space s \<longleftrightarrow> list_ex (\<lambda>w. strip_prefix w s \<noteq> None) white_space"

definition ends_with_space :: "string \<Rightarrow> bool" where
  "ends_with_space s \<longleftrightarrow> list_ex (\<lambda>w. strip_suffix w s \<noteq> None) white_space"

fun contains_space :: "string \<Rightarrow> bool" where
  "contains_space [] \<longleftrightarrow> False"
| "contains_space (c # s) \<longleftrightarrow> starts_with_space (c # s) \<or> contains_space s"

lemma white_space_nonempty: "w \<in> set white_space \<Longrightarrow> w \<noteq> []"
  by (auto simp: white_space_def)

lemma map_filter_head: "List.map_filter f xs = y # ys \<Longrightarrow> \<exists>x \<in> set xs. f x = Some y"
  by (induction xs) (auto simp: map_filter_def split: if_splits)

lemma map_filter_Nil_iff: "List.map_filter f xs = [] \<longleftrightarrow> (\<forall>x \<in> set xs. f x = None)"
  by (auto simp: map_filter_def filter_empty_conv)

function trim_start :: "string \<Rightarrow> string" where
  "trim_start s = (case List.map_filter (\<lambda>w. strip_prefix w s) white_space of r # _ \<Rightarrow> trim_start r | [] \<Rightarrow> s)"
  by auto
termination
proof (relation "measure length")
  fix s r :: string and rs
  assume "List.map_filter (\<lambda>w. strip_prefix w s) white_space = r # rs"
  then obtain w where "w \<in> set white_space" "strip_prefix w s = Some r"
    using map_filter_head by fastforce
  then show "(r, s) \<in> measure length" using white_space_nonempty by (auto simp: strip_prefix_iff)
qed simp

function trim_end :: "string \<Rightarrow> string" where
  "trim_end s = (case List.map_filter (\<lambda>w. strip_suffix w s) white_space of r # _ \<Rightarrow> trim_end r | [] \<Rightarrow> s)"
  by auto
termination
proof (relation "measure length")
  fix s r :: string and rs
  assume "List.map_filter (\<lambda>w. strip_suffix w s) white_space = r # rs"
  then obtain w where "w \<in> set white_space" "strip_suffix w s = Some r"
    using map_filter_head by fastforce
  then show "(r, s) \<in> measure length" using white_space_nonempty by auto
qed simp

declare trim_start.simps [simp del] trim_end.simps [simp del]

definition trim :: "string \<Rightarrow> string" where
  "trim s = trim_end (trim_start s)"

lemma starts_with_space_iff: "starts_with_space s \<longleftrightarrow> (\<exists>w \<in> set white_space. \<exists>r. s = w @ r)"
  by (auto simp: starts_with_space_def list_ex_iff strip_prefix_iff)

lemma ends_with_space_iff: "ends_with_space s \<longleftrightarrow> (\<exists>w \<in> set white_space. \<exists>r. s = r @ w)"
  by (auto simp: ends_with_space_def list_ex_iff)

lemma trim_start_id: "\<not> starts_with_space s \<Longrightarrow> trim_start s = s"
  by (subst trim_start.simps) (auto simp: starts_with_space_def list_ex_iff map_filter_Nil_iff split: list.splits
      dest!: map_filter_head)

lemma trim_end_id: "\<not> ends_with_space s \<Longrightarrow> trim_end s = s"
  by (subst trim_end.simps) (auto simp: ends_with_space_def list_ex_iff split: list.splits dest!: map_filter_head)

lemma trim_id: "\<not> starts_with_space s \<Longrightarrow> \<not> ends_with_space s \<Longrightarrow> trim s = s"
  by (simp add: trim_def trim_start_id trim_end_id)

lemma contains_space_iff: "contains_space s \<longleftrightarrow> (\<exists>w \<in> set white_space. \<exists>a b. s = a @ w @ b)"
proof (induction s)
  case (Cons c s)
  have "(\<exists>a b. c # s = a @ w @ b) \<longleftrightarrow> (\<exists>b. c # s = w @ b) \<or> (\<exists>a b. s = a @ w @ b)"
    (is "?L \<longleftrightarrow> ?P \<or> ?R") for w :: string
  proof
    assume ?L
    then obtain a b where "c # s = a @ w @ b" by blast
    then show "?P \<or> ?R" by (cases a) auto
  qed (metis append_Cons append_Nil)
  then show ?case unfolding contains_space.simps starts_with_space_iff Cons.IH by blast
qed (auto dest: white_space_nonempty)

lemma no_space_ends: "\<not> contains_space s \<Longrightarrow> \<not> starts_with_space s \<and> \<not> ends_with_space s"
  unfolding contains_space_iff starts_with_space_iff ends_with_space_iff
  by (metis append_Nil append_Nil2)

section \<open>UTF-8\<close>

definition byte_in :: "nat \<Rightarrow> nat \<Rightarrow> char \<Rightarrow> bool" where
  "byte_in a b c \<longleftrightarrow> a \<le> of_char c \<and> of_char c \<le> b"

text \<open>The bytes that a character starts with and the bytes that may follow it, and what \<open>String::from_utf8\<close> accepts.\<close>

definition utf8_follow :: "char \<Rightarrow> (char \<Rightarrow> bool) list option" where
  "utf8_follow c =
     (if byte_in 0 127 c then Some []
      else if byte_in 194 223 c then Some [byte_in 128 191]
      else if byte_in 224 224 c then Some [byte_in 160 191, byte_in 128 191]
      else if byte_in 237 237 c then Some [byte_in 128 159, byte_in 128 191]
      else if byte_in 225 239 c then Some [byte_in 128 191, byte_in 128 191]
      else if byte_in 240 240 c then Some [byte_in 144 191, byte_in 128 191, byte_in 128 191]
      else if byte_in 241 243 c then Some [byte_in 128 191, byte_in 128 191, byte_in 128 191]
      else if byte_in 244 244 c then Some [byte_in 128 143, byte_in 128 191, byte_in 128 191]
      else None)"

function utf8_valid :: "string \<Rightarrow> bool" where
  "utf8_valid [] = True"
| "utf8_valid (c # s) = (case utf8_follow c of
     None \<Rightarrow> False
   | Some ps \<Rightarrow> length ps \<le> length s \<and> list_all2 (\<lambda>p b. p b) ps (take (length ps) s) \<and> utf8_valid (drop (length ps) s))"
  by pat_completeness auto
termination by (relation "measure length") auto

definition from_utf8 :: "string \<Rightarrow> string option" where
  "from_utf8 s = (if utf8_valid s then Some s else None)"

section \<open>Characters\<close>

text \<open>\<open>str::chars\<close> on valid UTF-8: the encodings of the characters.\<close>

function chars :: "string \<Rightarrow> string list" where
  "chars [] = []"
| "chars (c # s) =
     (let n = (case utf8_follow c of Some ps \<Rightarrow> length ps | None \<Rightarrow> 0) in (c # take n s) # chars (drop n s))"
  by pat_completeness auto
termination by (relation "measure length") (auto simp: Let_def)

text \<open>The Unicode tables behind \<open>char::is_alphabetic\<close> and \<open>char::is_alphanumeric\<close>, parameters.\<close>

record unicode_tables =
  is_alphabetic :: "string \<Rightarrow> bool"
  is_alphanumeric :: "string \<Rightarrow> bool"

lemma chars_ascii: "of_char c < (128 :: nat) \<Longrightarrow> chars (c # s) = [c] # chars s"
proof -
  assume "of_char c < (128 :: nat)"
  then have "utf8_follow c = Some []" by (simp add: utf8_follow_def byte_in_def)
  then show ?thesis by simp
qed

end
