(* ===== verification/Version_Parse.thy ===== *)
theory Version_Parse
  imports Version_Model Build_Spec Package_Name Rust_Text
begin

text \<open>
  The parser of version literals (\<open>rattler_conda_version/src/version/parse.rs\<close>). The scanners
  \<open>digit1\<close> and \<open>alpha1\<close> of \<open>nom\<close> are parameters; its combinators for one character, for an
  optional part and for a choice are written out: an error is recovered from, a failure is not. The vectors of
  components and segments are passed on; on an error the caller drops them, or the parser has not pushed to them.
  A loop has fuel, and \<open>None\<close> is a loop that has not ended within it.
\<close>

section \<open>Errors and scanners\<close>

datatype nom_kind = EK_Digit | EK_Alpha | EK_Char

text \<open>The \<open>ParseIntError\<close> inside the two number errors is dropped: on digits it is always an overflow.\<close>

datatype parse_version_error_kind =
    PV_Empty
  | EpochMustBeInteger
  | InvalidNumeral
  | EmptyVersionComponent
  | TooManySegments
  | TooManyComponentsInASegment
  | ExpectedComponent
  | ExpectedSegmentSeparator
  | CannotMixAndMatchDashesAndUnderscores
  | PV_ExpectedEof
  | PV_Nom nom_kind

record parse_version_error =
  pve_version :: string
  pve_kind :: parse_version_error_kind

record nom_scanners =
  digit1 :: scanner
  alpha1 :: scanner

definition is_alpha_char :: "char \<Rightarrow> bool" where
  "is_alpha_char c \<longleftrightarrow> is_ascii_lowercase c \<or> is_ascii_uppercase c"

text \<open>What the documentation says of the two scanners.\<close>

definition takes_alphas :: "scanner \<Rightarrow> bool" where
  "takes_alphas a \<longleftrightarrow> (\<forall>s. a s = (if takeWhile is_alpha_char s = [] then None
     else Some (dropWhile is_alpha_char s, takeWhile is_alpha_char s)))"

definition scanner_laws :: "nom_scanners \<Rightarrow> bool" where
  "scanner_laws ns \<longleftrightarrow> takes_digits (digit1 ns) \<and> takes_alphas (alpha1 ns)"

section \<open>Components and segments\<close>

definition epoch_parser :: "nom_scanners \<Rightarrow> string \<Rightarrow> parse_version_error_kind nom_err + (string \<times> u64)" where
  "epoch_parser ns input = (case digit1 ns input of
     None \<Rightarrow> Inl (Nom_Error (PV_Nom EK_Digit))
   | Some (rest, digits) \<Rightarrow>
       (case rest of
          [] \<Rightarrow> Inl (Nom_Error (PV_Nom EK_Char))
        | c # rest \<Rightarrow>
            if c \<noteq> CHR ''!'' then Inl (Nom_Error (PV_Nom EK_Char))
            else (case parse_u64 digits of
                None \<Rightarrow> Inl (Nom_Failure EpochMustBeInteger)
              | Some ep \<Rightarrow> Inr (rest, ep))))"

definition numeral_parser :: "nom_scanners \<Rightarrow> string \<Rightarrow> parse_version_error_kind nom_err + (string \<times> u64)" where
  "numeral_parser ns input = (case digit1 ns input of
     None \<Rightarrow> Inl (Nom_Error (PV_Nom EK_Digit))
   | Some (rest, digits) \<Rightarrow>
       (case parse_u64 digits of
          Some n \<Rightarrow> Inr (rest, n)
        | None \<Rightarrow> Inl (Nom_Failure InvalidNumeral)))"

definition alpha_component :: "string \<Rightarrow> component" where
  "alpha_component alpha =
     (if eq_ignore_ascii_case alpha ''post'' then Post
      else if eq_ignore_ascii_case alpha ''dev'' then Dev
      else if list_all is_ascii_lowercase alpha then Iden alpha
      else Iden (to_ascii_lowercase alpha))"

definition component_parser :: "nom_scanners \<Rightarrow> string \<Rightarrow> parse_version_error_kind nom_err + (string \<times> component)" where
  "component_parser ns input = (case numeral_parser ns input of
     Inr (rest, n) \<Rightarrow> Inr (rest, Numeral n)
   | Inl (Nom_Failure e) \<Rightarrow> Inl (Nom_Failure e)
   | Inl (Nom_Error _) \<Rightarrow> (case alpha1 ns input of
         Some (rest, alpha) \<Rightarrow> Inr (rest, alpha_component alpha)
       | None \<Rightarrow> Inl (Nom_Error (PV_Nom EK_Alpha))))"

fun components_loop :: "nat \<Rightarrow> nom_scanners \<Rightarrow> component list \<Rightarrow> u16 \<Rightarrow> string
    \<Rightarrow> (parse_version_error_kind nom_err + (string \<times> u16 \<times> component list)) option" where
  "components_loop 0 ns components count rest = None"
| "components_loop (Suc n) ns components count rest = (case component_parser ns rest of
     Inl (Nom_Error _) \<Rightarrow> Some (Inr (rest, count, components))
   | Inl (Nom_Failure e) \<Rightarrow> Some (Inl (Nom_Failure e))
   | Inr (remaining, component) \<Rightarrow>
       if unat count + 1 \<ge> 2 ^ 16 then Some (Inl (Nom_Failure TooManyComponentsInASegment))
       else components_loop n ns (components @ [component]) (count + 1) remaining)"

definition segment_parser :: "nom_scanners \<Rightarrow> component list \<Rightarrow> string
    \<Rightarrow> (parse_version_error_kind nom_err + (string \<times> segment \<times> component list)) option" where
  "segment_parser ns components input = (case component_parser ns input of
     Inl (Nom_Error (PV_Nom _)) \<Rightarrow> Some (Inl (Nom_Error ExpectedComponent))
   | Inl e \<Rightarrow> Some (Inl e)
   | Inr (rest, first_component) \<Rightarrow>
       (case components_loop (Suc (length rest)) ns (components @ [first_component]) 1 rest of
          None \<Rightarrow> None
        | Some (Inl e) \<Rightarrow> Some (Inl e)
        | Some (Inr (remaining, count, components)) \<Rightarrow>
            (case segment_new count of
               None \<Rightarrow> Some (Inl (Nom_Failure TooManyComponentsInASegment))
             | Some segment \<Rightarrow> Some (Inr (remaining,
                 segment_with_implicit_default segment (\<not> is_numeric first_component), components)))))"

section \<open>Parts\<close>

text \<open>The check that dashes and underscores are not mixed, \<open>None\<close> if they are.\<close>

definition note_separator :: "char option \<Rightarrow> char \<Rightarrow> char option option" where
  "note_separator dash_or_underscore separator =
     (if dash_or_underscore = None \<and> (separator = CHR ''-'' \<or> separator = CHR ''_'') then Some (Some separator)
      else if dash_or_underscore = Some CHR ''-'' \<and> separator = CHR ''_'' \<or> dash_or_underscore = Some CHR ''_'' \<and> separator = CHR ''-'' then None
      else Some dash_or_underscore)"

definition trailing_dash_underscore_parser :: "string \<Rightarrow> char option
    \<Rightarrow> parse_version_error_kind nom_err + (string \<times> component option \<times> char option)" where
  "trailing_dash_underscore_parser input dash_or_underscore = (case input of
     [] \<Rightarrow> Inr (input, None, dash_or_underscore)
   | separator # rest \<Rightarrow>
       if separator \<noteq> CHR ''-'' \<and> separator \<noteq> CHR ''_'' then Inr (input, None, dash_or_underscore)
       else (case note_separator dash_or_underscore separator of
           None \<Rightarrow> Inl (Nom_Error CannotMixAndMatchDashesAndUnderscores)
         | Some dash_or_underscore \<Rightarrow> Inr (rest, Some (UnderscoreOrDash (separator = CHR ''-'')), dash_or_underscore)))"

text \<open>What a part returns: the rest, the separator in use, and the vectors.\<close>

type_synonym part_result =
  "(parse_version_error_kind nom_err + (string \<times> char option \<times> component list \<times> segment list)) rust option"

text \<open>A separator that no segment follows.\<close>

definition part_end :: "component list \<Rightarrow> segment list \<Rightarrow> string \<Rightarrow> char option \<Rightarrow> char \<Rightarrow> string
    \<Rightarrow> (parse_version_error_kind nom_err + (string \<times> char option \<times> component list \<times> segment list)) rust" where
  "part_end components segments input dash_or_underscore separator rest =
     (case trailing_dash_underscore_parser rest dash_or_underscore of
        Inl e \<Rightarrow> Done (Inl e)
      | Inr (rest, Some component, dash_or_underscore) \<Rightarrow>
          rust_bind (expect (segment_new 1)) (\<lambda>segment.
          rust_bind (expect (segment_with_separator (segment_with_implicit_default segment True) (Some separator))) (\<lambda>segment.
            Done (Inr (rest, dash_or_underscore, components @ [component], segments @ [segment]))))
      | Inr (rest, None, dash_or_underscore') \<Rightarrow>
          if separator = CHR ''-'' \<or> separator = CHR ''_'' then
            (if segments = [] then Panic
             else let segment = last segments
                  in if unat (segment_len segment) + 1 \<ge> 2 ^ 16 then Done (Inl (Nom_Failure TooManyComponentsInASegment))
                     else (case segment_with_component_count segment (segment_len segment + 1) of
                         None \<Rightarrow> Done (Inl (Nom_Failure TooManyComponentsInASegment))
                       | Some segment \<Rightarrow> Done (Inr (rest, dash_or_underscore',
                           components @ [UnderscoreOrDash (separator = CHR ''-'')], butlast segments @ [segment]))))
          else Done (Inr (input, dash_or_underscore, components, segments)))"

fun part_loop :: "nat \<Rightarrow> nom_scanners \<Rightarrow> component list \<Rightarrow> segment list \<Rightarrow> string \<Rightarrow> char option \<Rightarrow> part_result" where
  "part_loop 0 ns components segments input dash_or_underscore = None"
| "part_loop (Suc n) ns components segments input dash_or_underscore = (case input of
     [] \<Rightarrow> Some (Done (Inr (input, dash_or_underscore, components, segments)))
   | separator # rest \<Rightarrow>
       if separator \<notin> set ''-._'' then Some (Done (Inr (input, dash_or_underscore, components, segments)))
       else (case note_separator dash_or_underscore separator of
           None \<Rightarrow> Some (Done (Inl (Nom_Failure CannotMixAndMatchDashesAndUnderscores)))
         | Some dash_or_underscore \<Rightarrow>
             (case segment_parser ns components rest of
                None \<Rightarrow> None
              | Some (Inl (Nom_Error _)) \<Rightarrow> Some (part_end components segments input dash_or_underscore separator rest)
              | Some (Inl (Nom_Failure e)) \<Rightarrow> Some (Done (Inl (Nom_Failure e)))
              | Some (Inr (rest, segment, components)) \<Rightarrow>
                  (case segment_with_separator segment (Some separator) of
                     None \<Rightarrow> Some Panic
                   | Some segment \<Rightarrow> part_loop n ns components (segments @ [segment]) rest dash_or_underscore))))"

definition version_part_parser :: "nom_scanners \<Rightarrow> component list \<Rightarrow> segment list \<Rightarrow> string \<Rightarrow> char option \<Rightarrow> part_result" where
  "version_part_parser ns components segments input dash_or_underscore =
     (case segment_parser ns components input of
        None \<Rightarrow> None
      | Some (Inl e) \<Rightarrow> Some (Done (Inl e))
      | Some (Inr (rest, segment, components)) \<Rightarrow>
          part_loop (Suc (length rest)) ns components (segments @ [segment]) rest dash_or_underscore)"

section \<open>Versions\<close>

definition local_index_flags :: "flags \<Rightarrow> nat \<Rightarrow> flags option" where
  "local_index_flags fl idx = (if idx < 2 ^ 8 then flags_with_local_segment_index fl (of_nat idx) else None)"

definition version_parser :: "nom_scanners \<Rightarrow> string \<Rightarrow> (parse_version_error_kind nom_err + (string \<times> version)) rust option" where
  "version_parser ns input =
     (if input = [] then Some (Done (Inl (Nom_Error PV_Empty)))
      else case (case epoch_parser ns input of
            Inl (Nom_Failure e) \<Rightarrow> Inl (Nom_Failure e)
          | Inl (Nom_Error _) \<Rightarrow> Inr (input, [], flags_default)
          | Inr (rest, ep) \<Rightarrow> Inr (rest, [Numeral ep], flags_with_has_epoch flags_default True)) of
        Inl e \<Rightarrow> Some (Done (Inl e))
      | Inr (input, components, fl) \<Rightarrow>
          (case version_part_parser ns components [] input None of
             None \<Rightarrow> None
           | Some Panic \<Rightarrow> Some Panic
           | Some (Done (Inl e)) \<Rightarrow> Some (Done (Inl e))
           | Some (Done (Inr (rest, dash_or_underscore, components, segments))) \<Rightarrow>
               (case strip_prefix ''+'' rest of
                  None \<Rightarrow> Some (Done (Inr (rest, \<lparr>v_components = components, v_segments = segments, v_flags = fl\<rparr>)))
                | Some local_version_part \<Rightarrow>
                    (case local_index_flags fl (length segments) of
                       None \<Rightarrow> Some (Done (Inl (Nom_Error TooManySegments)))
                     | Some fl \<Rightarrow>
                         (case version_part_parser ns components segments local_version_part dash_or_underscore of
                            None \<Rightarrow> None
                          | Some Panic \<Rightarrow> Some Panic
                          | Some (Done (Inl e)) \<Rightarrow> Some (Done (Inl e))
                          | Some (Done (Inr (rest, _, components, segments))) \<Rightarrow>
                              Some (Done (Inr (rest, \<lparr>v_components = components, v_segments = segments, v_flags = fl\<rparr>))))))))"

definition version_from_str :: "nom_scanners \<Rightarrow> string \<Rightarrow> (parse_version_error + version) rust option" where
  "version_from_str ns s = map_option (\<lambda>r. rust_bind r (\<lambda>r. Done (case r of
     Inr (rest, version) \<Rightarrow> if rest = [] then Inr version else Inl \<lparr>pve_version = s, pve_kind = PV_ExpectedEof\<rparr>
   | Inl (Nom_Failure e) \<Rightarrow> Inl \<lparr>pve_version = s, pve_kind = e\<rparr>
   | Inl (Nom_Error e) \<Rightarrow> Inl \<lparr>pve_version = s, pve_kind = e\<rparr>))) (version_parser ns s)"

definition strict_version_from_str :: "nom_scanners \<Rightarrow> string \<Rightarrow> (parse_version_error + strict_version) rust option" where
  "strict_version_from_str ns s =
     map_option (\<lambda>r. rust_bind r (\<lambda>r. Done (case r of Inl e \<Rightarrow> Inl e | Inr v \<Rightarrow> Inr (StrictVersion v)))) (version_from_str ns s)"

definition ascii_scanners :: nom_scanners where
  "ascii_scanners = \<lparr>digit1 = scan_while1 is_ascii_digit, alpha1 = scan_while1 is_alpha_char\<rparr>"

end
