(* ===== verification/Version_Syntax.thy ===== *)
theory Version_Syntax
  imports Version_Parse
begin

text \<open>
  The grammar of version literals, up to the parts of a version: the abstract syntax of components, segments
  and parts, their text, the segment words that encode them, and the parsers as the inverse of the text. Every
  parser ends without a panic, returns only well-formed syntax, and reads well-formed syntax back from its text.
\<close>

section \<open>Components\<close>

fun literal :: "component \<Rightarrow> bool" where
  "literal (Iden s) \<longleftrightarrow> s \<noteq> [] \<and> list_all is_ascii_lowercase s \<and> s \<noteq> ''post'' \<and> s \<noteq> ''dev''"
| "literal (UnderscoreOrDash _) \<longleftrightarrow> False"
| "literal _ \<longleftrightarrow> True"

definition starts :: "(char \<Rightarrow> bool) \<Rightarrow> string \<Rightarrow> bool" where
  "starts p s \<longleftrightarrow> s \<noteq> [] \<and> p (hd s)"

lemma starts_simps [simp]: "\<not> starts p []" "starts p (c # s) \<longleftrightarrow> p c"
  by (simp_all add: starts_def)

lemma starts_append: "starts p (s @ t) \<longleftrightarrow> (if s = [] then starts p t else starts p s)"
  by (cases s) auto

text \<open>The characters a component of a kind is made of.\<close>

definition kind_char :: "bool \<Rightarrow> char \<Rightarrow> bool" where
  "kind_char numeric c \<longleftrightarrow> (if numeric then is_ascii_digit c else is_alpha_char c)"

lemma digit_not_alpha: "is_ascii_digit c \<Longrightarrow> \<not> is_alpha_char c"
  by (auto simp: is_ascii_digit_def is_alpha_char_def is_ascii_lowercase_def is_ascii_uppercase_def)

lemma digit1_law: "scanner_laws ns \<Longrightarrow> digit1 ns s = scan_while1 is_ascii_digit s"
  by (simp add: scanner_laws_def takes_digits_def scan_while1_def)

lemma alpha1_law: "scanner_laws ns \<Longrightarrow> alpha1 ns s = scan_while1 is_alpha_char s"
  by (simp add: scanner_laws_def takes_alphas_def scan_while1_def)

lemma scan_while1_None: "scan_while1 p s = None \<longleftrightarrow> \<not> starts p s"
  by (cases s) (auto simp: scan_while1_def)

lemma scan_while1_Some:
  "scan_while1 p s = Some (r, d) \<longleftrightarrow> s = d @ r \<and> d \<noteq> [] \<and> list_all p d \<and> \<not> starts p r"
proof
  assume "scan_while1 p s = Some (r, d)"
  then have "d = takeWhile p s" "r = dropWhile p s" "d \<noteq> []" by (auto simp: scan_while1_def split: if_splits)
  then show "s = d @ r \<and> d \<noteq> [] \<and> list_all p d \<and> \<not> starts p r"
    using hd_dropWhile [of p s] by (auto simp: list_all_iff starts_def dest: set_takeWhileD)
next
  assume a: "s = d @ r \<and> d \<noteq> [] \<and> list_all p d \<and> \<not> starts p r"
  then have "takeWhile p (d @ r) = d" "dropWhile p (d @ r) = r"
    by (cases r; auto simp: list_all_iff takeWhile_append2 dropWhile_append2)+
  then show "scan_while1 p s = Some (r, d)" using a by (simp add: scan_while1_def)
qed

lemma numeral_display_scan:
  assumes "\<not> starts is_ascii_digit r"
  shows "scan_while1 is_ascii_digit (show_nat n @ r) = Some (r, show_nat n)"
  using assms show_nat_digits [of n] by (simp add: scan_while1_Some list_all_iff)

lemma lower_letters: "list_all is_ascii_lowercase s \<Longrightarrow> to_ascii_lowercase s = s"
  by (induction s) (auto simp: to_ascii_lowercase_def ascii_lower_def is_ascii_lowercase_def is_ascii_uppercase_def)

lemma ascii_lower_alpha: "is_alpha_char c \<Longrightarrow> is_ascii_lowercase (ascii_lower c)"
  by (auto simp: is_alpha_char_def ascii_lower_def is_ascii_lowercase_def is_ascii_uppercase_def)

lemma alpha_component_literal:
  assumes "s \<noteq> []" "list_all is_alpha_char s"
  shows "literal (alpha_component s) \<and> \<not> is_numeric (alpha_component s)"
proof -
  have "list_all is_ascii_lowercase (to_ascii_lowercase s)" using assms(2) ascii_lower_alpha
    by (auto simp: list_all_iff to_ascii_lowercase_def)
  moreover have "to_ascii_lowercase ''post'' = ''post''" "to_ascii_lowercase ''dev'' = ''dev''" by code_simp+
  ultimately show ?thesis using assms(1) lower_letters [of s]
    by (auto simp: alpha_component_def is_numeric_def eq_ignore_ascii_case_def to_ascii_lowercase_def)
qed

lemma alpha_component_display:
  assumes "literal c" "\<not> is_numeric c"
  shows "component_display c \<noteq> []" "list_all is_alpha_char (component_display c)" "alpha_component (component_display c) = c"
proof -
  have "to_ascii_lowercase ''post'' = ''post''" "to_ascii_lowercase ''dev'' = ''dev''"
    "list_all is_alpha_char ''post''" "list_all is_alpha_char ''dev''" by code_simp+
  then show "component_display c \<noteq> []" "list_all is_alpha_char (component_display c)" "alpha_component (component_display c) = c"
    using assms lower_letters
    by (cases c; auto simp: alpha_component_def eq_ignore_ascii_case_def is_numeric_def is_alpha_char_def list_all_iff)+
qed

lemma component_display_kind:
  assumes "literal c"
  shows "component_display c \<noteq> []" "list_all (kind_char (is_numeric c)) (component_display c)"
  using assms alpha_component_display [of c] show_nat_digits
  by (cases c; auto simp: is_numeric_def kind_char_def [abs_def] list_all_iff)+

lemma component_parser_display:
  assumes "scanner_laws ns" "literal c" "\<not> starts (kind_char (is_numeric c)) r"
  shows "component_parser ns (component_display c @ r) = Inr (r, c)"
proof (cases "is_numeric c")
  case True
  then obtain n where c: "c = Numeral n" by (cases c) (auto simp: is_numeric_def)
  then have "\<not> starts is_ascii_digit r" using assms(3) by (simp add: kind_char_def [abs_def] is_numeric_def)
  then show ?thesis using numeral_display_scan [of r "unat n"] parse_u64_show_nat [of n]
    by (simp add: c component_parser_def numeral_parser_def digit1_law [OF assms(1)])
next
  case False
  note d = alpha_component_display [OF assms(2) False]
  have "\<not> starts is_ascii_digit (component_display c @ r)"
    using d(1,2) digit_not_alpha by (cases "component_display c") auto
  moreover have "scan_while1 is_alpha_char (component_display c @ r) = Some (r, component_display c)"
    using d assms(3) False by (simp add: scan_while1_Some kind_char_def [abs_def])
  ultimately show ?thesis
    by (simp add: component_parser_def numeral_parser_def digit1_law [OF assms(1)] alpha1_law [OF assms(1)] d(3)
        scan_while1_None [THEN iffD2])
qed

lemma component_parser_Inr:
  assumes "scanner_laws ns" "component_parser ns s = Inr (r, c)"
  shows "literal c" "starts (kind_char (is_numeric c)) s" "\<not> starts (kind_char (is_numeric c)) r" "length r < length s"
proof -
  have "literal c \<and> starts (kind_char (is_numeric c)) s \<and> \<not> starts (kind_char (is_numeric c)) r \<and> length r < length s"
  proof (cases "scan_while1 is_ascii_digit s")
    case (Some p)
    then obtain d where d: "scan_while1 is_ascii_digit s = Some (r, d)" "is_numeric c" "\<exists>n. c = Numeral n"
      using assms(2) by (cases p)
        (auto simp: component_parser_def numeral_parser_def digit1_law [OF assms(1)] is_numeric_def split: option.splits)
    then have "s = d @ r" "d \<noteq> []" "list_all is_ascii_digit d" "\<not> starts is_ascii_digit r" by (simp_all add: scan_while1_Some)
    then show ?thesis using d by (cases d) (auto simp: kind_char_def [abs_def])
  next
    case None
    then obtain d where d: "scan_while1 is_alpha_char s = Some (r, d)" "c = alpha_component d"
      using assms(2)
      by (auto simp: component_parser_def numeral_parser_def digit1_law [OF assms(1)] alpha1_law [OF assms(1)] split: option.splits)
    then have "s = d @ r" "d \<noteq> []" "list_all is_alpha_char d" "\<not> starts is_alpha_char r" by (simp_all add: scan_while1_Some)
    then show ?thesis using d alpha_component_literal [of d] by (cases d) (auto simp: kind_char_def [abs_def])
  qed
  then show "literal c" "starts (kind_char (is_numeric c)) s" "\<not> starts (kind_char (is_numeric c)) r" "length r < length s"
    by blast+
qed

definition component_start :: "string \<Rightarrow> bool" where
  "component_start s \<longleftrightarrow> starts (\<lambda>c. is_ascii_digit c \<or> is_alpha_char c) s"

lemma component_parser_Error:
  assumes "scanner_laws ns"
  shows "\<not> component_start s \<Longrightarrow> component_parser ns s = Inl (Nom_Error (PV_Nom EK_Alpha))"
    and "component_parser ns s = Inl (Nom_Error e) \<Longrightarrow> e = PV_Nom EK_Alpha \<and> \<not> component_start s"
  by (cases s; auto simp: component_parser_def numeral_parser_def digit1_law [OF assms] alpha1_law [OF assms]
        component_start_def scan_while1_def split: option.splits sum.splits nom_err.splits if_splits)+

lemma not_starts_kind: "\<not> component_start r \<Longrightarrow> \<not> starts (kind_char b) r"
  by (cases r) (auto simp: component_start_def kind_char_def)


section \<open>Segments\<close>

text \<open>Components of one segment: numbers and identifiers in turn.\<close>

fun alternates :: "component list \<Rightarrow> bool" where
  "alternates (c # d # cs) \<longleftrightarrow> is_numeric c \<noteq> is_numeric d \<and> alternates (d # cs)"
| "alternates _ \<longleftrightarrow> True"

lemma alternates_Cons:
  "alternates cs \<Longrightarrow> cs \<noteq> [] \<longrightarrow> starts (kind_char (is_numeric (hd cs))) s \<Longrightarrow> \<not> starts (kind_char (is_numeric c)) s \<Longrightarrow> alternates (c # cs)"
proof (cases cs)
  case (Cons d ds)
  assume a: "alternates cs" "cs \<noteq> [] \<longrightarrow> starts (kind_char (is_numeric (hd cs))) s" "\<not> starts (kind_char (is_numeric c)) s"
  have "is_numeric c \<noteq> is_numeric d"
  proof
    assume "is_numeric c = is_numeric d"
    then show False using a(2,3) Cons by simp
  qed
  then show ?thesis using a(1) Cons by simp
qed simp

definition run_text :: "component list \<Rightarrow> string" where
  "run_text cs = concat (map component_display cs)"

lemma run_text_simps [simp]: "run_text [] = []" "run_text (c # cs) = component_display c @ run_text cs"
  "run_text (cs @ ds) = run_text cs @ run_text ds"
  by (simp_all add: run_text_def)

lemma run_text_starts:
  assumes "list_all literal cs" "cs \<noteq> []"
  shows "starts (kind_char b) (run_text cs @ r) \<longleftrightarrow> is_numeric (hd cs) = b" "component_start (run_text cs @ r)"
proof -
  obtain c ds where cs: "cs = c # ds" using assms(2) by (cases cs) auto
  obtain x xs where x: "component_display c = x # xs" "kind_char (is_numeric c) x"
    using component_display_kind [of c] assms(1) cs by (cases "component_display c") auto
  then show "starts (kind_char b) (run_text cs @ r) \<longleftrightarrow> is_numeric (hd cs) = b"
    using digit_not_alpha [of x] cs by (auto simp: kind_char_def split: if_splits)
  show "component_start (run_text cs @ r)" using x cs by (auto simp: component_start_def kind_char_def split: if_splits)
qed

lemma run_text_length: "list_all literal cs \<Longrightarrow> length cs \<le> length (run_text cs)"
proof (induction cs)
  case (Cons c cs)
  then have "1 \<le> length (component_display c)" using component_display_kind(1) [of c] by (cases "component_display c") auto
  then show ?case using Cons by simp
qed simp

lemma components_loop_text:
  assumes "scanner_laws ns" "\<not> component_start r"
  shows "list_all literal cs \<Longrightarrow> alternates cs \<Longrightarrow> length cs < n \<Longrightarrow> unat count + length cs < 2 ^ 16 \<Longrightarrow>
    components_loop n ns comps count (run_text cs @ r) = Some (Inr (r, count + of_nat (length cs), comps @ cs))"
proof (induction cs arbitrary: n count comps)
  case Nil
  then show ?case using component_parser_Error(1) [OF assms] by (cases n) simp_all
next
  case (Cons c cs)
  obtain m where n: "n = Suc m" using Cons.prems by (cases n) auto
  have "\<not> starts (kind_char (is_numeric c)) (run_text cs @ r)"
    using Cons.prems run_text_starts(1) [of cs "is_numeric c" r] not_starts_kind [OF assms(2)] by (cases cs) auto
  then have "component_parser ns (run_text (c # cs) @ r) = Inr (run_text cs @ r, c)"
    using component_parser_display [OF assms(1)] Cons.prems by simp
  moreover have "unat (count + 1) = unat count + 1" using Cons.prems by (simp add: unat_word_ariths)
  moreover have "alternates cs" using Cons.prems by (cases cs) auto
  ultimately show ?case using Cons n by (simp add: add.assoc)
qed

lemma components_loop_Inr:
  assumes "scanner_laws ns"
  shows "components_loop n ns comps count s = Some (Inr (r, count', comps')) \<Longrightarrow>
    \<exists>cs. comps' = comps @ cs \<and> list_all literal cs \<and> alternates cs \<and> unat count' = unat count + length cs \<and> \<not> component_start r
      \<and> (cs \<noteq> [] \<longrightarrow> starts (kind_char (is_numeric (hd cs))) s) \<and> length r \<le> length s"
proof (induction n arbitrary: comps count s)
  case (Suc n)
  show ?case
  proof (cases "component_parser ns s")
    case (Inl e)
    then show ?thesis using Suc.prems component_parser_Error(2) [OF assms, of s]
      by (cases e) (auto intro!: exI [of _ "[]"])
  next
    case (Inr p)
    obtain s' c where p: "p = (s', c)" by (cases p)
    note c = component_parser_Inr [OF assms Inr [unfolded p]]
    have bound: "unat count + 1 < 2 ^ 16" and "components_loop n ns (comps @ [c]) (count + 1) s' = Some (Inr (r, count', comps'))"
      using Suc.prems Inr p by (auto split: if_splits)
    from Suc.IH [OF this(2)] obtain cs where cs: "comps' = comps @ c # cs" "list_all literal cs" "alternates cs"
      "unat count' = unat (count + 1) + length cs" "\<not> component_start r" "cs \<noteq> [] \<longrightarrow> starts (kind_char (is_numeric (hd cs))) s'"
      "length r \<le> length s'"
      by auto
    have "unat (count + 1) = unat count + 1" using bound by (simp add: unat_word_ariths)
    moreover have "alternates (c # cs)" using cs(3,6) c(3) by (rule alternates_Cons)
    ultimately show ?thesis using c(1,2,4) cs by (intro exI [of _ "c # cs"]) simp
  qed
qed simp

lemma components_loop_total:
  assumes "scanner_laws ns"
  shows "length s < n \<Longrightarrow> components_loop n ns comps count s \<noteq> None"
proof (induction n arbitrary: comps count s)
  case (Suc n)
  then show ?case using component_parser_Inr(4) [OF assms, of s]
    by (auto split: sum.splits nom_err.splits)
qed simp

lemma components_loop_Error: "components_loop n ns comps count s \<noteq> Some (Inl (Nom_Error e))"
  by (induction n arbitrary: comps count s) (auto split: sum.splits nom_err.splits)

text \<open>The segment word of a separator and a list of components.\<close>

type_synonym syntax_segment = "char option \<times> component list"

definition encodes :: "segment \<Rightarrow> syntax_segment \<Rightarrow> bool" where
  "encodes s a \<longleftrightarrow> unat (segment_len s) = length (snd a) \<and> segment_has_implicit_default s = (\<not> is_numeric (hd (snd a)))
     \<and> segment_separator s = fst a"

lemma encodes_unique: "encodes s a \<Longrightarrow> encodes t a \<Longrightarrow> s = t"
  by (intro segment_fields_determine) (simp_all add: encodes_def word_unat_eq_iff)

definition run_ok :: "component list \<Rightarrow> bool" where
  "run_ok cs \<longleftrightarrow> cs \<noteq> [] \<and> list_all literal cs \<and> alternates cs \<and> length cs \<le> 8191"

lemma segment_new_le: "segment_new n = Some s \<Longrightarrow> unat n \<le> 8191"
  using segment_new_None_iff [of n] by (auto simp: word_less_nat_alt not_less)

lemma segment_parser_text:
  assumes "scanner_laws ns" "run_ok cs" "\<not> component_start r" "encodes seg (None, cs)"
  shows "segment_parser ns comps (run_text cs @ r) = Some (Inr (r, seg, comps @ cs))"
proof -
  obtain c ds where cs: "cs = c # ds" using assms(2) by (cases cs) (auto simp: run_ok_def)
  have ds: "list_all literal ds" "alternates ds" "length ds < 8191" and c: "literal c"
    using assms(2) cs by (cases ds; auto simp: run_ok_def)+
  have "\<not> starts (kind_char (is_numeric c)) (run_text ds @ r)"
    using assms(2) cs run_text_starts(1) [of ds "is_numeric c" r] not_starts_kind [OF assms(3)] by (cases ds) (auto simp: run_ok_def)
  then have first: "component_parser ns (run_text cs @ r) = Inr (run_text ds @ r, c)"
    using component_parser_display [OF assms(1) c] cs by simp
  have loop: "components_loop (Suc (length (run_text ds @ r))) ns (comps @ [c]) 1 (run_text ds @ r)
      = Some (Inr (r, 1 + of_nat (length ds), (comps @ [c]) @ ds))"
    using ds run_text_length [OF ds(1)] by (intro components_loop_text [OF assms(1,3)]) simp_all
  have len: "unat (1 + of_nat (length ds) :: u16) = length cs" using ds(3) cs by (simp add: unat_word_ariths unat_of_nat)
  then obtain s where s: "segment_new (1 + of_nat (length ds)) = Some s"
    using segment_new_None_iff [of "1 + of_nat (length ds)"] ds(3) cs by (cases "segment_new (1 + of_nat (length ds))") (auto simp: word_less_nat_alt)
  have "encodes (segment_with_implicit_default s (\<not> is_numeric c)) (None, cs)"
    using segment_len_new [OF s] segment_new_fields [OF s] len cs by (simp add: encodes_def bits_simps)
  then have "segment_with_implicit_default s (\<not> is_numeric c) = seg" by (rule encodes_unique [OF _ assms(4)])
  then show ?thesis using first loop s cs by (simp add: segment_parser_def del: components_loop.simps)
qed

lemma segment_parser_Inr:
  assumes "scanner_laws ns" "segment_parser ns comps s = Some (Inr (r, seg, comps'))"
  shows "\<exists>cs. comps' = comps @ cs \<and> run_ok cs \<and> encodes seg (None, cs) \<and> \<not> component_start r \<and> length r < length s"
proof -
  from assms(2) obtain s' c count sg where c: "component_parser ns s = Inr (s', c)"
    and loop: "components_loop (Suc (length s')) ns (comps @ [c]) 1 s' = Some (Inr (r, count, comps'))"
    and new: "segment_new count = Some sg" and seg: "seg = segment_with_implicit_default sg (\<not> is_numeric c)"
    by (auto simp: segment_parser_def split: sum.splits option.splits nom_err.splits parse_version_error_kind.splits)
  note first = component_parser_Inr [OF assms(1) c]
  from components_loop_Inr [OF assms(1) loop] obtain cs where cs: "comps' = comps @ c # cs" "list_all literal cs" "alternates cs"
    "unat count = 1 + length cs" "\<not> component_start r" "cs \<noteq> [] \<longrightarrow> starts (kind_char (is_numeric (hd cs))) s'" "length r \<le> length s'"
    by auto
  have "alternates (c # cs)" using cs(3,6) first(3) by (rule alternates_Cons)
  then have "run_ok (c # cs)" using cs(2,4) first(1) segment_new_le [OF new] by (simp add: run_ok_def)
  moreover have "encodes seg (None, c # cs)"
    using segment_len_new [OF new] segment_new_fields [OF new] cs(4) seg by (simp add: encodes_def bits_simps)
  ultimately show ?thesis using cs first(4) by (intro exI [of _ "c # cs"]) simp
qed

lemma segment_parser_Error:
  assumes "scanner_laws ns"
  shows "\<not> component_start s \<Longrightarrow> segment_parser ns comps s = Some (Inl (Nom_Error ExpectedComponent))"
    and "segment_parser ns comps s = Some (Inl (Nom_Error e)) \<Longrightarrow> \<not> component_start s"
  using component_parser_Error [OF assms, of s] components_loop_Error
  by (auto simp: segment_parser_def split: sum.splits option.splits nom_err.splits parse_version_error_kind.splits)

lemma segment_parser_total:
  assumes "scanner_laws ns"
  shows "segment_parser ns comps s \<noteq> None"
proof (cases "component_parser ns s")
  case (Inr p)
  obtain s' c where p: "p = (s', c)" by (cases p)
  obtain x where "components_loop (Suc (length s')) ns (comps @ [c]) 1 s' = Some x"
    using components_loop_total [OF assms, of s' "Suc (length s')" "comps @ [c]" 1] by auto
  then show ?thesis using Inr p
    by (cases x) (auto simp: segment_parser_def simp del: components_loop.simps split: option.splits)
qed (auto simp: segment_parser_def split: nom_err.splits parse_version_error_kind.splits)

lemma encodes_exists:
  assumes "cs \<noteq> []" "length cs \<le> 8191" "sep \<in> {None, Some CHR ''-'', Some CHR ''_'', Some CHR ''.''}"
  shows "\<exists>seg. encodes seg (sep, cs)"
proof -
  have len: "unat (of_nat (length cs) :: u16) = length cs" using assms(2) by (simp add: unat_of_nat)
  then obtain s where s: "segment_new (of_nat (length cs)) = Some s"
    using segment_new_None_iff [of "of_nat (length cs)"] assms(2)
    by (cases "segment_new (of_nat (length cs))") (auto simp: word_less_nat_alt)
  let ?t = "segment_with_implicit_default s (\<not> is_numeric (hd cs))"
  obtain t where "segment_with_separator ?t sep = Some t"
    using segment_with_separator_None_iff [of ?t sep] assms(3) by (cases "segment_with_separator ?t sep") auto
  from segment_with_separator_fields [OF this] show ?thesis
    using segment_len_new [OF s] len by (intro exI [of _ t]) (simp add: encodes_def bits_simps)
qed


section \<open>Parts\<close>

type_synonym syntax_part = "syntax_segment list"

fun mark_char :: "component \<Rightarrow> string" where
  "mark_char (UnderscoreOrDash d) = (if d then ''-'' else ''_'')"
| "mark_char _ = []"

text \<open>The dashes and underscores of a part, and the check that they are not mixed.\<close>

definition separator_marks :: "char option \<Rightarrow> string" where
  "separator_marks sep = (if sep = Some CHR ''-'' \<or> sep = Some CHR ''_'' then [the sep] else [])"

definition marks :: "syntax_part \<Rightarrow> string" where
  "marks a = concat (map (\<lambda>(sep, cs). separator_marks sep @ concat (map mark_char cs)) a)"

fun note_all :: "char option \<Rightarrow> string \<Rightarrow> char option option" where
  "note_all du [] = Some du"
| "note_all du (c # cs) = (case note_separator du c of None \<Rightarrow> None | Some du' \<Rightarrow> note_all du' cs)"

lemma note_all_append: "note_all du (as @ bs) = (case note_all du as of None \<Rightarrow> None | Some du' \<Rightarrow> note_all du' bs)"
  by (induction as arbitrary: du) (auto split: option.splits)

lemma marks_simps [simp]: "marks [] = []" "marks (a @ b) = marks a @ marks b"
  "marks ((sep, cs) # a) = separator_marks sep @ concat (map mark_char cs) @ marks a"
  by (simp_all add: marks_def)

lemma literal_marks: "list_all literal cs \<Longrightarrow> concat (map mark_char cs) = []"
proof (induction cs)
  case (Cons c cs)
  then show ?case by (cases c) auto
qed simp

definition separators :: "char option set" where
  "separators = {Some CHR ''-'', Some CHR ''_'', Some CHR ''.''}"

lemma note_separator_marks: "note_all du (separator_marks (Some c)) = (if Some c \<in> separators then note_separator du c else Some du)"
  by (auto simp: separator_marks_def separators_def note_separator_def)

definition segments_text :: "syntax_part \<Rightarrow> string" where
  "segments_text a = concat (map (\<lambda>(sep, cs). (case sep of None \<Rightarrow> [] | Some c \<Rightarrow> [c]) @ run_text cs) a)"

lemma segments_text_simps [simp]: "segments_text [] = []" "segments_text (a @ b) = segments_text a @ segments_text b"
  "segments_text ((sep, cs) # a) = (case sep of None \<Rightarrow> [] | Some c \<Rightarrow> [c]) @ run_text cs @ segments_text a"
  by (simp_all add: segments_text_def)

definition tail_ok :: "syntax_part \<Rightarrow> bool" where
  "tail_ok a \<longleftrightarrow> list_all (\<lambda>(sep, cs). sep \<in> separators \<and> run_ok cs) a"

text \<open>A part without a trailing mark, and a part.\<close>

definition body_ok :: "syntax_part \<Rightarrow> bool" where
  "body_ok a \<longleftrightarrow> (\<exists>cs b. a = (None, cs) # b \<and> run_ok cs \<and> tail_ok b)"

definition literal_part :: "syntax_part \<Rightarrow> bool" where
  "literal_part a \<longleftrightarrow> body_ok a
     \<or> (\<exists>b sep cs d. a = b @ [(sep, cs @ [UnderscoreOrDash d])] \<and> body_ok (b @ [(sep, cs)]) \<and> length cs < 8191)
     \<or> (\<exists>b sep d. a = b @ [(sep, [UnderscoreOrDash d])] \<and> body_ok b \<and> sep \<in> separators)"

definition components_of :: "syntax_part \<Rightarrow> component list" where
  "components_of a = concat (map snd a)"

lemma components_of_simps [simp]: "components_of [] = []" "components_of (a @ b) = components_of a @ components_of b"
  "components_of ((sep, cs) # a) = cs @ components_of a"
  by (simp_all add: components_of_def)

lemma tail_ok_snoc: "tail_ok (a @ [(sep, cs)]) \<longleftrightarrow> tail_ok a \<and> sep \<in> separators \<and> run_ok cs"
  by (simp add: tail_ok_def)

lemma body_ok_snoc: "body_ok a \<Longrightarrow> sep \<in> separators \<Longrightarrow> run_ok cs \<Longrightarrow> body_ok (a @ [(sep, cs)])"
  by (auto simp: body_ok_def tail_ok_snoc)

lemma body_ok_run: "body_ok a \<Longrightarrow> (sep, cs) \<in> set a \<Longrightarrow> run_ok cs"
  by (auto simp: body_ok_def tail_ok_def list_all_iff)

lemma encodes_separator:
  assumes "encodes seg (None, cs)" "segment_with_separator seg sep = Some seg'"
  shows "encodes seg' (sep, cs)"
  using assms segment_with_separator_fields [OF assms(2)] by (simp add: encodes_def)

lemma with_separator_encodes:
  assumes "encodes seg (None, cs)" "encodes seg' (sep, cs)" "sep \<in> separators"
  shows "segment_with_separator seg sep = Some seg'"
proof -
  obtain t where t: "segment_with_separator seg sep = Some t"
    using segment_with_separator_None_iff [of seg sep] assms(3)
    by (cases "segment_with_separator seg sep") (auto simp: separators_def)
  then show ?thesis using encodes_unique [OF encodes_separator [OF assms(1) t] assms(2)] by simp
qed

text \<open>What a part parser has read when it has appended to the vectors.\<close>

definition part_read :: "component list \<Rightarrow> segment list \<Rightarrow> char option \<Rightarrow> syntax_part \<Rightarrow> component list \<Rightarrow> segment list \<Rightarrow> char option \<Rightarrow> bool" where
  "part_read comps segs du a comps' segs' du' \<longleftrightarrow>
     comps' = comps @ components_of a \<and> (\<exists>ss. segs' = segs @ ss \<and> list_all2 encodes ss a) \<and> note_all du (marks a) = Some du'"

lemma part_read_snoc:
  assumes "part_read comps segs du a comps' segs' du1" "note_all du1 (marks [p]) = Some du2" "encodes s p"
  shows "part_read comps segs du (a @ [p]) (comps' @ snd p) (segs' @ [s]) du2"
  using assms by (cases p) (auto simp: part_read_def note_all_append list_all2_appendI)

lemma segment_new_1: "\<exists>s. segment_new 1 = Some s"
  by (cases "segment_new 1") (auto simp: segment_new_None_iff)

lemma segment_new_1_implicit:
  "segment_new 1 = Some s \<Longrightarrow> encodes (segment_with_implicit_default s True) (None, [UnderscoreOrDash d])"
  using segment_len_new [of 1 s] segment_new_fields [of 1 s] by (auto simp: encodes_def bits_simps is_numeric_def)

lemma with_component_count_None_iff: "segment_with_component_count s n = None \<longleftrightarrow> 8191 < unat n"
  by (simp add: segment_with_component_count_def segment_layout word_less_nat_alt Let_def)

lemma encodes_longer:
  assumes "encodes seg (sep, cs)" "cs \<noteq> []" "segment_with_component_count seg (segment_len seg + 1) = Some seg'"
    and "unat (segment_len seg) + 1 < 2 ^ 16"
  shows "encodes seg' (sep, cs @ [c])" "length cs < 8191"
proof -
  have "unat (segment_len seg + 1) = length cs + 1" using assms(1,4) by (simp add: encodes_def unat_word_ariths)
  then show "encodes seg' (sep, cs @ [c])" "length cs < 8191"
    using assms(1,2) segment_with_component_count_fields [OF assms(3)] with_component_count_None_iff [of seg "segment_len seg + 1"] assms(3)
    by (simp_all add: encodes_def)
qed

lemma trailing_cases:
  assumes "trailing_dash_underscore_parser s du = Inr (r, x, du')"
  obtains (none) "x = None" "r = s" "du' = du"
    | (mark) c where "c = CHR ''-'' \<or> c = CHR ''_''" "s = c # r" "x = Some (UnderscoreOrDash (c = CHR ''-''))" "note_separator du c = Some du'"
  using assms by (auto simp: trailing_dash_underscore_parser_def split: list.splits if_splits option.splits)

lemma part_end_Inr:
  assumes a: "body_ok a" "part_read comps segs du a comps' segs' du0"
    and sep: "note_separator du0 sep = Some du1" "Some sep \<in> separators"
    and result: "part_end comps' segs' (sep # rest) du1 sep rest = Done (Inr (r, du2, comps2, segs2))"
  shows "\<exists>a2. literal_part a2 \<and> part_read comps segs du a2 comps2 segs2 du2"
proof -
  obtain r' x du' where tr: "trailing_dash_underscore_parser rest du1 = Inr (r', x, du')"
    using result by (cases "trailing_dash_underscore_parser rest du1") (auto simp: part_end_def)
  from tr show ?thesis
  proof (cases rule: trailing_cases)
    case (mark c)
    obtain s where s: "segment_new 1 = Some s" using segment_new_1 by blast
    then obtain seg where seg: "segment_with_separator (segment_with_implicit_default s True) (Some sep) = Some seg"
      and res: "comps2 = comps' @ [UnderscoreOrDash (c = CHR ''-'')]" "segs2 = segs' @ [seg]" "du2 = du'"
      using result tr mark by (auto simp: part_end_def rust_bind_Done_iff)
    let ?p = "(Some sep, [UnderscoreOrDash (c = CHR ''-'')])"
    have "note_all du0 (marks [?p]) = Some du'"
      using sep mark by (auto simp: note_all_append note_separator_marks split: option.splits)
    then have "part_read comps segs du (a @ [?p]) comps2 segs2 du2"
      using part_read_snoc [OF a(2), of ?p du' seg] encodes_separator [OF segment_new_1_implicit [OF s] seg] res by simp
    moreover have "literal_part (a @ [?p])" using a(1) sep(2) by (auto simp: literal_part_def)
    ultimately show ?thesis by blast
  next
    case none
    show ?thesis
    proof (cases "sep = CHR ''-'' \<or> sep = CHR ''_''")
      case True
      have "a \<noteq> []" using a(1) by (auto simp: body_ok_def)
      then obtain b sep0 cs where ab: "a = b @ [(sep0, cs)]" by (metis prod.exhaust rev_exhaust)
      from a(2) ab obtain ss s where ss: "segs' = segs @ ss @ [s]" "list_all2 encodes ss b" "encodes s (sep0, cs)"
        and rd: "comps' = comps @ components_of a" "note_all du (marks a) = Some du0"
        by (auto simp: part_read_def list_all2_append2 list_all2_Cons2)
      have cs: "cs \<noteq> []" using body_ok_run [OF a(1), of sep0 cs] ab by (simp add: run_ok_def)
      have "unat (segment_len s) + 1 < 2 ^ 16"
        and "segment_with_component_count s (segment_len s + 1) \<noteq> None"
        and res: "comps2 = comps' @ [UnderscoreOrDash (sep = CHR ''-'')]" "du2 = du1"
          "segs2 = segs @ ss @ [the (segment_with_component_count s (segment_len s + 1))]"
        using result tr none True ss(1) by (auto simp: part_end_def Let_def butlast_append split: if_splits option.splits)
      then obtain s' where s': "segment_with_component_count s (segment_len s + 1) = Some s'" "unat (segment_len s) + 1 < 2 ^ 16" by auto
      note longer = encodes_longer(1) [OF ss(3) cs s', of "UnderscoreOrDash (sep = CHR ''-'')"] encodes_longer(2) [OF ss(3) cs s']
      let ?a2 = "b @ [(sep0, cs @ [UnderscoreOrDash (sep = CHR ''-'')])]"
      have "literal_part ?a2" using a(1) ab longer(2) by (auto simp: literal_part_def)
      moreover have "note_all du (marks ?a2) = Some du1"
        using rd(2) sep True ab by (auto simp: note_all_append split: option.splits)
      then have "part_read comps segs du ?a2 comps2 segs2 du2"
        using ss res rd(1) ab longer(1) s'(1) by (auto simp: part_read_def list_all2_appendI)
      ultimately show ?thesis by blast
    next
      case False
      then have "sep = CHR ''.''" using sep(2) by (simp add: separators_def)
      then have "du1 = du0" using sep(1) by (auto simp: note_separator_def)
      then show ?thesis using result tr none False a by (auto simp: part_end_def literal_part_def)
    qed
  qed
qed

lemma part_loop_Inr:
  assumes "scanner_laws ns"
  shows "part_loop n ns comps' segs' input du0 = Some (Done (Inr (r, du2, comps2, segs2))) \<Longrightarrow> body_ok a \<Longrightarrow>
    part_read comps segs du a comps' segs' du0 \<Longrightarrow> \<exists>a2. literal_part a2 \<and> part_read comps segs du a2 comps2 segs2 du2"
proof (induction n arbitrary: comps' segs' input du0 a)
  case (Suc n)
  show ?case
  proof (cases "input = [] \<or> hd input \<notin> set ''-._''")
    case True
    then show ?thesis using Suc.prems by (auto simp: literal_part_def split: list.splits)
  next
    case False
    then obtain sep rest where input: "input = sep # rest" "Some sep \<in> separators" "sep \<in> set ''-._''"
      by (cases input) (auto simp: separators_def)
    obtain du1 where du1: "note_separator du0 sep = Some du1" using Suc.prems(1) input by (auto split: option.splits)
    from segment_parser_total [OF assms, of comps' rest] obtain x where x: "segment_parser ns comps' rest = Some x" by auto
    show ?thesis
    proof (cases x)
      case (Inl e)
      then obtain e' where "e = Nom_Error e'" using Suc.prems(1) input du1 x by (cases e) auto
      then have "part_end comps' segs' (sep # rest) du1 sep rest = Done (Inr (r, du2, comps2, segs2))"
        using Suc.prems(1) input du1 x Inl by auto
      from part_end_Inr [OF Suc.prems(2,3) du1 input(2) this] show ?thesis .
    next
      case (Inr y)
      obtain rest' seg comps1 where y: "y = (rest', seg, comps1)" by (cases y)
      from segment_parser_Inr [OF assms x [unfolded Inr y]] obtain cs
        where cs: "comps1 = comps' @ cs" "run_ok cs" "encodes seg (None, cs)" by blast
      obtain seg' where seg': "segment_with_separator seg (Some sep) = Some seg'"
        and loop: "part_loop n ns comps1 (segs' @ [seg']) rest' du1 = Some (Done (Inr (r, du2, comps2, segs2)))"
        using Suc.prems(1) input du1 x Inr y by (auto split: option.splits)
      have "note_all du0 (marks [(Some sep, cs)]) = Some du1"
        using du1 input(2) cs(2) by (simp add: note_all_append note_separator_marks literal_marks run_ok_def)
      then have "part_read comps segs du (a @ [(Some sep, cs)]) comps1 (segs' @ [seg']) du1"
        using part_read_snoc [OF Suc.prems(3), of "(Some sep, cs)"] encodes_separator [OF cs(3) seg'] cs(1) by simp
      from Suc.IH [OF loop body_ok_snoc [OF Suc.prems(2) input(2) cs(2)] this] show ?thesis .
    qed
  qed
qed simp

lemma version_part_parser_Inr:
  assumes "scanner_laws ns" "version_part_parser ns comps segs input du = Some (Done (Inr (r, du2, comps2, segs2)))"
  shows "\<exists>a. literal_part a \<and> part_read comps segs du a comps2 segs2 du2"
proof -
  from assms(2) obtain rest seg comps1 where p: "segment_parser ns comps input = Some (Inr (rest, seg, comps1))"
    and loop: "part_loop (Suc (length rest)) ns comps1 (segs @ [seg]) rest du = Some (Done (Inr (r, du2, comps2, segs2)))"
    by (auto simp: version_part_parser_def simp del: part_loop.simps split: option.splits sum.splits)
  from segment_parser_Inr [OF assms(1) p] obtain cs where cs: "comps1 = comps @ cs" "run_ok cs" "encodes seg (None, cs)" by blast
  have "part_read comps segs du [(None, cs)] comps1 (segs @ [seg]) du"
    using cs by (simp add: part_read_def separator_marks_def literal_marks run_ok_def)
  moreover have "body_ok [(None, cs)]" using cs(2) by (simp add: body_ok_def tail_ok_def)
  ultimately show ?thesis using part_loop_Inr [OF assms(1) loop] by blast
qed


section \<open>The parser ends without a panic\<close>

lemma part_end_total: "segs \<noteq> [] \<Longrightarrow> Some sep \<in> separators \<Longrightarrow> \<exists>x. part_end comps segs input du sep rest = Done x"
proof (cases "trailing_dash_underscore_parser rest du")
  case (Inr p)
  assume a: "segs \<noteq> []" "Some sep \<in> separators"
  obtain r x du' where p: "p = (r, x, du')" by (cases p)
  obtain s where s: "segment_new 1 = Some s" using segment_new_1 by blast
  obtain s' where "segment_with_separator (segment_with_implicit_default s True) (Some sep) = Some s'"
    using segment_with_separator_None_iff [of "segment_with_implicit_default s True" "Some sep"] a(2)
    by (cases "segment_with_separator (segment_with_implicit_default s True) (Some sep)") (auto simp: separators_def)
  then show ?thesis using Inr p s a(1) by (cases x) (auto simp: part_end_def Let_def split: option.splits)
qed (simp add: part_end_def)

lemma part_loop_total:
  assumes "scanner_laws ns"
  shows "length input < n \<Longrightarrow> segs \<noteq> [] \<Longrightarrow> \<exists>x. part_loop n ns comps segs input du = Some (Done x)"
proof (induction n arbitrary: comps segs input du)
  case (Suc n)
  show ?case
  proof (cases "input = [] \<or> hd input \<notin> set ''-._''")
    case True
    then show ?thesis by (auto split: list.splits)
  next
    case False
    then obtain sep rest where input: "input = sep # rest" "Some sep \<in> separators" "sep \<in> set ''-._''"
      by (cases input) (auto simp: separators_def)
    show ?thesis
    proof (cases "note_separator du sep")
      case None
      then show ?thesis using input by auto
    next
      case (Some du1)
      from segment_parser_total [OF assms, of comps rest] obtain x where x: "segment_parser ns comps rest = Some x" by auto
      show ?thesis
      proof (cases x)
        case (Inl e)
        then show ?thesis using part_end_total [OF Suc.prems(2) input(2), of comps "sep # rest" du1 rest] input Some x
          by (cases e) auto
      next
        case (Inr y)
        obtain rest' seg comps1 where y: "y = (rest', seg, comps1)" by (cases y)
        obtain seg' where "segment_with_separator seg (Some sep) = Some seg'"
          using segment_with_separator_None_iff [of seg "Some sep"] input(2)
          by (cases "segment_with_separator seg (Some sep)") (auto simp: separators_def)
        moreover have "length rest' < n" using segment_parser_Inr [OF assms x [unfolded Inr y]] Suc.prems(1) input by auto
        ultimately show ?thesis using Suc.IH [of rest' "segs @ [seg']" comps1 du1] input Some x Inr y by auto
      qed
    qed
  qed
qed simp

lemma version_part_parser_total:
  assumes "scanner_laws ns"
  shows "\<exists>x. version_part_parser ns comps segs input du = Some (Done x)"
proof -
  from segment_parser_total [OF assms, of comps input] obtain x where x: "segment_parser ns comps input = Some x" by auto
  show ?thesis
  proof (cases x)
    case (Inr y)
    obtain rest seg comps1 where y: "y = (rest, seg, comps1)" by (cases y)
    then show ?thesis using part_loop_total [OF assms, of rest "Suc (length rest)" "segs @ [seg]" comps1 du] x Inr
      by (simp add: version_part_parser_def del: part_loop.simps)
  qed (use x in \<open>simp add: version_part_parser_def\<close>)
qed

lemma version_parser_total:
  assumes "scanner_laws ns"
  shows "\<exists>x. version_parser ns s = Some (Done x)"
proof (cases "s = []")
  case False
  let ?first = "case epoch_parser ns s of
      Inl (Nom_Failure e) \<Rightarrow> Inl (Nom_Failure e)
    | Inl (Nom_Error _) \<Rightarrow> Inr (s, [], flags_default)
    | Inr (rest, ep) \<Rightarrow> Inr (rest, [Numeral ep], flags_with_has_epoch flags_default True)"
  show ?thesis
  proof (cases ?first)
    case (Inr q)
    obtain input comps fl where q: "q = (input, comps, fl)" by (cases q)
    obtain x where x: "version_part_parser ns comps [] input None = Some (Done x)"
      using version_part_parser_total [OF assms] by blast
    show ?thesis
    proof (cases x)
      case (Inr y)
      obtain rest du comps1 segs where y: "y = (rest, du, comps1, segs)" by (cases y)
      show ?thesis
      proof (cases "strip_prefix ''+'' rest")
        case (Some l)
        obtain z where "version_part_parser ns comps1 segs l du = Some (Done z)"
          using version_part_parser_total [OF assms] by blast
        then show ?thesis using False \<open>?first = Inr q\<close> q x Inr y Some
          by (cases z; cases "local_index_flags fl (length segs)") (auto simp: version_parser_def)
      qed (use False \<open>?first = Inr q\<close> q x Inr y in \<open>auto simp: version_parser_def\<close>)
    qed (use False Inr q x in \<open>auto simp: version_parser_def\<close>)
  qed (use False in \<open>auto simp: version_parser_def\<close>)
qed (simp add: version_parser_def)

section \<open>Reading a part back\<close>

text \<open>What may follow a part: nothing that a component or another mark starts with.\<close>

definition ends_part :: "string \<Rightarrow> bool" where
  "ends_part r \<longleftrightarrow> \<not> component_start r \<and> \<not> starts (\<lambda>c. c = CHR ''-'' \<or> c = CHR ''_'') r
     \<and> (starts (\<lambda>c. c = CHR ''.'') r \<longrightarrow> \<not> component_start (tl r) \<and> \<not> starts (\<lambda>c. c = CHR ''-'' \<or> c = CHR ''_'') (tl r))"

lemma separator_not_component: "Some sep \<in> separators \<Longrightarrow> \<not> component_start (sep # s)"
  by (auto simp: separators_def component_start_def is_ascii_digit_def is_alpha_char_def is_ascii_lowercase_def is_ascii_uppercase_def)

lemma tail_stops: "tail_ok a \<Longrightarrow> \<not> component_start r \<Longrightarrow> \<not> component_start (segments_text a @ r)"
proof (cases a)
  case (Cons p b)
  moreover assume "tail_ok a"
  ultimately obtain sep cs where "p = (Some sep, cs)" "Some sep \<in> separators"
    by (cases p; cases "fst p") (auto simp: tail_ok_def separators_def)
  then show ?thesis using Cons separator_not_component by simp
qed simp

lemma part_loop_tail:
  assumes "scanner_laws ns" "\<not> component_start r"
  shows "tail_ok a \<Longrightarrow> list_all2 encodes ss a \<Longrightarrow> note_all du (marks a) = Some du' \<Longrightarrow>
    part_loop (length a + n) ns comps segs (segments_text a @ r) du = part_loop n ns (comps @ components_of a) (segs @ ss) r du'"
proof (induction a arbitrary: comps segs ss du)
  case (Cons p a)
  obtain sep cs where p: "p = (Some sep, cs)" and sep: "Some sep \<in> separators" and cs: "run_ok cs" and a: "tail_ok a"
    using Cons.prems(1) by (cases p; cases "fst p") (auto simp: tail_ok_def separators_def)
  obtain s' ss' where ss: "ss = s' # ss'" "encodes s' (Some sep, cs)" "list_all2 encodes ss' a"
    using Cons.prems(2) p by (auto simp: list_all2_Cons2)
  obtain du1 where du1: "note_separator du sep = Some du1" "note_all du1 (marks a) = Some du'"
    using Cons.prems(3) p sep cs
    by (auto simp: note_all_append note_separator_marks literal_marks run_ok_def split: option.splits)
  obtain s where s: "encodes s (None, cs)" using encodes_exists [of cs None] cs by (auto simp: run_ok_def)
  have "segment_parser ns comps (run_text cs @ segments_text a @ r) = Some (Inr (segments_text a @ r, s, comps @ cs))"
    by (rule segment_parser_text [OF assms(1) cs tail_stops [OF a assms(2)] s])
  moreover have "segment_with_separator s (Some sep) = Some s'" by (rule with_separator_encodes [OF s ss(2) sep])
  moreover have "sep \<in> set ''-._''" using sep by (auto simp: separators_def)
  ultimately show ?case using Cons.IH [OF a ss(3) du1(2), of "comps @ cs" "segs @ [s']"] du1(1) p ss(1) by auto
qed simp


lemma tail_text_length: "tail_ok a \<Longrightarrow> length a \<le> length (segments_text a)"
proof (induction a)
  case (Cons p a)
  then obtain sep cs where "p = (Some sep, cs)" by (cases p; cases "fst p") (auto simp: tail_ok_def separators_def)
  then show ?case using Cons by (simp add: tail_ok_def)
qed simp

lemma part_body:
  assumes "scanner_laws ns" "body_ok a" "list_all2 encodes ss a" "note_all du (marks a) = Some du1" "\<not> component_start r"
  shows "\<exists>m. version_part_parser ns comps segs (segments_text a @ r) du = part_loop (Suc m) ns (comps @ components_of a) (segs @ ss) r du1"
proof -
  obtain cs b where a: "a = (None, cs) # b" "run_ok cs" "tail_ok b" using assms(2) by (auto simp: body_ok_def)
  obtain s ss' where ss: "ss = s # ss'" "encodes s (None, cs)" "list_all2 encodes ss' b"
    using assms(3) a(1) by (auto simp: list_all2_Cons2)
  have du1: "note_all du (marks b) = Some du1"
    using assms(4) a by (simp add: separator_marks_def literal_marks run_ok_def)
  let ?rest = "segments_text b @ r"
  have "segment_parser ns comps (run_text cs @ ?rest) = Some (Inr (?rest, s, comps @ cs))"
    by (rule segment_parser_text [OF assms(1) a(2) tail_stops [OF a(3) assms(5)] ss(2)])
  moreover have "Suc (length ?rest) = length b + Suc (length ?rest - length b)" using tail_text_length [OF a(3)] by simp
  then have "part_loop (Suc (length ?rest)) ns (comps @ cs) (segs @ [s]) ?rest du
      = part_loop (Suc (length ?rest - length b)) ns ((comps @ cs) @ components_of b) ((segs @ [s]) @ ss') r du1"
    using part_loop_tail [OF assms(1,5) a(3) ss(3) du1, of "Suc (length ?rest - length b)" "comps @ cs" "segs @ [s]"]
    by (simp only:)
  ultimately have "version_part_parser ns comps segs (segments_text a @ r) du
      = part_loop (Suc (length ?rest - length b)) ns (comps @ components_of a) (segs @ ss) r du1"
    using a(1) ss(1) by (simp add: version_part_parser_def del: part_loop.simps)
  then show ?thesis by blast
qed

lemma trailing_none: "\<not> starts (\<lambda>c. c = CHR ''-'' \<or> c = CHR ''_'') r \<Longrightarrow> trailing_dash_underscore_parser r du = Inr (r, None, du)"
  by (cases r) (auto simp: trailing_dash_underscore_parser_def)

lemma part_loop_ends:
  assumes "scanner_laws ns" "ends_part r"
  shows "part_loop (Suc m) ns comps segs r du = Some (Done (Inr (r, du, comps, segs)))"
proof (cases "starts (\<lambda>c. c = CHR ''.'') r")
  case True
  then obtain rest where r: "r = CHR ''.'' # rest" by (cases r) auto
  then have rest: "\<not> component_start rest" "\<not> starts (\<lambda>c. c = CHR ''-'' \<or> c = CHR ''_'') rest"
    using assms(2) by (auto simp: ends_part_def)
  then show ?thesis
    using segment_parser_Error(1) [OF assms(1) rest(1)] trailing_none [OF rest(2)] r by (simp add: part_end_def note_separator_def)
next
  case False
  then show ?thesis using assms(2) by (cases r) (auto simp: ends_part_def)
qed

definition mark_of :: "bool \<Rightarrow> char" where
  "mark_of d = (if d then CHR ''-'' else CHR ''_'')"

lemma mark_of_simps: "component_display (UnderscoreOrDash d) = [mark_of d]" "mark_char (UnderscoreOrDash d) = [mark_of d]"
  "Some (mark_of d) \<in> separators" "mark_of d \<in> set ''-._''" "mark_of d = CHR ''-'' \<longleftrightarrow> d"
  "mark_of d = CHR ''-'' \<or> mark_of d = CHR ''_''"
  by (cases d; simp add: mark_of_def separators_def)+

lemma version_part_parser_text:
  assumes ns: "scanner_laws ns" and a: "literal_part a" and ss: "list_all2 encodes ss a"
    and du: "note_all du (marks a) = Some du'" and r: "ends_part r"
  shows "version_part_parser ns comps segs (segments_text a @ r) du = Some (Done (Inr (r, du', comps @ components_of a, segs @ ss)))"
  using a unfolding literal_part_def
proof (elim disjE exE conjE)
  assume "body_ok a"
  from part_body [OF ns this ss du, of r comps segs] show ?thesis
    using part_loop_ends [OF ns r] r by (auto simp: ends_part_def simp del: part_loop.simps)
next
  fix b sep cs d
  assume ab: "a = b @ [(sep, cs @ [UnderscoreOrDash d])]" "body_ok (b @ [(sep, cs)])" "length cs < 8191"
  have cs: "run_ok cs" using body_ok_run [OF ab(2), of sep cs] by simp
  from ss ab(1) obtain sb s' where s': "ss = sb @ [s']" "list_all2 encodes sb b" "encodes s' (sep, cs @ [UnderscoreOrDash d])"
    by (auto simp: list_all2_append2 list_all2_Cons2)
  then have "segment_separator s' = sep" by (simp add: encodes_def)
  then have "sep \<in> {None, Some CHR ''-'', Some CHR ''_'', Some CHR ''.''}" by (auto simp: segment_separator_def Let_def split: if_splits)
  then obtain s where s: "encodes s (sep, cs)" using encodes_exists [of cs sep] cs by (auto simp: run_ok_def)
  have txeq: "segments_text a @ r = segments_text (b @ [(sep, cs)]) @ mark_of d # r" using ab(1) by (simp add: mark_of_simps)
  obtain du1 where du1: "note_all du (marks (b @ [(sep, cs)])) = Some du1" "note_separator du1 (mark_of d) = Some du'"
    using du ab(1) by (cases d) (auto simp: note_all_append mark_of_def split: option.splits)
  have bs: "list_all2 encodes (sb @ [s]) (b @ [(sep, cs)])" using s'(2) s by (simp add: list_all2_appendI)
  obtain m where m: "version_part_parser ns comps segs (segments_text a @ r) du
      = part_loop (Suc m) ns (comps @ components_of (b @ [(sep, cs)])) (segs @ sb @ [s]) (mark_of d # r) du1"
    using part_body [OF ns ab(2) bs du1(1), of "mark_of d # r" comps segs] separator_not_component [OF mark_of_simps(3) [of d], of r] txeq by auto
  have len: "unat (segment_len s) = length cs" using s by (simp add: encodes_def)
  then have "unat (segment_len s + 1) = length cs + 1" using ab(3) by (simp add: unat_word_ariths)
  then obtain s2 where s2: "segment_with_component_count s (segment_len s + 1) = Some s2"
    using with_component_count_None_iff [of s "segment_len s + 1"] ab(3) by (cases "segment_with_component_count s (segment_len s + 1)") auto
  have "s2 = s'" using encodes_unique [OF encodes_longer(1) [OF s _ s2] s'(3)] cs len ab(3) by (simp add: run_ok_def)
  then have "part_end (comps @ components_of (b @ [(sep, cs)])) (segs @ sb @ [s]) (mark_of d # r) du' (mark_of d) r
      = Done (Inr (r, du', comps @ components_of a, segs @ ss))"
    using trailing_none [of r du'] r s2 len ab s'(1)
    by (cases d) (auto simp: part_end_def ends_part_def Let_def mark_of_def butlast_append)
  then show ?thesis
    using m segment_parser_Error(1) [OF ns, of r] r du1(2) mark_of_simps(4) [of d] by (simp add: ends_part_def)
next
  fix b sep d
  assume ab: "a = b @ [(sep, [UnderscoreOrDash d])]" "body_ok b" "sep \<in> separators"
  obtain c where c: "sep = Some c" "c \<in> set ''-._''" using ab(3) by (auto simp: separators_def)
  from ss ab(1) obtain sb s' where s': "ss = sb @ [s']" "list_all2 encodes sb b" "encodes s' (sep, [UnderscoreOrDash d])"
    by (auto simp: list_all2_append2 list_all2_Cons2)
  have txeq: "segments_text a @ r = segments_text b @ c # mark_of d # r" using ab(1) c(1) by (simp add: mark_of_simps)
  obtain du1 du2 where du1: "note_all du (marks b) = Some du1" "note_separator du1 c = Some du2" "note_separator du2 (mark_of d) = Some du'"
    using du ab(1,3) c(1) by (cases d) (auto simp: note_all_append mark_of_def note_separator_marks split: option.splits)
  obtain m where m: "version_part_parser ns comps segs (segments_text a @ r) du
      = part_loop (Suc m) ns (comps @ components_of b) (segs @ sb) (c # mark_of d # r) du1"
    using part_body [OF ns ab(2) s'(2) du1(1), of "c # mark_of d # r" comps segs] separator_not_component [of c "mark_of d # r"] txeq ab(3) c(1) by auto
  obtain s where s: "segment_new 1 = Some s" using segment_new_1 by blast
  have "segment_with_separator (segment_with_implicit_default s True) (Some c) = Some s'"
    using with_separator_encodes [OF segment_new_1_implicit [OF s] s'(3)] ab(3) c(1) by simp
  moreover have "trailing_dash_underscore_parser (mark_of d # r) du2 = Inr (r, Some (UnderscoreOrDash d), du')"
    using du1(3) by (cases d) (auto simp: trailing_dash_underscore_parser_def mark_of_def)
  ultimately have "part_end (comps @ components_of b) (segs @ sb) (c # mark_of d # r) du2 c (mark_of d # r)
      = Done (Inr (r, du', comps @ components_of a, segs @ ss))"
    using s ab(1) s'(1) by (simp add: part_end_def)
  then show ?thesis
    using m segment_parser_Error(1) [OF ns separator_not_component [OF mark_of_simps(3)]] du1(2) c(2) by simp
qed

end
