(* ===== verification/Version_Literal.thy ===== *)
theory Version_Literal
  imports Version_Syntax
begin

text \<open>
  Version literals: the abstract syntax with epoch, release and local part, the versions that represent it, and
  the parser and the printer as inverse functions.
\<close>

section \<open>Versions\<close>

text \<open>A version literal: an epoch, the release part and the local part.\<close>

record version_syntax =
  vs_epoch :: "u64 option"
  vs_release :: syntax_part
  vs_local :: "syntax_part option"

definition local_part :: "version_syntax \<Rightarrow> syntax_part" where
  "local_part x = (case vs_local x of None \<Rightarrow> [] | Some l \<Rightarrow> l)"

definition syntax_ok :: "version_syntax \<Rightarrow> bool" where
  "syntax_ok x \<longleftrightarrow> literal_part (vs_release x) \<and> (\<forall>l. vs_local x = Some l \<longrightarrow> literal_part l \<and> length (vs_release x) \<le> 127)
     \<and> note_all None (marks (vs_release x) @ marks (local_part x)) \<noteq> None"

definition syntax_text :: "version_syntax \<Rightarrow> string" where
  "syntax_text x = (case vs_epoch x of None \<Rightarrow> [] | Some e \<Rightarrow> show_nat (unat e) @ ''!'') @ segments_text (vs_release x)
     @ (case vs_local x of None \<Rightarrow> [] | Some l \<Rightarrow> CHR ''+'' # segments_text l)"

definition epoch_components :: "u64 option \<Rightarrow> component list" where
  "epoch_components e = (case e of None \<Rightarrow> [] | Some n \<Rightarrow> [Numeral n])"

definition represents :: "version \<Rightarrow> version_syntax \<Rightarrow> bool" where
  "represents v x \<longleftrightarrow>
     v_components v = epoch_components (vs_epoch x) @ components_of (vs_release x) @ components_of (local_part x)
     \<and> list_all2 encodes (v_segments v) (vs_release x @ local_part x)
     \<and> has_epoch v = (vs_epoch x \<noteq> None)
     \<and> unat (flags_local_segment_index (v_flags v)) = (if vs_local x = None then 0 else length (vs_release x))"

lemma flags_fields_determine:
  assumes "flags_has_epoch f = flags_has_epoch g" "flags_local_segment_index f = flags_local_segment_index g"
  shows "f = g"
proof -
  have "flags_word f = flags_word g"
  proof (rule bit_word_eqI)
    fix n assume n: "n < LENGTH(8)"
    show "bit (flags_word f) n = bit (flags_word g) n"
    proof (cases n)
      case 0
      then show ?thesis using assms(1) by (simp add: bit_epoch)
    next
      case (Suc m)
      have "bit (drop_bit 1 (flags_word h) AND mask 7) m \<longleftrightarrow> bit (flags_word h) n" for h
        using n Suc by (auto simp: bit_simps)
      then show ?thesis
        using assms(2) unfolding flags_local_segment_index_def offsets flags_masks by metis
    qed
  qed
  then show ?thesis by (cases f; cases g) simp
qed

lemma represents_unique:
  assumes "represents v x" "represents w x"
  shows "v = w"
proof -
  have "list_all2 (=) (v_segments v) (v_segments w)"
    using assms encodes_unique unfolding represents_def list_all2_conv_all_nth by (metis (no_types, lifting))
  then have "v_segments v = v_segments w" by (simp add: list_all2_eq)
  moreover have "v_flags v = v_flags w"
    using assms by (intro flags_fields_determine) (simp_all add: represents_def has_epoch_def word_unat_eq_iff)
  ultimately show ?thesis using assms by (simp add: represents_def)
qed


subsection \<open>Printing\<close>

lemma slice_middle: "slice (pre @ xs @ post) (length pre) (length xs) = xs"
  by (simp add: slice_def)

lemma segment_display_encodes:
  assumes "encodes s (sep, cs)" "v_components v = pre @ cs @ post"
  shows "segment_display \<lparr>si_segment = s, si_offset = length pre, si_version = v\<rparr> = (case sep of None \<Rightarrow> [] | Some c \<Rightarrow> [c]) @ run_text cs"
  using assms slice_middle [of pre cs post]
  by (auto simp: segment_display_def si_separator_def si_has_implicit_default_def si_components_def encodes_def run_text_def
      split: option.splits)

lemma segment_iters_display:
  assumes "list_all2 encodes ss a" "v_components v = pre @ components_of a @ post"
  shows "concat (map segment_display (segment_iters v (length pre) ss)) = segments_text a"
  using assms
proof (induction arbitrary: pre rule: list_all2_induct)
  case (Cons s ss p a)
  obtain sep cs where p: "p = (sep, cs)" by (cases p)
  then have "v_components v = (pre @ cs) @ components_of a @ post" using Cons.prems by simp
  from Cons.IH [OF this] show ?case
    using segment_display_encodes [of s sep cs v pre "components_of a @ post"] Cons p by (simp add: encodes_def)
qed simp

lemma encodes_total_len: "list_all2 encodes ss a \<Longrightarrow> total_len ss = length (components_of a)"
  by (induction rule: list_all2_induct) (auto simp: total_len_def encodes_def components_of_def)

lemma represents_local_index: "represents v x \<Longrightarrow> literal_part (vs_release x) \<Longrightarrow>
    local_segment_index v = (if vs_local x = None then None else Some (length (vs_release x)))"
  by (auto simp: local_segment_index_def represents_def literal_part_def body_ok_def word_gt_0 unat_eq_0 Let_def split: if_splits)

lemma version_display_represents:
  assumes "represents v x" "literal_part (vs_release x)"
  shows "version_display v = syntax_text x"
proof -
  let ?e = "epoch_components (vs_epoch x)" and ?r = "vs_release x" and ?l = "local_part x"
  have v: "v_components v = ?e @ components_of ?r @ components_of ?l" and he: "has_epoch v = (vs_epoch x \<noteq> None)"
    using assms(1) by (simp_all add: represents_def)
  from assms(1) obtain rs ls where ss: "v_segments v = rs @ ls" "list_all2 encodes rs ?r" "list_all2 encodes ls ?l"
    unfolding represents_def by (auto simp: list_all2_append2)
  have len: "length rs = length ?r" using ss(2) by (rule list_all2_lengthD)
  have idx: "of_bool (has_epoch v) = length ?e" using he by (auto simp: epoch_components_def split: option.splits)
  have ep: "epoch_opt v = vs_epoch x" using v he by (auto simp: epoch_opt_def epoch_components_def nth_default_def split: option.splits)
  note li = represents_local_index [OF assms]
  have "vs_local x = None \<Longrightarrow> ls = []" using ss(3) by (simp add: local_part_def)
  then have "release_segments v = segment_iters v (length ?e) rs"
    using li ss(1) len idx by (auto simp: release_segments_def)
  then have release: "concat (map segment_display (release_segments v)) = segments_text ?r"
    using segment_iters_display [OF ss(2) v] by simp
  have local: "concat (map segment_display (local_segments v)) = segments_text l" if "vs_local x = Some l" for l
  proof -
    have "local_segments v = segment_iters v (length (?e @ components_of ?r)) ls"
      using li that ss(1) len idx encodes_total_len [OF ss(2)] by (simp add: local_segments_def total_len_def)
    moreover have "?l = l" using that by (simp add: local_part_def)
    ultimately show ?thesis using segment_iters_display [OF ss(3), of v "?e @ components_of ?r" "[]"] v by simp
  qed
  have "has_local v = (vs_local x \<noteq> None)" using li by (auto simp: has_local_def local_segment_index_def Let_def split: if_splits)
  then show ?thesis using release local ep
    by (auto simp: version_display_def segment_formatter_def syntax_text_def split: option.splits)
qed

lemma represents_ok:
  assumes "represents v x" "syntax_ok x"
  shows "version_ok v"
proof -
  have parts: "vs_release x \<noteq> []" "\<And>l. vs_local x = Some l \<Longrightarrow> l \<noteq> []"
    using assms(2) by (auto simp: syntax_ok_def literal_part_def body_ok_def)
  have "length (v_segments v) = length (vs_release x) + length (local_part x)"
    using assms(1) list_all2_lengthD by (fastforce simp: represents_def)
  moreover have "total_len (v_segments v) = length (components_of (vs_release x @ local_part x))"
    using assms(1) encodes_total_len [of "v_segments v" "vs_release x @ local_part x"] by (simp add: represents_def)
  ultimately show ?thesis using assms(1) parts
    by (auto simp: version_ok_def represents_def epoch_components_def local_part_def is_numeric_def split: option.splits)
qed


subsection \<open>Parsing\<close>

lemma version_parser_Inr:
  assumes "scanner_laws ns" "version_parser ns s = Some (Done (Inr (r, v)))"
  shows "\<exists>x. syntax_ok x \<and> represents v x"
proof -
  obtain e input fl where first: "(case epoch_parser ns s of
        Inl (Nom_Failure e) \<Rightarrow> Inl (Nom_Failure e)
      | Inl (Nom_Error _) \<Rightarrow> Inr (s, [], flags_default)
      | Inr (rest, ep) \<Rightarrow> Inr (rest, [Numeral ep], flags_with_has_epoch flags_default True))
      = (Inr (input, epoch_components e, fl) :: parse_version_error_kind nom_err + _)"
    and fl: "flags_has_epoch fl = (e \<noteq> None)" "flags_local_segment_index fl = 0"
  proof -
    show ?thesis
    proof (cases "epoch_parser ns s")
      case (Inl err)
      then show ?thesis using assms(2) that [of s None flags_default]
        by (cases err) (auto simp: version_parser_def epoch_components_def bits_simps split: if_splits)
    next
      case (Inr p)
      then show ?thesis using that [of "fst p" "Some (snd p)" "flags_with_has_epoch flags_default True"]
        by (cases p) (auto simp: epoch_components_def bits_simps)
    qed
  qed
  have ne: "s \<noteq> []" using assms(2) by (auto simp: version_parser_def)
  obtain x where x: "version_part_parser ns (epoch_components e) [] input None = Some (Done x)"
    using version_part_parser_total [OF assms(1)] by blast
  obtain rest du comps segs where xr: "x = Inr (rest, du, comps, segs)"
    using assms(2) ne first x by (cases x) (auto simp: version_parser_def)
  from version_part_parser_Inr [OF assms(1) x [unfolded xr]] obtain a where a: "literal_part a" "part_read (epoch_components e) [] None a comps segs du" by blast
  then obtain ss where ss: "segs = ss" "list_all2 encodes ss a" "comps = epoch_components e @ components_of a" "note_all None (marks a) = Some du"
    by (auto simp: part_read_def)
  show ?thesis
  proof (cases "strip_prefix ''+'' rest")
    case None
    then have v: "v = \<lparr>v_components = comps, v_segments = segs, v_flags = fl\<rparr>"
      using assms(2) ne first x xr by (auto simp: version_parser_def)
    let ?x = "\<lparr>vs_epoch = e, vs_release = a, vs_local = None\<rparr>"
    have "syntax_ok ?x" using a(1) ss(4) by (simp add: syntax_ok_def local_part_def)
    moreover have "represents v ?x" using v ss fl by (simp add: represents_def local_part_def has_epoch_def)
    ultimately show ?thesis by blast
  next
    case (Some l)
    obtain fl' where fl': "local_index_flags fl (length segs) = Some fl'"
      using assms(2) ne first x xr Some by (cases "local_index_flags fl (length segs)") (auto simp: version_parser_def)
    obtain y where y: "version_part_parser ns comps segs l du = Some (Done y)"
      using version_part_parser_total [OF assms(1)] by blast
    obtain rest' du' comps' segs' where yr: "y = Inr (rest', du', comps', segs')"
      using assms(2) ne first x xr Some fl' y by (cases y) (auto simp: version_parser_def)
    have v: "v = \<lparr>v_components = comps', v_segments = segs', v_flags = fl'\<rparr>"
      using assms(2) ne first x xr Some fl' y yr by (auto simp: version_parser_def)
    from version_part_parser_Inr [OF assms(1) y [unfolded yr]] obtain b ls where b: "literal_part b" "segs' = segs @ ls" "list_all2 encodes ls b"
      "comps' = comps @ components_of b" "note_all du (marks b) = Some du'" by (auto simp: part_read_def)
    have len: "length segs = length a" using ss list_all2_lengthD by blast
    have "flags_with_local_segment_index fl (of_nat (length a)) = Some fl'" "length a < 2 ^ 8"
      using fl' len by (auto simp: local_index_flags_def split: if_splits)
    then have idx: "unat (flags_local_segment_index fl') = length a" "flags_has_epoch fl' = flags_has_epoch fl" "length a \<le> 127"
      using flags_with_local_segment_index_fields [of fl "of_nat (length a)" fl'] flags_local_segment_index_le [of fl']
      by (auto simp: unat_of_nat word_le_nat_alt)
    let ?x = "\<lparr>vs_epoch = e, vs_release = a, vs_local = Some b\<rparr>"
    have "syntax_ok ?x" using a(1) b(1,5) ss(4) idx(3) by (simp add: syntax_ok_def local_part_def note_all_append)
    moreover have "represents v ?x"
      using v ss b fl idx by (simp add: represents_def local_part_def has_epoch_def list_all2_appendI)
    ultimately show ?thesis by blast
  qed
qed

lemma run_text_chars: "c \<in> set (run_text cs) \<Longrightarrow> list_all (\<lambda>x. literal x \<or> (\<exists>d. x = UnderscoreOrDash d)) cs \<Longrightarrow>
    is_ascii_digit c \<or> is_alpha_char c \<or> c = CHR ''-'' \<or> c = CHR ''_''"
proof (induction cs)
  case (Cons x cs)
  then show ?case using component_display_kind(2) [of x]
    by (cases "literal x") (auto simp: list_all_iff kind_char_def mark_of_simps mark_of_def split: if_splits)
qed simp

definition marked_run :: "component list \<Rightarrow> bool" where
  "marked_run cs \<longleftrightarrow> cs \<noteq> [] \<and> length cs \<le> 8191 \<and> list_all (\<lambda>x. literal x \<or> (\<exists>d. x = UnderscoreOrDash d)) cs"

lemma body_ok_segment: "body_ok a \<Longrightarrow> (sep, cs) \<in> set a \<Longrightarrow> (sep = None \<or> sep \<in> separators) \<and> marked_run cs"
  using body_ok_run [of a sep cs] by (fastforce simp: body_ok_def tail_ok_def list_all_iff run_ok_def marked_run_def)

lemma literal_part_segment:
  assumes "literal_part a" "(sep, cs) \<in> set a"
  shows "(sep = None \<or> sep \<in> separators) \<and> marked_run cs"
  using assms(1) unfolding literal_part_def
proof (elim disjE exE conjE)
  fix b sep' cs' d
  assume a: "a = b @ [(sep', cs' @ [UnderscoreOrDash d])]" "body_ok (b @ [(sep', cs')])" "length cs' < 8191"
  show ?thesis
  proof (cases "(sep, cs) \<in> set b")
    case False
    then have "sep = sep'" "cs = cs' @ [UnderscoreOrDash d]" using assms(2) a(1) by auto
    then show ?thesis using body_ok_segment [OF a(2), of sep' cs'] a(3) by (simp add: marked_run_def)
  qed (use body_ok_segment [OF a(2), of sep cs] in simp)
next
  fix b sep' d
  assume "a = b @ [(sep', [UnderscoreOrDash d])]" "body_ok b" "sep' \<in> separators"
  then show ?thesis using assms(2) body_ok_segment [of b sep cs] by (auto simp: marked_run_def)
qed (rule body_ok_segment [OF _ assms(2)])

lemma bang_not_in_part: "literal_part a \<Longrightarrow> CHR ''!'' \<notin> set (segments_text a)"
proof
  assume a: "literal_part a" "CHR ''!'' \<in> set (segments_text a)"
  then obtain sep cs where p: "(sep, cs) \<in> set a" and "CHR ''!'' \<in> set (case sep of None \<Rightarrow> [] | Some c \<Rightarrow> [c]) \<or> CHR ''!'' \<in> set (run_text cs)"
    by (auto simp: segments_text_def)
  then have "CHR ''!'' \<in> set (run_text cs)" using literal_part_segment [OF a(1) p] by (cases sep) (auto simp: separators_def)
  from run_text_chars [OF this literal_part_segment [OF a(1) p, unfolded marked_run_def, THEN conjunct2, THEN conjunct2, THEN conjunct2]] show False
    by (simp add: is_ascii_digit_def is_alpha_char_def is_ascii_lowercase_def is_ascii_uppercase_def)
qed


lemma part_text_start:
  assumes "literal_part a"
  shows "component_start (segments_text a @ r)"
proof -
  obtain cs rest where "segments_text a = run_text cs @ rest" "run_ok cs"
    using assms unfolding literal_part_def body_ok_def
  proof (elim disjE exE conjE)
    fix b sep cs d cs' b'
    assume a: "a = b @ [(sep, cs @ [UnderscoreOrDash d])]" "b @ [(sep, cs)] = (None, cs') # b'" "run_ok cs'"
    then show thesis using that [of cs' "segments_text (tl b) @ (if b = [] then run_text [UnderscoreOrDash d] else segments_text [(sep, cs @ [UnderscoreOrDash d])])"]
      by (cases b) auto
  qed (auto intro: that)
  then show ?thesis using run_text_starts(2) [of cs "rest @ r"] by (simp add: run_ok_def)
qed

lemma epoch_parser_part:
  assumes "scanner_laws ns" "literal_part a" "\<not> component_start r" "\<not> starts (\<lambda>c. c = CHR ''!'') r"
  shows "\<exists>e. epoch_parser ns (segments_text a @ r) = Inl (Nom_Error e)"
proof (rule ccontr)
  assume "\<nexists>e. epoch_parser ns (segments_text a @ r) = Inl (Nom_Error e)"
  then obtain d rest where "scan_while1 is_ascii_digit (segments_text a @ r) = Some (CHR ''!'' # rest, d)"
    by (auto simp: epoch_parser_def digit1_law [OF assms(1)] split: option.splits list.splits if_splits)
  then have d: "segments_text a @ r = d @ CHR ''!'' # rest" "list_all is_ascii_digit d" by (auto simp: scan_while1_Some)
  then obtain us where "segments_text a = d @ us \<and> us @ r = CHR ''!'' # rest \<or> segments_text a @ us = d \<and> r = us @ CHR ''!'' # rest"
    by (auto simp: append_eq_append_conv2)
  then show False
    using bang_not_in_part [OF assms(2)] assms(3,4) d(2) by (cases us) (auto simp: component_start_def)
qed

definition ends_version :: "string \<Rightarrow> bool" where
  "ends_version r \<longleftrightarrow> ends_part r \<and> \<not> starts (\<lambda>c. c = CHR ''!'' \<or> c = CHR ''+'') r"

lemma version_parser_text:
  assumes ns: "scanner_laws ns" and x: "syntax_ok x" "represents v x" and r: "ends_version r"
  shows "version_parser ns (syntax_text x @ r) = Some (Done (Inr (r, v)))"
proof -
  let ?a = "vs_release x" and ?tail = "(case vs_local x of None \<Rightarrow> [] | Some l \<Rightarrow> CHR ''+'' # segments_text l) @ r"
  have a: "literal_part ?a" using x(1) by (simp add: syntax_ok_def)
  from x(2) obtain rs ls where ss: "v_segments v = rs @ ls" "list_all2 encodes rs ?a" "list_all2 encodes ls (local_part x)"
    unfolding represents_def by (auto simp: list_all2_append2)
  obtain du du' where du: "note_all None (marks ?a) = Some du" "note_all du (marks (local_part x)) = Some du'"
    using x(1) by (auto simp: syntax_ok_def note_all_append split: option.splits)
  let ?fl = "if vs_epoch x = None then flags_default else flags_with_has_epoch flags_default True"
  have tail: "ends_part ?tail" "\<not> component_start ?tail" "\<not> starts (\<lambda>c. c = CHR ''!'') ?tail"
    using r by (cases "vs_local x"; cases r; auto simp: ends_version_def ends_part_def component_start_def is_ascii_digit_def is_alpha_char_def
        is_ascii_lowercase_def is_ascii_uppercase_def)+
  have first: "(case epoch_parser ns (syntax_text x @ r) of
        Inl (Nom_Failure e) \<Rightarrow> Inl (Nom_Failure e)
      | Inl (Nom_Error _) \<Rightarrow> Inr (syntax_text x @ r, [], flags_default)
      | Inr (rest, ep) \<Rightarrow> Inr (rest, [Numeral ep], flags_with_has_epoch flags_default True))
      = (Inr (segments_text ?a @ ?tail, epoch_components (vs_epoch x), ?fl) :: parse_version_error_kind nom_err + _)"
  proof (cases "vs_epoch x")
    case None
    then show ?thesis using epoch_parser_part [OF ns a tail(2,3)] by (auto simp: syntax_text_def epoch_components_def)
  next
    case (Some e)
    have "scan_while1 is_ascii_digit (show_nat (unat e) @ CHR ''!'' # segments_text ?a @ ?tail) = Some (CHR ''!'' # segments_text ?a @ ?tail, show_nat (unat e))"
      by (rule numeral_display_scan) (simp add: is_ascii_digit_def)
    then show ?thesis using Some parse_u64_show_nat [of e]
      by (simp add: epoch_parser_def digit1_law [OF ns] syntax_text_def epoch_components_def)
  qed
  have ne: "syntax_text x @ r \<noteq> []"
    using part_text_start [OF a, of ?tail] by (cases "vs_epoch x") (auto simp: syntax_text_def component_start_def starts_def)
  have release: "version_part_parser ns (epoch_components (vs_epoch x)) [] (segments_text ?a @ ?tail) None
      = Some (Done (Inr (?tail, du, epoch_components (vs_epoch x) @ components_of ?a, [] @ rs)))"
    by (rule version_part_parser_text [OF ns a ss(2) du(1) tail(1)])
  have fl: "flags_has_epoch ?fl = (vs_epoch x \<noteq> None)" "flags_local_segment_index ?fl = 0" by (simp_all add: bits_simps)
  show ?thesis
  proof (cases "vs_local x")
    case None
    then have w: "represents \<lparr>v_components = epoch_components (vs_epoch x) @ components_of ?a, v_segments = rs, v_flags = ?fl\<rparr> x"
      using ss fl by (simp add: represents_def local_part_def has_epoch_def)
    have "strip_prefix ''+'' r = None" using r by (cases r) (auto simp: ends_version_def)
    then show ?thesis using ne first release None represents_unique [OF x(2) w] by (simp add: version_parser_def)
  next
    case (Some l)
    then have l: "literal_part l" "local_part x = l" "length ?a \<le> 127" using x(1) by (auto simp: syntax_ok_def local_part_def)
    have len: "length rs = length ?a" using ss(2) by (rule list_all2_lengthD)
    have idx: "unat (of_nat (length ?a) :: u8) = length ?a" using l(3) by (simp add: unat_of_nat)
    then obtain fl' where fl': "flags_with_local_segment_index ?fl (of_nat (length ?a)) = Some fl'"
      using flags_with_local_segment_index_None_iff [of ?fl "of_nat (length ?a)"] l(3)
      by (cases "flags_with_local_segment_index ?fl (of_nat (length ?a))") (auto simp: word_less_nat_alt)
    have lif: "local_index_flags ?fl (length rs) = Some fl'" using fl' len l(3) by (simp add: local_index_flags_def)
    have "represents \<lparr>v_components = (epoch_components (vs_epoch x) @ components_of ?a) @ components_of l, v_segments = rs @ ls, v_flags = fl'\<rparr> x"
      using ss l(2) Some idx fl(1) flags_with_local_segment_index_fields [OF fl']
      by (simp add: represents_def has_epoch_def list_all2_appendI)
    note eq = represents_unique [OF x(2) this]
    have "version_part_parser ns (epoch_components (vs_epoch x) @ components_of ?a) rs (segments_text l @ r) du
        = Some (Done (Inr (r, du', (epoch_components (vs_epoch x) @ components_of ?a) @ components_of l, rs @ ls)))"
      using ss(3) du(2) l r by (intro version_part_parser_text [OF ns]) (simp_all add: ends_version_def)
    then show ?thesis using ne first release Some lif eq by (simp add: version_parser_def)
  qed
qed

section \<open>Round trip\<close>

lemma part_encodes:
  assumes "literal_part a"
  shows "\<exists>ss. list_all2 encodes ss a"
proof -
  have "\<exists>s. encodes s p" if "p \<in> set a" for p
  proof -
    obtain sep cs where p: "p = (sep, cs)" by (cases p)
    then have "(sep = None \<or> sep \<in> separators) \<and> marked_run cs" using literal_part_segment [OF assms] that by blast
    then show ?thesis using encodes_exists [of cs sep] p by (auto simp: separators_def marked_run_def)
  qed
  then obtain f where "\<forall>p \<in> set a. encodes (f p) p" by metis
  then have "list_all2 encodes (map f a) a" by (simp add: list_all2_conv_all_nth)
  then show ?thesis ..
qed

lemma represents_exists:
  assumes "syntax_ok x"
  shows "\<exists>v. represents v x"
proof -
  obtain rs where rs: "list_all2 encodes rs (vs_release x)" using assms part_encodes by (auto simp: syntax_ok_def)
  obtain ls where ls: "list_all2 encodes ls (local_part x)"
    using assms part_encodes by (cases "vs_local x") (auto simp: syntax_ok_def local_part_def)
  let ?fl = "flags_with_has_epoch flags_default (vs_epoch x \<noteq> None)"
  let ?n = "if vs_local x = None then 0 else length (vs_release x)"
  have n: "unat (of_nat ?n :: u8) = ?n" "?n \<le> 127" using assms by (auto simp: syntax_ok_def unat_of_nat)
  then obtain fl where fl: "flags_with_local_segment_index ?fl (of_nat ?n) = Some fl"
    using flags_with_local_segment_index_None_iff [of ?fl "of_nat ?n"]
    by (cases "flags_with_local_segment_index ?fl (of_nat ?n)") (auto simp: word_less_nat_alt)
  have "represents \<lparr>v_components = epoch_components (vs_epoch x) @ components_of (vs_release x) @ components_of (local_part x),
      v_segments = rs @ ls, v_flags = fl\<rparr> x"
    using rs ls n flags_with_local_segment_index_fields [OF fl]
    by (auto simp: represents_def has_epoch_def list_all2_appendI bits_simps)
  then show ?thesis ..
qed

lemma ends_version_Nil: "ends_version []"
  by (simp add: ends_version_def ends_part_def component_start_def)

lemma version_from_str_text:
  assumes "scanner_laws ns" "syntax_ok x" "represents v x"
  shows "version_from_str ns (syntax_text x) = Some (Done (Inr v))"
  using version_parser_text [OF assms ends_version_Nil] by (simp add: version_from_str_def)

lemma version_from_str_Inr:
  assumes "scanner_laws ns" "version_from_str ns s = Some (Done (Inr v))"
  shows "\<exists>x. syntax_ok x \<and> represents v x"
proof -
  from version_parser_total [OF assms(1), of s] obtain x where x: "version_parser ns s = Some (Done x)" ..
  then obtain r where "x = Inr (r, v)"
    using assms(2) by (cases x) (auto simp: version_from_str_def split: nom_err.splits if_splits)
  then show ?thesis using version_parser_Inr [OF assms(1)] x by blast
qed

text \<open>Parsing ends on every text and never panics.\<close>

lemma version_parse_total:
  assumes "scanner_laws ns"
  shows "\<exists>r. version_from_str ns s = Some (Done r)"
  using version_parser_total [OF assms, of s] by (auto simp: version_from_str_def)

lemma ascii_scanner_laws: "scanner_laws ascii_scanners"
  by (simp add: scanner_laws_def ascii_scanners_def takes_digits_def takes_alphas_def scan_while1_def)

text \<open>
  C16. With the documented behaviour of the two scanners, parsing a version ends on every text, with a version or an
  error, and never panics; and parsing and printing versions are inverse. A parsed version is well-formed, and
  printing it gives a text that parses to the same version. Every literal in normal form is accepted, as the version
  with exactly its epoch, segments, separators and components, and is printed as it was written. (In normal form,
  numbers are below \<open>2 ^ 64\<close> without leading zeros, words are in lower case, dashes and underscores are
  not mixed, a segment has at most 8191 components and 127 segments at most come before a local part.)
\<close>

theorem version_round_trip:
  assumes "scanner_laws ns"
  shows "(\<forall>s. \<exists>r. version_from_str ns s = Some (Done r))
    \<and> (\<forall>s v. version_from_str ns s = Some (Done (Inr v)) \<longrightarrow>
      version_ok v \<and> version_from_str ns (version_display v) = Some (Done (Inr v)))
    \<and> (\<forall>x. syntax_ok x \<longrightarrow> (\<exists>v. version_from_str ns (syntax_text x) = Some (Done (Inr v))
          \<and> represents v x \<and> version_display v = syntax_text x))"
proof (intro conjI allI impI version_parse_total [OF assms])
  fix s v assume "version_from_str ns s = Some (Done (Inr v))"
  from version_from_str_Inr [OF assms this] obtain x where x: "syntax_ok x" "represents v x" by blast
  then show "version_ok v" by (intro represents_ok)
  have "version_display v = syntax_text x" using x version_display_represents by (simp add: syntax_ok_def)
  then show "version_from_str ns (version_display v) = Some (Done (Inr v))" using version_from_str_text [OF assms x] by simp
next
  fix x assume x: "syntax_ok x"
  from represents_exists [OF x] obtain v where v: "represents v x" ..
  then show "\<exists>v. version_from_str ns (syntax_text x) = Some (Done (Inr v)) \<and> represents v x \<and> version_display v = syntax_text x"
    using version_from_str_text [OF assms x v] version_display_represents [OF v] x by (auto simp: syntax_ok_def)
qed

text \<open>The literal \<open>1!2.0rc1--+x\<close>, with a mark behind the last separator of its release.\<close>

definition sample_literal :: version_syntax where
  "sample_literal = \<lparr>vs_epoch = Some 1,
     vs_release = [(None, [Numeral 2]), (Some CHR ''.'', [Numeral 0, Iden ''rc'', Numeral 1]), (Some CHR ''-'', [UnderscoreOrDash True])],
     vs_local = Some [(None, [Iden ''x''])]\<rparr>"

theorem version_round_trip_witness:
  "\<exists>v. version_from_str ascii_scanners ''1!2.0rc1--+x'' = Some (Done (Inr v)) \<and> version_ok v \<and> version_display v = ''1!2.0rc1--+x''"
proof -
  have "syntax_text sample_literal = ''1!2.0rc1--+x''" by code_simp
  moreover have "syntax_ok sample_literal"
  proof -
    have "literal_part (vs_release sample_literal)"
      unfolding literal_part_def
      by (rule disjI2, rule disjI2, rule exI [of _ "[(None, [Numeral 2]), (Some CHR ''.'', [Numeral 0, Iden ''rc'', Numeral 1])]"])
        (auto simp: sample_literal_def body_ok_def tail_ok_def run_ok_def separators_def is_numeric_def is_ascii_lowercase_def)
    moreover have "literal_part [(None, [Iden ''x''])]"
      by (simp add: literal_part_def body_ok_def tail_ok_def run_ok_def is_ascii_lowercase_def)
    moreover have "note_all None (marks (vs_release sample_literal) @ marks (local_part sample_literal)) \<noteq> None" by code_simp
    ultimately show ?thesis by (simp add: syntax_ok_def) (simp add: sample_literal_def)
  qed
  ultimately show ?thesis using version_round_trip [OF ascii_scanner_laws] by metis
qed

end
