(* ===== verification/Version_Order.thy ===== *)
theory Version_Order
  imports Version_Model
begin

text \<open>
  Equality, order and hashing of versions. A list of segments is read as an infinite grid of
  components padded with the numeral 0 (\<open>grid\<close>); equality of versions is equality of their
  grids, the order is decided at the first position, row by row, where the grids differ, and the
  hash depends on the grids only. The laws of \<open>Ord::cmp\<close> follow from the locale of the
  prelude by interpretation.
\<close>

section \<open>The padded grid of a segment list\<close>

definition grid :: "component list list \<Rightarrow> nat \<Rightarrow> nat \<Rightarrow> component" where
  "grid css i j = nth_default (Numeral 0) (nth_default [] css i) j"

definition view :: "segment_iter list \<Rightarrow> nat \<Rightarrow> nat \<Rightarrow> component" where
  "view ss = grid (map si_components ss)"

fun width :: "component list list \<Rightarrow> nat" where
  "width [] = 0"
| "width (cs # css) = max (length cs) (width css)"

lemma width_ge: "cs \<in> set css \<Longrightarrow> length cs \<le> width css"
  by (induction css) auto

lemma grid_beyond:
  "length css \<le> i \<Longrightarrow> grid css i j = Numeral 0"
  "width css \<le> j \<Longrightarrow> grid css i j = Numeral 0"
proof -
  show "length css \<le> i \<Longrightarrow> grid css i j = Numeral 0"
    by (simp add: grid_def nth_default_beyond nth_default_def)
  assume "width css \<le> j"
  moreover have "length (nth_default [] css i) \<le> width css"
    by (cases "i < length css") (auto simp: nth_default_def width_ge)
  ultimately show "grid css i j = Numeral 0"
    by (auto simp: grid_def intro!: nth_default_beyond)
qed

lemma si_components_raw:
  "si_components si = (if fst (raw_components si) then [Numeral 0] else []) @ snd (raw_components si)"
  by (simp add: si_components_def raw_components_def)

lemma component_at_si_components:
  "component_at (fst (raw_components si)) (snd (raw_components si)) j =
     nth_default (Numeral 0) (si_components si) j"
  by (auto simp: si_components_raw component_at_def default_component_def split: nat.splits)

lemma component_at_option:
  "component_at (fst (opt_raw_components (nth_option ss i))) (snd (opt_raw_components (nth_option ss i))) j
     = view ss i j"
proof (cases "i < length ss")
  case True
  then show ?thesis
    by (simp add: nth_option_def opt_raw_components_def component_at_si_components view_def grid_def
        nth_default_nth)
next
  case False
  then show ?thesis
    by (simp add: nth_option_def opt_raw_components_def view_def grid_def nth_default_beyond
        component_at_def default_component_def)
qed

lemma opt_raw_len:
  "length (snd (opt_raw_components (nth_option ss i))) + of_bool (fst (opt_raw_components (nth_option ss i)))
     = length (nth_default [] (map si_components ss) i)"
  by (cases "i < length ss")
    (auto simp: nth_option_def opt_raw_components_def nth_default_def si_components_raw)

lemma compare_segment_pair_view:
  assumes "width (map si_components as) \<le> N" and "width (map si_components bs) \<le> N"
  shows "compare_segment_pair (nth_option as i, nth_option bs i) =
     first_non_equal (map (\<lambda>j. component_cmp (view as i j) (view bs i j)) [0..<N])"
proof -
  let ?la = "length (nth_default [] (map si_components as) i)"
  let ?lb = "length (nth_default [] (map si_components bs) i)"
  have eq: "compare_segment_pair (nth_option as i, nth_option bs i) =
      first_non_equal (map (\<lambda>j. component_cmp (view as i j) (view bs i j)) [0..<max ?la ?lb])"
    by (simp add: compare_segment_pair_def case_prod_unfold Let_def component_at_option opt_raw_len)
  have len: "length (nth_default [] css i) \<le> width css" for css :: "component list list"
    by (cases "i < length css") (auto simp: nth_default_def width_ge)
  have "max ?la ?lb \<le> N" using assms len [of "map si_components as"] len [of "map si_components bs"] by simp
  moreover have "component_cmp (view as i j) (view bs i j) = Ord_Equal" if "max ?la ?lb \<le> j" for j
    using that by (simp add: view_def grid_def nth_default_beyond)
  ultimately show ?thesis
    unfolding eq by (intro first_non_equal_extend [symmetric]) auto
qed

lemma compare_segments_view:
  assumes "length as \<le> M" "length bs \<le> M"
    and "width (map si_components as) \<le> N" "width (map si_components bs) \<le> N"
  shows "compare_segments as bs = lex_on [0..<M] (lex_on [0..<N] component_cmp) (view as) (view bs)"
proof -
  have "compare_segments as bs = first_non_equal (map compare_segment_pair
      (map both_options (zip_longest as bs)))"
    by (simp add: compare_segments_def comp_def)
  also have "\<dots> = first_non_equal (map (\<lambda>i. lex_on [0..<N] component_cmp (view as i) (view bs i))
      [0..<max (length as) (length bs)])"
    by (simp add: zip_longest_options comp_def compare_segment_pair_view [OF assms(3,4)] lex_on_def)
  also have "\<dots> = first_non_equal (map (\<lambda>i. lex_on [0..<N] component_cmp (view as i) (view bs i)) [0..<M])"
    using assms(1,2)
    by (intro first_non_equal_extend [symmetric])
      (auto simp: lex_on_def view_def grid_beyond first_non_equal_Equal_iff)
  finally show ?thesis by (simp add: lex_on_def)
qed

section \<open>The component order\<close>

text \<open>A rank and a key decide every comparison: \<open>dev\<close> below separators below text below numbers below
  \<open>post\<close>.\<close>

fun component_rank :: "component \<Rightarrow> nat" where
  "component_rank Dev = 0"
| "component_rank (UnderscoreOrDash _) = 1"
| "component_rank (Iden _) = 2"
| "component_rank (Numeral _) = 3"
| "component_rank Post = 4"

definition iden_key :: "component \<Rightarrow> string" where
  "iden_key c = (case c of Iden s \<Rightarrow> s | _ \<Rightarrow> [])"

definition numeral_key :: "component \<Rightarrow> u64" where
  "numeral_key c = (case c of Numeral n \<Rightarrow> n | _ \<Rightarrow> 0)"

lemma component_cmp_keys:
  "component_cmp c d = then_with (cmp_of (component_rank c) (component_rank d))
     (then_with (cmp_of (iden_key c) (iden_key d)) (cmp_of (numeral_key c) (numeral_key d)))"
  by (cases c; cases d)
    (simp_all add: iden_key_def numeral_key_def cmp_of_def)

lemma component_cmp_total_preorder: "total_preorder_cmp component_cmp"
proof -
  have "component_cmp = (\<lambda>c d. then_with (cmp_of (component_rank c) (component_rank d))
      (then_with (cmp_of (iden_key c) (iden_key d)) (cmp_of (numeral_key c) (numeral_key d))))"
    by (intro ext) (rule component_cmp_keys)
  moreover have "total_preorder_cmp (\<lambda>c d. then_with (cmp_of (component_rank c) (component_rank d))
      (then_with (cmp_of (iden_key c) (iden_key d)) (cmp_of (numeral_key c) (numeral_key d))))"
    by (rule then_with_total_preorder [OF cmp_of_key then_with_total_preorder [OF cmp_of_key cmp_of_key]])
  ultimately show ?thesis by simp
qed

interpretation component_ord: total_preorder_cmp component_cmp
  by (rule component_cmp_total_preorder)

section \<open>The version order\<close>

lemma compare_segments_total_preorder: "total_preorder_cmp compare_segments"
proof
  fix x y z :: "segment_iter list"
  let ?M = "length x + length y + length z"
  let ?N = "width (map si_components x) + width (map si_components y) + width (map si_components z)"
  note laws = lex_on_total_preorder [OF lex_on_total_preorder [OF component_cmp_total_preorder],
      of "[0..<?M]" "[0..<?N]"]
  have view: "compare_segments as bs = lex_on [0..<?M] (lex_on [0..<?N] component_cmp) (view as) (view bs)"
    if "as \<in> {x, y, z}" "bs \<in> {x, y, z}" for as bs
    using that by (intro compare_segments_view) auto
  show "compare_segments y x = rev_ordering (compare_segments x y)"
    unfolding view [of y x, simplified] view [of x y, simplified]
    by (rule total_preorder_cmp.cmp_rev [OF laws])
  assume "compare_segments x y \<noteq> Ord_Greater" "compare_segments y z \<noteq> Ord_Greater"
  then show "compare_segments x z \<noteq> Ord_Greater"
    unfolding view [of x y, simplified] view [of y z, simplified] view [of x z, simplified]
    by (rule total_preorder_cmp.cmp_trans [OF laws])
qed

interpretation segments_ord: total_preorder_cmp compare_segments
  by (rule compare_segments_total_preorder)

lemma version_cmp_total_preorder: "total_preorder_cmp version_cmp"
proof -
  have "version_cmp = (\<lambda>v w. then_with (cmp_of (epoch v) (epoch w))
       (then_with (compare_segments (release_segments v) (release_segments w))
         (compare_segments (local_segments v) (local_segments w))))"
    by (intro ext) (simp add: version_cmp_def)
  moreover have "total_preorder_cmp (\<lambda>v w. then_with (cmp_of (epoch v) (epoch w))
       (then_with (compare_segments (release_segments v) (release_segments w))
         (compare_segments (local_segments v) (local_segments w))))"
    by (rule then_with_total_preorder [OF cmp_of_key then_with_total_preorder
          [OF cmp_key_total_preorder [OF compare_segments_total_preorder]
              cmp_key_total_preorder [OF compare_segments_total_preorder]]])
  ultimately show ?thesis by simp
qed

interpretation version_ord: total_preorder_cmp version_cmp
  by (rule version_cmp_total_preorder)

lemma strict_version_cmp_total_preorder: "total_preorder_cmp strict_version_cmp"
proof -
  have "strict_version_cmp = (\<lambda>v w. then_with (version_cmp (strict_inner v) (strict_inner w))
     (cmp_of (length (v_components (strict_inner v))) (length (v_components (strict_inner w)))))"
    by (intro ext) (simp add: strict_version_cmp_def)
  moreover have "total_preorder_cmp (\<lambda>v w. then_with (version_cmp (strict_inner v) (strict_inner w))
     (cmp_of (length (v_components (strict_inner v))) (length (v_components (strict_inner w)))))"
    by (rule then_with_total_preorder [OF cmp_key_total_preorder [OF version_cmp_total_preorder] cmp_of_key])
  ultimately show ?thesis by simp
qed

interpretation strict_ord: total_preorder_cmp strict_version_cmp
  by (rule strict_version_cmp_total_preorder)

lemma vws_cmp_total_preorder: "total_preorder_cmp vws_cmp"
proof -
  have "vws_cmp = (\<lambda>v w. then_with (version_cmp (vws_version v) (vws_version w))
     (cmp_of (vws_as_str v) (vws_as_str w)))"
    by (intro ext) (simp add: vws_cmp_def)
  moreover have "total_preorder_cmp (\<lambda>v w. then_with (version_cmp (vws_version v) (vws_version w))
     (cmp_of (vws_as_str v) (vws_as_str w)))"
    by (rule then_with_total_preorder [OF cmp_key_total_preorder [OF version_cmp_total_preorder] cmp_of_key])
  ultimately show ?thesis by simp
qed

interpretation vws_ord: total_preorder_cmp vws_cmp
  by (rule vws_cmp_total_preorder)

subsection \<open>The first difference decides\<close>

lemma lex_on_position:
  assumes "r \<noteq> Ord_Equal"
  shows "lex_on [0..<n] c f g = r \<longleftrightarrow> (\<exists>i<n. c (f i) (g i) = r \<and> (\<forall>j<i. c (f j) (g j) = Ord_Equal))"
  unfolding lex_on_def first_non_equal_position [OF assms] by auto

lemma lex_on_Equal_iff: "lex_on [0..<n] c f g = Ord_Equal \<longleftrightarrow> (\<forall>i<n. c (f i) (g i) = Ord_Equal)"
  by (auto simp: lex_on_def first_non_equal_Equal_iff)

definition grid_before :: "nat \<times> nat \<Rightarrow> nat \<times> nat \<Rightarrow> bool" where
  "grid_before p q \<longleftrightarrow> fst p < fst q \<or> fst p = fst q \<and> snd p < snd q"

definition first_difference ::
  "ordering \<Rightarrow> (nat \<Rightarrow> nat \<Rightarrow> component) \<Rightarrow> (nat \<Rightarrow> nat \<Rightarrow> component) \<Rightarrow> bool" where
  "first_difference r A B \<longleftrightarrow> (\<exists>i j. component_cmp (A i j) (B i j) = r
     \<and> (\<forall>i' j'. grid_before (i', j') (i, j) \<longrightarrow> component_cmp (A i' j') (B i' j') = Ord_Equal))"

lemma compare_segments_Equal_iff:
  "compare_segments as bs = Ord_Equal \<longleftrightarrow> (\<forall>i j. component_cmp (view as i j) (view bs i j) = Ord_Equal)"
proof -
  let ?M = "max (length as) (length bs)"
  let ?N = "max (width (map si_components as)) (width (map si_components bs))"
  have "compare_segments as bs = Ord_Equal \<longleftrightarrow>
      (\<forall>i<?M. \<forall>j<?N. component_cmp (view as i j) (view bs i j) = Ord_Equal)"
    by (simp add: compare_segments_view [of as ?M bs ?N] lex_on_Equal_iff)
  also have "\<dots> \<longleftrightarrow> (\<forall>i j. component_cmp (view as i j) (view bs i j) = Ord_Equal)"
  proof -
    have "component_cmp (view as i j) (view bs i j) = Ord_Equal" if "\<not> (i < ?M \<and> j < ?N)" for i j
      using that grid_beyond [of "map si_components as"] grid_beyond [of "map si_components bs"]
      by (auto simp: view_def not_less)
    then show ?thesis by blast
  qed
  finally show ?thesis .
qed

lemma compare_segments_first_difference:
  assumes r: "r \<noteq> Ord_Equal"
  shows "compare_segments as bs = r \<longleftrightarrow> first_difference r (view as) (view bs)"
proof -
  let ?M = "max (length as) (length bs)"
  let ?N = "max (width (map si_components as)) (width (map si_components bs))"
  let ?c = "\<lambda>i j. component_cmp (view as i j) (view bs i j)"
  have pad: "?c i j = Ord_Equal" if "\<not> (i < ?M \<and> j < ?N)" for i j
    using that grid_beyond [of "map si_components as"] grid_beyond [of "map si_components bs"]
    by (auto simp: view_def not_less)
  have "compare_segments as bs = r \<longleftrightarrow> (\<exists>i<?M. (\<exists>j<?N. ?c i j = r \<and> (\<forall>j'<j. ?c i j' = Ord_Equal))
      \<and> (\<forall>i'<i. \<forall>j'<?N. ?c i' j' = Ord_Equal))"
    by (simp add: compare_segments_view [of as ?M bs ?N] lex_on_position [OF r] lex_on_Equal_iff)
  also have "\<dots> \<longleftrightarrow> (\<exists>i j. ?c i j = r \<and> (\<forall>j'<j. ?c i j' = Ord_Equal) \<and> (\<forall>i'<i. \<forall>j'. ?c i' j' = Ord_Equal))"
    (is "?L \<longleftrightarrow> ?R")
  proof
    assume ?L
    then obtain i j where ij: "?c i j = r" "\<forall>j'<j. ?c i j' = Ord_Equal"
      and "\<forall>i'<i. \<forall>j'<?N. ?c i' j' = Ord_Equal" by blast
    then have "\<forall>i'<i. \<forall>j'. ?c i' j' = Ord_Equal" using pad by blast
    with ij show ?R by blast
  next
    assume ?R
    then obtain i j where ij: "?c i j = r" "\<forall>j'<j. ?c i j' = Ord_Equal"
      "\<forall>i'<i. \<forall>j'. ?c i' j' = Ord_Equal" by blast
    moreover have "i < ?M \<and> j < ?N" using pad [of i j] ij(1) r by blast
    ultimately show ?L by blast
  qed
  also have "\<dots> \<longleftrightarrow> first_difference r (view as) (view bs)"
    unfolding first_difference_def grid_before_def fst_conv snd_conv
    by (intro ex_cong1 conj_cong refl) blast
  finally show ?thesis .
qed

section \<open>Equality and hashing\<close>

lemma segments_equal_view: "segments_equal as bs \<longleftrightarrow> view as = view bs"
proof -
  let ?n = "max (length as) (length bs)"
  have pair: "segment_pair_equal (nth_option as i, nth_option bs i) \<longleftrightarrow> view as i = view bs i" for i
  proof -
    let ?la = "length (nth_default [] (map si_components as) i)"
    let ?lb = "length (nth_default [] (map si_components bs) i)"
    have "segment_pair_equal (nth_option as i, nth_option bs i) \<longleftrightarrow>
        (\<forall>j < max ?la ?lb. view as i j = view bs i j)"
      by (simp add: segment_pair_equal_def case_prod_unfold Let_def component_at_option opt_raw_len list_all_iff)
        (auto simp: less_max_iff_disj)
    moreover have "view as i j = view bs i j" if "max ?la ?lb \<le> j" for j
      using that by (simp add: view_def grid_def nth_default_beyond)
    ultimately show ?thesis by (metis ext linorder_not_le)
  qed
  have "segments_equal as bs \<longleftrightarrow> list_all segment_pair_equal (map both_options (zip_longest as bs))"
    by (simp add: segments_equal_def list_all_iff)
  also have "\<dots> \<longleftrightarrow> (\<forall>i<?n. view as i = view bs i)"
    unfolding zip_longest_options by (simp add: list_all_iff pair) (auto simp: less_max_iff_disj)
  also have "\<dots> \<longleftrightarrow> view as = view bs"
  proof -
    have "view as i = view bs i" if "?n \<le> i" for i
      using that by (simp add: view_def fun_eq_iff grid_beyond)
    then show ?thesis by (metis ext linorder_not_le)
  qed
  finally show ?thesis .
qed

lemma version_eq_view:
  "version_eq v w \<longleftrightarrow> epoch v = epoch w \<and> view (release_segments v) = view (release_segments w)
     \<and> view (local_segments v) = view (local_segments w)"
  by (simp add: version_eq_def segments_equal_view)

lemma version_eq_equivalence:
  "version_eq v v" "version_eq v w \<Longrightarrow> version_eq w v"
  "version_eq u v \<Longrightarrow> version_eq v w \<Longrightarrow> version_eq u w"
  by (auto simp: version_eq_view)

text \<open>The rows that reach the hasher are the segments without trailing zeros.\<close>

fun hash_rows :: "nat \<Rightarrow> component list list \<Rightarrow> hash_item list" where
  "hash_rows pending [] = []"
| "hash_rows pending (r # rs) =
     (if r = [] then hash_rows (pending + 1) rs
      else replicate pending (Hash_Component default_component) @ map Hash_Component (rev r)
           @ hash_rows 0 rs)"

abbreviation strip_row :: "component list \<Rightarrow> component list" where
  "strip_row \<equiv> strip_while (HOL.eq (Numeral 0))"

lemma dropWhile_rev_strip: "dropWhile (\<lambda>c. c = default_component) (rev cs) = rev (strip_row cs)"
proof -
  have "(\<lambda>c. c = default_component) = HOL.eq (Numeral 0)"
    by (auto simp: default_component_def)
  then show ?thesis by (simp add: strip_while_def)
qed

lemma hash_segments_rows: "hash_segments p ss = hash_rows p (map (\<lambda>s. strip_row (si_components s)) ss)"
  by (induction ss arbitrary: p) (simp_all add: dropWhile_rev_strip Let_def)

lemma hash_rows_snoc_Nil: "hash_rows p (rs @ [[]]) = hash_rows p rs"
  by (induction p rs rule: hash_rows.induct) auto

lemma hash_rows_strip: "hash_rows p rs = hash_rows p (strip_while (HOL.eq []) rs)"
  by (induction rs rule: rev_induct) (auto simp: hash_rows_snoc_Nil)

lemma strip_row_nth_default:
  "nth_default [] (map (\<lambda>s. strip_row (si_components s)) ss) i
     = strip_row (nth_default [] (map si_components ss) i)"
  by (cases "i < length ss") (simp_all add: nth_default_def)

lemma hash_segments_cong:
  assumes "view as = view bs"
  shows "hash_segments p as = hash_segments p bs"
proof -
  let ?rows = "map (\<lambda>s. strip_row (si_components s))"
  have "nth_default [] (?rows as) i = nth_default [] (?rows bs) i" for i
  proof -
    have "nth_default (Numeral 0) (nth_default [] (map si_components as) i)
        = nth_default (Numeral 0) (nth_default [] (map si_components bs) i)"
      using fun_cong [OF assms, of i] unfolding view_def grid_def by auto
    then show ?thesis unfolding strip_row_nth_default by (simp add: nth_default_eq_iff)
  qed
  then have "strip_while (HOL.eq []) (?rows as) = strip_while (HOL.eq []) (?rows bs)"
    unfolding nth_default_eq_iff [symmetric] by auto
  then show ?thesis
    unfolding hash_segments_rows
    using hash_rows_strip [of p "?rows as"] hash_rows_strip [of p "?rows bs"] by simp
qed

lemma version_hash_cong: "version_eq v w \<Longrightarrow> version_hash v = version_hash w"
  by (simp add: version_eq_view version_hash_def hash_segments_cong [of "release_segments v" "release_segments w"]
      hash_segments_cong [of "local_segments v" "local_segments w"])

subsection \<open>Order against equality\<close>

text \<open>Components that compare equal are the same up to the kind of a retained separator.\<close>

fun undash :: "component \<Rightarrow> component" where
  "undash (UnderscoreOrDash _) = UnderscoreOrDash False"
| "undash c = c"

lemma component_cmp_Equal_iff: "component_cmp c d = Ord_Equal \<longleftrightarrow> undash c = undash d"
  by (cases c; cases d) (auto simp: ordering_simps)

definition no_dash :: "version \<Rightarrow> bool" where
  "no_dash v \<longleftrightarrow> UnderscoreOrDash True \<notin> set (v_components v)"

lemma undash_id: "c \<noteq> UnderscoreOrDash True \<Longrightarrow> undash c = c"
  by (cases c rule: undash.cases) auto

lemma set_slice: "set (slice xs off len) \<subseteq> set xs"
  unfolding slice_def by (meson in_set_dropD in_set_takeD subsetI)

lemma segment_iters_version: "s \<in> set (segment_iters v idx ss) \<Longrightarrow> si_version s = v"
  by (induction v idx ss rule: segment_iters.induct) auto

lemma segments_version:
  "s \<in> set (release_segments v) \<Longrightarrow> si_version s = v"
  "s \<in> set (local_segments v) \<Longrightarrow> si_version s = v"
  by (auto simp: release_segments_def local_segments_def Let_def dest: segment_iters_version
      split: option.splits)

lemma view_components:
  assumes "\<And>s. s \<in> set ss \<Longrightarrow> si_version s = v"
  shows "view ss i j \<in> insert (Numeral 0) (set (v_components v))"
proof (cases "i < length ss")
  case True
  have "set (si_components (ss ! i)) \<subseteq> insert (Numeral 0) (set (v_components v))"
    using assms [of "ss ! i"] True
      set_slice [of "v_components v" "si_offset (ss ! i)" "unat (segment_len (si_segment (ss ! i)))"]
    by (auto simp: si_components_def Let_def)
  moreover have "view ss i j \<in> insert (Numeral 0) (set (si_components (ss ! i)))"
    using True by (auto simp: view_def grid_def nth_default_def)
  ultimately show ?thesis by auto
qed (simp add: view_def grid_beyond)

lemma undash_view:
  assumes "no_dash v" and "\<And>s. s \<in> set ss \<Longrightarrow> si_version s = v"
  shows "undash (view ss i j) = view ss i j"
  using view_components [OF assms(2), of ss i j] assms(1) by (intro undash_id) (auto simp: no_dash_def)

lemma version_cmp_Equal_iff:
  "version_cmp v w = Ord_Equal \<longleftrightarrow> epoch v = epoch w
     \<and> (\<forall>i j. undash (view (release_segments v) i j) = undash (view (release_segments w) i j))
     \<and> (\<forall>i j. undash (view (local_segments v) i j) = undash (view (local_segments w) i j))"
  by (simp add: version_cmp_def then_with_eq_iff cmp_of_eq_iff compare_segments_Equal_iff component_cmp_Equal_iff)

lemma version_eq_imp_cmp: "version_eq v w \<Longrightarrow> version_cmp v w = Ord_Equal"
  by (simp add: version_eq_view version_cmp_Equal_iff)

lemma no_dash_cmp_imp_eq:
  assumes "no_dash v" "no_dash w" "version_cmp v w = Ord_Equal"
  shows "version_eq v w"
  using assms(3) undash_view [OF assms(1) segments_version(1)] undash_view [OF assms(2) segments_version(1)]
    undash_view [OF assms(1) segments_version(2)] undash_view [OF assms(2) segments_version(2)]
  by (simp add: version_eq_view version_cmp_Equal_iff fun_eq_iff)

end
