(* ===== verification/Version_Edit.thy ===== *)
theory Version_Edit
  imports Version_Order
begin

text \<open>
  Operations that build a new version from an old one: \<open>with_segments\<close>, \<open>pop_segments\<close>,
  \<open>strip_local\<close> and \<open>extend_to_length\<close> of \<open>version/mod.rs\<close>, and
  \<open>with_alpha\<close>, \<open>remove_local\<close> and \<open>bump\<close> of \<open>version/bump.rs\<close>. The
  stored vectors are abstracted to the epoch and two lists of parts, a part being a segment word with
  the components stored for it; each operation is specified by what it does to the parts.
\<close>

section \<open>Operations of \<open>version/mod.rs\<close>\<close>

datatype bound = Included nat | Excluded nat | Unbounded

datatype extend_error = VersionTooLong

text \<open>\<open>u8::try_from(n).ok().and_then(|idx| flags.with_local_segment_index(idx))\<close>.\<close>

definition try_local_index :: "flags \<Rightarrow> nat \<Rightarrow> flags option" where
  "try_local_index f n = (if n < 256 then flags_with_local_segment_index f (of_nat n) else None)"

text \<open>\<open>segment_iter.components().skip(implicit_default)\<close>.\<close>

definition copy_components :: "segment_iter \<Rightarrow> component list" where
  "copy_components segment_iter =
     drop (of_bool (si_has_implicit_default segment_iter)) (si_components segment_iter)"

fun without_first_separator :: "segment list \<Rightarrow> segment list" where
  "without_first_separator [] = []"
| "without_first_separator (s # ss) = segment_without_separator s # ss"

definition with_segments :: "version \<Rightarrow> bound \<Rightarrow> bound \<Rightarrow> version option rust" where
  "with_segments v start_bound end_bound =
     (let count = segment_count v;
          start_segment_idx = (case start_bound of Included idx \<Rightarrow> idx | Excluded idx \<Rightarrow> idx + 1 | Unbounded \<Rightarrow> 0);
          end_segment_idx = (case end_bound of Included idx \<Rightarrow> idx + 1 | Excluded idx \<Rightarrow> idx | Unbounded \<Rightarrow> count)
      in if start_segment_idx \<ge> count \<or> end_segment_idx > count \<or> start_segment_idx \<ge> end_segment_idx
         then Done None
         else
           let chosen = take (end_segment_idx - start_segment_idx) (drop start_segment_idx (release_segments v));
               epoch_components = (if has_epoch v then [Numeral (epoch v)] else []);
               flags = (if has_epoch v then flags_with_has_epoch flags_default True else flags_default);
               segments = without_first_separator (map si_segment chosen);
               components = epoch_components @ concat (map copy_components chosen);
               local_start_idx = length segments;
               segments = segments @ map si_segment (local_segments v);
               components = components @ concat (map copy_components (local_segments v))
           in if has_local v
              then rust_bind (expect (try_local_index flags local_start_idx)) (\<lambda>flags.
                Done (Some \<lparr>v_components = components, v_segments = segments, v_flags = flags\<rparr>))
              else Done (Some \<lparr>v_components = components, v_segments = segments, v_flags = flags\<rparr>))"

definition pop_segments :: "version \<Rightarrow> nat \<Rightarrow> version option rust" where
  "pop_segments v n =
     (let count = segment_count v
      in if count < n then Done None else with_segments v Unbounded (Excluded (count - n)))"

definition strip_local :: "version \<Rightarrow> version" where
  "strip_local v =
     (if has_local v then
        let epoch_components = (case epoch_opt v of Some e \<Rightarrow> [Numeral e] | None \<Rightarrow> []);
            flags = (case epoch_opt v of Some e \<Rightarrow> flags_with_has_epoch flags_default True | None \<Rightarrow> flags_default)
        in \<lparr>v_components = epoch_components @ concat (map si_components (release_segments v)),
            v_segments = map si_segment (release_segments v), v_flags = flags\<rparr>
      else v)"

text \<open>\<open>Segment::new(n).unwrap().with_separator(Some('.')).unwrap()\<close>.\<close>

definition dot_segment :: "u16 \<Rightarrow> segment rust" where
  "dot_segment n = rust_bind (expect (segment_new n)) (\<lambda>s. expect (segment_with_separator s (Some (CHR ''.''))))"

definition extend_to_length :: "version \<Rightarrow> nat \<Rightarrow> (extend_error + version) rust" where
  "extend_to_length v len =
     (if segment_count v \<ge> len then Done (Inr v)
      else
        let segments = take (segment_count v) (v_segments v);
            components_end = sum_list (map (\<lambda>s. unat (segment_len s)) segments) + of_bool (has_epoch v);
            components = take components_end (v_components v)
        in rust_bind (dot_segment 1) (\<lambda>segment.
             let missing = len - segment_count v;
                 components = components @ replicate missing (Numeral 0);
                 segments = segments @ replicate missing segment
             in if has_local v
                then (case flags_with_local_segment_index (v_flags v) (of_nat (length segments)) of
                        None \<Rightarrow> Done (Inl VersionTooLong)
                      | Some flags \<Rightarrow> Done (Inr
                          \<lparr>v_components = components @ concat (map copy_components (local_segments v)),
                           v_segments = segments @ map si_segment (local_segments v), v_flags = flags\<rparr>))
                else Done (Inr \<lparr>v_components = components, v_segments = segments, v_flags = v_flags v\<rparr>)))"

section \<open>Operations of \<open>version/bump.rs\<close>\<close>

datatype bump_type = Bump_Major | Bump_Minor | Bump_Patch | Bump_Last | Bump_Segment int

datatype bump_error = InvalidSegment int | VersionExtendError extend_error

definition vec_insert :: "'a list \<Rightarrow> nat \<Rightarrow> 'a \<Rightarrow> 'a list" where
  "vec_insert xs i x = take i xs @ x # drop i xs"

definition with_alpha :: "version \<Rightarrow> version rust" where
  "with_alpha v = (if release_segments v = [] then Panic else
     let last_segment = last (release_segments v);
         has_iden = list_ex (\<lambda>c. as_iden c \<noteq> None) (si_components last_segment)
     in if has_iden then Done v
        else
          let local_index = (case local_segment_index v of Some i \<Rightarrow> i | None \<Rightarrow> length (v_segments v));
              segments = take local_index (v_segments v);
              components_offset = sum_list (map (\<lambda>s. unat (segment_len s)) segments) + of_bool (has_epoch v)
          in rust_bind (dot_segment 3) (\<lambda>segment.
               let segments = segments @ [segment] @ drop local_index (v_segments v);
                   components = vec_insert (v_components v) components_offset (Numeral 0);
                   components = vec_insert components (components_offset + 1) (Iden ''a'');
                   components = vec_insert components (components_offset + 2) (Numeral 0)
               in case local_segment_index v of
                    Some i \<Rightarrow> rust_bind (expect (flags_with_local_segment_index (v_flags v) (of_nat (i + 1))))
                      (\<lambda>flags. Done \<lparr>v_components = components, v_segments = segments, v_flags = flags\<rparr>)
                  | None \<Rightarrow> Done \<lparr>v_components = components, v_segments = segments, v_flags = v_flags v\<rparr>))"

definition remove_local :: "version \<Rightarrow> version rust" where
  "remove_local v = (case local_segment_index v of
     Some local_index \<Rightarrow>
       (let segments = take local_index (v_segments v);
            components_offset = sum_list (map (\<lambda>s. unat (segment_len s)) segments) + of_bool (has_epoch v)
        in rust_bind (expect (flags_with_local_segment_index (v_flags v) 0)) (\<lambda>flags.
             Done \<lparr>v_components = take components_offset (v_components v), v_segments = segments,
                   v_flags = flags\<rparr>))
   | None \<Rightarrow> Done v)"

text \<open>\<open>iter_mut().find_map(Component::as_number_mut)\<close> and its assignment.\<close>

fun update_first_number :: "(u64 \<Rightarrow> u64) \<Rightarrow> component list \<Rightarrow> component list" where
  "update_first_number f [] = []"
| "update_first_number f (Numeral n # cs) = Numeral (f n) # cs"
| "update_first_number f (c # cs) = c # update_first_number f cs"

text \<open>\<open>iter_mut().filter_map(..).next_back()\<close> and its assignment.\<close>

definition update_last_number :: "(u64 \<Rightarrow> u64) \<Rightarrow> component list \<Rightarrow> component list" where
  "update_last_number f cs = rev (update_first_number f (rev cs))"

fun set_first_iden :: "string \<Rightarrow> component list \<Rightarrow> component list" where
  "set_first_iden a [] = []"
| "set_first_iden a (Iden s # cs) = Iden a # cs"
| "set_first_iden a (c # cs) = c # set_first_iden a cs"

definition set_last_iden :: "string \<Rightarrow> component list \<Rightarrow> component list" where
  "set_last_iden a cs = rev (set_first_iden a (rev cs))"

definition bump_components :: "bump_type \<Rightarrow> nat \<Rightarrow> nat \<Rightarrow> component list \<Rightarrow> component list rust" where
  "bump_components bump_type segment_to_bump idx cs = (case bump_type of
     Bump_Major \<Rightarrow> Done
       (if idx = 0 then set_last_iden ''a'' (update_first_number (\<lambda>n. n + 1) cs)
        else if idx \<le> 2 then update_first_number (\<lambda>n. 0) cs
        else cs)
   | Bump_Minor \<Rightarrow> Done
       (if idx = 1 then update_first_number (\<lambda>n. n + 1) cs
        else if idx = 2 then update_first_number (\<lambda>n. 0) cs
        else cs)
   | Bump_Patch \<Rightarrow> Done
       (if idx = 2 then set_last_iden ''a'' (update_first_number (\<lambda>n. n + 1) cs) else cs)
   | _ \<Rightarrow>
       (if segment_to_bump = idx
        then (if list_ex is_numeric cs
              then Done (set_last_iden ''a'' (update_last_number (\<lambda>n. n + 1) cs))
              else Panic)
        else Done cs))"

text \<open>One pass of the loop over the segments: the new segment word and the components pushed for it.\<close>

definition bump_segment :: "bump_type \<Rightarrow> nat \<Rightarrow> nat \<Rightarrow> segment_iter \<Rightarrow> (segment \<times> component list) rust" where
  "bump_segment bump_type segment_to_bump idx segment_iter =
     rust_bind (bump_components bump_type segment_to_bump idx (si_components segment_iter)) (\<lambda>cs.
       let has_implicit_default = segment_has_implicit_default (si_segment segment_iter)
             \<and> nth_default Post cs 0 = default_component;
           start_idx = of_bool has_implicit_default
       in rust_bind (expect (segment_new (of_nat (length cs - start_idx)))) (\<lambda>segment.
            rust_bind (expect (segment_with_separator
                (segment_with_implicit_default segment has_implicit_default)
                (segment_separator (si_segment segment_iter)))) (\<lambda>segment.
              Done (segment, drop start_idx cs))))"

fun bump_segments ::
  "bump_type \<Rightarrow> nat \<Rightarrow> nat \<Rightarrow> segment_iter list \<Rightarrow> (segment \<times> component list) list rust" where
  "bump_segments bump_type segment_to_bump idx [] = Done []"
| "bump_segments bump_type segment_to_bump idx (s # ss) =
     rust_bind (bump_segment bump_type segment_to_bump idx s) (\<lambda>p.
       rust_bind (bump_segments bump_type segment_to_bump (idx + 1) ss) (\<lambda>ps. Done (p # ps)))"

definition bump_index :: "version \<Rightarrow> bump_type \<Rightarrow> bump_error + nat" where
  "bump_index v bump_type = (let count = segment_count v in case bump_type of
     Bump_Major \<Rightarrow> Inr 0
   | Bump_Minor \<Rightarrow> Inr 1
   | Bump_Patch \<Rightarrow> Inr 2
   | Bump_Last \<Rightarrow> Inr (if count > 0 then count - 1 else 0)
   | Bump_Segment index_to_bump \<Rightarrow>
       (let computed_index = (if index_to_bump < 0 then index_to_bump + int count else index_to_bump)
        in if computed_index < 0 then Inl (InvalidSegment index_to_bump) else Inr (nat computed_index)))"

definition bump :: "version \<Rightarrow> bump_type \<Rightarrow> (bump_error + version) rust" where
  "bump v bump_type = (case bump_index v bump_type of
     Inl e \<Rightarrow> Done (Inl e)
   | Inr segment_to_bump \<Rightarrow>
       rust_bind (extend_to_length v (segment_to_bump + 1)) (\<lambda>extended. case extended of
         Inl e \<Rightarrow> Done (Inl (VersionExtendError e))
       | Inr version \<Rightarrow>
           let epoch_components = (case epoch_opt version of Some e \<Rightarrow> [Numeral e] | None \<Rightarrow> []);
               flags = (case epoch_opt version of
                  Some e \<Rightarrow> flags_with_has_epoch (v_flags version) True
                | None \<Rightarrow> v_flags version)
           in rust_bind (bump_segments bump_type segment_to_bump 0 (release_segments version)) (\<lambda>bumped.
                let components = epoch_components @ concat (map snd bumped);
                    segments = map fst bumped
                in if has_local version
                   then let segment_idx = (of_nat (length segments) :: u8);
                            components = components @ concat (map si_components (local_segments v));
                            segments = segments @ map si_segment (local_segments v)
                        in rust_bind (expect (flags_with_local_segment_index flags segment_idx)) (\<lambda>flags.
                             Done (Inr \<lparr>v_components = components, v_segments = segments, v_flags = flags\<rparr>))
                   else Done (Inr \<lparr>v_components = components, v_segments = segments, v_flags = flags\<rparr>))))"

section \<open>Parts: the abstract content of a version\<close>

type_synonym part = "segment \<times> component list"

definition parts :: "segment_iter list \<Rightarrow> part list" where
  "parts ss = map (\<lambda>si. (si_segment si, snd (raw_components si))) ss"

definition release_parts :: "version \<Rightarrow> part list" where
  "release_parts v = parts (release_segments v)"

definition local_parts :: "version \<Rightarrow> part list" where
  "local_parts v = parts (local_segments v)"

definition part_components :: "part \<Rightarrow> component list" where
  "part_components p = (if segment_has_implicit_default (fst p) then [Numeral 0] else []) @ snd p"

definition part_ok :: "part \<Rightarrow> bool" where
  "part_ok p \<longleftrightarrow> length (snd p) = unat (segment_len (fst p))"

text \<open>The stored vectors of a version with the given epoch, release parts and local parts.\<close>

definition layout :: "u64 option \<Rightarrow> part list \<Rightarrow> part list \<Rightarrow> version \<Rightarrow> bool" where
  "layout ep rel loc v \<longleftrightarrow>
     v_segments v = map fst (rel @ loc)
     \<and> v_components v = (case ep of Some e \<Rightarrow> [Numeral e] | None \<Rightarrow> []) @ concat (map snd (rel @ loc))
     \<and> has_epoch v = (ep \<noteq> None)
     \<and> unat (flags_local_segment_index (v_flags v)) = (if loc = [] then 0 else length rel)
     \<and> rel \<noteq> [] \<and> list_all part_ok (rel @ loc)"

lemma part_components_si: "part_components (si_segment si, snd (raw_components si)) = si_components si"
  by (simp add: part_components_def si_components_raw raw_components_def)

lemma view_parts: "view ss = grid (map part_components (parts ss))"
  by (simp add: view_def parts_def comp_def part_components_si)

lemma parts_map_segment: "map fst (parts ss) = map si_segment ss"
  by (simp add: parts_def comp_def)

lemma copy_components_raw: "copy_components si = snd (raw_components si)"
  by (simp add: copy_components_def si_has_implicit_default_def si_components_raw)
    (simp add: raw_components_def)

lemma concat_copy_components: "concat (map copy_components ss) = concat (map snd (parts ss))"
  by (simp add: parts_def comp_def flip: copy_components_raw)

lemma length_parts [simp]: "length (parts ss) = length ss"
  by (simp add: parts_def)

lemma parts_take_drop: "parts (take n ss) = take n (parts ss)" "parts (drop n ss) = drop n (parts ss)"
  by (simp_all add: parts_def take_map drop_map)

lemma parts_eq_Nil_iff [simp]: "parts ss = [] \<longleftrightarrow> ss = []"
  by (simp add: parts_def)

text \<open>Iterating over a laid-out vector recovers the parts it was built from.\<close>

lemma parts_segment_iters:
  assumes "list_all part_ok ps" and "v_components v = pre @ concat (map snd ps) @ post" and "idx = length pre"
  shows "parts (segment_iters v idx (map fst ps)) = ps"
  using assms
proof (induction ps arbitrary: pre idx)
  case (Cons p ps)
  have len: "length (snd p) = unat (segment_len (fst p))" using Cons.prems(1) by (simp add: part_ok_def)
  have "parts (segment_iters v (idx + unat (segment_len (fst p))) (map fst ps)) = ps"
    using Cons.prems len by (intro Cons.IH [of "pre @ snd p"]) auto
  moreover have "slice (v_components v) idx (unat (segment_len (fst p))) = snd p"
    using Cons.prems len by (simp add: slice_def)
  ultimately show ?case by (simp add: parts_def raw_components_def)
qed (simp add: parts_def)

lemma length_segment_iters [simp]: "length (segment_iters v idx ss) = length ss"
  by (induction v idx ss rule: segment_iters.induct) auto

lemma segment_iters_eq_Nil [simp]: "segment_iters v idx ss = [] \<longleftrightarrow> ss = []"
  by (cases ss) auto

lemma total_len_Nil [simp]: "total_len [] = 0"
  by (simp add: total_len_def)

lemma total_len_append [simp]: "total_len (xs @ ys) = total_len xs + total_len ys"
  by (simp add: total_len_def)

lemma total_len_Cons [simp]: "total_len (x # xs) = unat (segment_len x) + total_len xs"
  by (simp add: total_len_def)

lemma total_len_parts: "list_all part_ok ps \<Longrightarrow> total_len (map fst ps) = length (concat (map snd ps))"
  by (induction ps) (auto simp: total_len_def part_ok_def)

lemma local_segment_index_layout:
  assumes "layout ep rel loc v"
  shows "local_segment_index v = (if loc = [] then None else Some (length rel))"
proof -
  have idx: "unat (flags_local_segment_index (v_flags v)) = (if loc = [] then 0 else length rel)"
    and "rel \<noteq> []" using assms by (auto simp: layout_def)
  then show ?thesis
    by (cases "loc = []") (auto simp: local_segment_index_def Let_def word_greater_zero_iff unat_eq_zero)
qed

lemma layout_epoch:
  assumes "layout ep rel loc v"
  shows "epoch_opt v = ep" and "epoch v = (case ep of Some e \<Rightarrow> e | None \<Rightarrow> 0)"
  using assms by (auto simp: layout_def epoch_opt_def epoch_def split: option.splits)

lemma layout_has_local: "layout ep rel loc v \<Longrightarrow> has_local v \<longleftrightarrow> loc \<noteq> []"
  using local_segment_index_layout [of ep rel loc v]
  by (auto simp: has_local_def local_segment_index_def Let_def split: if_splits)

lemma layout_parts:
  assumes "layout ep rel loc v"
  shows "release_parts v = rel" and "local_parts v = loc"
proof -
  let ?pre = "case ep of Some e \<Rightarrow> [Numeral e] | None \<Rightarrow> []"
  have comps: "v_components v = ?pre @ concat (map snd rel) @ concat (map snd loc)"
    and segs: "v_segments v = map fst rel @ map fst loc"
    and ok: "list_all part_ok rel" "list_all part_ok loc"
    and pre: "of_bool (has_epoch v) = length ?pre"
    using assms by (auto simp: layout_def split: option.splits)
  have "release_segments v = segment_iters v (length ?pre) (map fst rel)"
    using local_segment_index_layout [OF assms] segs by (auto simp: release_segments_def pre)
  then show "release_parts v = rel"
    using parts_segment_iters [OF ok(1) comps] by (simp add: release_parts_def)
  show "local_parts v = loc"
  proof (cases "loc = []")
    case True
    then show ?thesis
      using local_segment_index_layout [OF assms] by (simp add: local_parts_def local_segments_def parts_def)
  next
    case False
    have "local_segments v = segment_iters v (length ?pre + length (concat (map snd rel))) (map fst loc)"
      using local_segment_index_layout [OF assms] False segs total_len_parts [OF ok(1)]
      by (simp add: local_segments_def pre total_len_def)
    then show ?thesis
      using parts_segment_iters [OF ok(2), of v "?pre @ concat (map snd rel)" "[]"] comps
      by (simp add: local_parts_def)
  qed
qed

lemma layout_version_ok: "layout ep rel loc v \<Longrightarrow> version_ok v"
  by (cases loc; auto simp: part_ok_def layout_def version_ok_def is_numeric_def total_len_parts split: option.splits)

text \<open>Every well-formed version is laid out from its own parts.\<close>

lemma segment_iters_append:
  "segment_iters v idx (xs @ ys) = segment_iters v idx xs @ segment_iters v (idx + total_len xs) ys"
  by (induction v idx xs rule: segment_iters.induct) (auto simp: total_len_def add.assoc)

lemma concat_parts_segment_iters:
  assumes "idx + total_len ss \<le> length (v_components v)"
  shows "concat (map snd (parts (segment_iters v idx ss))) = slice (v_components v) idx (total_len ss)"
    and "list_all part_ok (parts (segment_iters v idx ss))"
    and "map fst (parts (segment_iters v idx ss)) = ss"
  using assms
  by (induction v idx ss rule: segment_iters.induct)
    (auto simp: parts_def raw_components_def part_ok_def slice_add length_slice)

lemma version_ok_layout:
  assumes "version_ok v"
  shows "layout (epoch_opt v) (release_parts v) (local_parts v) v"
proof -
  define e where "e = (of_bool (has_epoch v) :: nat)"
  define k where "k = (case local_segment_index v of Some i \<Rightarrow> i | None \<Rightarrow> length (v_segments v))"
  let ?ss = "v_segments v"
  have k: "k \<le> length ?ss" "0 < k"
    using assms by (auto simp: k_def version_ok_def local_segment_index_def Let_def word_greater_zero_iff
        unat_gt_0 split: option.splits if_splits)
  have rel: "release_segments v = segment_iters v e (take k ?ss)"
    by (auto simp: release_segments_def e_def k_def split: option.splits)
  have loc: "local_segments v = segment_iters v (e + total_len (take k ?ss)) (drop k ?ss)"
    by (auto simp: local_segments_def e_def k_def total_len_def split: option.splits)
  have tot: "e + total_len ?ss = length (v_components v)"
    using assms by (simp add: version_ok_def e_def)
  have all: "release_segments v @ local_segments v = segment_iters v e ?ss"
    unfolding rel loc segment_iters_append [symmetric] by simp
  have parts: "parts (release_segments v) @ parts (local_segments v) = parts (segment_iters v e ?ss)"
    unfolding all [symmetric] by (simp add: parts_def)
  note concat = concat_parts_segment_iters [of e ?ss v] tot
  have "v_components v = (case epoch_opt v of Some e \<Rightarrow> [Numeral e] | None \<Rightarrow> [])
      @ concat (map snd (parts (segment_iters v e ?ss)))"
    using concat assms
    by (cases "v_components v")
      (auto simp: e_def epoch_opt_def version_ok_def is_numeric_def slice_def split: component.splits)
  moreover have "has_epoch v = (epoch_opt v \<noteq> None)"
    using assms by (auto simp: version_ok_def epoch_opt_def is_numeric_def split: list.splits component.splits)
  moreover have "unat (flags_local_segment_index (v_flags v)) = (if local_parts v = [] then 0 else length (release_parts v))"
    using assms k
    by (auto simp: local_parts_def release_parts_def rel loc version_ok_def k_def local_segment_index_def Let_def
        word_greater_zero_iff unat_eq_zero split: if_splits)
  ultimately show ?thesis
    using concat k by (simp add: layout_def release_parts_def local_parts_def parts rel [symmetric])
      (auto simp: rel)
qed

section \<open>What the operations do to the parts\<close>

lemma layout_segment_count: "layout ep rel loc v \<Longrightarrow> segment_count v = length rel"
  using local_segment_index_layout [of ep rel loc v] by (auto simp: segment_count_def layout_def)

lemma layout_local_bound:
  assumes "layout ep rel loc v" and "loc \<noteq> []"
  shows "length rel \<le> 127"
proof -
  have "unat (flags_local_segment_index (v_flags v)) \<le> unat (127 :: u8)"
    using flags_local_segment_index_le [of "v_flags v"] by (simp add: word_le_nat_alt)
  then show ?thesis using assms by (simp add: layout_def)
qed

lemma try_local_index_ok:
  assumes "n \<le> 127"
  obtains g where "try_local_index f n = Some g" and "flags_has_epoch g = flags_has_epoch f"
    and "unat (flags_local_segment_index g) = n"
proof -
  have n: "unat (of_nat n :: u8) = n" using assms by (simp add: unat_of_nat)
  then have "\<not> (of_nat n :: u8) > 127" using assms by (simp add: word_less_nat_alt)
  then obtain g where g: "flags_with_local_segment_index f (of_nat n) = Some g"
    using flags_with_local_segment_index_None_iff [of f "of_nat n"] by auto
  then show ?thesis
    using that [of g] assms n flags_with_local_segment_index_fields [OF g] by (simp add: try_local_index_def)
qed

lemma try_local_index_Some: "try_local_index f n = Some g \<Longrightarrow> flags_with_local_segment_index f (of_nat n) = Some g"
  by (simp add: try_local_index_def split: if_splits)

lemma dot_segment_1: "dot_segment 1 = Done (Segment 24577)"
  by (simp add: dot_segment_def segment_new_def segment_with_separator_def separator_code_def segment_layout)

lemma dot_segment_3: "dot_segment 3 = Done (Segment 24579)"
  by (simp add: dot_segment_def segment_new_def segment_with_separator_def separator_code_def segment_layout)

lemma dot_segment_fields:
  "segment_len (Segment 24577) = 1" "\<not> segment_has_implicit_default (Segment 24577)"
  "segment_len (Segment 24579) = 3" "\<not> segment_has_implicit_default (Segment 24579)"
  by (simp_all add: segment_len_def segment_has_implicit_default_def segment_layout)

fun drop_first_separator :: "part list \<Rightarrow> part list" where
  "drop_first_separator [] = []"
| "drop_first_separator (p # ps) = (segment_without_separator (fst p), snd p) # ps"

lemma drop_first_separator_simps [simp]:
  "map snd (drop_first_separator ps) = map snd ps"
  "map fst (drop_first_separator ps) = without_first_separator (map fst ps)"
  "list_all part_ok (drop_first_separator ps) = list_all part_ok ps"
  "length (drop_first_separator ps) = length ps"
  "drop_first_separator ps = [] \<longleftrightarrow> ps = []"
  by (cases ps; simp add: part_ok_def segment_without_separator_fields)+

lemma part_components_drop_first_separator [simp]:
  "map part_components (drop_first_separator ps) = map part_components ps"
  by (cases ps) (simp_all add: part_components_def segment_without_separator_fields)

lemma length_without_first_separator: "length (without_first_separator ss) = length ss"
  by (cases ss) auto

definition bound_start :: "bound \<Rightarrow> nat" where
  "bound_start b = (case b of Included idx \<Rightarrow> idx | Excluded idx \<Rightarrow> idx + 1 | Unbounded \<Rightarrow> 0)"

definition bound_end :: "nat \<Rightarrow> bound \<Rightarrow> nat" where
  "bound_end count b = (case b of Included idx \<Rightarrow> idx + 1 | Excluded idx \<Rightarrow> idx | Unbounded \<Rightarrow> count)"

lemma list_all_take_drop: "list_all P xs \<Longrightarrow> list_all P (take n (drop m xs))"
  by (auto simp: list_all_iff dest: in_set_takeD in_set_dropD)

lemma with_segments_parts:
  assumes ok: "version_ok v"
    and range: "bound_start sb < bound_end (segment_count v) eb" "bound_end (segment_count v) eb \<le> segment_count v"
  obtains w where "with_segments v sb eb = Done (Some w)"
    and "layout (epoch_opt v) (drop_first_separator (take (bound_end (segment_count v) eb - bound_start sb)
           (drop (bound_start sb) (release_parts v)))) (local_parts v) w"
proof -
  let ?s = "bound_start sb" and ?e = "bound_end (segment_count v) eb"
  let ?rel = "take (?e - ?s) (drop ?s (release_parts v))"
  let ?flags = "if has_epoch v then flags_with_has_epoch flags_default True else flags_default"
  let ?comps = "(if has_epoch v then [Numeral (epoch v)] else []) @ concat (map snd ?rel) @ concat (map snd (local_parts v))"
  let ?segs = "without_first_separator (map fst ?rel) @ map fst (local_parts v)"
  have lay: "layout (epoch_opt v) (release_parts v) (local_parts v) v" by (rule version_ok_layout [OF ok])
  have len: "length (release_parts v) = segment_count v" using layout_segment_count [OF lay] by simp
  have ep: "(if has_epoch v then [Numeral (epoch v)] else []) = (case epoch_opt v of Some e \<Rightarrow> [Numeral e] | None \<Rightarrow> [])"
    and hep: "has_epoch v = (epoch_opt v \<noteq> None)"
    using lay by (auto simp: layout_def epoch_def split: option.splits)
  have fl: "flags_has_epoch ?flags = has_epoch v" "flags_local_segment_index ?flags = 0"
    by (simp_all add: bits_simps)
  have chosen: "parts (take (?e - ?s) (drop ?s (release_segments v))) = ?rel"
    by (simp add: release_parts_def parts_take_drop)
  have nonempty: "?rel \<noteq> []" using range len by simp
  have oks: "list_all part_ok ?rel" "list_all part_ok (local_parts v)"
    using lay by (simp_all add: layout_def list_all_take_drop)
  have eq: "with_segments v sb eb = (if has_local v
      then rust_bind (expect (try_local_index ?flags (length ?rel))) (\<lambda>flags.
             Done (Some \<lparr>v_components = ?comps, v_segments = ?segs, v_flags = flags\<rparr>))
      else Done (Some \<lparr>v_components = ?comps, v_segments = ?segs, v_flags = ?flags\<rparr>))"
    using range
    by (simp add: with_segments_def Let_def bound_start_def [symmetric] bound_end_def [symmetric]
        concat_copy_components parts_map_segment [symmetric] chosen local_parts_def [symmetric] not_le
        length_without_first_separator)
  have lay': "layout (epoch_opt v) (drop_first_separator ?rel) (local_parts v)
      \<lparr>v_components = ?comps, v_segments = ?segs, v_flags = g\<rparr>"
    if "flags_has_epoch g = has_epoch v"
      "unat (flags_local_segment_index g) = (if local_parts v = [] then 0 else length ?rel)" for g
    using that nonempty oks hep unfolding layout_def ep by (simp add: has_epoch_def)
  show ?thesis
  proof (cases "has_local v")
    case True
    then have loc: "local_parts v \<noteq> []" using layout_has_local [OF lay] by simp
    have "length ?rel \<le> 127" using layout_local_bound [OF lay loc] by simp
    then obtain g where g: "try_local_index ?flags (length ?rel) = Some g"
      "flags_has_epoch g = has_epoch v" "unat (flags_local_segment_index g) = length ?rel"
      using fl(1) by (metis try_local_index_ok)
    have "with_segments v sb eb = Done (Some \<lparr>v_components = ?comps, v_segments = ?segs, v_flags = g\<rparr>)"
      unfolding eq using True g(1) by simp
    then show ?thesis using that lay' [OF g(2)] g(3) loc by simp
  next
    case False
    then have loc: "local_parts v = []" using layout_has_local [OF lay] by simp
    have "with_segments v sb eb = Done (Some \<lparr>v_components = ?comps, v_segments = ?segs, v_flags = ?flags\<rparr>)"
      unfolding eq using False by simp
    then show ?thesis using that lay' [OF fl(1)] fl(2) loc by simp
  qed
qed

lemma with_segments_out_of_range:
  assumes "\<not> (bound_start sb < bound_end (segment_count v) eb \<and> bound_end (segment_count v) eb \<le> segment_count v)"
  shows "with_segments v sb eb = Done None"
proof -
  have "bound_start sb \<ge> segment_count v \<or> bound_end (segment_count v) eb > segment_count v
      \<or> bound_start sb \<ge> bound_end (segment_count v) eb" using assms by linarith
  then show ?thesis
    by (simp add: with_segments_def Let_def bound_start_def [symmetric] bound_end_def [symmetric])
qed

lemma pop_segments_parts:
  assumes "version_ok v" and "n < segment_count v"
  obtains w where "pop_segments v n = Done (Some w)"
    and "layout (epoch_opt v) (drop_first_separator (take (segment_count v - n) (release_parts v)))
           (local_parts v) w"
proof -
  have "bound_start Unbounded < bound_end (segment_count v) (Excluded (segment_count v - n))"
    and "bound_end (segment_count v) (Excluded (segment_count v - n)) \<le> segment_count v"
    using assms(2) by (simp_all add: bound_start_def bound_end_def)
  from with_segments_parts [OF assms(1) this] obtain w where
    "with_segments v Unbounded (Excluded (segment_count v - n)) = Done (Some w)"
    "layout (epoch_opt v) (drop_first_separator (take (segment_count v - n) (release_parts v))) (local_parts v) w"
    by (auto simp: bound_start_def bound_end_def)
  then show ?thesis using that assms(2) by (simp add: pop_segments_def Let_def)
qed

lemma pop_segments_too_many:
  assumes "segment_count v \<le> n"
  shows "pop_segments v n = Done None"
proof (cases "segment_count v < n")
  case False
  then show ?thesis
    using assms with_segments_out_of_range [of Unbounded v "Excluded 0"]
    by (simp add: pop_segments_def Let_def bound_start_def bound_end_def)
qed (simp add: pop_segments_def)

lemma layout_prefix:
  assumes "layout ep rel loc v"
  shows "take (length rel) (v_segments v) = map fst rel"
    and "take (total_len (map fst rel) + of_bool (has_epoch v)) (v_components v)
       = (case ep of Some e \<Rightarrow> [Numeral e] | None \<Rightarrow> []) @ concat (map snd rel)"
    and "drop (total_len (map fst rel) + of_bool (has_epoch v)) (v_components v) = concat (map snd loc)"
proof -
  let ?pre = "(case ep of Some e \<Rightarrow> [Numeral e] | None \<Rightarrow> []) @ concat (map snd rel)"
  have "total_len (map fst rel) + of_bool (has_epoch v) = length ?pre"
    using assms total_len_parts [of rel] by (auto simp: layout_def split: option.splits)
  moreover have "v_components v = ?pre @ concat (map snd loc)" using assms by (simp add: layout_def)
  ultimately show "take (total_len (map fst rel) + of_bool (has_epoch v)) (v_components v) = ?pre"
    and "drop (total_len (map fst rel) + of_bool (has_epoch v)) (v_components v) = concat (map snd loc)"
    by simp_all
  show "take (length rel) (v_segments v) = map fst rel" using assms by (simp add: layout_def)
qed

lemma remove_local_parts:
  assumes "version_ok v"
  obtains w where "remove_local v = Done w" and "layout (epoch_opt v) (release_parts v) [] w"
proof (cases "local_parts v = []")
  case True
  then show ?thesis
    using that version_ok_layout [OF assms] local_segment_index_layout [OF version_ok_layout [OF assms]]
    by (simp add: remove_local_def)
next
  case False
  have lay: "layout (epoch_opt v) (release_parts v) (local_parts v) v" by (rule version_ok_layout [OF assms])
  obtain g where g: "flags_with_local_segment_index (v_flags v) 0 = Some g"
    using flags_with_local_segment_index_None_iff [of "v_flags v" 0] by auto
  note gf = flags_with_local_segment_index_fields [OF g]
  let ?w = "\<lparr>v_components = (case epoch_opt v of Some e \<Rightarrow> [Numeral e] | None \<Rightarrow> []) @ concat (map snd (release_parts v)),
     v_segments = map fst (release_parts v), v_flags = g\<rparr>"
  have "remove_local v = Done ?w"
    using local_segment_index_layout [OF lay] False layout_prefix [OF lay] g
    by (simp add: remove_local_def Let_def total_len_def comp_def)
  moreover have "layout (epoch_opt v) (release_parts v) [] ?w"
    using lay gf by (simp add: layout_def has_epoch_def)
  ultimately show ?thesis by (rule that)
qed

text \<open>\<open>strip_local\<close> copies the implicit zeros as stored components.\<close>

lemma strip_local_fields:
  assumes "version_ok v" and "has_local v"
  shows "v_segments (strip_local v) = map fst (release_parts v)"
    and "v_components (strip_local v) = (case epoch_opt v of Some e \<Rightarrow> [Numeral e] | None \<Rightarrow> [])
      @ concat (map part_components (release_parts v))"
    and "has_epoch (strip_local v) = has_epoch v" "\<not> has_local (strip_local v)"
  using assms(2) version_ok_layout [OF assms(1)]
  by (auto simp: strip_local_def Let_def release_parts_def parts_map_segment parts_def comp_def part_components_si
      has_epoch_def has_local_def layout_def bits_simps split: option.splits)

lemma strip_local_parts:
  assumes ok: "version_ok v" and no_implicit: "\<forall>p \<in> set (release_parts v). \<not> segment_has_implicit_default (fst p)"
  shows "layout (epoch_opt v) (release_parts v) [] (strip_local v)"
proof (cases "has_local v")
  case True
  have eq: "map part_components (release_parts v) = map snd (release_parts v)"
    using no_implicit by (simp add: part_components_def)
  have "flags_local_segment_index (v_flags (strip_local v)) = 0"
    using strip_local_fields(4) [OF ok True] by (simp add: has_local_def word_greater_zero_iff)
  then show ?thesis
    using version_ok_layout [OF ok] strip_local_fields [OF ok True] by (simp add: layout_def eq)
next
  case False
  then show ?thesis
    using version_ok_layout [OF ok] layout_has_local [OF version_ok_layout [OF ok]]
    by (simp add: strip_local_def)
qed

definition zero_part :: part where
  "zero_part = (Segment 24577, [Numeral 0])"

lemma part_components_zero_part [simp]: "part_components zero_part = [Numeral 0]" "part_ok zero_part"
  by (simp_all add: zero_part_def part_components_def part_ok_def dot_segment_fields)

lemma extend_to_length_parts:
  assumes ok: "version_ok v" and fits: "local_parts v = [] \<or> len \<le> 127"
  obtains w where "extend_to_length v len = Done (Inr w)"
    and "layout (epoch_opt v) (release_parts v @ replicate (len - segment_count v) zero_part) (local_parts v) w"
proof (cases "segment_count v \<ge> len")
  case True
  then show ?thesis using that version_ok_layout [OF ok] by (simp add: extend_to_length_def)
next
  case False
  have lay: "layout (epoch_opt v) (release_parts v) (local_parts v) v" by (rule version_ok_layout [OF ok])
  note count = layout_segment_count [OF lay] and pre = layout_prefix [OF lay]
  let ?m = "len - length (release_parts v)"
  let ?comps = "((case epoch_opt v of Some e \<Rightarrow> [Numeral e] | None \<Rightarrow> []) @ concat (map snd (release_parts v)))
      @ replicate ?m (Numeral 0)"
  let ?segs = "map fst (release_parts v) @ replicate ?m (Segment 24577)"
  have zeros: "list_all part_ok (replicate n (Segment 24577, [Numeral 0]))" for n
    using part_components_zero_part(2) by (induction n) (auto simp: zero_part_def)
  have rep: "concat (replicate n [Numeral 0]) = replicate n (Numeral 0)" for n by (induction n) auto
  have lay': "layout (epoch_opt v) (release_parts v @ replicate ?m zero_part) (local_parts v)
      \<lparr>v_components = ?comps @ concat (map snd (local_parts v)), v_segments = ?segs @ map fst (local_parts v), v_flags = g\<rparr>"
    if "flags_has_epoch g = flags_has_epoch (v_flags v)"
      "unat (flags_local_segment_index g) = (if local_parts v = [] then 0 else length (release_parts v) + ?m)" for g
    using lay that zeros by (simp add: layout_def has_epoch_def zero_part_def rep)
  show ?thesis
  proof (cases "local_parts v = []")
    case True
    then have "extend_to_length v len = Done (Inr \<lparr>v_components = ?comps, v_segments = ?segs, v_flags = v_flags v\<rparr>)"
      using False layout_has_local [OF lay]
      by (simp add: extend_to_length_def count dot_segment_1 Let_def pre total_len_def [symmetric])
    moreover have "unat (flags_local_segment_index (v_flags v)) = 0" using lay True by (simp add: layout_def)
    ultimately show ?thesis using that lay' [of "v_flags v"] True count by simp
  next
    case loc: False
    have total: "length (release_parts v) + ?m = len" using False count by simp
    have "len \<le> 127" using fits loc by simp
    then obtain g where g: "try_local_index (v_flags v) len = Some g"
      "flags_has_epoch g = flags_has_epoch (v_flags v)" "unat (flags_local_segment_index g) = len"
      by (metis try_local_index_ok)
    have "extend_to_length v len = Done (Inr \<lparr>v_components = ?comps @ concat (map snd (local_parts v)),
        v_segments = ?segs @ map fst (local_parts v), v_flags = g\<rparr>)"
      using False layout_has_local [OF lay] loc total
        try_local_index_Some [OF g(1)]
      by (simp add: extend_to_length_def count dot_segment_1 Let_def pre total_len_def [symmetric]
          concat_copy_components local_parts_def [symmetric] parts_map_segment [symmetric])
    then show ?thesis using that lay' [OF g(2)] g(3) loc total count by simp
  qed
qed

lemma extend_to_length_too_long:
  assumes ok: "version_ok v" and loc: "local_parts v \<noteq> []" and "127 < len" "len < 256"
  shows "extend_to_length v len = Done (Inl VersionTooLong)"
proof -
  have lay: "layout (epoch_opt v) (release_parts v) (local_parts v) v" by (rule version_ok_layout [OF ok])
  have "length (release_parts v) \<le> 127" by (rule layout_local_bound [OF lay loc])
  moreover have "unat (of_nat len :: u8) = len" using assms(4) by (simp add: unat_of_nat)
  then have "(of_nat len :: u8) > 127" using assms(3) by (simp add: word_less_nat_alt)
  then have "flags_with_local_segment_index (v_flags v) (of_nat len) = None"
    by (simp add: flags_with_local_segment_index_None_iff)
  ultimately show ?thesis
    using assms(3) layout_has_local [OF lay] loc layout_segment_count [OF lay] layout_prefix [OF lay]
    by (simp add: extend_to_length_def dot_segment_1 Let_def total_len_def [symmetric])
qed

end
