(* ===== verification/Version_Bump.thy ===== *)
theory Version_Bump
  imports Version_Edit
begin

text \<open>
  The behaviour of \<open>Version::bump\<close> (\<open>version/bump.rs\<close>): when it returns, what it does to
  every release segment, and that a major, minor or patch bump moves strictly upwards in the version
  order.
\<close>

section \<open>One segment\<close>

lemma length_update_first_number [simp]: "length (update_first_number f cs) = length cs"
  by (induction f cs rule: update_first_number.induct) auto

lemma length_set_first_iden [simp]: "length (set_first_iden a cs) = length cs"
  by (induction a cs rule: set_first_iden.induct) auto

lemma length_bump_components: "bump_components bt k idx cs = Done ds \<Longrightarrow> length ds = length cs"
  by (auto simp: bump_components_def update_last_number_def set_last_iden_def split: bump_type.splits if_splits)

lemma set_first_iden_snoc: "set_first_iden a (xs @ [Numeral n]) = set_first_iden a xs @ [Numeral n]"
  by (induction a xs rule: set_first_iden.induct) auto

lemma set_last_iden_Numeral: "set_last_iden a (Numeral n # cs) = Numeral n # set_last_iden a cs"
  by (simp add: set_last_iden_def set_first_iden_snoc)

lemma segment_len_le: "unat (segment_len s) \<le> 8191"
proof -
  have "segment_len s \<le> 8191"
    using word_and_le1 [of "drop_bit COMPONENT_COUNT_OFFSET (segment_word s)" COMPONENT_COUNT_MASK]
    by (simp add: segment_len_def segment_layout)
  then show ?thesis by (simp add: word_le_nat_alt)
qed

lemma length_raw_components:
  assumes "list_all part_ok (parts ss)" and "si \<in> set ss"
  shows "length (si_components si) = unat (segment_len (si_segment si)) + of_bool (segment_has_implicit_default (si_segment si))"
  using assms by (auto simp: parts_def list_all_iff part_ok_def si_components_raw raw_components_def)

lemma segment_separator_valid:
  "segment_separator s \<in> {None, Some (CHR ''-''), Some (CHR ''_''), Some (CHR ''.'')}"
  by (simp add: segment_separator_def Let_def)

lemma bump_segment_Done:
  assumes cs: "bump_components bt k idx (si_components si) = Done cs"
    and len: "length (si_components si) = unat (segment_len (si_segment si)) + of_bool (segment_has_implicit_default (si_segment si))"
    and small: "unat (segment_len (si_segment si)) < 8191"
  obtains seg raw where "bump_segment bt k idx si = Done (seg, raw)" and "part_ok (seg, raw)"
    and "part_components (seg, raw) = cs" and "segment_separator seg = segment_separator (si_segment si)"
proof -
  let ?imp = "segment_has_implicit_default (si_segment si) \<and> nth_default Post cs 0 = default_component"
  let ?n = "length cs - of_bool ?imp"
  have lcs: "length cs = unat (segment_len (si_segment si)) + of_bool (segment_has_implicit_default (si_segment si))"
    using length_bump_components [OF cs] len by simp
  have n: "?n \<le> 8191" using lcs small by auto
  then have un: "unat (of_nat ?n :: u16) = ?n" by (simp add: unat_of_nat)
  then have "\<not> (of_nat ?n :: u16) > 8191" using n by (simp add: word_less_nat_alt)
  then obtain s1 where s1: "segment_new (of_nat ?n) = Some s1"
    using segment_new_None_iff [of "of_nat ?n"] by auto
  obtain s2 where s2: "segment_with_separator (segment_with_implicit_default s1 ?imp)
      (segment_separator (si_segment si)) = Some s2"
    using segment_separator_valid [of "si_segment si"]
      segment_with_separator_None_iff [of "segment_with_implicit_default s1 ?imp" "segment_separator (si_segment si)"]
    by (metis not_None_eq)
  note f = segment_with_separator_fields [OF s2] segment_with_implicit_default_fields segment_len_new [OF s1]
  have "bump_segment bt k idx si = Done (s2, drop (of_bool ?imp) cs)"
    using cs s1 s2 by (simp add: bump_segment_def Let_def)
  moreover have "part_ok (s2, drop (of_bool ?imp) cs)"
    using f un by (simp add: part_ok_def)
  moreover have "part_components (s2, drop (of_bool ?imp) cs) = cs"
    using f by (cases cs) (auto simp: part_components_def default_component_def)
  ultimately show ?thesis using that f by blast
qed

section \<open>All segments\<close>

lemma bump_segments_Done:
  assumes "\<And>i. i < length ss \<Longrightarrow> bump_components bt k (idx + i) (si_components (ss ! i)) \<noteq> Panic"
    and "list_all part_ok (parts ss)" and "\<And>si. si \<in> set ss \<Longrightarrow> unat (segment_len (si_segment si)) < 8191"
  shows "\<exists>ps. bump_segments bt k idx ss = Done ps \<and> length ps = length ss \<and> list_all part_ok ps
    \<and> (\<forall>i < length ss. Done (part_components (ps ! i)) = bump_components bt k (idx + i) (si_components (ss ! i)))"
  using assms
proof (induction ss arbitrary: idx)
  case (Cons s ss)
  obtain cs where cs: "bump_components bt k idx (si_components s) = Done cs"
    using Cons.prems(1) [of 0] by (cases "bump_components bt k idx (si_components s)") auto
  have small: "unat (segment_len (si_segment s)) < 8191" using Cons.prems(3) [of s] by simp
  from bump_segment_Done [OF cs length_raw_components [OF Cons.prems(2) list.set_intros(1)] small]
  obtain seg raw where p: "bump_segment bt k idx s = Done (seg, raw)" "part_ok (seg, raw)"
    "part_components (seg, raw) = cs" by blast
  have "\<And>i. i < length ss \<Longrightarrow> bump_components bt k (idx + 1 + i) (si_components (ss ! i)) \<noteq> Panic"
    using Cons.prems(1) [of "Suc i" for i] by simp
  then obtain ps where ps: "bump_segments bt k (idx + 1) ss = Done ps" "length ps = length ss"
    "list_all part_ok ps"
    "\<forall>i < length ss. Done (part_components (ps ! i)) = bump_components bt k (idx + 1 + i) (si_components (ss ! i))"
    using Cons.IH [of "idx + 1"] Cons.prems(2,3) by (auto simp: parts_def)
  show ?case
    by (rule exI [of _ "(seg, raw) # ps"]) (use p ps cs in \<open>auto simp: nth_Cons split: nat.splits\<close>)
qed simp

section \<open>The whole version\<close>

text \<open>The rows a bump works on: the release segments, extended with zero segments up to the bumped one.\<close>

definition bump_rows :: "version \<Rightarrow> nat \<Rightarrow> component list list" where
  "bump_rows v k = map part_components (release_parts v) @ replicate (k + 1 - segment_count v) [Numeral 0]"

lemma grid_append_zeros: "grid (css @ replicate n [Numeral 0]) = grid css"
proof (intro ext)
  fix i j
  show "grid (css @ replicate n [Numeral 0]) i j = grid css i j"
  proof (cases "i < length css")
    case True
    then show ?thesis by (simp add: grid_def nth_default_append nth_default_nth)
  next
    case False
    then have "nth_default [] (css @ replicate n [Numeral 0]) i \<in> {[], [Numeral 0]}"
      by (auto simp: nth_default_def nth_append)
    then show ?thesis using False by (auto simp: grid_def nth_default_def)
  qed
qed

lemma view_release: "view (release_segments v) = grid (map part_components (release_parts v))"
  by (simp add: view_parts release_parts_def)

lemma view_local: "view (local_segments v) = grid (map part_components (local_parts v))"
  by (simp add: view_parts local_parts_def)

lemma bump_rows_grid: "grid (bump_rows v k) = view (release_segments v)"
  by (simp add: bump_rows_def grid_append_zeros view_release)

definition bump_ready :: "version \<Rightarrow> bump_type \<Rightarrow> nat \<Rightarrow> bool" where
  "bump_ready v bt k \<longleftrightarrow> version_ok v \<and> bump_index v bt = Inr k
     \<and> (local_parts v = [] \<or> k < 127)
     \<and> list_all (\<lambda>p. length (snd p) < 8191) (release_parts v)
     \<and> list_all (\<lambda>p. \<not> segment_has_implicit_default (fst p)) (local_parts v)
     \<and> list_ex is_numeric (nth_default [] (bump_rows v k) k)"

lemma bump_components_no_panic:
  assumes "i = k \<Longrightarrow> list_ex is_numeric cs"
  shows "bump_components bt k i cs \<noteq> Panic"
  using assms by (cases bt; cases "k = i") (simp_all add: bump_components_def)

text \<open>The extended version a bump works on.\<close>

lemma extended_rows:
  assumes "layout ep (release_parts v @ replicate (k + 1 - segment_count v) zero_part) loc x"
  shows "map si_components (release_segments x) = bump_rows v k"
    and "parts (release_segments x) = release_parts v @ replicate (k + 1 - segment_count v) zero_part"
proof -
  show rel: "parts (release_segments x) = release_parts v @ replicate (k + 1 - segment_count v) zero_part"
    using layout_parts(1) [OF assms] by (simp add: release_parts_def)
  show "map si_components (release_segments x) = bump_rows v k"
    using arg_cong [OF rel, of "map part_components"]
    by (simp add: parts_def comp_def part_components_si bump_rows_def)
qed

lemma bump_ready_segments:
  assumes ready: "bump_ready v bt k"
    and lx: "layout ep (release_parts v @ replicate (k + 1 - segment_count v) zero_part) loc x"
  shows "\<exists>ps. bump_segments bt k 0 (release_segments x) = Done ps \<and> length ps = length (bump_rows v k)
    \<and> list_all part_ok ps
    \<and> (\<forall>i < length ps. Done (part_components (ps ! i)) = bump_components bt k i (bump_rows v k ! i))"
proof -
  let ?ss = "release_segments x"
  note rows = extended_rows(1) [OF lx] and rel = extended_rows(2) [OF lx]
  have len: "length ?ss = length (bump_rows v k)" using arg_cong [OF rows, of length] by simp
  have row: "si_components (?ss ! i) = bump_rows v k ! i" if "i < length ?ss" for i
    unfolding rows [symmetric] using that by simp
  have oks: "list_all part_ok (parts ?ss)" using lx rel by (simp add: layout_def)
  have short: "list_all (\<lambda>p. length (snd p) < 8191) (parts ?ss)"
    using ready unfolding rel bump_ready_def by (auto simp: zero_part_def list_all_iff)
  have small: "unat (segment_len (si_segment si)) < 8191" if si: "si \<in> set ?ss" for si
  proof -
    have "(si_segment si, snd (raw_components si)) \<in> set (parts ?ss)" using si by (simp add: parts_def)
    then show ?thesis using oks short unfolding list_all_iff part_ok_def by fastforce
  qed
  have no_panic: "bump_components bt k (0 + i) (si_components (?ss ! i)) \<noteq> Panic" if i: "i < length ?ss" for i
  proof (rule bump_components_no_panic)
    assume "0 + i = k"
    moreover have "list_ex is_numeric (nth_default [] (bump_rows v k) k)" using ready by (simp add: bump_ready_def)
    ultimately show "list_ex is_numeric (si_components (?ss ! i))"
      using i unfolding row [OF i] len by (simp add: nth_default_nth)
  qed
  show ?thesis
    using bump_segments_Done [OF no_panic oks small] unfolding len [symmetric]
    using row by auto
qed

lemma bump_result:
  assumes "bump_index v bt = Inr k" and "extend_to_length v (k + 1) = Done (Inr x)"
    and "bump_segments bt k 0 (release_segments x) = Done ps"
    and "fl = (case epoch_opt x of Some e \<Rightarrow> flags_with_has_epoch (v_flags x) True | None \<Rightarrow> v_flags x)"
    and "comps = (case epoch_opt x of Some e \<Rightarrow> [Numeral e] | None \<Rightarrow> []) @ concat (map snd ps)"
  shows "bump v bt = (if has_local x
      then rust_bind (expect (flags_with_local_segment_index fl (of_nat (length ps)))) (\<lambda>flags.
        Done (Inr \<lparr>v_components = comps @ concat (map si_components (local_segments v)),
          v_segments = map fst ps @ map si_segment (local_segments v), v_flags = flags\<rparr>))
      else Done (Inr \<lparr>v_components = comps, v_segments = map fst ps, v_flags = fl\<rparr>))"
  using assms by (simp add: bump_def Let_def)

lemma local_copy:
  assumes "list_all (\<lambda>p. \<not> segment_has_implicit_default (fst p)) (local_parts v)"
  shows "concat (map si_components (local_segments v)) = concat (map snd (local_parts v))"
proof -
  have "si_components si = snd (raw_components si)" if "si \<in> set (local_segments v)" for si
    using that assms by (auto simp: local_parts_def parts_def list_all_iff si_components_raw raw_components_def)
  then have "map si_components (local_segments v) = map snd (local_parts v)"
    by (simp add: local_parts_def parts_def)
  then show ?thesis by simp
qed

lemma bump_parts:
  assumes ready: "bump_ready v bt k"
  obtains w ps where "bump v bt = Done (Inr w)" and "layout (epoch_opt v) ps (local_parts v) w"
    and "length ps = length (bump_rows v k)"
    and "\<forall>i < length ps. Done (part_components (ps ! i)) = bump_components bt k i (bump_rows v k ! i)"
proof -
  have ok: "version_ok v" and idx: "bump_index v bt = Inr k" and fits: "local_parts v = [] \<or> k + 1 \<le> 127"
    and loc: "list_all (\<lambda>p. \<not> segment_has_implicit_default (fst p)) (local_parts v)"
    using ready by (auto simp: bump_ready_def)
  obtain x where x: "extend_to_length v (k + 1) = Done (Inr x)"
    and lx: "layout (epoch_opt v) (release_parts v @ replicate (k + 1 - segment_count v) zero_part) (local_parts v) x"
    using extend_to_length_parts [OF ok fits] .
  obtain ps where ps: "bump_segments bt k 0 (release_segments x) = Done ps" "length ps = length (bump_rows v k)"
    "list_all part_ok ps"
    "\<forall>i < length ps. Done (part_components (ps ! i)) = bump_components bt k i (bump_rows v k ! i)"
    using bump_ready_segments [OF ready lx] by blast
  have psn: "ps \<noteq> []" using ps(2) lx by (auto simp: bump_rows_def layout_def)
  have lenps: "length ps = length (release_parts v) + (k + 1 - segment_count v)" using ps(2) by (simp add: bump_rows_def)
  define fl where "fl = (case epoch_opt x of Some e \<Rightarrow> flags_with_has_epoch (v_flags x) True | None \<Rightarrow> v_flags x)"
  have epx: "epoch_opt x = epoch_opt v" using layout_epoch [OF lx] by simp
  have fle: "flags_has_epoch fl = (epoch_opt v \<noteq> None)"
    using lx epx by (auto simp: fl_def layout_def has_epoch_def bits_simps split: option.splits)
  have fll: "unat (flags_local_segment_index fl) = (if local_parts v = [] then 0 else length ps)"
    using lx epx lenps by (auto simp: fl_def layout_def bits_simps split: option.splits)
  let ?comps = "(case epoch_opt x of Some e \<Rightarrow> [Numeral e] | None \<Rightarrow> []) @ concat (map snd ps)"
  have res: "bump v bt = (if has_local x
      then rust_bind (expect (flags_with_local_segment_index fl (of_nat (length ps)))) (\<lambda>flags.
        Done (Inr \<lparr>v_components = ?comps @ concat (map snd (local_parts v)),
          v_segments = map fst ps @ map fst (local_parts v), v_flags = flags\<rparr>))
      else Done (Inr \<lparr>v_components = ?comps, v_segments = map fst ps, v_flags = fl\<rparr>))"
    unfolding bump_result [OF idx x ps(1) fl_def refl] local_copy [OF loc] local_parts_def parts_map_segment ..
  have lay: "layout (epoch_opt v) ps (local_parts v) \<lparr>v_components = ?comps @ concat (map snd (local_parts v)),
      v_segments = map fst ps @ map fst (local_parts v), v_flags = g\<rparr>"
    if "flags_has_epoch g = (epoch_opt v \<noteq> None)"
      "unat (flags_local_segment_index g) = (if local_parts v = [] then 0 else length ps)" for g
    using that lx psn ps(3) epx by (simp add: layout_def has_epoch_def)
  show ?thesis
  proof (cases "local_parts v = []")
    case True
    then show ?thesis
      using that [OF _ _ ps(2) ps(4)] res lay [OF fle fll] layout_has_local [OF lx] by simp
  next
    case False
    have "length ps \<le> 127"
      using lenps fits False layout_local_bound [OF lx False] by simp
    then obtain g where g: "try_local_index fl (length ps) = Some g" "flags_has_epoch g = flags_has_epoch fl"
      "unat (flags_local_segment_index g) = length ps"
      using try_local_index_ok by metis
    then show ?thesis
      using that [OF _ _ ps(2) ps(4)] res lay [of g] fle layout_has_local [OF lx] False
        try_local_index_Some [OF g(1)] by simp
  qed
qed

section \<open>A bump moves upwards\<close>

definition row_increases :: "component list \<Rightarrow> component list \<Rightarrow> bool" where
  "row_increases cs ds \<longleftrightarrow> (\<exists>j. component_cmp (nth_default (Numeral 0) cs j) (nth_default (Numeral 0) ds j) = Ord_Less
     \<and> (\<forall>j'<j. nth_default (Numeral 0) cs j' = nth_default (Numeral 0) ds j'))"

text \<open>
  When the bumped row goes up: a major, minor or patch bump needs a leading number that does not
  overflow; a bump of the last or of a given segment also needs a row without text, because text is
  reset to \<open>a\<close> while it is the last number that is incremented.
\<close>

definition last_number :: "component list \<Rightarrow> u64 option" where
  "last_number cs = (case filter is_numeric (rev cs) of c # _ \<Rightarrow> as_number c | [] \<Rightarrow> None)"

definition bump_safe :: "bump_type \<Rightarrow> component list \<Rightarrow> bool" where
  "bump_safe bt cs = (case bt of
     Bump_Last \<Rightarrow> list_all (\<lambda>c. as_iden c = None) cs \<and> last_number cs \<noteq> Some (-1)
   | Bump_Segment _ \<Rightarrow> list_all (\<lambda>c. as_iden c = None) cs \<and> last_number cs \<noteq> Some (-1)
   | _ \<Rightarrow> (case cs of Numeral n # _ \<Rightarrow> n \<noteq> -1 | _ \<Rightarrow> False))"

lemma set_first_iden_none: "list_all (\<lambda>c. as_iden c = None) cs \<Longrightarrow> set_first_iden a cs = cs"
  by (induction a cs rule: set_first_iden.induct) auto

lemma update_first_number_split:
  "list_ex is_numeric cs \<Longrightarrow> \<exists>xs n ys. cs = xs @ Numeral n # ys
     \<and> (\<forall>f. update_first_number f cs = xs @ Numeral (f n) # ys) \<and> list_all (\<lambda>c. \<not> is_numeric c) xs"
proof (induction cs)
  case (Cons c cs)
  show ?case
  proof (cases "is_numeric c")
    case True
    then show ?thesis by (cases c) (auto simp: is_numeric_def intro!: exI [of _ "[]"])
  next
    case False
    then obtain xs n ys where "cs = xs @ Numeral n # ys"
      "\<forall>f. update_first_number f cs = xs @ Numeral (f n) # ys" "list_all (\<lambda>c. \<not> is_numeric c) xs"
      using Cons by auto
    with False show ?thesis by (cases c) (auto simp: is_numeric_def intro!: exI [of _ "c # xs"])
  qed
qed simp

lemma word_less_plus_1: "(n :: u64) \<noteq> -1 \<Longrightarrow> n < n + 1"
proof -
  assume "n \<noteq> -1"
  then have "1 + n \<noteq> 0" by (metis add_eq_0_iff)
  from unatSuc [OF this] show ?thesis by (simp add: word_less_nat_alt add.commute)
qed

lemma row_increases_number:
  assumes "n \<noteq> -1" "list_all2 (=) xs us"
  shows "row_increases (xs @ Numeral n # ys) (us @ Numeral (n + 1) # zs)"
  unfolding row_increases_def
proof (intro exI conjI allI impI)
  have eq: "us = xs" using assms(2) by (simp add: list.rel_eq)
  show "component_cmp (nth_default (Numeral 0) (xs @ Numeral n # ys) (length xs))
      (nth_default (Numeral 0) (us @ Numeral (n + 1) # zs) (length xs)) = Ord_Less"
    using word_less_plus_1 [OF assms(1)] by (simp add: eq nth_default_append cmp_of_def)
  show "nth_default (Numeral 0) (xs @ Numeral n # ys) j' = nth_default (Numeral 0) (us @ Numeral (n + 1) # zs) j'"
    if "j' < length xs" for j'
    using that by (simp add: eq nth_default_append)
qed

lemma bump_last_row_increases:
  assumes "list_ex is_numeric cs" "list_all (\<lambda>c. as_iden c = None) cs" "last_number cs \<noteq> Some (-1)"
  shows "row_increases cs (set_last_iden ''a'' (update_last_number (\<lambda>n. n + 1) cs))"
proof -
  have "list_ex is_numeric (rev cs)" using assms(1) by (auto simp: list_ex_iff)
  then obtain xs n ys where r: "rev cs = xs @ Numeral n # ys"
    "\<forall>f. update_first_number f (rev cs) = xs @ Numeral (f n) # ys" "list_all (\<lambda>c. \<not> is_numeric c) xs"
    using update_first_number_split by blast
  have "filter is_numeric xs = []" using r(3) by (auto simp: list_all_iff filter_empty_conv)
  then have n: "n \<noteq> -1" using assms(3) by (auto simp: last_number_def r(1) is_numeric_def)
  have cs: "cs = rev ys @ Numeral n # rev xs" using arg_cong [OF r(1), of rev] by simp
  have "list_all (\<lambda>c. as_iden c = None) (xs @ Numeral (n + 1) # ys)" using assms(2) by (auto simp: cs list_all_iff)
  then have "set_last_iden ''a'' (update_last_number (\<lambda>n. n + 1) cs) = rev ys @ Numeral (n + 1) # rev xs"
    by (simp add: set_last_iden_def update_last_number_def r(2) set_first_iden_none)
  then show ?thesis
    using row_increases_number [OF n, of "rev ys" "rev ys" "rev xs" "rev xs"] cs by (simp add: list.rel_refl)
qed

lemma bump_components_increases:
  assumes "bump_index v bt = Inr k" "bump_safe bt cs" "list_ex is_numeric cs" "bump_components bt k k cs = Done ds"
  shows "row_increases cs ds"
proof -
  have lead: "\<exists>n cs'. cs = Numeral n # cs' \<and> n \<noteq> -1" if "bt \<in> {Bump_Major, Bump_Minor, Bump_Patch}"
    using assms(2) that by (auto simp: bump_safe_def split: list.splits component.splits)
  have up: "row_increases (Numeral n # cs') (Numeral (n + 1) # ds')" if "n \<noteq> -1" for n cs' ds'
    using row_increases_number [OF that, of "[]" "[]"] by simp
  show ?thesis
    using assms lead up bump_last_row_increases [of cs]
    by (cases bt) (auto simp: bump_components_def bump_index_def bump_safe_def set_last_iden_Numeral)
qed

lemma bump_components_before:
  assumes "bump_index v bt = Inr k" "i < k"
  shows "bump_components bt k i cs = Done cs"
  using assms by (cases bt) (auto simp: bump_components_def bump_index_def)

lemma bump_increases:
  assumes ready: "bump_ready v bt k" and safe: "bump_safe bt (nth_default [] (bump_rows v k) k)"
  shows "\<exists>w. bump v bt = Done (Inr w) \<and> version_ok w \<and> epoch_opt w = epoch_opt v
    \<and> local_parts w = local_parts v \<and> version_cmp v w = Ord_Less"
proof -
  obtain w ps where w: "bump v bt = Done (Inr w)" "layout (epoch_opt v) ps (local_parts v) w"
    and len: "length ps = length (bump_rows v k)"
    and row: "\<forall>i < length ps. Done (part_components (ps ! i)) = bump_components bt k i (bump_rows v k ! i)"
    using bump_parts [OF ready] .
  have idx: "bump_index v bt = Inr k" and num: "list_ex is_numeric (nth_default [] (bump_rows v k) k)"
    using ready by (simp_all add: bump_ready_def)
  have k: "k < length ps"
    unfolding len using num by (cases "k < length (bump_rows v k)") (simp_all add: nth_default_beyond)
  have views: "view (release_segments v) = grid (bump_rows v k)" "view (release_segments w) = grid (map part_components ps)"
    using layout_parts(1) [OF w(2)] by (simp_all add: bump_rows_grid view_release)
  have gridk: "grid (bump_rows v k) i j = nth_default (Numeral 0) (bump_rows v k ! i) j"
    "grid (map part_components ps) i j = nth_default (Numeral 0) (part_components (ps ! i)) j" if "i \<le> k" for i j
    using that k len by (simp_all add: grid_def nth_default_nth)
  have before: "part_components (ps ! i) = bump_rows v k ! i" if "i < k" for i
    using row [rule_format, of i] that k bump_components_before [OF idx that] by simp
  have "row_increases (bump_rows v k ! k) (part_components (ps ! k))"
    using bump_components_increases [OF idx, of "bump_rows v k ! k"] row [rule_format, of k] k len safe num
    by (simp add: nth_default_nth)
  then obtain j where j: "component_cmp (view (release_segments v) k j) (view (release_segments w) k j) = Ord_Less"
    "\<forall>j'<j. view (release_segments v) k j' = view (release_segments w) k j'"
    unfolding row_increases_def views by (auto simp: gridk)
  have "first_difference Ord_Less (view (release_segments v)) (view (release_segments w))"
    unfolding first_difference_def
    by (rule exI [of _ k], rule exI [of _ j])
      (use j in \<open>auto simp: grid_before_def views gridk before component_ord.cmp_refl\<close>)
  then have "compare_segments (release_segments v) (release_segments w) = Ord_Less"
    by (simp add: compare_segments_first_difference)
  moreover have "epoch v = epoch w" using layout_epoch [OF w(2)] by (simp add: epoch_def)
  ultimately have "version_cmp v w = Ord_Less" by (simp add: version_cmp_def)
  then show ?thesis
    using w layout_version_ok [OF w(2)] layout_epoch(1) [OF w(2)] layout_parts(2) [OF w(2)] by blast
qed

end
