(* ===== verification/Version_Prefix.thy ===== *)
theory Version_Prefix
  imports Version_Bump
begin

text \<open>
  Prefix matching of versions (\<open>starts_with\<close>, \<open>compatible_with\<close> of
  \<open>version/mod.rs\<close>): both read a version only through the rows of its components, every version
  starts with itself and with each of its prefixes, and \<open>~=\<close> is the conjunction of an order
  comparison and a prefix comparison against the version without its last segment.
\<close>

section \<open>Prefixes of rows\<close>

fun rows_loop :: "bool \<Rightarrow> (component list, component list) either_or_both list \<Rightarrow> bool" where
  "rows_loop had_extra_left [] = True"
| "rows_loop had_extra_left (Both left right # rest) =
     (\<not> had_extra_left \<and> (case starts_with_components (zip_longest left right) of
        None \<Rightarrow> False | Some had_extra \<Rightarrow> rows_loop had_extra rest))"
| "rows_loop had_extra_left (OnlyLeft _ # rest) = True"
| "rows_loop had_extra_left (OnlyRight row # rest) = (list_all component_is_zero row \<and> rows_loop had_extra_left rest)"

definition rows_start_with :: "component list list \<Rightarrow> component list list \<Rightarrow> bool" where
  "rows_start_with as bs = rows_loop False (zip_longest as bs)"

lemma starts_with_loop_rows:
  "starts_with_loop b (zip_longest as bs) = rows_loop b (zip_longest (map si_components as) (map si_components bs))"
  by (induction as bs arbitrary: b rule: zip_longest.induct)
    (auto simp: si_is_zero_def split: option.splits)

lemma segments_starts_with_rows:
  "segments_starts_with as bs = rows_start_with (map si_components as) (map si_components bs)"
  by (simp add: segments_starts_with_def rows_start_with_def starts_with_loop_rows)

lemma starts_with_components_append:
  "starts_with_components (zip_longest (cs @ extra) cs) = Some (extra \<noteq> [])"
  by (induction cs) (cases extra; simp)+

lemma starts_with_components_refl [simp]: "starts_with_components (zip_longest cs cs) = Some False"
  using starts_with_components_append [of cs "[]"] by simp

lemma rows_start_with_refl_append: "rows_start_with (xs @ ys) xs"
  unfolding rows_start_with_def by (induction xs) (cases ys; simp)+

lemma rows_start_with_extend: "rows_start_with (xs @ (cs @ extra) # ys) (xs @ [cs])"
proof (induction xs)
  case Nil
  then show ?case by (cases ys) (simp_all add: rows_start_with_def starts_with_components_append)
qed (simp add: rows_start_with_def)

definition release_rows :: "version \<Rightarrow> component list list" where
  "release_rows v = map part_components (release_parts v)"

definition local_rows :: "version \<Rightarrow> component list list" where
  "local_rows v = map part_components (local_parts v)"

lemma rows_segments: "release_rows v = map si_components (release_segments v)"
  "local_rows v = map si_components (local_segments v)"
  by (simp_all add: release_rows_def local_rows_def release_parts_def local_parts_def parts_def comp_def part_components_si)

lemma layout_rows:
  assumes "layout ep rel loc v"
  shows "release_rows v = map part_components rel" "local_rows v = map part_components loc"
  using layout_parts [OF assms] by (simp_all add: release_rows_def local_rows_def)

lemma starts_with_rows:
  "starts_with v w \<longleftrightarrow> epoch v = epoch w \<and> rows_start_with (release_rows v) (release_rows w)
     \<and> rows_start_with (local_rows v) (local_rows w)"
  by (simp add: starts_with_def segments_starts_with_rows rows_segments)

lemma starts_with_refl: "starts_with v v"
  using rows_start_with_refl_append [of _ "[]"] by (simp add: starts_with_rows)

lemma rev_drop_1_rev: "rev (drop (Suc 0) (rev xs)) = butlast xs"
  by (cases xs rule: rev_cases) auto

lemma starts_with_pop_segments:
  assumes "version_ok w" "1 < segment_count w"
  shows "\<exists>u. pop_segments w 1 = Done (Some u) \<and> version_ok u
    \<and> (\<forall>v. compatible_with v w \<longleftrightarrow> version_cmp v w \<noteq> Ord_Less \<and> starts_with v u)"
proof -
  have lw: "layout (epoch_opt w) (release_parts w) (local_parts w) w" by (rule version_ok_layout [OF assms(1)])
  obtain u where u: "pop_segments w 1 = Done (Some u)"
    and lu: "layout (epoch_opt w) (drop_first_separator (take (segment_count w - 1) (release_parts w))) (local_parts w) u"
    by (rule pop_segments_parts [OF assms])
  have rel: "release_rows u = butlast (release_rows w)"
    using layout_rows(1) [OF lu] layout_segment_count [OF lw]
    by (simp add: release_rows_def butlast_conv_take take_map)
  have loc: "local_rows u = local_rows w" using layout_rows(2) [OF lu] by (simp add: local_rows_def)
  have ep: "epoch u = epoch w" using layout_epoch(2) [OF lu] by (simp add: epoch_def)
  have "compatible_with v w \<longleftrightarrow> version_cmp v w \<noteq> Ord_Less \<and> starts_with v u" for v
    unfolding starts_with_rows rel loc ep unfolding rows_segments
    by (simp add: compatible_with_def segments_starts_with_rows rev_drop_1_rev map_butlast)
  then show ?thesis using u layout_version_ok [OF lu] by blast
qed

text \<open>Dropping segments from the end of the release part gives a version the original starts with.\<close>

lemma starts_with_popped:
  assumes "version_ok v" "n < segment_count v"
  shows "\<exists>u. pop_segments v n = Done (Some u) \<and> version_ok u \<and> segment_count u = segment_count v - n
    \<and> starts_with v u"
proof -
  have lv: "layout (epoch_opt v) (release_parts v) (local_parts v) v" by (rule version_ok_layout [OF assms(1)])
  obtain u where u: "pop_segments v n = Done (Some u)"
    and lu: "layout (epoch_opt v) (drop_first_separator (take (segment_count v - n) (release_parts v))) (local_parts v) u"
    by (rule pop_segments_parts [OF assms])
  have "release_rows u = take (segment_count v - n) (release_rows v)"
    using layout_rows(1) [OF lu] by (simp add: release_rows_def take_map)
  then have "rows_start_with (release_rows v) (release_rows u)"
    using rows_start_with_refl_append [of "take (segment_count v - n) (release_rows v)"
        "drop (segment_count v - n) (release_rows v)"] by simp
  moreover have "local_rows u = local_rows v" "epoch u = epoch v"
    using layout_rows(2) [OF lu] layout_epoch(2) [OF lu] by (simp_all add: local_rows_def epoch_def)
  moreover have "segment_count u = segment_count v - n"
    using layout_segment_count [OF lu] layout_segment_count [OF lv] by simp
  ultimately show ?thesis
    using u layout_version_ok [OF lu] rows_start_with_refl_append [of _ "[]"] by (simp add: starts_with_rows)
qed

end
