(* ===== verification/Version_Properties.thy ===== *)
theory Version_Properties
  imports Version_Prefix
begin

text \<open>
  The properties of versions: the laws of their order, equality and hash, and the contracts of the
  operations that build versions, each with a concrete instance. \<open>dotted\<close> lays out a version of
  single numbers for the instances.
\<close>

section \<open>Sample versions\<close>

definition dotted :: "u64 list \<Rightarrow> version" where
  "dotted ns = \<lparr>v_components = map Numeral ns,
     v_segments = Segment 1 # replicate (length ns - 1) (Segment 24577), v_flags = Flags 0\<rparr>"

text \<open>\<open>1.2+3\<close>, \<open>1_\<close> and \<open>1-\<close>.\<close>

definition with_local_part :: version where
  "with_local_part = \<lparr>v_components = [Numeral 1, Numeral 2, Numeral 3],
     v_segments = [Segment 1, Segment 24577, Segment 1], v_flags = Flags 4\<rparr>"

section \<open>Order, equality and hash\<close>

text \<open>
  C1. The order of versions is total: comparing the other way round gives the reverse, a version
  compares equal to itself, and the order is transitive.
\<close>

theorem version_order_laws:
  "version_cmp w v = rev_ordering (version_cmp v w) \<and> version_cmp v v = Ord_Equal
   \<and> (version_cmp u v \<noteq> Ord_Greater \<and> version_cmp v w \<noteq> Ord_Greater \<longrightarrow> version_cmp u w \<noteq> Ord_Greater)"
  using version_ord.cmp_rev [of w v] version_ord.cmp_refl [of v] version_ord.cmp_trans [of u v w] by blast

theorem version_order_laws_witness:
  "version_cmp (dotted [1, 2]) (dotted [1, 10]) \<noteq> Ord_Greater
     \<and> version_cmp (dotted [1, 10]) (dotted [2]) \<noteq> Ord_Greater
     \<and> version_cmp (dotted [1, 2]) (dotted [2]) \<noteq> Ord_Greater"
proof -
  have "version_cmp (dotted [1, 2]) (dotted [1, 10]) \<noteq> Ord_Greater" by code_simp
  moreover have "version_cmp (dotted [1, 10]) (dotted [2]) \<noteq> Ord_Greater" by code_simp
  ultimately show ?thesis
    using version_order_laws [of "dotted [2]" "dotted [1, 10]" "dotted [1, 2]"] by blast
qed

text \<open>
  C2. Two versions differ in order exactly as their epochs do or, with equal epochs, as the components
  do at the first place, row by row, where the zero-padded release parts differ, or where the local
  parts differ when the release parts do not.
\<close>

theorem version_cmp_first_difference:
  assumes "r \<noteq> Ord_Equal"
  shows "version_cmp v w = r \<longleftrightarrow> cmp_of (epoch v) (epoch w) = r \<or>
    epoch v = epoch w \<and> (first_difference r (view (release_segments v)) (view (release_segments w))
      \<or> (\<forall>i j. component_cmp (view (release_segments v) i j) (view (release_segments w) i j) = Ord_Equal)
        \<and> first_difference r (view (local_segments v)) (view (local_segments w)))"
proof -
  have pick: "then_with a b = r \<longleftrightarrow> a = r \<or> a = Ord_Equal \<and> b = r" for a b
    using assms by (cases a) auto
  show ?thesis
    unfolding version_cmp_def pick compare_segments_first_difference [OF assms] compare_segments_Equal_iff
      cmp_of_eq_iff ..
qed

theorem version_cmp_first_difference_witness:
  "version_cmp (dotted [1, 2]) (dotted [1, 10, 1]) = Ord_Less
     \<and> first_difference Ord_Less (view (release_segments (dotted [1, 2]))) (view (release_segments (dotted [1, 10, 1])))"
proof -
  have less: "version_cmp (dotted [1, 2]) (dotted [1, 10, 1]) = Ord_Less" by code_simp
  have "epoch (dotted [1, 2]) = epoch (dotted [1, 10, 1])" by code_simp
  moreover have "component_cmp (view (release_segments (dotted [1, 2])) 1 0)
      (view (release_segments (dotted [1, 10, 1])) 1 0) \<noteq> Ord_Equal" by code_simp
  moreover have "cmp_of (epoch (dotted [1, 2])) (epoch (dotted [1, 10, 1])) \<noteq> Ord_Less" by code_simp
  ultimately show ?thesis
    using version_cmp_first_difference [of Ord_Less "dotted [1, 2]" "dotted [1, 10, 1]"] less by blast
qed

text \<open>C10. Versions that are equal feed the same items to a hasher.\<close>

theorem version_eq_hash:
  "version_eq v w \<Longrightarrow> version_hash v = version_hash w"
  by (rule version_hash_cong)

theorem version_eq_hash_witness:
  "version_eq (dotted [1, 1]) (dotted [1, 1, 0, 0]) \<and> version_hash (dotted [1, 1]) = version_hash (dotted [1, 1, 0, 0])"
proof -
  have "version_eq (dotted [1, 1]) (dotted [1, 1, 0, 0])" by code_simp
  with version_eq_hash show ?thesis by blast
qed

text \<open>
  C11. Equal versions compare as equal; the converse holds for versions that keep no dash, so that the
  order distinguishes what equality does. (A dash and an underscore compare as equal but are not.)
\<close>

theorem version_eq_cmp:
  "(version_eq v w \<longrightarrow> version_cmp v w = Ord_Equal)
   \<and> (no_dash v \<and> no_dash w \<and> version_cmp v w = Ord_Equal \<longrightarrow> version_eq v w)"
  using version_eq_imp_cmp no_dash_cmp_imp_eq by blast

theorem version_eq_cmp_witness:
  "version_eq (dotted [1, 0]) (dotted [1]) \<and> version_cmp (dotted [1, 0]) (dotted [1]) = Ord_Equal"
proof -
  have "version_cmp (dotted [1, 0]) (dotted [1]) = Ord_Equal" by code_simp
  moreover have "no_dash (dotted [1, 0])" "no_dash (dotted [1])" by code_simp+
  ultimately show ?thesis using version_eq_cmp [of "dotted [1, 0]" "dotted [1]"] by blast
qed

text \<open>The exception is real: \<open>1_\<close> and \<open>1-\<close> compare as equal and are not equal.\<close>

lemma dash_cmp_not_eq:
  defines "v b \<equiv> \<lparr>v_components = [Numeral 1, UnderscoreOrDash b], v_segments = [Segment 2], v_flags = Flags 0\<rparr>"
  shows "version_cmp (v True) (v False) = Ord_Equal" "\<not> version_eq (v True) (v False)"
  unfolding v_def by code_simp+

section \<open>Operations\<close>

text \<open>
  C9. A bump that is ready (the version is well formed, the bumped segment exists and has a number, no segment of
  the local part starts with text, which a bump would lose, and the packed fields do not overflow: a release segment
  has fewer than 8191 components, and with a local part the bumped index is below 127) and safe (a leading number
  below the maximum for a major, minor or patch bump; no text in the segment and a last number below the maximum for
  the others) returns a well-formed version that is strictly greater and keeps the epoch and the local part.
\<close>

theorem bump_strictly_greater:
  assumes "bump_ready v bt k" "bump_safe bt (nth_default [] (bump_rows v k) k)"
  shows "\<exists>w. bump v bt = Done (Inr w) \<and> version_ok w \<and> epoch_opt w = epoch_opt v
    \<and> local_parts w = local_parts v \<and> version_cmp v w = Ord_Less"
  using assms by (rule bump_increases)

theorem bump_strictly_greater_witness:
  "bump_ready with_local_part Bump_Minor 1 \<and> bump_safe Bump_Minor (nth_default [] (bump_rows with_local_part 1) 1)
   \<and> (\<exists>w. bump with_local_part Bump_Minor = Done (Inr w) \<and> version_cmp with_local_part w = Ord_Less)"
proof -
  have "bump_ready with_local_part Bump_Minor 1" by code_simp
  moreover have "bump_safe Bump_Minor (nth_default [] (bump_rows with_local_part 1) 1)" by code_simp
  ultimately show ?thesis using bump_strictly_greater [of with_local_part Bump_Minor 1] by blast
qed

text \<open>
  \<open>with_segments\<close> returns nothing for a range that is empty or leaves the release part, and
  otherwise a well-formed version whose release part is the chosen range, with the epoch and the local
  part kept.
\<close>

theorem with_segments_contract:
  assumes "version_ok v"
  shows "if bound_start sb < bound_end (segment_count v) eb \<and> bound_end (segment_count v) eb \<le> segment_count v
    then \<exists>w. with_segments v sb eb = Done (Some w) \<and> version_ok w \<and> epoch_opt w = epoch_opt v
      \<and> local_parts w = local_parts v
      \<and> release_rows w = take (bound_end (segment_count v) eb - bound_start sb) (drop (bound_start sb) (release_rows v))
    else with_segments v sb eb = Done None"
proof (cases "bound_start sb < bound_end (segment_count v) eb \<and> bound_end (segment_count v) eb \<le> segment_count v")
  case True
  then obtain w where "with_segments v sb eb = Done (Some w)"
    and lw: "layout (epoch_opt v) (drop_first_separator (take (bound_end (segment_count v) eb - bound_start sb)
           (drop (bound_start sb) (release_parts v)))) (local_parts v) w"
    using with_segments_parts [OF assms] by blast
  then show ?thesis
    using True layout_version_ok [OF lw] layout_epoch(1) [OF lw] layout_parts(2) [OF lw] layout_rows(1) [OF lw]
    by (simp add: release_rows_def take_map drop_map)
next
  case False
  then show ?thesis using with_segments_out_of_range [OF False] by auto
qed

theorem with_segments_contract_witness:
  "\<exists>w. with_segments (dotted [1, 2, 3]) (Included 1) Unbounded = Done (Some w) \<and> version_ok w
    \<and> release_rows w = [[Numeral 2], [Numeral 3]]"
proof -
  have "version_ok (dotted [1, 2, 3])" by code_simp
  moreover have "bound_start (Included 1) < bound_end (segment_count (dotted [1, 2, 3])) Unbounded
      \<and> bound_end (segment_count (dotted [1, 2, 3])) Unbounded \<le> segment_count (dotted [1, 2, 3])" by code_simp
  moreover have "take (bound_end (segment_count (dotted [1, 2, 3])) Unbounded - bound_start (Included 1))
      (drop (bound_start (Included 1)) (release_rows (dotted [1, 2, 3]))) = [[Numeral 2], [Numeral 3]]" by code_simp
  ultimately show ?thesis using with_segments_contract [of "dotted [1, 2, 3]" "Included 1" Unbounded] by auto
qed

text \<open>
  Popping fewer segments than the version has returns a well-formed version of the remaining
  segments that the original starts with; popping all or more returns nothing.
\<close>

theorem pop_segments_contract:
  assumes "version_ok v"
  shows "if n < segment_count v
    then \<exists>u. pop_segments v n = Done (Some u) \<and> version_ok u \<and> segment_count u = segment_count v - n \<and> starts_with v u
    else pop_segments v n = Done None"
  using starts_with_popped [OF assms] pop_segments_too_many [of v n] by simp

theorem pop_segments_contract_witness:
  "\<exists>u. pop_segments with_local_part 1 = Done (Some u) \<and> version_ok u \<and> starts_with with_local_part u"
proof -
  have "version_ok with_local_part" "1 < segment_count with_local_part" by code_simp+
  then show ?thesis using pop_segments_contract [of with_local_part 1] by auto
qed

text \<open>
  C8. A version is compatible with a limit of at least two segments exactly when it is not below the
  limit and starts with the limit without its last segment.
\<close>

theorem compatible_with_contract:
  assumes "version_ok w" "1 < segment_count w"
  shows "\<exists>u. pop_segments w 1 = Done (Some u)
    \<and> (\<forall>v. compatible_with v w \<longleftrightarrow> version_cmp v w \<noteq> Ord_Less \<and> starts_with v u)"
  using starts_with_pop_segments [OF assms] by blast

theorem compatible_with_contract_witness:
  "compatible_with (dotted [1, 5]) (dotted [1, 2]) \<and> (\<exists>u. starts_with (dotted [1, 5]) u)"
proof -
  have "version_ok (dotted [1, 2])" "1 < segment_count (dotted [1, 2])" by code_simp+
  moreover have "compatible_with (dotted [1, 5]) (dotted [1, 2])" by code_simp
  ultimately show ?thesis using compatible_with_contract [of "dotted [1, 2]"] by blast
qed

text \<open>
  Extending a version to a length succeeds unless a local part would not fit its index, gives at
  least that many release segments, and the result is equal to the original. Between 128 and 255
  segments a version with a local part is refused.
\<close>

theorem extend_to_length_contract:
  assumes ok: "version_ok v"
  shows "(local_parts v = [] \<or> len \<le> 127 \<longrightarrow> (\<exists>w. extend_to_length v len = Done (Inr w) \<and> version_ok w
      \<and> segment_count w = max len (segment_count v) \<and> version_eq v w))
    \<and> (local_parts v \<noteq> [] \<and> 127 < len \<and> len < 256 \<longrightarrow> extend_to_length v len = Done (Inl VersionTooLong))"
proof (intro conjI impI)
  assume "local_parts v = [] \<or> len \<le> 127"
  from extend_to_length_parts [OF ok this] obtain w where w: "extend_to_length v len = Done (Inr w)"
    and lw: "layout (epoch_opt v) (release_parts v @ replicate (len - segment_count v) zero_part) (local_parts v) w" .
  have "view (release_segments w) = view (release_segments v)"
    using layout_parts(1) [OF lw] by (simp add: view_release grid_append_zeros)
  moreover have "view (local_segments w) = view (local_segments v)" using layout_parts(2) [OF lw] by (simp add: view_local)
  moreover have "epoch w = epoch v" using layout_epoch(2) [OF lw] by (simp add: epoch_def)
  ultimately have "version_eq v w" by (simp add: version_eq_view)
  moreover have "segment_count w = max len (segment_count v)"
    using layout_segment_count [OF lw] layout_segment_count [OF version_ok_layout [OF ok]] by simp
  ultimately show "\<exists>w. extend_to_length v len = Done (Inr w) \<and> version_ok w
      \<and> segment_count w = max len (segment_count v) \<and> version_eq v w"
    using w layout_version_ok [OF lw] by blast
qed (use extend_to_length_too_long [OF ok] in blast)

theorem extend_to_length_contract_witness:
  "\<exists>w. extend_to_length with_local_part 4 = Done (Inr w) \<and> segment_count w = 4 \<and> version_eq with_local_part w"
proof -
  have "version_ok with_local_part" "max 4 (segment_count with_local_part) = 4" by code_simp+
  then show ?thesis using extend_to_length_contract [of with_local_part 4] by auto
qed

text \<open>Removing the local part keeps the epoch and the release part and leaves no local part.\<close>

theorem remove_local_contract:
  assumes "version_ok v"
  shows "\<exists>w. remove_local v = Done w \<and> version_ok w \<and> epoch_opt w = epoch_opt v
    \<and> release_parts w = release_parts v \<and> local_parts w = [] \<and> \<not> has_local w"
proof -
  obtain w where w: "remove_local v = Done w" and lw: "layout (epoch_opt v) (release_parts v) [] w"
    by (rule remove_local_parts [OF assms])
  then show ?thesis
    using layout_version_ok [OF lw] layout_epoch(1) [OF lw] layout_parts [OF lw] layout_has_local [OF lw] by blast
qed

theorem remove_local_contract_witness:
  "\<exists>w. remove_local with_local_part = Done w \<and> version_ok w \<and> \<not> has_local w"
proof -
  have "version_ok with_local_part" by code_simp
  then show ?thesis using remove_local_contract [of with_local_part] by blast
qed

section \<open>Cases outside the contracts\<close>

text \<open>\<open>strip_local\<close> of \<open>1.a+x\<close> prints \<open>1.0\<close>: the implicit zero is stored and the text is
  dropped; \<open>remove_local\<close> prints \<open>1.a\<close>.\<close>

lemma strip_local_loses_text:
  defines "v \<equiv> \<lparr>v_components = [Numeral 1, Iden ''a'', Iden ''x''],
    v_segments = [Segment 1, Segment 57345, Segment 32769], v_flags = Flags 4\<rparr>"
  shows "version_ok v" "version_display v = ''1.a+x''" "version_display (strip_local v) = ''1.0''"
    "(case remove_local v of Done w \<Rightarrow> version_display w | Panic \<Rightarrow> []) = ''1.a''"
  unfolding v_def by code_simp+

text \<open>A minor bump of \<open>1.2+abc\<close> prints \<open>1.3+0\<close>, for the same reason.\<close>

lemma bump_loses_local_text:
  defines "v \<equiv> \<lparr>v_components = [Numeral 1, Numeral 2, Iden ''abc''],
    v_segments = [Segment 1, Segment 24577, Segment 32769], v_flags = Flags 4\<rparr>"
  shows "version_ok v" "version_display v = ''1.2+abc''"
    "(case bump v Bump_Minor of Done (Inr w) \<Rightarrow> version_display w | _ \<Rightarrow> []) = ''1.3+0''"
  unfolding v_def by code_simp+

text \<open>Bumping the last segment of \<open>1.1b3\<close> gives the smaller \<open>1.1a4\<close>.\<close>

lemma bump_last_decreases:
  defines "v \<equiv> \<lparr>v_components = [Numeral 1, Numeral 1, Iden ''b'', Numeral 3],
    v_segments = [Segment 1, Segment 24579], v_flags = Flags 0\<rparr>"
  shows "version_display v = ''1.1b3''"
    "(case bump v Bump_Last of Done (Inr w) \<Rightarrow> (version_display w, version_cmp w v) | _ \<Rightarrow> ([], Ord_Equal))
       = (''1.1a4'', Ord_Less)"
  unfolding v_def by code_simp+

text \<open>\<open>1a0\<close> and \<open>1a.0\<close> are equal as strict versions and feed different items to a hasher.\<close>

lemma strict_eq_hash_differs:
  defines "v \<equiv> StrictVersion \<lparr>v_components = [Numeral 1, Iden ''a'', Numeral 0], v_segments = [Segment 3], v_flags = Flags 0\<rparr>"
    and "w \<equiv> StrictVersion \<lparr>v_components = [Numeral 1, Iden ''a'', Numeral 0],
      v_segments = [Segment 2, Segment 24577], v_flags = Flags 0\<rparr>"
  shows "strict_version_eq v w" "strict_version_hash v \<noteq> strict_version_hash w"
  unfolding v_def w_def by code_simp+

text \<open>A version with and without its source text are equal and hash differently.\<close>

lemma source_eq_hash_differs:
  "vws_eq \<lparr>vws_version = dotted [1], vws_source = None\<rparr> \<lparr>vws_version = dotted [1], vws_source = Some ''1''\<rparr>"
  "vws_hash \<lparr>vws_version = dotted [1], vws_source = None\<rparr> \<noteq> vws_hash \<lparr>vws_version = dotted [1], vws_source = Some ''1''\<rparr>"
  by code_simp+

end
