(* ===== verification/Version_Spec.thy ===== *)
theory Version_Spec
  imports Version_Properties Rust_Text
begin

text \<open>
  Version constraints: the operators, the constraint tree and its evaluation
  (\<open>version_spec/mod.rs\<close>), the parsed single constraint (\<open>version_spec/constraint.rs\<close>),
  and the parts of \<open>version_spec/parse.rs\<close> that work on finished values: the wildcard suffix
  tests and the flattening of groups. The complements of the operators are shown to negate
  evaluation, flattening to keep it, and a conjunction of range clauses to accept an interval.
\<close>

section \<open>Operators\<close>

datatype range_operator = Greater | GreaterEquals | Less | LessEquals

datatype strict_range_operator = StartsWith | NotStartsWith | Compatible | NotCompatible

datatype equality_operator = Equals | NotEquals

datatype version_operators =
    Op_Range range_operator
  | Op_StrictRange strict_range_operator
  | Op_Exact equality_operator

datatype logical_operator = And | Or

fun range_complement :: "range_operator \<Rightarrow> range_operator" where
  "range_complement Greater = LessEquals"
| "range_complement GreaterEquals = Less"
| "range_complement Less = GreaterEquals"
| "range_complement LessEquals = Greater"

fun strict_range_complement :: "strict_range_operator \<Rightarrow> strict_range_operator" where
  "strict_range_complement StartsWith = NotStartsWith"
| "strict_range_complement NotStartsWith = StartsWith"
| "strict_range_complement Compatible = NotCompatible"
| "strict_range_complement NotCompatible = Compatible"

fun equality_complement :: "equality_operator \<Rightarrow> equality_operator" where
  "equality_complement Equals = NotEquals"
| "equality_complement NotEquals = Equals"

fun logical_complement :: "logical_operator \<Rightarrow> logical_operator" where
  "logical_complement And = Or"
| "logical_complement Or = And"

fun range_display :: "range_operator \<Rightarrow> string" where
  "range_display Greater = ''>''"
| "range_display GreaterEquals = ''>=''"
| "range_display Less = ''<''"
| "range_display LessEquals = ''<=''"

fun strict_range_display :: "strict_range_operator \<Rightarrow> string" where
  "strict_range_display StartsWith = ''=''"
| "strict_range_display NotStartsWith = ''!=startswith''"
| "strict_range_display Compatible = ''~=''"
| "strict_range_display NotCompatible = ''!~=''"

fun equality_display :: "equality_operator \<Rightarrow> string" where
  "equality_display Equals = ''==''"
| "equality_display NotEquals = ''!=''"

fun logical_display :: "logical_operator \<Rightarrow> string" where
  "logical_display And = '',''"
| "logical_display Or = ''|''"

fun version_operators_display :: "version_operators \<Rightarrow> string" where
  "version_operators_display (Op_Range r) = range_display r"
| "version_operators_display (Op_StrictRange r) = strict_range_display r"
| "version_operators_display (Op_Exact r) = equality_display r"

section \<open>The constraint tree\<close>

datatype version_spec =
    Spec_None
  | Spec_Any
  | Spec_Range range_operator version
  | Spec_StrictRange strict_range_operator strict_version
  | Spec_Exact equality_operator version
  | Spec_Group logical_operator "version_spec list"

datatype constraint =
    Constraint_Any
  | Constraint_Comparison range_operator version
  | Constraint_StrictComparison strict_range_operator version
  | Constraint_Exact equality_operator version

fun spec_from_constraint :: "constraint \<Rightarrow> version_spec" where
  "spec_from_constraint Constraint_Any = Spec_Any"
| "spec_from_constraint (Constraint_Comparison op ver) = Spec_Range op ver"
| "spec_from_constraint (Constraint_StrictComparison op ver) = Spec_StrictRange op (StrictVersion ver)"
| "spec_from_constraint (Constraint_Exact e ver) = Spec_Exact e ver"

text \<open>The nested function \<open>write\<close> of \<open>Display for VersionSpec\<close>.\<close>

fun spec_write :: "logical_operator option \<Rightarrow> version_spec \<Rightarrow> string" where
  "spec_write parent_op Spec_Any = ''*''"
| "spec_write parent_op (Spec_StrictRange op v) = (case op of
      StartsWith \<Rightarrow> version_display (strict_inner v) @ ''.*''
    | NotStartsWith \<Rightarrow> ''!='' @ version_display (strict_inner v) @ ''.*''
    | op \<Rightarrow> strict_range_display op @ version_display (strict_inner v))"
| "spec_write parent_op (Spec_Range op v) = range_display op @ version_display v"
| "spec_write parent_op (Spec_Exact op v) = equality_display op @ version_display v"
| "spec_write parent_op (Spec_Group op grp) =
     (let requires_parenthesis = (op = Or \<and> parent_op = Some And)
      in (if requires_parenthesis then ''('' else [])
         @ join_with (logical_display op) (map (spec_write (Some op)) grp)
         @ (if requires_parenthesis then '')'' else []))"
| "spec_write parent_op Spec_None = ''!''"

definition spec_display :: "version_spec \<Rightarrow> string" where
  "spec_display spec = spec_write None spec"

fun spec_matches :: "version_spec \<Rightarrow> version \<Rightarrow> bool" where
  "spec_matches Spec_None v \<longleftrightarrow> False"
| "spec_matches Spec_Any v \<longleftrightarrow> True"
| "spec_matches (Spec_Exact Equals limit) v \<longleftrightarrow> version_eq limit v"
| "spec_matches (Spec_Exact NotEquals limit) v \<longleftrightarrow> \<not> version_eq limit v"
| "spec_matches (Spec_Range Greater limit) v \<longleftrightarrow> version_cmp v limit = Ord_Greater"
| "spec_matches (Spec_Range GreaterEquals limit) v \<longleftrightarrow> version_cmp v limit \<in> {Ord_Greater, Ord_Equal}"
| "spec_matches (Spec_Range Less limit) v \<longleftrightarrow> version_cmp v limit = Ord_Less"
| "spec_matches (Spec_Range LessEquals limit) v \<longleftrightarrow> version_cmp v limit \<in> {Ord_Less, Ord_Equal}"
| "spec_matches (Spec_StrictRange StartsWith limit) v \<longleftrightarrow> starts_with v (strict_inner limit)"
| "spec_matches (Spec_StrictRange NotStartsWith limit) v \<longleftrightarrow> \<not> starts_with v (strict_inner limit)"
| "spec_matches (Spec_StrictRange Compatible limit) v \<longleftrightarrow> compatible_with v (strict_inner limit)"
| "spec_matches (Spec_StrictRange NotCompatible limit) v \<longleftrightarrow> \<not> compatible_with v (strict_inner limit)"
| "spec_matches (Spec_Group And grp) v \<longleftrightarrow> list_all (\<lambda>spec. spec_matches spec v) grp"
| "spec_matches (Spec_Group Or grp) v \<longleftrightarrow> list_ex (\<lambda>spec. spec_matches spec v) grp"

section \<open>Helpers of the parser\<close>

function infinite_starts_with_loop :: "string \<Rightarrow> bool" where
  "infinite_starts_with_loop input =
     (if input = [] then False
      else case strip_suffix ''.*'' input of
             Some rest \<Rightarrow> (if rest = [] then True else infinite_starts_with_loop rest)
           | None \<Rightarrow> False)"
  by pat_completeness auto
termination by (relation "measure length") auto

definition looks_like_infinite_starts_with :: "string \<Rightarrow> bool" where
  "looks_like_infinite_starts_with input =
     infinite_starts_with_loop (case strip_suffix ''.'' input of Some rest \<Rightarrow> rest | None \<Rightarrow> input)"

function strip_dot_stars :: "string \<Rightarrow> string" where
  "strip_dot_stars input = (case strip_suffix ''.*'' input of Some rest \<Rightarrow> strip_dot_stars rest | None \<Rightarrow> input)"
  by pat_completeness auto
termination by (relation "measure length") auto

definition is_star_or_star_dot_star :: "string \<Rightarrow> bool" where
  "is_star_or_star_dot_star input \<longleftrightarrow> input = ''*'' \<or> strip_dot_stars input = []"

fun flatten_into :: "logical_operator \<Rightarrow> version_spec list \<Rightarrow> version_spec list" where
  "flatten_into operator [] = []"
| "flatten_into operator (spec # args) = (case spec of
      Spec_Group op others \<Rightarrow> (if op = operator then others @ flatten_into operator args
                               else spec # flatten_into operator args)
    | _ \<Rightarrow> spec # flatten_into operator args)"

definition flatten_version_specs :: "logical_operator \<Rightarrow> version_spec list \<Rightarrow> version_spec" where
  "flatten_version_specs operator args =
     (if length args = 1 then hd args else Spec_Group operator (flatten_into operator args))"

declare infinite_starts_with_loop.simps [simp del] strip_dot_stars.simps [simp del]

section \<open>Evaluation\<close>

text \<open>The negation of a tree, built from the complements of its operators.\<close>

fun spec_complement :: "version_spec \<Rightarrow> version_spec" where
  "spec_complement Spec_None = Spec_Any"
| "spec_complement Spec_Any = Spec_None"
| "spec_complement (Spec_Range op v) = Spec_Range (range_complement op) v"
| "spec_complement (Spec_StrictRange op v) = Spec_StrictRange (strict_range_complement op) v"
| "spec_complement (Spec_Exact op v) = Spec_Exact (equality_complement op) v"
| "spec_complement (Spec_Group op grp) = Spec_Group (logical_complement op) (map spec_complement grp)"

lemma range_complement_matches:
  "spec_matches (Spec_Range (range_complement op) limit) v \<longleftrightarrow> \<not> spec_matches (Spec_Range op limit) v"
  by (cases op; cases "version_cmp v limit") auto

lemma spec_complement_matches: "spec_matches (spec_complement s) v \<longleftrightarrow> \<not> spec_matches s v"
proof (induction s)
  case (Spec_Range op limit)
  show ?case by (simp only: spec_complement.simps range_complement_matches)
next
  case (Spec_StrictRange op limit)
  show ?case by (cases op) auto
next
  case (Spec_Exact op limit)
  show ?case by (cases op) auto
next
  case (Spec_Group op grp)
  then show ?case by (cases op) (auto simp: list_all_iff list_ex_iff)
qed auto

lemma complement_involution:
  "range_complement (range_complement r) = r"
  "strict_range_complement (strict_range_complement s) = s"
  "equality_complement (equality_complement e) = e"
  "logical_complement (logical_complement l) = l"
  by ((cases r; simp), (cases s; simp), (cases e; simp), (cases l; simp))

lemma flatten_into_And: "list_all (\<lambda>s. spec_matches s v) (flatten_into And args) = list_all (\<lambda>s. spec_matches s v) args"
  by (induction args) (auto split: version_spec.splits)

lemma flatten_into_Or: "list_ex (\<lambda>s. spec_matches s v) (flatten_into Or args) = list_ex (\<lambda>s. spec_matches s v) args"
  by (induction args) (auto split: version_spec.splits)

lemma flatten_version_specs_matches:
  "spec_matches (flatten_version_specs op args) v = spec_matches (Spec_Group op args) v"
proof (cases "length args = 1")
  case True
  then obtain a where "args = [a]" by (auto simp: length_Suc_conv)
  then show ?thesis by (cases op) (simp_all add: flatten_version_specs_def)
next
  case False
  then show ?thesis by (cases op) (simp_all add: flatten_version_specs_def flatten_into_And flatten_into_Or)
qed

text \<open>Flattening leaves no grp of the same operator inside a grp that had only simple nesting.\<close>

fun no_nested :: "logical_operator \<Rightarrow> version_spec \<Rightarrow> bool" where
  "no_nested op (Spec_Group op' grp) = (op \<noteq> op')"
| "no_nested op _ = True"

lemma flatten_into_no_nested:
  assumes "\<forall>others. Spec_Group op others \<in> set args \<longrightarrow> list_all (no_nested op) others"
  shows "list_all (no_nested op) (flatten_into op args)"
  using assms by (induction args) (auto split: version_spec.splits)

text \<open>Clauses that only compare with the version order.\<close>

fun order_only :: "version_spec \<Rightarrow> bool" where
  "order_only (Spec_StrictRange op v) = False"
| "order_only (Spec_Group op grp) = list_all order_only grp"
| "order_only _ = True"

lemma version_eq_cmp_left: "version_eq v w \<Longrightarrow> version_cmp v u = version_cmp w u"
  using version_ord.cmp_equal_left [OF version_eq_imp_cmp] .

lemma spec_matches_version_eq:
  assumes "order_only s" "version_eq v w"
  shows "spec_matches s v = spec_matches s w"
  using assms
proof (induction s)
  case (Spec_Range op limit)
  then show ?case by (cases op) (simp_all add: version_eq_cmp_left [of v w])
next
  case (Spec_Exact op limit)
  then have "version_eq limit v = version_eq limit w"
    using version_eq_equivalence by (metis)
  then show ?case by (cases op) simp_all
next
  case (Spec_Group op grp)
  then show ?case by (cases op) (auto simp: list_all_iff list_ex_iff)
qed auto

text \<open>Conjunctions of range and \<open>==\<close> clauses.\<close>

fun interval_spec :: "version_spec \<Rightarrow> bool" where
  "interval_spec (Spec_Range op v) = True"
| "interval_spec Spec_Any = True"
| "interval_spec Spec_None = True"
| "interval_spec (Spec_Group And grp) = list_all interval_spec grp"
| "interval_spec _ = False"

lemma range_matches_between:
  assumes m: "spec_matches (Spec_Range op limit) u" "spec_matches (Spec_Range op limit) w"
    and uv: "version_cmp u v \<noteq> Ord_Greater" and vw: "version_cmp v w \<noteq> Ord_Greater"
  shows "spec_matches (Spec_Range op limit) v"
proof (cases op)
  case Greater
  then have "version_cmp u limit = Ord_Greater" using m(1) by simp
  from version_ord.cmp_less_trans [OF version_ord.cmp_flip(2) [OF this] uv]
  show ?thesis using Greater version_ord.cmp_flip(1) by simp
next
  case GreaterEquals
  have "version_cmp v u \<noteq> Ord_Less" using uv version_ord.cmp_flip(1) [of v u] by metis
  moreover have "version_cmp u limit \<noteq> Ord_Less" using m(1) GreaterEquals by auto
  ultimately have "version_cmp v limit \<noteq> Ord_Less" by (rule version_ord.cmp_ge_trans)
  then show ?thesis using GreaterEquals by (cases "version_cmp v limit") simp_all
next
  case Less
  then show ?thesis using m(2) version_ord.cmp_less_trans2 [OF vw] by simp
next
  case LessEquals
  have "version_cmp w limit \<noteq> Ord_Greater" using m(2) LessEquals by auto
  from version_ord.cmp_trans [OF vw this] show ?thesis
    using LessEquals by (cases "version_cmp v limit") simp_all
qed

lemma spec_matches_between:
  assumes "interval_spec s" "spec_matches s u" "spec_matches s w"
    and uv: "version_cmp u v \<noteq> Ord_Greater" and vw: "version_cmp v w \<noteq> Ord_Greater"
  shows "spec_matches s v"
  using assms(1-3)
proof (induction s)
  case (Spec_Range op limit)
  then show ?case using range_matches_between [OF _ _ uv vw] by blast
next
  case (Spec_Group op grp)
  then show ?case by (cases op) (simp_all add: list_all_iff)
qed simp_all

section \<open>Wildcard suffixes\<close>

definition dot_stars :: "nat \<Rightarrow> string" where
  "dot_stars n = concat (replicate n ''.*'')"

lemma dot_stars_Suc: "dot_stars (Suc n) = dot_stars n @ ''.*''"
  by (simp add: dot_stars_def flip: replicate_append_same)

lemma dot_stars_nonempty: "s \<noteq> [] \<Longrightarrow> (\<exists>n. s = dot_stars n) \<longleftrightarrow> (\<exists>n. s = dot_stars (Suc n))"
proof -
  have "dot_stars 0 = []" by (simp add: dot_stars_def)
  then show "s \<noteq> [] \<Longrightarrow> ?thesis" by (metis not0_implies_Suc)
qed

lemma infinite_starts_with_loop_iff: "infinite_starts_with_loop s \<longleftrightarrow> (\<exists>n. s = dot_stars (Suc n))"
proof (induction s rule: infinite_starts_with_loop.induct)
  case (1 s)
  show ?case
  proof (cases "strip_suffix ''.*'' s")
    case None
    then have "\<not> infinite_starts_with_loop s" by (subst infinite_starts_with_loop.simps) simp
    moreover have "s \<noteq> dot_stars (Suc n)" for n using None by (auto simp: dot_stars_Suc)
    ultimately show ?thesis by blast
  next
    case (Some rest)
    then have s: "s = rest @ ''.*''" by simp
    have loop: "infinite_starts_with_loop s \<longleftrightarrow> rest = [] \<or> infinite_starts_with_loop rest"
      by (subst infinite_starts_with_loop.simps) (simp add: s)
    show ?thesis
    proof (cases "rest = []")
      case True
      then have "s = dot_stars (Suc 0)" using s by (simp add: dot_stars_def)
      then show ?thesis using loop True by blast
    next
      case False
      then have "infinite_starts_with_loop rest \<longleftrightarrow> (\<exists>n. rest = dot_stars (Suc n))"
        using "1" [OF _ Some] s by auto
      moreover have "(\<exists>n. rest = dot_stars (Suc n)) \<longleftrightarrow> (\<exists>n. s = dot_stars (Suc n))"
        unfolding dot_stars_nonempty [OF False, symmetric] by (simp add: s dot_stars_Suc)
      ultimately show ?thesis using loop False by blast
    qed
  qed
qed

lemma strip_dot_stars_Nil_iff: "strip_dot_stars s = [] \<longleftrightarrow> (\<exists>n. s = dot_stars n)"
proof (induction s rule: strip_dot_stars.induct)
  case (1 s)
  show ?case
  proof (cases "strip_suffix ''.*'' s")
    case None
    then have "strip_dot_stars s = s" by (subst strip_dot_stars.simps) simp
    moreover have "s = [] \<longleftrightarrow> (\<exists>n. s = dot_stars n)"
    proof -
      have "s \<noteq> dot_stars (Suc n)" for n using None by (auto simp: dot_stars_Suc)
      then show ?thesis by (metis dot_stars_def not0_implies_Suc concat.simps(1) replicate_0)
    qed
    ultimately show ?thesis by simp
  next
    case (Some rest)
    then have s: "s = rest @ ''.*''" by simp
    have "strip_dot_stars s = strip_dot_stars rest" by (subst strip_dot_stars.simps) (simp add: s)
    moreover have "(\<exists>n. rest = dot_stars n) \<longleftrightarrow> (\<exists>n. s = dot_stars n)"
    proof -
      have "s \<noteq> dot_stars 0" using s by (simp add: dot_stars_def)
      then show ?thesis by (metis s dot_stars_Suc append_same_eq not0_implies_Suc)
    qed
    ultimately show ?thesis using "1" [OF Some] by simp
  qed
qed

section \<open>Properties\<close>

text \<open>
  C7. The complement of every operator negates it: the tree with all operators complemented matches
  exactly the versions the tree does not match, and complementing twice gives the operator back.
\<close>

theorem complement_negates:
  "(spec_matches (spec_complement s) v \<longleftrightarrow> \<not> spec_matches s v)
   \<and> range_complement (range_complement r) = r \<and> strict_range_complement (strict_range_complement t) = t
   \<and> equality_complement (equality_complement e) = e \<and> logical_complement (logical_complement l) = l"
  by (simp add: spec_complement_matches complement_involution)

text \<open>
  A conjunction of range clauses accepts an interval of the version order: with two versions it
  accepts every version between them.
\<close>

theorem range_conjunction_convex:
  assumes "interval_spec s" "spec_matches s u" "spec_matches s w"
    and "version_cmp u v \<noteq> Ord_Greater" "version_cmp v w \<noteq> Ord_Greater"
  shows "spec_matches s v"
  using assms by (rule spec_matches_between)

theorem range_conjunction_convex_witness:
  "spec_matches (Spec_Group And [Spec_Range GreaterEquals (dotted [1, 2]), Spec_Range Less (dotted [2])]) (dotted [1, 5])"
proof (rule range_conjunction_convex [of _ "dotted [1, 2]" "dotted [1, 10]"])
  show "interval_spec (Spec_Group And [Spec_Range GreaterEquals (dotted [1, 2]), Spec_Range Less (dotted [2])])"
    by simp
  show "spec_matches (Spec_Group And [Spec_Range GreaterEquals (dotted [1, 2]), Spec_Range Less (dotted [2])]) (dotted [1, 2])"
    by code_simp
  show "spec_matches (Spec_Group And [Spec_Range GreaterEquals (dotted [1, 2]), Spec_Range Less (dotted [2])]) (dotted [1, 10])"
    by code_simp
  show "version_cmp (dotted [1, 2]) (dotted [1, 5]) \<noteq> Ord_Greater" by code_simp
  show "version_cmp (dotted [1, 5]) (dotted [1, 10]) \<noteq> Ord_Greater" by code_simp
qed

text \<open>Flattening a group of parsed constraints does not change what it matches.\<close>

theorem flatten_keeps_meaning:
  "spec_matches (flatten_version_specs op args) v = spec_matches (Spec_Group op args) v"
  by (rule flatten_version_specs_matches)

text \<open>
  The wildcard tests recognise exactly the suffixes they are meant for: one or more \<open>.*\<close> with an
  optional final dot, and \<open>*\<close> or any number of \<open>.*\<close>.
\<close>

theorem wildcard_suffixes:
  "(looks_like_infinite_starts_with s \<longleftrightarrow> (\<exists>n. s = dot_stars (Suc n) \<or> s = dot_stars (Suc n) @ ''.''))
   \<and> (is_star_or_star_dot_star s \<longleftrightarrow> s = ''*'' \<or> (\<exists>n. s = dot_stars n))"
proof
  show "is_star_or_star_dot_star s \<longleftrightarrow> s = ''*'' \<or> (\<exists>n. s = dot_stars n)"
    by (simp add: is_star_or_star_dot_star_def strip_dot_stars_Nil_iff)
  show "looks_like_infinite_starts_with s \<longleftrightarrow> (\<exists>n. s = dot_stars (Suc n) \<or> s = dot_stars (Suc n) @ ''.'')"
  proof (cases "strip_suffix ''.'' s")
    case None
    then have "s \<noteq> r @ ''.''" for r by (simp add: strip_suffix_None_iff)
    with None show ?thesis
      by (simp add: looks_like_infinite_starts_with_def infinite_starts_with_loop_iff)
  next
    case (Some r)
    then have "s \<noteq> dot_stars (Suc n)" for n by (auto simp: dot_stars_Suc)
    then show ?thesis
      using Some by (auto simp: looks_like_infinite_starts_with_def infinite_starts_with_loop_iff)
  qed
qed

end
