(* ===== verification/Text_Scanners.thy ===== *)
theory Text_Scanners
  imports Rust_Text Package_Name
begin

text \<open>
  What the parsers of specs rely on outside the repository: the scanner \<open>multispace0\<close> of \<open>nom\<close>, which returns
  the rest of its input, and the Unicode tables. Their documented behaviour is stated here, with instances that
  have it.
\<close>

type_synonym multispace = "string \<Rightarrow> string"

definition takes_multispace0 :: "multispace \<Rightarrow> bool" where
  "takes_multispace0 ws \<longleftrightarrow> (\<forall>s. ws s = dropWhile (\<lambda>c. c = CHR '' '' \<or> c = CHR 0x09 \<or> c = CHR 0x0D \<or> c = CHR 0x0A) s)"

definition ascii_tables :: "unicode_tables \<Rightarrow> bool" where
  "ascii_tables ut \<longleftrightarrow> (\<forall>c. of_char c < (128 :: nat) \<longrightarrow> (is_alphanumeric ut [c] \<longleftrightarrow> is_ascii_alphabetic c \<or> is_ascii_digit c))"

definition ascii_spaces :: multispace where
  "ascii_spaces = dropWhile (\<lambda>c. c = CHR '' '' \<or> c = CHR 0x09 \<or> c = CHR 0x0D \<or> c = CHR 0x0A)"

definition ascii_unicode :: unicode_tables where
  "ascii_unicode = \<lparr>is_alphabetic = (\<lambda>s. list_all is_ascii_alphabetic s),
     is_alphanumeric = (\<lambda>s. list_all (\<lambda>c. is_ascii_alphabetic c \<or> is_ascii_digit c) s)\<rparr>"

lemma multispace_id: "takes_multispace0 ws \<Longrightarrow> c \<notin> set [CHR '' '', CHR 0x09, CHR 0x0D, CHR 0x0A] \<Longrightarrow> ws (c # s) = c # s"
  by (simp add: takes_multispace0_def)

lemma ascii_instances: "takes_multispace0 ascii_spaces" "ascii_tables ascii_unicode"
  by (simp_all add: takes_multispace0_def ascii_spaces_def ascii_tables_def ascii_unicode_def)

end
