(* ===== verification/Version_Spec_Parse.thy ===== *)
theory Version_Spec_Parse
  imports Version_Literal Version_Spec Text_Scanners
begin

text \<open>
  The parser of version constraints (\<open>rattler_conda_version/src/version_spec/parse.rs\<close>,
  \<open>version_spec/constraint.rs\<close>): operators, single constraints in both strictness modes, and the groups with
  commas, bars and parentheses. Of \<open>nom\<close>, the scanners that take a run of characters are parameters; its
  combinators are written out. The groups recurse with fuel, and \<open>None\<close> is a parse that has not ended within it.
\<close>

section \<open>Errors and scanners\<close>

datatype parse_strictness = Lenient | Strict

datatype parse_version_operator_error = Operator_Invalid string | Operator_Expected

datatype constraint_kind = EK_Tag | EK_Eof

datatype parse_constraint_error =
    GlobVersionIncompatibleWithOperator version_operators
  | RegexConstraintsNotSupported
  | UnterminatedRegex
  | Constraint_InvalidOperator string
  | Constraint_InvalidVersion parse_version_error
  | AmbiguousVersion string
  | Constraint_ExpectedVersion
  | Constraint_ExpectedEof
  | Constraint_Nom constraint_kind
  | InvalidGlob

record spec_env =
  se_scanners :: nom_scanners
  se_take_while1 :: "(string \<Rightarrow> bool) \<Rightarrow> scanner"
  se_multispace0 :: multispace
  se_unicode :: unicode_tables

text \<open>\<open>take_while1\<close> takes the longest non-empty run of characters with a property.\<close>

definition takes_chars :: "((string \<Rightarrow> bool) \<Rightarrow> scanner) \<Rightarrow> bool" where
  "takes_chars tw \<longleftrightarrow> (\<forall>p s. tw p s = (let t = concat (takeWhile p (chars s))
     in if t = [] then None else Some (drop (length t) s, t)))"

definition spec_env_laws :: "spec_env \<Rightarrow> bool" where
  "spec_env_laws env \<longleftrightarrow> scanner_laws (se_scanners env) \<and> takes_chars (se_take_while1 env)
     \<and> takes_multispace0 (se_multispace0 env) \<and> ascii_tables (se_unicode env)"

section \<open>Operators\<close>

definition operator_parser :: "spec_env \<Rightarrow> string \<Rightarrow> parse_version_operator_error nom_err + (string \<times> version_operators)" where
  "operator_parser env input =
     (case se_take_while1 env (\<lambda>c. c \<in> {''='', ''!'', ''<'', ''>'', ''~''}) input of
        None \<Rightarrow> Inl (Nom_Error Operator_Expected)
      | Some (rest, operator_str) \<Rightarrow>
          if operator_str = ''=='' then Inr (rest, Op_Exact Equals)
          else if operator_str = ''!='' then Inr (rest, Op_Exact NotEquals)
          else if operator_str = ''<='' then Inr (rest, Op_Range LessEquals)
          else if operator_str = ''>='' then Inr (rest, Op_Range GreaterEquals)
          else if operator_str = ''<'' then Inr (rest, Op_Range Less)
          else if operator_str = ''>'' then Inr (rest, Op_Range Greater)
          else if operator_str = ''='' then Inr (rest, Op_StrictRange StartsWith)
          else if operator_str = ''~='' then Inr (rest, Op_StrictRange Compatible)
          else Inl (Nom_Failure (Operator_Invalid operator_str)))"

section \<open>Constraints\<close>

type_synonym 'a constraint_result = "(parse_constraint_error nom_err + (string \<times> 'a)) rust option"

definition regex_constraint_parser :: "string \<Rightarrow> parse_constraint_error nom_err" where
  "regex_constraint_parser input =
     (let preceder = strip_prefix ''^'' input;
          rest = (case preceder of Some r \<Rightarrow> r | None \<Rightarrow> input);
          terminator = strip_prefix ''$'' (dropWhile (\<lambda>c. c \<noteq> CHR ''$'') rest)
      in if preceder = None \<and> terminator = None then Nom_Error UnterminatedRegex
         else if terminator = None \<or> preceder = None then Nom_Failure UnterminatedRegex
         else Nom_Failure RegexConstraintsNotSupported)"

definition any_constraint_parser :: "parse_strictness \<Rightarrow> string \<Rightarrow> parse_constraint_error nom_err + (string \<times> constraint)" where
  "any_constraint_parser strictness input = (case strip_prefix ''*'' input of
     None \<Rightarrow> Inl (Nom_Error (Constraint_Nom EK_Tag))
   | Some rest \<Rightarrow>
       (case strip_prefix ''.*'' rest of
          None \<Rightarrow> Inr (rest, Constraint_Any)
        | Some remaining \<Rightarrow>
            if strictness = Strict then Inl (Nom_Failure InvalidGlob) else Inr (remaining, Constraint_Any)))"

definition is_version_char :: "unicode_tables \<Rightarrow> string \<Rightarrow> bool" where
  "is_version_char ut c \<longleftrightarrow> is_alphanumeric ut c \<or> c \<in> {''!'', ''-'', ''_'', ''.'', ''*'', ''+''}"

text \<open>The operator that a version without a proper text stands for, as in \<open>>=*\<close>.\<close>

definition star_constraint :: "parse_strictness \<Rightarrow> version_operators \<Rightarrow> parse_constraint_error nom_err + constraint" where
  "star_constraint strictness op =
     (if strictness = Strict then Inl (Nom_Failure (GlobVersionIncompatibleWithOperator op))
      else if op \<in> {Op_Range GreaterEquals, Op_Range LessEquals, Op_StrictRange Compatible, Op_StrictRange StartsWith, Op_Exact Equals}
      then Inr Constraint_Any
      else Inl (Nom_Failure (GlobVersionIncompatibleWithOperator op)))"

text \<open>The operator of a version, with what remains behind the version.\<close>

definition resolve_operator :: "parse_strictness \<Rightarrow> string \<Rightarrow> string \<Rightarrow> version_operators option \<Rightarrow> parse_constraint_error + version_operators" where
  "resolve_operator strictness version_str version_rest op =
     (if version_rest = [] then
        (case op of
           Some op \<Rightarrow> Inr op
         | None \<Rightarrow> if strictness = Strict then Inl (AmbiguousVersion version_str) else Inr (Op_Exact Equals))
      else if (op = Some (Op_Range GreaterEquals) \<or> op = Some (Op_Range Greater)) \<and> strictness = Lenient \<and> is_star_or_star_dot_star version_rest
        then Inr (Op_Range GreaterEquals)
      else if (version_rest = ''*'' \<or> version_rest = ''.*'') \<and> op = Some (Op_Exact NotEquals)
        then Inr (Op_StrictRange NotStartsWith)
      else if op \<noteq> None \<and> strictness = Lenient \<and> is_star_or_star_dot_star version_rest then Inr (the op)
      else if (version_rest = ''*'' \<or> version_rest = ''.*'') \<and> op \<noteq> None \<and> strictness = Strict
        then Inl (GlobVersionIncompatibleWithOperator (the op))
      else if (version_rest = ''*'' \<or> version_rest = ''.*'') \<and> op = None then Inr (Op_StrictRange StartsWith)
      else if op = None \<and> strictness = Lenient \<and> looks_like_infinite_starts_with version_rest then Inr (Op_StrictRange StartsWith)
      else if CHR ''*'' \<in> set version_str \<or> strip_suffix ''$'' version_rest \<noteq> None then Inl RegexConstraintsNotSupported
      else Inl (Constraint_InvalidVersion \<lparr>pve_version = version_str, pve_kind = PV_ExpectedEof\<rparr>))"

fun make_constraint :: "version_operators \<Rightarrow> version \<Rightarrow> constraint" where
  "make_constraint (Op_Range r) v = Constraint_Comparison r v"
| "make_constraint (Op_Exact e) v = Constraint_Exact e v"
| "make_constraint (Op_StrictRange s) v = Constraint_StrictComparison s v"

text \<open>The text of a version behind an optional operator.\<close>

definition version_constraint :: "spec_env \<Rightarrow> parse_strictness \<Rightarrow> string \<Rightarrow> version_operators option \<Rightarrow> constraint constraint_result" where
  "version_constraint env strictness input op =
     (case se_take_while1 env (is_version_char (se_unicode env)) input of
        None \<Rightarrow> Some (Done (Inl (Nom_Error (Constraint_InvalidVersion \<lparr>pve_version = [], pve_kind = PV_Empty\<rparr>))))
      | Some (rest, version_str) \<Rightarrow>
          if version_str = ''*'' then
            (case op of
               None \<Rightarrow> Some Panic
             | Some op \<Rightarrow> Some (Done (case star_constraint strictness op of Inl e \<Rightarrow> Inl e | Inr c \<Rightarrow> Inr (rest, c))))
          else (case version_parser (se_scanners env) version_str of
              None \<Rightarrow> None
            | Some Panic \<Rightarrow> Some Panic
            | Some (Done (Inl (Nom_Error e))) \<Rightarrow> Some (Done (Inl (Nom_Error (Constraint_InvalidVersion \<lparr>pve_version = [], pve_kind = e\<rparr>))))
            | Some (Done (Inl (Nom_Failure e))) \<Rightarrow> Some (Done (Inl (Nom_Failure (Constraint_InvalidVersion \<lparr>pve_version = [], pve_kind = e\<rparr>))))
            | Some (Done (Inr (version_rest, version))) \<Rightarrow>
                (case resolve_operator strictness version_str version_rest op of
                   Inl e \<Rightarrow> Some (Done (Inl (Nom_Failure e)))
                 | Inr op \<Rightarrow> Some (Done (Inr (rest, make_constraint op version))))))"

definition logical_constraint_parser :: "spec_env \<Rightarrow> parse_strictness \<Rightarrow> string \<Rightarrow> constraint constraint_result" where
  "logical_constraint_parser env strictness input = (case operator_parser env input of
     Inl (Nom_Failure (Operator_Invalid op)) \<Rightarrow> Some (Done (Inl (Nom_Failure (Constraint_InvalidOperator op))))
   | Inl (Nom_Error (Operator_Invalid op)) \<Rightarrow> Some (Done (Inl (Nom_Failure (Constraint_InvalidOperator op))))
   | Inl (Nom_Error _) \<Rightarrow> version_constraint env strictness input None
   | Inr (rest, op) \<Rightarrow> version_constraint env strictness rest (Some op)
   | _ \<Rightarrow> Some Panic)"

text \<open>\<open>alt\<close>: the next parser is tried on an error, and the last error counts.\<close>

definition constraint_parser :: "spec_env \<Rightarrow> parse_strictness \<Rightarrow> string \<Rightarrow> constraint constraint_result" where
  "constraint_parser env strictness input = (case regex_constraint_parser input of
     Nom_Failure e \<Rightarrow> Some (Done (Inl (Nom_Failure e)))
   | Nom_Error _ \<Rightarrow> (case any_constraint_parser strictness input of
         Inl (Nom_Error _) \<Rightarrow> logical_constraint_parser env strictness input
       | r \<Rightarrow> Some (Done r)))"

definition constraint_from_str :: "spec_env \<Rightarrow> parse_strictness \<Rightarrow> string \<Rightarrow> (parse_constraint_error + constraint) rust option" where
  "constraint_from_str env strictness input = map_option (\<lambda>r. rust_bind r (\<lambda>r. Done (case r of
     Inr (rest, c) \<Rightarrow> if rest = [] then Inr c else Inl Constraint_ExpectedEof
   | Inl (Nom_Failure e) \<Rightarrow> Inl e
   | Inl (Nom_Error e) \<Rightarrow> Inl e))) (constraint_parser env strictness input)"

section \<open>Groups\<close>

text \<open>A separator with white space around it.\<close>

definition group_separator :: "spec_env \<Rightarrow> string \<Rightarrow> string \<Rightarrow> string option" where
  "group_separator env sep input = map_option (se_multispace0 env) (strip_prefix sep (se_multispace0 env input))"

text \<open>
  \<open>separated_list1\<close>: one value, then values behind separators until the separator or the value behind it
  fails with an error.
\<close>

fun separated_rest :: "nat \<Rightarrow> (string \<Rightarrow> string option) \<Rightarrow> (string \<Rightarrow> 'a constraint_result) \<Rightarrow> string \<Rightarrow> 'a list constraint_result" where
  "separated_rest 0 sep p input = None"
| "separated_rest (Suc n) sep p input = (case sep input of
     None \<Rightarrow> Some (Done (Inr (input, [])))
   | Some rest \<Rightarrow> (case p rest of
         None \<Rightarrow> None
       | Some Panic \<Rightarrow> Some Panic
       | Some (Done (Inl (Nom_Error _))) \<Rightarrow> Some (Done (Inr (input, [])))
       | Some (Done (Inl (Nom_Failure e))) \<Rightarrow> Some (Done (Inl (Nom_Failure e)))
       | Some (Done (Inr (rest, x))) \<Rightarrow> (case separated_rest n sep p rest of
             None \<Rightarrow> None
           | Some Panic \<Rightarrow> Some Panic
           | Some (Done (Inl e)) \<Rightarrow> Some (Done (Inl e))
           | Some (Done (Inr (rest, xs))) \<Rightarrow> Some (Done (Inr (rest, x # xs))))))"

definition separated_list1 :: "(string \<Rightarrow> string option) \<Rightarrow> (string \<Rightarrow> 'a constraint_result) \<Rightarrow> string \<Rightarrow> 'a list constraint_result" where
  "separated_list1 sep p input = (case p input of
     None \<Rightarrow> None
   | Some Panic \<Rightarrow> Some Panic
   | Some (Done (Inl e)) \<Rightarrow> Some (Done (Inl e))
   | Some (Done (Inr (rest, x))) \<Rightarrow> (case separated_rest (Suc (length rest)) sep p rest of
         None \<Rightarrow> None
       | Some Panic \<Rightarrow> Some Panic
       | Some (Done (Inl e)) \<Rightarrow> Some (Done (Inl e))
       | Some (Done (Inr (rest, xs))) \<Rightarrow> Some (Done (Inr (rest, x # xs)))))"

definition map_parsed :: "('a \<Rightarrow> 'b) \<Rightarrow> 'a constraint_result \<Rightarrow> 'b constraint_result" where
  "map_parsed f r = (case r of
     None \<Rightarrow> None
   | Some Panic \<Rightarrow> Some Panic
   | Some (Done (Inl e)) \<Rightarrow> Some (Done (Inl e))
   | Some (Done (Inr (rest, x))) \<Rightarrow> Some (Done (Inr (rest, f x))))"

text \<open>The alternatives of a term without parentheses: a star, or a constraint.\<close>

definition plain_term :: "spec_env \<Rightarrow> parse_strictness \<Rightarrow> string \<Rightarrow> version_spec constraint_result" where
  "plain_term env strictness input = (case strip_prefix ''*'' input of
     Some rest \<Rightarrow> Some (Done (Inr (case strip_prefix ''.*'' rest of Some rest \<Rightarrow> rest | None \<Rightarrow> rest, Spec_Any)))
   | None \<Rightarrow> map_parsed spec_from_constraint (constraint_parser env strictness input))"

text \<open>The parser of the text between parentheses is an argument, to be recursive below.\<close>

definition version_spec_term :: "spec_env \<Rightarrow> parse_strictness \<Rightarrow> (string \<Rightarrow> version_spec constraint_result) \<Rightarrow> string \<Rightarrow> version_spec constraint_result" where
  "version_spec_term env strictness or_group input = (case strip_prefix ''('' input of
     None \<Rightarrow> plain_term env strictness input
   | Some rest \<Rightarrow>
       (case or_group (se_multispace0 env rest) of
          None \<Rightarrow> None
        | Some Panic \<Rightarrow> Some Panic
        | Some (Done (Inl (Nom_Failure e))) \<Rightarrow> Some (Done (Inl (Nom_Failure e)))
        | Some (Done (Inl (Nom_Error _))) \<Rightarrow> plain_term env strictness input
        | Some (Done (Inr (rest, spec))) \<Rightarrow>
            (case strip_prefix '')'' (se_multispace0 env rest) of
               None \<Rightarrow> plain_term env strictness input
             | Some rest \<Rightarrow> Some (Done (Inr (rest, spec))))))"

definition version_spec_and_group :: "spec_env \<Rightarrow> parse_strictness \<Rightarrow> (string \<Rightarrow> version_spec constraint_result) \<Rightarrow> string \<Rightarrow> version_spec constraint_result" where
  "version_spec_and_group env strictness or_group input =
     map_parsed (flatten_version_specs And) (separated_list1 (group_separator env '','') (version_spec_term env strictness or_group) input)"

fun version_spec_or_group :: "nat \<Rightarrow> spec_env \<Rightarrow> parse_strictness \<Rightarrow> string \<Rightarrow> version_spec constraint_result" where
  "version_spec_or_group 0 env strictness input = None"
| "version_spec_or_group (Suc n) env strictness input =
     map_parsed (flatten_version_specs Or)
       (separated_list1 (group_separator env ''|'') (version_spec_and_group env strictness (version_spec_or_group n env strictness)) input)"

text \<open>The whole text has to be consumed. Parentheses are nested at most as deep as the text is long.\<close>

definition version_spec_parser :: "spec_env \<Rightarrow> parse_strictness \<Rightarrow> string \<Rightarrow> (parse_constraint_error + version_spec) rust option" where
  "version_spec_parser env st input = map_option (\<lambda>r. rust_bind r (\<lambda>r. Done (case r of
     Inr (rest, spec) \<Rightarrow> if rest = [] then Inr spec else Inl (Constraint_Nom EK_Eof)
   | Inl (Nom_Failure e) \<Rightarrow> Inl e
   | Inl (Nom_Error e) \<Rightarrow> Inl e))) (version_spec_or_group (Suc (length input)) env st input)"

datatype parse_version_spec_error = Spec_InvalidVersion parse_version_error | Spec_InvalidConstraint parse_constraint_error

definition version_spec_from_str :: "spec_env \<Rightarrow> parse_strictness \<Rightarrow> string \<Rightarrow> (parse_version_spec_error + version_spec) rust option" where
  "version_spec_from_str env st source = map_option (\<lambda>r. rust_bind r (\<lambda>r. Done (map_sum Spec_InvalidConstraint id r)))
     (version_spec_parser env st source)"

text \<open>The two implementations of \<open>FromStr\<close> are lenient.\<close>

definition constraint_parse :: "spec_env \<Rightarrow> string \<Rightarrow> (parse_constraint_error + constraint) rust option" where
  "constraint_parse env s = constraint_from_str env Lenient s"

definition version_spec_parse :: "spec_env \<Rightarrow> string \<Rightarrow> (parse_version_spec_error + version_spec) rust option" where
  "version_spec_parse env s = version_spec_from_str env Lenient s"

definition ascii_take_while1 :: "(string \<Rightarrow> bool) \<Rightarrow> scanner" where
  "ascii_take_while1 p s = (let t = concat (takeWhile p (chars s)) in if t = [] then None else Some (drop (length t) s, t))"

definition ascii_env :: spec_env where
  "ascii_env = \<lparr>se_scanners = ascii_scanners, se_take_while1 = ascii_take_while1, se_multispace0 = ascii_spaces, se_unicode = ascii_unicode\<rparr>"

end
