(* ===== verification/Version_Spec_Round_Trip.thy ===== *)
theory Version_Spec_Round_Trip
  imports Version_Spec_Parse
begin

text \<open>
  The parser of version constraints ends on every text without a panic, and it is the inverse of the printer:
  what it returns is printed as a text that it reads back, in either strictness mode.
\<close>

section \<open>Scanning characters\<close>

lemma env_laws:
  assumes "spec_env_laws env"
  shows "scanner_laws (se_scanners env)" "se_take_while1 env = ascii_take_while1" "takes_multispace0 (se_multispace0 env)"
    "ascii_tables (se_unicode env)"
  using assms by (auto simp: spec_env_laws_def takes_chars_def ascii_take_while1_def fun_eq_iff)

lemma concat_takeWhile_chars: "\<exists>r. s = concat (takeWhile p (chars s)) @ r"
proof (induction s rule: chars.induct)
  case (2 c s)
  let ?n = "case utf8_follow c of Some ps \<Rightarrow> length ps | None \<Rightarrow> 0"
  obtain r where "drop ?n s = concat (takeWhile p (chars (drop ?n s))) @ r" using 2 by blast
  then have "c # s = (c # take ?n s) @ concat (takeWhile p (chars (drop ?n s))) @ r" by (metis append_Cons append_take_drop_id)
  then show ?case by (auto simp: Let_def)
qed simp

lemma take_while1_Some:
  assumes "ascii_take_while1 p s = Some (rest, t)"
  shows "s = t @ rest" "t \<noteq> []"
proof -
  have t: "t = concat (takeWhile p (chars s))" "rest = drop (length t) s" "t \<noteq> []"
    using assms by (auto simp: ascii_take_while1_def Let_def split: if_splits)
  obtain r where "s = t @ r" using concat_takeWhile_chars [of s p] t(1) by auto
  then show "s = t @ rest" "t \<noteq> []" using t(2,3) by simp_all
qed

section \<open>The parser ends without a panic\<close>

definition total_on :: "(string \<Rightarrow> 'a constraint_result) \<Rightarrow> string \<Rightarrow> bool" where
  "total_on p s \<longleftrightarrow> (\<exists>x. p s = Some (Done x))"

definition consumes :: "(string \<Rightarrow> 'a constraint_result) \<Rightarrow> bool" where
  "consumes p \<longleftrightarrow> (\<forall>s rest x. p s = Some (Done (Inr (rest, x))) \<longrightarrow> length rest < length s)"

lemma version_constraint_total:
  assumes "spec_env_laws env" "op = None \<longrightarrow> \<not> starts (\<lambda>c. c = CHR ''*'') s"
  shows "\<exists>x. version_constraint env st s op = Some (Done x)"
proof (cases "ascii_take_while1 (is_version_char (se_unicode env)) s")
  case (Some p)
  obtain rest t where p: "p = (rest, t)" by (cases p)
  note t = take_while1_Some [OF Some [unfolded p]]
  show ?thesis
  proof (cases "t = ''*''")
    case True
    then obtain op' where "op = Some op'" using assms(2) t by (cases op) auto
    then show ?thesis using True Some p env_laws(2) [OF assms(1)] by (auto simp: version_constraint_def)
  next
    case False
    obtain x where "version_parser (se_scanners env) t = Some (Done x)"
      using version_parser_total [OF env_laws(1) [OF assms(1)]] by blast
    then show ?thesis using False Some p env_laws(2) [OF assms(1)]
      by (auto simp: version_constraint_def split: sum.splits nom_err.splits)
  qed
qed (use env_laws(2) [OF assms(1)] in \<open>auto simp: version_constraint_def\<close>)

lemma version_constraint_consumes:
  assumes "spec_env_laws env" "version_constraint env st s op = Some (Done (Inr (rest, c)))"
  shows "length rest < length s"
proof -
  obtain t where "ascii_take_while1 (is_version_char (se_unicode env)) s = Some (rest, t)"
    using assms(2) env_laws(2) [OF assms(1)]
    by (auto simp: version_constraint_def split: option.splits if_splits sum.splits nom_err.splits rust.splits)
  from take_while1_Some [OF this] show ?thesis by auto
qed

lemma operator_parser_cases:
  assumes "spec_env_laws env"
  obtains (none) "operator_parser env s = Inl (Nom_Error Operator_Expected)"
    | (invalid) op where "operator_parser env s = Inl (Nom_Failure (Operator_Invalid op))"
    | (some) rest op where "operator_parser env s = Inr (rest, op)" "length rest < length s" "op \<noteq> Op_StrictRange NotCompatible"
        "op \<noteq> Op_StrictRange NotStartsWith"
proof (cases "ascii_take_while1 (\<lambda>c. c \<in> {''='', ''!'', ''<'', ''>'', ''~''}) s")
  case None
  then show ?thesis using none env_laws(2) [OF assms] by (simp add: operator_parser_def)
next
  case (Some p)
  obtain rest t where p: "p = (rest, t)" by (cases p)
  have len: "length rest < length s" using take_while1_Some [OF Some [unfolded p]] by auto
  have "(\<exists>op. operator_parser env s = Inl (Nom_Failure (Operator_Invalid op)))
      \<or> (\<exists>op. operator_parser env s = Inr (rest, op) \<and> op \<noteq> Op_StrictRange NotCompatible \<and> op \<noteq> Op_StrictRange NotStartsWith)"
    unfolding operator_parser_def env_laws(2) [OF assms] Some p by (simp split: if_split)
  then show ?thesis using invalid some len by blast
qed

lemma regex_not_star: "regex_constraint_parser s = Nom_Error e \<Longrightarrow> e = UnterminatedRegex"
  by (auto simp: regex_constraint_parser_def Let_def split: if_splits)

lemma any_constraint_Error: "any_constraint_parser st s = Inl (Nom_Error e) \<Longrightarrow> \<not> starts (\<lambda>c. c = CHR ''*'') s"
  by (cases s) (auto simp: any_constraint_parser_def split: option.splits if_splits)

lemma strip_prefix_length: "strip_prefix p s = Some r \<Longrightarrow> length s = length p + length r"
  by (simp add: strip_prefix_iff)

lemma constraint_parser_total: "spec_env_laws env \<Longrightarrow> total_on (constraint_parser env st) s"
proof -
  assume e: "spec_env_laws env"
  show ?thesis
  proof (cases "any_constraint_parser st s")
    case (Inl err)
    show ?thesis
    proof (cases err)
      case (Nom_Error k)
      then have "\<not> starts (\<lambda>c. c = CHR ''*'') s" using any_constraint_Error Inl by blast
      then have "\<exists>x. logical_constraint_parser env st s = Some (Done x)"
        using version_constraint_total [OF e]
        by (cases rule: operator_parser_cases [OF e, of s]) (auto simp: logical_constraint_parser_def)
      then show ?thesis using Inl Nom_Error by (auto simp: total_on_def constraint_parser_def split: nom_err.splits)
    qed (use Inl in \<open>auto simp: total_on_def constraint_parser_def split: nom_err.splits\<close>)
  qed (auto simp: total_on_def constraint_parser_def split: nom_err.splits)
qed

lemma constraint_parser_consumes: "spec_env_laws env \<Longrightarrow> consumes (constraint_parser env st)"
proof -
  assume e: "spec_env_laws env"
  have "length rest < length s" if "constraint_parser env st s = Some (Done (Inr (rest, c)))" for s rest c
  proof (cases "any_constraint_parser st s")
    case (Inr p)
    then show ?thesis using that
      by (auto simp: constraint_parser_def any_constraint_parser_def dest!: strip_prefix_length split: nom_err.splits option.splits if_splits)
  next
    case (Inl err)
    then have "logical_constraint_parser env st s = Some (Done (Inr (rest, c)))"
      using that by (auto simp: constraint_parser_def split: nom_err.splits)
    then show ?thesis using version_constraint_consumes [OF e, of st]
      by (cases rule: operator_parser_cases [OF e, of s]) (fastforce simp: logical_constraint_parser_def)+
  qed
  then show ?thesis by (auto simp: consumes_def)
qed

lemma map_parsed_total [simp]: "total_on (\<lambda>s. map_parsed f (p s)) s = total_on p s"
  by (auto simp: total_on_def map_parsed_def split: option.splits rust.splits sum.splits)

lemma map_parsed_Inr: "map_parsed f r = Some (Done (Inr (rest, y))) \<longleftrightarrow> (\<exists>x. r = Some (Done (Inr (rest, x))) \<and> y = f x)"
  by (auto simp: map_parsed_def split: option.splits rust.splits sum.splits)

lemma separated_rest_total:
  assumes "\<And>i r. sep i = Some r \<Longrightarrow> length r < length i" "consumes p"
  shows "length s < n \<Longrightarrow> (\<And>i. length i < length s \<Longrightarrow> total_on p i) \<Longrightarrow> total_on (separated_rest n sep p) s"
proof (induction n arbitrary: s)
  case (Suc n)
  show ?case
  proof (cases "sep s")
    case (Some rest)
    then have r: "length rest < length s" using assms(1) by blast
    then obtain x where x: "p rest = Some (Done x)" using Suc.prems(2) by (auto simp: total_on_def)
    show ?thesis
    proof (cases x)
      case (Inr q)
      obtain rest' y where q: "q = (rest', y)" by (cases q)
      have "length rest' < length rest" using assms(2) x Inr q by (auto simp: consumes_def)
      then have "total_on (separated_rest n sep p) rest'" using Suc r by (intro Suc.IH) auto
      then show ?thesis using Some x Inr q by (auto simp: total_on_def split: sum.splits)
    qed (use Some x in \<open>auto simp: total_on_def split: nom_err.splits\<close>)
  qed (simp add: total_on_def)
qed simp

lemma separated_rest_length:
  assumes "\<And>i r. sep i = Some r \<Longrightarrow> length r < length i" "consumes p"
  shows "separated_rest n sep p s = Some (Done (Inr (rest, xs))) \<Longrightarrow> length rest \<le> length s"
proof (induction n arbitrary: s xs)
  case (Suc n)
  show ?case
  proof (cases "sep s")
    case (Some r)
    show ?thesis
    proof (cases "\<exists>r' y. p r = Some (Done (Inr (r', y)))")
      case True
      then obtain r' y where p: "p r = Some (Done (Inr (r', y)))" by blast
      then obtain ys where "separated_rest n sep p r' = Some (Done (Inr (rest, ys)))"
        using Suc.prems Some by (auto split: option.splits rust.splits sum.splits)
      from Suc.IH [OF this] show ?thesis using assms(1) [OF Some] assms(2) p by (fastforce simp: consumes_def)
    next
      case False
      then show ?thesis using Suc.prems Some by (auto split: option.splits rust.splits sum.splits nom_err.splits)
    qed
  qed (use Suc.prems in simp)
qed simp

lemma separated_list1_total:
  assumes "\<And>i r. sep i = Some r \<Longrightarrow> length r < length i" "consumes p" "\<And>i. length i \<le> length s \<Longrightarrow> total_on p i"
  shows "total_on (separated_list1 sep p) s"
proof -
  obtain x where x: "p s = Some (Done x)" using assms(3) [of s] by (auto simp: total_on_def)
  show ?thesis
  proof (cases x)
    case (Inr q)
    obtain rest y where q: "q = (rest, y)" by (cases q)
    then have "length rest < length s" using assms(2) x Inr by (auto simp: consumes_def)
    then have "total_on (separated_rest (Suc (length rest)) sep p) rest"
      using assms(3) by (intro separated_rest_total assms(1,2)) auto
    then show ?thesis using x Inr q by (auto simp: total_on_def separated_list1_def simp del: separated_rest.simps split: sum.splits)
  qed (use x in \<open>auto simp: total_on_def separated_list1_def\<close>)
qed

lemma separated_list1_Inr:
  assumes "separated_list1 sep p s = Some (Done (Inr (rest, xs)))"
  shows "\<exists>r y ys. p s = Some (Done (Inr (r, y))) \<and> separated_rest (Suc (length r)) sep p r = Some (Done (Inr (rest, ys))) \<and> xs = y # ys"
proof -
  obtain z where z: "p s = Some (Done z)" using assms by (auto simp: separated_list1_def split: option.splits rust.splits)
  with assms obtain r y where ry: "z = Inr (r, y)" by (cases z) (auto simp: separated_list1_def)
  then obtain w where "separated_rest (Suc (length r)) sep p r = Some (Done w)"
    using assms z by (auto simp: separated_list1_def simp del: separated_rest.simps split: option.splits rust.splits)
  then show ?thesis using assms z ry by (cases w) (auto simp: separated_list1_def simp del: separated_rest.simps)
qed

lemma separated_list1_consumes:
  assumes "\<And>i r. sep i = Some r \<Longrightarrow> length r < length i" "consumes p"
  shows "consumes (separated_list1 sep p)"
proof -
  have "length rest < length s" if parsed: "separated_list1 sep p s = Some (Done (Inr (rest, xs)))" for s rest xs
  proof -
    obtain r y ys where "p s = Some (Done (Inr (r, y)))" "separated_rest (Suc (length r)) sep p r = Some (Done (Inr (rest, ys)))"
      using separated_list1_Inr [OF parsed] by blast
    then have "length r < length s" "length rest \<le> length r"
      using assms(2) separated_rest_length [OF assms] unfolding consumes_def by blast+
    then show ?thesis by simp
  qed
  then show ?thesis by (auto simp: consumes_def)
qed

lemma group_separator_length:
  assumes "spec_env_laws env" "group_separator env sep i = Some r" "sep \<noteq> []"
  shows "length r < length i"
proof -
  have ws: "length (se_multispace0 env s) \<le> length s" for s
    using env_laws(3) [OF assms(1)] by (simp add: takes_multispace0_def length_dropWhile_le)
  obtain t where "strip_prefix sep (se_multispace0 env i) = Some t" "r = se_multispace0 env t"
    using assms(2) by (auto simp: group_separator_def)
  then have "length r \<le> length t" "length sep + length t \<le> length i" using ws [of t] ws [of i] by (simp_all add: strip_prefix_length)
  moreover have "0 < length sep" using assms(3) by simp
  ultimately show ?thesis by linarith
qed

lemma plain_term_total: "spec_env_laws env \<Longrightarrow> total_on (plain_term env st) s"
  using constraint_parser_total [of env st s] by (auto simp: plain_term_def total_on_def map_parsed_def split: option.splits sum.splits)

lemma plain_term_consumes: "spec_env_laws env \<Longrightarrow> consumes (plain_term env st)"
  using constraint_parser_consumes [of env st]
  by (fastforce simp: plain_term_def consumes_def map_parsed_Inr dest!: strip_prefix_length split: option.splits)


lemma version_spec_term_total:
  assumes "spec_env_laws env" "\<And>i. length i < length s \<Longrightarrow> total_on p i"
  shows "total_on (version_spec_term env st p) s"
proof (cases "strip_prefix ''('' s")
  case (Some rest)
  have "length (se_multispace0 env rest) < length s"
    using strip_prefix_length [OF Some] env_laws(3) [OF assms(1)] length_dropWhile_le by (fastforce simp: takes_multispace0_def less_Suc_eq_le)
  then obtain x where "p (se_multispace0 env rest) = Some (Done x)" using assms(2) by (auto simp: total_on_def)
  then show ?thesis using Some plain_term_total [OF assms(1), of st s]
    by (cases x) (auto simp: total_on_def version_spec_term_def split: nom_err.splits option.splits)
qed (use plain_term_total [OF assms(1), of st s] in \<open>simp add: total_on_def version_spec_term_def\<close>)

lemma version_spec_term_Inr:
  assumes "version_spec_term env st p s = Some (Done (Inr (rest, spec)))"
  shows "plain_term env st s = Some (Done (Inr (rest, spec)))
    \<or> (\<exists>r r'. strip_prefix ''('' s = Some r \<and> p (se_multispace0 env r) = Some (Done (Inr (r', spec)))
         \<and> strip_prefix '')'' (se_multispace0 env r') = Some rest)"
proof (cases "strip_prefix ''('' s")
  case (Some r)
  obtain x where x: "p (se_multispace0 env r) = Some (Done x)"
    using assms Some by (auto simp: version_spec_term_def split: option.splits rust.splits)
  show ?thesis
  proof (cases x)
    case (Inr q)
    obtain r' y where q: "q = (r', y)" by (cases q)
    then show ?thesis using assms Some x Inr
      by (cases "strip_prefix '')'' (se_multispace0 env r')") (auto simp: version_spec_term_def)
  qed (use assms Some x in \<open>auto simp: version_spec_term_def split: nom_err.splits\<close>)
qed (use assms in \<open>simp add: version_spec_term_def\<close>)

lemma multispace_length: "spec_env_laws env \<Longrightarrow> length (se_multispace0 env s) \<le> length s"
  using env_laws(3) by (simp add: takes_multispace0_def length_dropWhile_le)

lemma version_spec_term_consumes:
  assumes "spec_env_laws env" "consumes p"
  shows "consumes (version_spec_term env st p)"
proof -
  have "length rest < length s" if parsed: "version_spec_term env st p s = Some (Done (Inr (rest, spec)))" for s rest spec
    using version_spec_term_Inr [OF parsed]
  proof (elim disjE exE conjE)
    fix r r'
    assume a: "strip_prefix ''('' s = Some r" "p (se_multispace0 env r) = Some (Done (Inr (r', spec)))"
      "strip_prefix '')'' (se_multispace0 env r') = Some rest"
    then have "length r' < length (se_multispace0 env r)" using assms(2) by (auto simp: consumes_def)
    then show ?thesis
      using strip_prefix_length [OF a(1)] strip_prefix_length [OF a(3)] multispace_length [OF assms(1), of r] multispace_length [OF assms(1), of r']
      by simp
  qed (use plain_term_consumes [OF assms(1)] in \<open>auto simp: consumes_def\<close>)
  then show ?thesis by (auto simp: consumes_def)
qed

lemma and_group_consumes:
  assumes "spec_env_laws env" "consumes p"
  shows "consumes (version_spec_and_group env st p)"
proof -
  have "consumes (separated_list1 (group_separator env '','') (version_spec_term env st p))"
    using group_separator_length [OF assms(1), of "'',''"] by (intro separated_list1_consumes version_spec_term_consumes assms) auto
  then show ?thesis by (auto simp: consumes_def version_spec_and_group_def map_parsed_Inr)
qed

lemma and_group_total:
  assumes "spec_env_laws env" "consumes p" "\<And>i. length i < length s \<Longrightarrow> total_on p i"
  shows "total_on (version_spec_and_group env st p) s"
proof -
  have "total_on (separated_list1 (group_separator env '','') (version_spec_term env st p)) s"
    using assms group_separator_length [OF assms(1)]
    by (intro separated_list1_total version_spec_term_consumes version_spec_term_total) auto
  then show ?thesis by (simp add: version_spec_and_group_def [abs_def])
qed

lemma or_group_consumes: "spec_env_laws env \<Longrightarrow> consumes (version_spec_or_group n env st)"
proof (induction n)
  case (Suc n)
  show ?case
  proof -
    have "consumes (separated_list1 (group_separator env ''|'') (version_spec_and_group env st (version_spec_or_group n env st)))"
      using group_separator_length [OF Suc.prems, of "''|''"] Suc by (intro separated_list1_consumes and_group_consumes) auto
    then show ?thesis by (auto simp: consumes_def map_parsed_Inr)
  qed
qed (simp add: consumes_def)

lemma or_group_total: "spec_env_laws env \<Longrightarrow> length s < n \<Longrightarrow> total_on (version_spec_or_group n env st) s"
proof (induction n arbitrary: s)
  case (Suc n)
  have "total_on (separated_list1 (group_separator env ''|'') (version_spec_and_group env st (version_spec_or_group n env st))) s"
    using Suc group_separator_length [OF Suc.prems(1)]
    by (intro separated_list1_total and_group_consumes or_group_consumes and_group_total) auto
  then show ?case by (auto simp: total_on_def map_parsed_def split: sum.splits)
qed simp

lemma version_spec_from_str_total: "spec_env_laws env \<Longrightarrow> \<exists>r. version_spec_from_str env st s = Some (Done r)"
  using or_group_total [of env s "Suc (length s)" st]
  by (auto simp: total_on_def version_spec_from_str_def version_spec_parser_def simp del: version_spec_or_group.simps)

section \<open>Printable constraints\<close>

definition literal_version :: "version \<Rightarrow> bool" where
  "literal_version v \<longleftrightarrow> (\<exists>x. syntax_ok x \<and> represents v x)"

text \<open>These are the versions that the parser of versions returns.\<close>

lemma literal_version_iff_parsed:
  assumes "scanner_laws ns"
  shows "literal_version v \<longleftrightarrow> (\<exists>s. version_from_str ns s = Some (Done (Inr v)))"
  using version_from_str_text [OF assms] version_from_str_Inr [OF assms] unfolding literal_version_def by blast

text \<open>
  A tree as the parser builds it: no empty constraint and no negated compatibility, which have no text, and groups of
  two or more members, none of them a group with the same operator.
\<close>

fun spec_ok :: "logical_operator option \<Rightarrow> version_spec \<Rightarrow> bool" where
  "spec_ok parent Spec_None \<longleftrightarrow> False"
| "spec_ok parent Spec_Any \<longleftrightarrow> True"
| "spec_ok parent (Spec_Range op v) \<longleftrightarrow> literal_version v"
| "spec_ok parent (Spec_StrictRange op v) \<longleftrightarrow> op \<noteq> NotCompatible \<and> literal_version (strict_inner v)"
| "spec_ok parent (Spec_Exact op v) \<longleftrightarrow> literal_version v"
| "spec_ok parent (Spec_Group op grp) \<longleftrightarrow> parent \<noteq> Some op \<and> 2 \<le> length grp \<and> list_all (spec_ok (Some op)) grp"

definition is_group :: "version_spec \<Rightarrow> bool" where
  "is_group s \<longleftrightarrow> (\<exists>op grp. s = Spec_Group op grp)"

lemma spec_ok_atom: "\<not> is_group s \<Longrightarrow> spec_ok p s = spec_ok q s"
  by (cases s) (auto simp: is_group_def)

lemma flatten_into_ok: "list_all (spec_ok None) args \<Longrightarrow> list_all (spec_ok (Some op)) (flatten_into op args) \<and> length args \<le> length (flatten_into op args)"
proof (induction args)
  case (Cons s args)
  then show ?case by (cases s) auto
qed simp

lemma flatten_version_specs_ok:
  assumes "args \<noteq> []" "list_all (spec_ok None) args"
  shows "spec_ok None (flatten_version_specs op args)"
proof (cases "length args = 1")
  case True
  then show ?thesis using assms by (cases args) (auto simp: flatten_version_specs_def)
next
  case False
  then have "2 \<le> length args" using assms(1) by (cases args; cases "tl args") auto
  then show ?thesis using False flatten_into_ok [OF assms(2), of op] by (auto simp: flatten_version_specs_def)
qed

lemma resolve_operator_ok:
  assumes "resolve_operator st s r op = Inr op'" "op \<noteq> Some (Op_StrictRange NotCompatible)"
  shows "op' \<noteq> Op_StrictRange NotCompatible"
  using assms by (auto simp: resolve_operator_def split: if_splits option.splits)

lemma make_constraint_ok:
  "literal_version v \<Longrightarrow> op \<noteq> Op_StrictRange NotCompatible \<Longrightarrow> spec_ok p (spec_from_constraint (make_constraint op v))"
  by (cases op) auto

lemma version_constraint_ok:
  assumes "spec_env_laws env" "version_constraint env st s op = Some (Done (Inr (rest, c)))" "op \<noteq> Some (Op_StrictRange NotCompatible)"
  shows "spec_ok p (spec_from_constraint c)"
proof -
  obtain t where t: "se_take_while1 env (is_version_char (se_unicode env)) s = Some (rest, t)"
    using assms(2) by (auto simp: version_constraint_def split: option.splits if_splits sum.splits nom_err.splits rust.splits)
  show ?thesis
  proof (cases "t = ''*''")
    case True
    then show ?thesis using assms(2) t
      by (auto simp: version_constraint_def star_constraint_def split: option.splits if_splits)
  next
    case False
    obtain x where x: "version_parser (se_scanners env) t = Some (Done x)"
      using version_parser_total [OF env_laws(1) [OF assms(1)]] by blast
    then obtain r v op' where "x = Inr (r, v)" "resolve_operator st t r op = Inr op'" "c = make_constraint op' v"
      using assms(2) t False by (cases x) (auto simp: version_constraint_def split: nom_err.splits sum.splits)
    moreover from this x have "literal_version v"
      using version_parser_Inr [OF env_laws(1) [OF assms(1)]] by (auto simp: literal_version_def)
    ultimately show ?thesis using make_constraint_ok resolve_operator_ok [OF _ assms(3)] by blast
  qed
qed

lemma plain_term_ok:
  assumes "spec_env_laws env" "plain_term env st s = Some (Done (Inr (rest, spec)))"
  shows "spec_ok p spec"
proof (cases "strip_prefix ''*'' s")
  case None
  then obtain c where c: "constraint_parser env st s = Some (Done (Inr (rest, c)))" "spec = spec_from_constraint c"
    using assms(2) by (auto simp: plain_term_def map_parsed_Inr)
  have "any_constraint_parser st s = Inl (Nom_Error (Constraint_Nom EK_Tag))" using None by (simp add: any_constraint_parser_def)
  then have "logical_constraint_parser env st s = Some (Done (Inr (rest, c)))"
    using c(1) by (auto simp: constraint_parser_def split: nom_err.splits)
  then show ?thesis using version_constraint_ok [OF assms(1)] c(2)
    by (cases rule: operator_parser_cases [OF assms(1), of s]) (auto simp: logical_constraint_parser_def)
qed (use assms in \<open>auto simp: plain_term_def\<close>)

lemma separated_rest_Suc:
  assumes "separated_rest (Suc n) sep p s = Some (Done (Inr (rest, xs)))"
  shows "xs = [] \<or> (\<exists>r r' y ys. sep s = Some r \<and> p r = Some (Done (Inr (r', y))) \<and> separated_rest n sep p r' = Some (Done (Inr (rest, ys))) \<and> xs = y # ys)"
proof (cases "sep s")
  case (Some r)
  then obtain z where z: "p r = Some (Done z)" using assms by (auto split: option.splits rust.splits)
  show ?thesis
  proof (cases z)
    case (Inr q)
    obtain r' y where q: "q = (r', y)" by (cases q)
    then obtain w where "separated_rest n sep p r' = Some (Done w)" using assms Some z Inr by (auto split: option.splits rust.splits)
    then show ?thesis using assms Some z Inr q by (cases w) auto
  qed (use assms Some z in \<open>auto split: nom_err.splits\<close>)
qed (use assms in simp)

lemma separated_rest_all:
  assumes "\<And>s rest x. p s = Some (Done (Inr (rest, x))) \<Longrightarrow> P x"
  shows "separated_rest n sep p s = Some (Done (Inr (rest, xs))) \<Longrightarrow> list_all P xs"
proof (induction n arbitrary: s xs)
  case (Suc n)
  from separated_rest_Suc [OF Suc.prems] show ?case using assms Suc.IH by (metis list.pred_inject)
qed simp

lemma separated_list1_all:
  assumes "\<And>s rest x. p s = Some (Done (Inr (rest, x))) \<Longrightarrow> P x" "separated_list1 sep p s = Some (Done (Inr (rest, xs)))"
  shows "xs \<noteq> [] \<and> list_all P xs"
proof -
  obtain r y ys where y: "p s = Some (Done (Inr (r, y)))" "xs = y # ys"
    and ys: "separated_rest (Suc (length r)) sep p r = Some (Done (Inr (rest, ys)))"
    using separated_list1_Inr [OF assms(2)] by blast
  have "list_all P ys" using separated_rest_all [of p P, OF _ ys] assms(1) by blast
  then show ?thesis using y assms(1) by simp
qed

lemma or_group_ok: "spec_env_laws env \<Longrightarrow> version_spec_or_group n env st s = Some (Done (Inr (rest, spec))) \<Longrightarrow> spec_ok None spec"
proof (induction n arbitrary: s rest spec)
  case (Suc n)
  let ?p = "version_spec_or_group n env st"
  have "spec_ok None x" if parsed: "version_spec_term env st ?p s = Some (Done (Inr (rest, x)))" for s rest x
    using version_spec_term_Inr [OF parsed] plain_term_ok [OF Suc.prems(1)] Suc.IH [OF Suc.prems(1)] by blast
  then have "spec_ok None x" if parsed: "version_spec_and_group env st ?p s = Some (Done (Inr (rest, x)))" for s rest x
    using parsed separated_list1_all [of "version_spec_term env st ?p" "spec_ok None"] flatten_version_specs_ok
    by (auto simp: version_spec_and_group_def map_parsed_Inr)
  then show ?case
    using Suc.prems(2) separated_list1_all [of "version_spec_and_group env st ?p" "spec_ok None"] flatten_version_specs_ok
    by (auto simp: map_parsed_Inr)
qed simp


section \<open>Texts\<close>

definition version_text_char :: "char \<Rightarrow> bool" where
  "version_text_char c \<longleftrightarrow> is_ascii_digit c \<or> is_alpha_char c \<or> c \<in> set ''-_.+!''"

lemma part_text_chars:
  assumes "literal_part a" "c \<in> set (segments_text a)"
  shows "version_text_char c"
proof -
  obtain sep cs where p: "(sep, cs) \<in> set a" and c: "c \<in> set (case sep of None \<Rightarrow> [] | Some c \<Rightarrow> [c]) \<or> c \<in> set (run_text cs)"
    using assms(2) by (auto simp: segments_text_def)
  have s: "sep = None \<or> sep \<in> separators" "list_all (\<lambda>x. literal x \<or> (\<exists>d. x = UnderscoreOrDash d)) cs"
    using literal_part_segment [OF assms(1) p] by (auto simp: marked_run_def)
  from c show ?thesis
    using run_text_chars [OF _ s(2), of c] s(1) by (auto simp: version_text_char_def separators_def split: option.splits)
qed

lemma version_text:
  assumes "literal_version v"
  shows "list_all version_text_char (version_display v)" "starts (\<lambda>c. is_ascii_digit c \<or> is_alpha_char c) (version_display v)"
proof -
  obtain x where x: "syntax_ok x" "represents v x" using assms by (auto simp: literal_version_def)
  have d: "version_display v = syntax_text x" using version_display_represents [OF x(2)] x(1) by (simp add: syntax_ok_def)
  have parts: "literal_part (vs_release x)" "\<And>l. vs_local x = Some l \<Longrightarrow> literal_part l" using x(1) by (auto simp: syntax_ok_def)
  show "list_all version_text_char (version_display v)"
    using parts(1) parts(2) [OF sym] part_text_chars show_nat_digits
    by (auto simp: d syntax_text_def list_all_iff version_text_char_def split: option.splits)
  show "starts (\<lambda>c. is_ascii_digit c \<or> is_alpha_char c) (version_display v)"
  proof (cases "vs_epoch x")
    case None
    then show ?thesis using part_text_start [OF parts(1)] by (simp add: d syntax_text_def component_start_def)
  next
    case (Some e)
    then show ?thesis using show_nat_digits [of "unat e"] show_nat_nonempty [of "unat e"]
      by (cases "show_nat (unat e)") (auto simp: d syntax_text_def)
  qed
qed

lemma ascii_take_text:
  assumes "\<forall>c \<in> set s. of_char c < (128 :: nat) \<and> p [c]" "s \<noteq> []" "r = [] \<or> of_char (hd r) < (128 :: nat) \<and> \<not> p [hd r]"
  shows "ascii_take_while1 p (s @ r) = Some (r, s)"
proof -
  have "concat (takeWhile p (chars (s @ r))) = s"
    using assms(1)
  proof (induction s)
    case Nil
    then show ?case using assms(3) chars_ascii by (cases r) auto
  next
    case (Cons c s)
    then show ?case using chars_ascii [of c "s @ r"] by simp
  qed
  then show ?thesis using assms(2) by (simp add: ascii_take_while1_def Let_def)
qed

lemma ascii_chars:
  "is_ascii_digit c \<Longrightarrow> of_char c < (128 :: nat)" "is_alpha_char c \<Longrightarrow> of_char c < (128 :: nat)"
  by (auto simp: is_ascii_digit_def is_alpha_char_def is_ascii_lowercase_def is_ascii_uppercase_def)

lemma version_text_char_law:
  assumes "ascii_tables ut" "version_text_char c \<or> c = CHR ''*''"
  shows "of_char c < (128 :: nat) \<and> is_version_char ut [c]"
proof -
  have "of_char c < (128 :: nat)" using assms(2) ascii_chars by (auto simp: version_text_char_def)
  then show ?thesis using assms(1) [unfolded ascii_tables_def, rule_format, of c] assms(2)
    by (auto simp: is_version_char_def version_text_char_def is_alpha_char_def is_ascii_alphabetic_def)
qed

text \<open>What may follow a term.\<close>

definition ends_term :: "string \<Rightarrow> bool" where
  "ends_term r \<longleftrightarrow> (r = [] \<or> hd r \<in> set '',|)'') \<and> CHR ''$'' \<notin> set r"

lemma ends_term_char:
  assumes "ascii_tables ut" "ends_term r"
  shows "r = [] \<or> of_char (hd r) < (128 :: nat) \<and> \<not> is_version_char ut [hd r] \<and> \<not> [hd r] \<in> {''='', ''!'', ''<'', ''>'', ''~''}"
proof (cases r)
  case (Cons c s)
  then have "c \<in> set '',|)''" using assms(2) by (simp add: ends_term_def)
  then show ?thesis using Cons assms(1) [unfolded ascii_tables_def, rule_format, of c]
    by (auto simp: is_version_char_def is_ascii_alphabetic_def is_ascii_lowercase_def is_ascii_uppercase_def is_ascii_digit_def)
qed simp

lemma version_take:
  assumes "spec_env_laws env" "literal_version v" "ends_term r" "w = [] \<or> w = ''.*''"
  shows "se_take_while1 env (is_version_char (se_unicode env)) (version_display v @ w @ r) = Some (r, version_display v @ w)"
    "version_display v @ w \<noteq> ''*''"
proof -
  have "\<forall>c \<in> set (version_display v @ w). of_char c < (128 :: nat) \<and> is_version_char (se_unicode env) [c]"
  proof
    fix c assume "c \<in> set (version_display v @ w)"
    then have "version_text_char c \<or> c = CHR ''*''"
      using version_text(1) [OF assms(2)] assms(4) by (auto simp: list_all_iff version_text_char_def)
    then show "of_char c < (128 :: nat) \<and> is_version_char (se_unicode env) [c]"
      by (rule version_text_char_law [OF env_laws(4) [OF assms(1)]])
  qed
  moreover have "version_display v \<noteq> []" using version_text(2) [OF assms(2)] by auto
  ultimately show "se_take_while1 env (is_version_char (se_unicode env)) (version_display v @ w @ r) = Some (r, version_display v @ w)"
    using ascii_take_text [of "version_display v @ w" "is_version_char (se_unicode env)" r] ends_term_char [OF env_laws(4) [OF assms(1)] assms(3)]
      env_laws(2) [OF assms(1)] by auto
  show "version_display v @ w \<noteq> ''*''"
    using version_text(2) [OF assms(2)] by (cases "version_display v") (auto simp: is_ascii_digit_def is_alpha_char_def is_ascii_lowercase_def is_ascii_uppercase_def)
qed

lemma version_parser_display:
  assumes "spec_env_laws env" "literal_version v" "w = [] \<or> w = ''.*''"
  shows "version_parser (se_scanners env) (version_display v @ w) = Some (Done (Inr (w, v)))"
proof -
  obtain x where x: "syntax_ok x" "represents v x" using assms(2) by (auto simp: literal_version_def)
  have "ends_version w"
    using assms(3) by (auto simp: ends_version_def ends_part_def component_start_def is_ascii_digit_def is_alpha_char_def is_ascii_lowercase_def is_ascii_uppercase_def)
  then show ?thesis using version_parser_text [OF env_laws(1) [OF assms(1)] x] version_display_represents [OF x(2)] x(1)
    by (simp add: syntax_ok_def)
qed

lemma version_constraint_display:
  assumes "spec_env_laws env" "literal_version v" "ends_term r" "w = [] \<or> w = ''.*''"
    and "resolve_operator st (version_display v @ w) w op = Inr op'"
  shows "version_constraint env st (version_display v @ w @ r) op = Some (Done (Inr (r, make_constraint op' v)))"
  using version_take [OF assms(1-4)] version_parser_display [OF assms(1,2,4)] assms(5) by (simp add: version_constraint_def)


text \<open>Operators.\<close>

lemma operator_display:
  assumes "spec_env_laws env" "starts (\<lambda>c. is_ascii_digit c \<or> is_alpha_char c) t"
  shows "operator_parser env t = Inl (Nom_Error Operator_Expected)"
    and "operator_parser env (range_display o1 @ t) = Inr (t, Op_Range o1)"
    and "operator_parser env (equality_display o2 @ t) = Inr (t, Op_Exact o2)"
    and "operator_parser env (''~='' @ t) = Inr (t, Op_StrictRange Compatible)"
proof -
  let ?p = "\<lambda>c. c \<in> {''='', ''!'', ''<'', ''>'', ''~''}"
  obtain c u where t: "t = c # u" "is_ascii_digit c \<or> is_alpha_char c" using assms(2) by (cases t) auto
  then have c: "of_char c < (128 :: nat)" "\<not> ?p [c]"
    using ascii_chars by (auto simp: is_ascii_digit_def is_alpha_char_def is_ascii_lowercase_def is_ascii_uppercase_def)
  note tw = env_laws(2) [OF assms(1)]
  show "operator_parser env t = Inl (Nom_Error Operator_Expected)"
    using c by (simp add: operator_parser_def tw ascii_take_while1_def t(1) chars_ascii del: chars.simps(2))
  have take: "ascii_take_while1 ?p (s @ t) = Some (t, s)" if "s \<noteq> []" "\<forall>c \<in> set s. of_char c < (128 :: nat) \<and> ?p [c]" for s
    using ascii_take_text [OF that(2,1), of t] c t(1) by simp
  show "operator_parser env (range_display o1 @ t) = Inr (t, Op_Range o1)"
    using take [of "range_display o1"] by (cases o1) (simp_all add: operator_parser_def tw)
  show "operator_parser env (equality_display o2 @ t) = Inr (t, Op_Exact o2)"
    using take [of "equality_display o2"] by (cases o2) (simp_all add: operator_parser_def tw)
  show "operator_parser env (''~='' @ t) = Inr (t, Op_StrictRange Compatible)"
    using take [of "''~=''"] by (simp add: operator_parser_def tw)
qed

lemma no_regex: "CHR ''$'' \<notin> set s \<Longrightarrow> \<not> starts (\<lambda>c. c = CHR ''^'') s \<Longrightarrow> regex_constraint_parser s = Nom_Error UnterminatedRegex"
proof -
  assume s: "CHR ''$'' \<notin> set s" "\<not> starts (\<lambda>c. c = CHR ''^'') s"
  then have "dropWhile (\<lambda>c. c \<noteq> CHR ''$'') s = []" by (auto simp: dropWhile_eq_Nil_conv)
  moreover have "strip_prefix ''^'' s = None" using s(2) by (cases s) auto
  ultimately show ?thesis by (simp add: regex_constraint_parser_def Let_def del: dropWhile_eq_Nil_conv)
qed

text \<open>The characters a term can start with.\<close>

definition term_start :: "char \<Rightarrow> bool" where
  "term_start c \<longleftrightarrow> is_ascii_digit c \<or> is_alpha_char c \<or> c \<in> set ''*=!<>~(''"

lemma plain_term_constraint:
  assumes "CHR ''$'' \<notin> set s" "starts term_start s" "\<not> starts (\<lambda>c. c = CHR ''*'') s"
    and "logical_constraint_parser env st s = Some (Done (Inr (r, c)))"
  shows "plain_term env st s = Some (Done (Inr (r, spec_from_constraint c)))"
proof -
  have "\<not> starts (\<lambda>c. c = CHR ''^'') s"
    using assms(2) by (cases s) (auto simp: term_start_def is_ascii_digit_def is_alpha_char_def is_ascii_lowercase_def is_ascii_uppercase_def)
  then have "regex_constraint_parser s = Nom_Error UnterminatedRegex" by (rule no_regex [OF assms(1)])
  moreover have "strip_prefix ''*'' s = None" using assms(3) by (cases s) auto
  ultimately show ?thesis
    using assms(4) by (simp add: plain_term_def constraint_parser_def any_constraint_parser_def map_parsed_def)
qed

lemma not_special:
  "is_ascii_digit c \<or> is_alpha_char c \<Longrightarrow> c \<notin> set ''*=!<>~()^$,| ''"
  by (auto simp: is_ascii_digit_def is_alpha_char_def is_ascii_lowercase_def is_ascii_uppercase_def)

lemma version_no_dollar: "literal_version v \<Longrightarrow> CHR ''$'' \<notin> set (version_display v)"
  using version_text(1) not_special by (fastforce simp: list_all_iff version_text_char_def)

lemma resolve_plain: "resolve_operator st s [] (Some op) = Inr op"
  by (simp add: resolve_operator_def)

lemma resolve_glob:
  "resolve_operator st s ''.*'' None = Inr (Op_StrictRange StartsWith)"
  "resolve_operator st s ''.*'' (Some (Op_Exact NotEquals)) = Inr (Op_StrictRange NotStartsWith)"
  by (simp_all add: resolve_operator_def)

lemma logical_display:
  assumes "spec_env_laws env" "spec_ok p s" "\<not> is_group s" "s \<noteq> Spec_Any" "ends_term r"
  shows "\<exists>c. logical_constraint_parser env st (spec_write q s @ r) = Some (Done (Inr (r, c))) \<and> spec_from_constraint c = s"
proof -
  have start: "starts (\<lambda>c. is_ascii_digit c \<or> is_alpha_char c) (version_display v @ w)" if "literal_version v" for v w
    using version_text(2) [OF that] by (cases "version_display v") auto
  note vc = version_constraint_display [OF assms(1) _ assms(5)]
  show ?thesis
  proof (cases s)
    case (Spec_Range op v)
    then have v: "literal_version v" using assms(2) by simp
    show ?thesis using Spec_Range operator_display(2) [OF assms(1) start [OF v, of r], of op] vc [OF v, of "[]" st "Some (Op_Range op)"]
      by (simp add: logical_constraint_parser_def resolve_plain)
  next
    case (Spec_Exact op v)
    then have v: "literal_version v" using assms(2) by simp
    show ?thesis using Spec_Exact operator_display(3) [OF assms(1) start [OF v, of r], of op] vc [OF v, of "[]" st "Some (Op_Exact op)"]
      by (simp add: logical_constraint_parser_def resolve_plain)
  next
    case (Spec_StrictRange op sv)
    obtain v where sv: "sv = StrictVersion v" by (cases sv)
    then have v: "literal_version v" "op \<noteq> NotCompatible" using assms(2) Spec_StrictRange by simp_all
    show ?thesis
    proof (cases op)
      case StartsWith
      then show ?thesis
        using Spec_StrictRange sv operator_display(1) [OF assms(1) start [OF v(1), of "''.*'' @ r"]] vc [OF v(1), of "''.*''" st None]
        by (simp add: logical_constraint_parser_def resolve_glob)
    next
      case NotStartsWith
      then show ?thesis
        using Spec_StrictRange sv operator_display(3) [OF assms(1) start [OF v(1), of "''.*'' @ r"], of NotEquals]
          vc [OF v(1), of "''.*''" st "Some (Op_Exact NotEquals)"]
        by (simp add: logical_constraint_parser_def resolve_glob)
    next
      case Compatible
      then show ?thesis
        using Spec_StrictRange sv operator_display(4) [OF assms(1) start [OF v(1), of r]]
          vc [OF v(1), of "[]" st "Some (Op_StrictRange Compatible)"]
        by (simp add: logical_constraint_parser_def resolve_plain)
    qed (use v in simp)
  qed (use assms in \<open>auto simp: is_group_def\<close>)
qed

text \<open>The text of a constraint: no dollar, and no white space or separator at its start.\<close>

lemma join_with_Cons': "join_with sep (x # xs) = x @ concat (map (\<lambda>y. sep @ y) xs)"
  by (induction xs arbitrary: x) simp_all

lemma spec_text:
  "spec_ok p s \<Longrightarrow> CHR ''$'' \<notin> set (spec_write q s) \<and> starts term_start (spec_write q s)"
proof (induction s arbitrary: p q)
  case (Spec_Range op v)
  then show ?case using version_no_dollar [of v] by (cases op) (auto simp: term_start_def)
next
  case (Spec_Exact op v)
  then show ?case using version_no_dollar [of v] by (cases op) (auto simp: term_start_def)
next
  case (Spec_StrictRange op sv)
  then have v: "literal_version (strict_inner sv)" by simp
  obtain c u where "version_display (strict_inner sv) = c # u" "term_start c"
    using version_text(2) [OF v] by (cases "version_display (strict_inner sv)") (auto simp: term_start_def)
  then show ?case using Spec_StrictRange version_no_dollar [OF v] by (cases op) (auto simp: term_start_def)
next
  case (Spec_Group op grp)
  then obtain x xs where grp: "grp = x # xs" by (cases grp) auto
  have elem: "CHR ''$'' \<notin> set (spec_write (Some op) y) \<and> starts term_start (spec_write (Some op) y)" if "y \<in> set grp" for y
    using Spec_Group that by (auto simp: list_all_iff)
  have "CHR ''$'' \<notin> set (logical_display op)" by (cases op) simp_all
  then have "CHR ''$'' \<notin> set (join_with (logical_display op) (map (spec_write (Some op)) grp))"
    using elem by (auto simp: grp join_with_Cons')
  moreover have "starts term_start (join_with (logical_display op) (map (spec_write (Some op)) grp))"
    using elem [of x] by (cases "spec_write (Some op) x") (auto simp: grp join_with_Cons')
  moreover have "term_start CHR ''(''" by (simp add: term_start_def)
  ultimately show ?case by (auto simp: Let_def)
qed (simp_all add: term_start_def)

lemma atom_start:
  assumes "spec_ok p s" "\<not> is_group s"
  shows "\<exists>c u. spec_write q s = c # u \<and> c \<noteq> CHR ''('' \<and> (c = CHR ''*'' \<longrightarrow> s = Spec_Any)"
proof -
  have v: "\<exists>c u. version_display v = c # u \<and> c \<notin> set ''*(''" if "literal_version v" for v
    using version_text(2) [OF that] not_special by (cases "version_display v") auto
  show ?thesis
  proof (cases s)
    case (Spec_Range op w)
    then show ?thesis by (cases op) simp_all
  next
    case (Spec_Exact op w)
    then show ?thesis by (cases op) simp_all
  next
    case (Spec_StrictRange op w)
    then show ?thesis using assms(1) v [of "strict_inner w"] by (cases op) auto
  qed (use assms in \<open>auto simp: is_group_def\<close>)
qed

lemma plain_term_display:
  assumes "spec_env_laws env" "spec_ok p s" "\<not> is_group s" "ends_term r"
  shows "plain_term env st (spec_write q s @ r) = Some (Done (Inr (r, s)))"
proof (cases "s = Spec_Any")
  case True
  then show ?thesis using assms(4) by (cases r) (auto simp: plain_term_def ends_term_def)
next
  case False
  obtain c where c: "logical_constraint_parser env st (spec_write q s @ r) = Some (Done (Inr (r, c)))" "spec_from_constraint c = s"
    using logical_display [OF assms(1-3) False assms(4)] by blast
  obtain a u where a: "spec_write q s = a # u" "a \<noteq> CHR ''*''" using atom_start [OF assms(2,3), of q] False by blast
  have "CHR ''$'' \<notin> set (spec_write q s @ r)" "starts term_start (spec_write q s @ r)"
    using spec_text [OF assms(2), of q] assms(4) a(1) by (simp_all add: ends_term_def)
  then show ?thesis using plain_term_constraint [OF _ _ _ c(1)] c(2) a by simp
qed

section \<open>Groups of printed constraints\<close>

lemma separated_rest_text:
  assumes p: "\<And>x r. x \<in> set xs \<Longrightarrow> good r \<Longrightarrow> p (t x @ r) = Some (Done (Inr (r, x)))"
    and sep: "\<And>x r. x \<in> set xs \<Longrightarrow> sep (c # t x @ r) = Some (t x @ r)"
    and good: "\<And>x r. x \<in> set xs \<Longrightarrow> good r \<Longrightarrow> good (c # t x @ r)" and r: "good r" "sep r = None"
  shows "length xs < n \<Longrightarrow> separated_rest n sep p (concat (map (\<lambda>x. c # t x) xs) @ r) = Some (Done (Inr (r, xs)))"
  using p sep good
proof (induction xs arbitrary: n)
  case Nil
  then show ?case using r(2) by (cases n) simp_all
next
  case (Cons x xs)
  obtain m where n: "n = Suc m" "length xs < m" using Cons.prems(1) by (cases n) auto
  have "good (concat (map (\<lambda>x. c # t x) ys) @ r)" if "set ys \<subseteq> set xs" for ys
    using that by (induction ys) (auto simp: r(1) intro: Cons.prems(4))
  then have g: "good (concat (map (\<lambda>x. c # t x) xs) @ r)" by blast
  have "separated_rest m sep p (concat (map (\<lambda>x. c # t x) xs) @ r) = Some (Done (Inr (r, xs)))"
    using Cons.prems n(2) by (intro Cons.IH) auto
  then show ?case using n(1) Cons.prems(2) [of x, OF _ g] Cons.prems(3) [of x] by simp
qed

lemma separated_list1_text:
  assumes p: "\<And>x r. x \<in> set xs \<Longrightarrow> good r \<Longrightarrow> p (t x @ r) = Some (Done (Inr (r, x)))"
    and sep: "\<And>x r. x \<in> set xs \<Longrightarrow> sep (c # t x @ r) = Some (t x @ r)"
    and good: "\<And>x r. x \<in> set xs \<Longrightarrow> good r \<Longrightarrow> good (c # t x @ r)" and r: "good r" "sep r = None" and xs: "xs \<noteq> []"
  shows "separated_list1 sep p (join_with [c] (map t xs) @ r) = Some (Done (Inr (r, xs)))"
proof -
  obtain x ys where x: "xs = x # ys" using xs by (cases xs) auto
  let ?rest = "concat (map (\<lambda>x. c # t x) ys) @ r"
  have "length ys \<le> length (concat (map (\<lambda>x. c # t x) ys))" by (induction ys) auto
  then have "separated_rest (Suc (length ?rest)) sep p ?rest = Some (Done (Inr (r, ys)))"
    using assms x by (intro separated_rest_text [where good = good]) auto
  moreover have "good (concat (map (\<lambda>x. c # t x) zs) @ r)" if "set zs \<subseteq> set xs" for zs
    using that by (induction zs) (auto simp: r(1) intro: good)
  then have "good ?rest" using x by auto
  then have "p (t x @ ?rest) = Some (Done (Inr (?rest, x)))" using p x by simp
  moreover have "join_with [c] (map t xs) @ r = t x @ ?rest" by (simp add: x join_with_Cons' comp_def)
  ultimately show ?thesis by (simp add: separated_list1_def x del: separated_rest.simps)
qed

lemma not_space_start:
  assumes "term_start c \<or> c \<in> set '',|)''"
  shows "\<not> (c = CHR '' '' \<or> c = CHR 0x09 \<or> c = CHR 0x0D \<or> c = CHR 0x0A)"
  using assms by (auto simp: term_start_def is_ascii_digit_def is_alpha_char_def is_ascii_lowercase_def is_ascii_uppercase_def)

lemma multispace_kept:
  assumes "spec_env_laws env" "s = [] \<or> starts (\<lambda>c. term_start c \<or> c \<in> set '',|)'') s"
  shows "se_multispace0 env s = s"
  using assms(2) env_laws(3) [OF assms(1)] not_space_start by (cases s) (auto simp: takes_multispace0_def)

lemma separator_text:
  assumes "spec_env_laws env" "c \<in> set '',|''" "starts term_start w"
  shows "group_separator env [c] (c # w) = Some w"
proof -
  have "se_multispace0 env (c # w) = c # w" using assms(2) by (intro multispace_kept [OF assms(1)]) auto
  moreover have "se_multispace0 env w = w" using assms(3) by (intro multispace_kept [OF assms(1)]) (cases w, auto)
  ultimately show ?thesis by (simp add: group_separator_def)
qed

lemma separator_ends:
  assumes "spec_env_laws env" "r = [] \<or> hd r \<in> set '',|)''" "r = [] \<or> hd r \<noteq> c"
  shows "group_separator env [c] r = None"
proof -
  have "se_multispace0 env r = r" using assms(2) by (intro multispace_kept [OF assms(1)]) (cases r, auto)
  then show ?thesis using assms(3) by (cases r) (auto simp: group_separator_def)
qed

definition ends_and :: "string \<Rightarrow> bool" where
  "ends_and r \<longleftrightarrow> ends_term r \<and> (r = [] \<or> hd r \<noteq> CHR '','')"

definition ends_or :: "string \<Rightarrow> bool" where
  "ends_or r \<longleftrightarrow> ends_and r \<and> (r = [] \<or> hd r \<noteq> CHR ''|'')"

text \<open>A flattened group of constraints none of which is a group of the same kind.\<close>

lemma flatten_into_same: "list_all (spec_ok (Some op)) grp \<Longrightarrow> flatten_into op grp = grp"
proof (induction grp)
  case (Cons s grp)
  then show ?case by (cases s) auto
qed simp

lemma flatten_group: "spec_ok p (Spec_Group op grp) \<Longrightarrow> flatten_version_specs op grp = Spec_Group op grp"
  by (auto simp: flatten_version_specs_def flatten_into_same)

lemma flatten_single: "flatten_version_specs op [s] = s"
  by (simp add: flatten_version_specs_def)

lemma and_group_text:
  assumes env: "spec_env_laws env" and xs: "xs \<noteq> []" "list_all (spec_ok (Some And)) xs"
    and p: "\<And>x r. x \<in> set xs \<Longrightarrow> ends_term r \<Longrightarrow> version_spec_term env st q (spec_write (Some And) x @ r) = Some (Done (Inr (r, x)))"
    and r: "ends_and r"
  shows "version_spec_and_group env st q (join_with '','' (map (spec_write (Some And)) xs) @ r) = Some (Done (Inr (r, flatten_version_specs And xs)))"
proof -
  have t: "starts term_start (spec_write (Some And) x)" "CHR ''$'' \<notin> set (spec_write (Some And) x)" if "x \<in> set xs" for x
    using spec_text xs(2) that by (auto simp: list_all_iff)
  have "separated_list1 (group_separator env '','') (version_spec_term env st q) (join_with '','' (map (spec_write (Some And)) xs) @ r)
      = Some (Done (Inr (r, xs)))"
  proof (rule separated_list1_text [where good = ends_term, OF p _ _ _ _ xs(1)])
    show "group_separator env '','' (CHR '','' # spec_write (Some And) x @ u) = Some (spec_write (Some And) x @ u)" if "x \<in> set xs" for x u
      using t(1) [OF that] by (intro separator_text env) (auto simp: starts_def)
    show "ends_term (CHR '','' # spec_write (Some And) x @ u)" if "x \<in> set xs" "ends_term u" for x u
      using t(2) [OF that(1)] that(2) by (auto simp: ends_term_def)
    show "ends_term r" using r by (simp add: ends_and_def)
    show "group_separator env '','' r = None" using r by (intro separator_ends env) (auto simp: ends_and_def ends_term_def)
  qed
  then show ?thesis by (simp add: version_spec_and_group_def map_parsed_def)
qed

lemma or_group_text:
  assumes env: "spec_env_laws env" and xs: "xs \<noteq> []" "list_all (spec_ok None) xs"
    and p: "\<And>x r. x \<in> set xs \<Longrightarrow> ends_and r \<Longrightarrow>
        version_spec_and_group env st (version_spec_or_group n env st) (spec_write (Some Or) x @ r) = Some (Done (Inr (r, x)))"
    and r: "ends_or r"
  shows "version_spec_or_group (Suc n) env st (join_with ''|'' (map (spec_write (Some Or)) xs) @ r) = Some (Done (Inr (r, flatten_version_specs Or xs)))"
proof -
  have t: "starts term_start (spec_write (Some Or) x)" "CHR ''$'' \<notin> set (spec_write (Some Or) x)" if "x \<in> set xs" for x
    using spec_text xs(2) that by (auto simp: list_all_iff)
  have "separated_list1 (group_separator env ''|'') (version_spec_and_group env st (version_spec_or_group n env st))
      (join_with ''|'' (map (spec_write (Some Or)) xs) @ r) = Some (Done (Inr (r, xs)))"
  proof (rule separated_list1_text [where good = ends_and, OF p _ _ _ _ xs(1)])
    show "group_separator env ''|'' (CHR ''|'' # spec_write (Some Or) x @ u) = Some (spec_write (Some Or) x @ u)" if "x \<in> set xs" for x u
      using t(1) [OF that] by (intro separator_text env) (auto simp: starts_def)
    show "ends_and (CHR ''|'' # spec_write (Some Or) x @ u)" if "x \<in> set xs" "ends_and u" for x u
      using t(2) [OF that(1)] that(2) by (auto simp: ends_term_def ends_and_def)
    show "ends_and r" using r by (simp add: ends_or_def)
    show "group_separator env ''|'' r = None" using r by (intro separator_ends env) (auto simp: ends_or_def ends_and_def ends_term_def)
  qed
  then show ?thesis by (simp add: map_parsed_def)
qed

lemma atom_write: "\<not> is_group s \<Longrightarrow> spec_write p s = spec_write q s"
  by (cases s) (auto simp: is_group_def)

lemma spec_ok_weaken: "spec_ok p s \<Longrightarrow> spec_ok None s"
  by (cases s) auto

lemma length_join_elem: "x \<in> set xs \<Longrightarrow> length (t x) \<le> length (join_with sep (map t xs))"
proof (induction xs)
  case (Cons y xs)
  then show ?case by (cases xs) auto
qed simp

text \<open>
  The three levels of the grammar read a printed constraint back, with fuel for the nesting below the
  term. A group is read on the level above its members.
\<close>

definition reads :: "string \<Rightarrow> (string \<Rightarrow> bool) \<Rightarrow> (string \<Rightarrow> version_spec constraint_result) \<Rightarrow> version_spec \<Rightarrow> bool" where
  "reads t ends p s \<longleftrightarrow> (\<forall>r. ends r \<longrightarrow> p (t @ r) = Some (Done (Inr (r, s))))"

abbreviation reads_term where
  "reads_term env st n s \<equiv> reads (spec_write (Some And) s) ends_term (version_spec_term env st (version_spec_or_group n env st)) s"

abbreviation reads_and where
  "reads_and env st n s \<equiv> reads (spec_write (Some Or) s) ends_and (version_spec_and_group env st (version_spec_or_group n env st)) s"

abbreviation reads_or where
  "reads_or env st n s \<equiv> reads (spec_write None s) ends_or (version_spec_or_group (Suc n) env st) s"

lemma atom_reads_term:
  assumes "spec_env_laws env" "spec_ok p s" "\<not> is_group s"
  shows "reads_term env st n s"
proof -
  have "strip_prefix ''('' (spec_write (Some And) s @ r) = None" for r
    using atom_start [OF assms(2,3), of "Some And"] by auto
  then show ?thesis
    using plain_term_display [OF assms] by (simp add: reads_def version_spec_term_def)
qed

lemma single_reads_or:
  assumes "spec_env_laws env" "spec_ok None s" "spec_write None s = spec_write (Some Or) s" "reads_and env st n s"
  shows "reads_or env st n s"
  using or_group_text [OF assms(1), of "[s]" st n] assms(2,4) unfolding reads_def assms(3)
  by (simp add: flatten_single del: version_spec_or_group.simps)

lemma atom_reads:
  assumes "spec_env_laws env" "spec_ok p s" "\<not> is_group s"
  shows "reads_and env st n s" "reads_or env st n s"
proof -
  note ok = spec_ok_atom [OF assms(3)]
  have same: "spec_write (Some Or) s = spec_write (Some And) s" by (rule atom_write [OF assms(3)])
  show "reads_and env st n s"
    using and_group_text [OF assms(1), of "[s]" st "version_spec_or_group n env st"] atom_reads_term [OF assms, of st n] assms(2) ok [of p "Some And"]
    unfolding reads_def same by (simp add: flatten_single)
  then show "reads_or env st n s"
    using assms(2) ok [of p None] atom_write [OF assms(3)] by (intro single_reads_or assms(1)) blast+
qed

lemma and_reads:
  assumes "spec_env_laws env" "spec_ok p (Spec_Group And grp)" "\<And>x. x \<in> set grp \<Longrightarrow> reads_term env st n x"
  shows "reads_and env st n (Spec_Group And grp)"
proof -
  have grp: "grp \<noteq> []" "list_all (spec_ok (Some And)) grp" using assms(2) by auto
  show ?thesis
    using and_group_text [OF assms(1) grp, of st "version_spec_or_group n env st"] assms(3) flatten_group [OF assms(2)]
    by (simp add: reads_def)
qed

lemma or_reads:
  assumes "spec_env_laws env" "spec_ok p (Spec_Group Or grp)" "\<And>x. x \<in> set grp \<Longrightarrow> reads_and env st n x"
  shows "reads_or env st n (Spec_Group Or grp)"
proof -
  have grp: "grp \<noteq> []" "list_all (spec_ok None) grp" using assms(2) spec_ok_weaken by (auto simp: list_all_iff)
  show ?thesis
    using or_group_text [OF assms(1) grp, of st n] assms(3) flatten_group [OF assms(2)]
    by (simp add: reads_def del: version_spec_or_group.simps)
qed

lemma parenthesis_reads:
  assumes "spec_env_laws env" "spec_ok p (Spec_Group Or grp)" "reads_or env st n (Spec_Group Or grp)"
  shows "reads_term env st (Suc n) (Spec_Group Or grp)"
proof -
  let ?inner = "spec_write None (Spec_Group Or grp)"
  have inner: "starts term_start ?inner" using spec_text [OF assms(2), of None] by blast
  have "version_spec_term env st (version_spec_or_group (Suc n) env st) (''('' @ ?inner @ '')'' @ r) = Some (Done (Inr (r, Spec_Group Or grp)))"
    if r: "ends_term r" for r
  proof -
    have "se_multispace0 env (?inner @ '')'' @ r) = ?inner @ '')'' @ r"
      using inner by (intro multispace_kept [OF assms(1)]) (auto simp: starts_def)
    moreover have "ends_or ('')'' @ r)" using r by (auto simp: ends_or_def ends_and_def ends_term_def)
    then have "version_spec_or_group (Suc n) env st (?inner @ '')'' @ r) = Some (Done (Inr ('')'' @ r, Spec_Group Or grp)))"
      using assms(3) by (simp add: reads_def del: version_spec_or_group.simps)
    moreover have "se_multispace0 env ('')'' @ r) = '')'' @ r" by (intro multispace_kept [OF assms(1)]) simp
    ultimately show ?thesis by (simp add: version_spec_term_def del: version_spec_or_group.simps)
  qed
  then show ?thesis by (simp add: reads_def del: version_spec_or_group.simps)
qed

lemma atom_reads_all:
  assumes "spec_env_laws env" "\<not> is_group s"
  shows "(spec_ok (Some And) s \<longrightarrow> length (spec_write (Some And) s) \<le> n \<longrightarrow> reads_term env st n s)
    \<and> (spec_ok (Some Or) s \<longrightarrow> length (spec_write (Some Or) s) \<le> n \<longrightarrow> reads_and env st n s)
    \<and> (spec_ok None s \<longrightarrow> length (spec_write None s) \<le> n \<longrightarrow> reads_or env st n s)"
  using atom_reads_term [OF assms(1) _ assms(2)] atom_reads [OF assms(1) _ assms(2)] by blast

lemma spec_reads:
  assumes "spec_env_laws env"
  shows "(spec_ok (Some And) s \<longrightarrow> length (spec_write (Some And) s) \<le> n \<longrightarrow> reads_term env st n s)
    \<and> (spec_ok (Some Or) s \<longrightarrow> length (spec_write (Some Or) s) \<le> n \<longrightarrow> reads_and env st n s)
    \<and> (spec_ok None s \<longrightarrow> length (spec_write None s) \<le> n \<longrightarrow> reads_or env st n s)"
proof (induction s arbitrary: n)
  case (Spec_Group op grp)
  have len: "length (spec_write (Some op) x) \<le> length (join_with (logical_display op) (map (spec_write (Some op)) grp))" if "x \<in> set grp" for x
    by (rule length_join_elem [OF that])
  show ?case
  proof (cases op)
    case And
    have "reads_and env st m (Spec_Group And grp) \<and> reads_or env st m (Spec_Group And grp)"
      if ok: "spec_ok None (Spec_Group And grp)" and m: "length (spec_write None (Spec_Group And grp)) \<le> m" for m
    proof -
      have "reads_term env st m x" if "x \<in> set grp" for x
        using Spec_Group.IH [OF that, of m] ok m len [OF that] that And by (auto simp: list_all_iff)
      from and_reads [OF assms ok this] show ?thesis using single_reads_or [OF assms ok] by simp
    qed
    then show ?thesis using And by (auto dest: spec_ok_weaken simp del: version_spec_or_group.simps)
  next
    case Or
    have alts: "reads_or env st m (Spec_Group Or grp)"
      if ok: "spec_ok None (Spec_Group Or grp)" and m: "length (spec_write None (Spec_Group Or grp)) \<le> m" for m
    proof (rule or_reads [OF assms ok])
      show "reads_and env st m x" if "x \<in> set grp" for x
        using Spec_Group.IH [OF that, of m] ok m len [OF that] that Or by (auto simp: list_all_iff)
    qed
    have "reads_term env st m (Spec_Group Or grp)"
      if ok: "spec_ok None (Spec_Group Or grp)" and m: "length (spec_write (Some And) (Spec_Group Or grp)) \<le> m" for m
    proof -
      obtain k where "m = Suc k" "length (spec_write None (Spec_Group Or grp)) \<le> k" using m by (cases m) auto
      then show ?thesis using parenthesis_reads [OF assms ok alts [OF ok]] by simp
    qed
    then show ?thesis using Or alts by (auto dest: spec_ok_weaken simp del: version_spec_or_group.simps)
  qed
qed (rule atom_reads_all [OF assms]; simp add: is_group_def)+

lemma version_spec_from_str_display:
  assumes "spec_env_laws env" "spec_ok None s"
  shows "version_spec_from_str env st (spec_display s) = Some (Done (Inr s))"
proof -
  have "reads_or env st (length (spec_display s)) s" using spec_reads [OF assms(1)] assms(2) by (simp add: spec_display_def)
  moreover have "ends_or []" by (simp add: ends_or_def ends_and_def ends_term_def)
  ultimately have "version_spec_or_group (Suc (length (spec_display s))) env st (spec_display s) = Some (Done (Inr ([], s)))"
    unfolding reads_def spec_display_def by (metis append_Nil2)
  then show ?thesis by (simp add: version_spec_from_str_def version_spec_parser_def del: version_spec_or_group.simps)
qed

section \<open>Properties\<close>

lemma ascii_env_laws: "spec_env_laws ascii_env"
  using ascii_scanner_laws ascii_instances
  by (simp add: spec_env_laws_def ascii_env_def takes_chars_def ascii_take_while1_def)

lemma version_spec_from_str_Inr:
  assumes "spec_env_laws env" "version_spec_from_str env st s = Some (Done (Inr spec))"
  shows "spec_ok None spec"
proof -
  obtain x where x: "version_spec_or_group (Suc (length s)) env st s = Some (Done x)"
    using or_group_total [OF assms(1), of s "Suc (length s)" st] by (auto simp: total_on_def)
  then have "x = Inr ([], spec)"
    using assms(2) by (cases x) (auto simp: version_spec_from_str_def version_spec_parser_def simp del: version_spec_or_group.simps split: nom_err.splits if_splits)
  then show ?thesis using or_group_ok [OF assms(1)] x by blast
qed

text \<open>
  C17. With the documented behaviour of the scanners, parsing a version constraint ends on every text, with a constraint
  or an error, in both strictness modes, and never panics. What it returns is printed as a text that either mode reads
  back to the same constraint tree. The same holds for every tree whose versions are ones the version parser returns,
  which has no empty constraint and no negated compatibility, and in which every group has two or more members, none of
  them a group with the same operator.
\<close>

theorem version_spec_round_trip:
  assumes "spec_env_laws env"
  shows "(\<forall>st s. \<exists>r. version_spec_from_str env st s = Some (Done r))
    \<and> (\<forall>st s spec. version_spec_from_str env st s = Some (Done (Inr spec)) \<longrightarrow>
         spec_ok None spec \<and> (\<forall>st'. version_spec_from_str env st' (spec_display spec) = Some (Done (Inr spec))))
    \<and> (\<forall>spec. spec_ok None spec \<longrightarrow> (\<forall>st. version_spec_from_str env st (spec_display spec) = Some (Done (Inr spec))))"
  using version_spec_from_str_total [OF assms] version_spec_from_str_Inr [OF assms] version_spec_from_str_display [OF assms] by blast

text \<open>The versions 1.2 and 3 of a sample constraint.\<close>

definition sample_bound :: version_syntax where
  "sample_bound = \<lparr>vs_epoch = None, vs_release = [(None, [Numeral 1]), (Some CHR ''.'', [Numeral 2])], vs_local = None\<rparr>"

definition sample_major :: version_syntax where
  "sample_major = \<lparr>vs_epoch = None, vs_release = [(None, [Numeral 3])], vs_local = None\<rparr>"

lemma literal_version_exists:
  assumes "syntax_ok x"
  shows "\<exists>v. literal_version v \<and> version_display v = syntax_text x"
proof -
  obtain v where v: "represents v x" using represents_exists [OF assms] by blast
  moreover have "literal_part (vs_release x)" using assms by (simp add: syntax_ok_def)
  ultimately show ?thesis using assms version_display_represents by (auto simp: literal_version_def)
qed

lemma sample_bound_ok: "syntax_ok sample_bound"
proof -
  have "note_all None (marks (vs_release sample_bound) @ marks (local_part sample_bound)) \<noteq> None" by code_simp
  moreover have "literal_part (vs_release sample_bound)"
    by (simp add: sample_bound_def literal_part_def body_ok_def tail_ok_def run_ok_def separators_def)
  ultimately show ?thesis by (simp add: syntax_ok_def) (simp add: sample_bound_def)
qed

lemma sample_major_ok: "syntax_ok sample_major"
proof -
  have "note_all None (marks (vs_release sample_major) @ marks (local_part sample_major)) \<noteq> None" by code_simp
  moreover have "literal_part (vs_release sample_major)"
    by (simp add: sample_major_def literal_part_def body_ok_def tail_ok_def run_ok_def separators_def)
  ultimately show ?thesis by (simp add: syntax_ok_def) (simp add: sample_major_def)
qed

lemma sample_texts: "syntax_text sample_bound = ''1.2''" "syntax_text sample_major = ''3''"
  by code_simp+

theorem version_spec_round_trip_witness:
  "\<exists>v w. version_display v = ''1.2'' \<and> version_display w = ''3'' \<and>
     version_spec_from_str ascii_env Strict ''>=1.2,(3.*|!=3)'' = Some (Done (Inr (Spec_Group And [Spec_Range GreaterEquals v,
       Spec_Group Or [Spec_StrictRange StartsWith (StrictVersion w), Spec_Exact NotEquals w]])))"
proof -
  obtain v w where vw: "literal_version v" "version_display v = ''1.2''" "literal_version w" "version_display w = ''3''"
    using literal_version_exists [OF sample_bound_ok] literal_version_exists [OF sample_major_ok] sample_texts by metis
  let ?s = "Spec_Group And [Spec_Range GreaterEquals v, Spec_Group Or [Spec_StrictRange StartsWith (StrictVersion w), Spec_Exact NotEquals w]]"
  have ok: "spec_ok None ?s" using vw by simp
  have shown: "spec_display ?s = ''>=1.2,(3.*|!=3)''" using vw by (simp add: spec_display_def)
  from version_spec_round_trip [OF ascii_env_laws] ok
  have "version_spec_from_str ascii_env Strict (spec_display ?s) = Some (Done (Inr ?s))" by blast
  with vw show ?thesis unfolding shown by blast
qed

end
