(* ===== verification/Package_Record.thy ===== *)
theory Package_Record
  imports Package_Name Version_Order "HOL-Library.Option_ord"
begin

text \<open>
  Package records (\<open>rattler_conda_types/src/repo_data/mod.rs\<close>) with the types of their fields:
  the noarch marker (\<open>no_arch_type.rs\<close>), the build string with its CEP 26 validation
  (\<open>package/build_string.rs\<close>) and the timestamp (\<open>utils/serde.rs\<close>). The record has
  all the fields of the source. The order on records is an instance of the
  comparison interface of the prelude.
\<close>

section \<open>Noarch marker\<close>

datatype raw_no_arch_type = GenericV1 | GenericV2 | Python

datatype no_arch_kind = NoArchKind_Python | NoArchKind_Generic

datatype no_arch_type = NoArchType (raw_no_arch: "raw_no_arch_type option")

definition no_arch_kind :: "no_arch_type \<Rightarrow> no_arch_kind option" where
  "no_arch_kind t = (case raw_no_arch t of
     None \<Rightarrow> None
   | Some GenericV1 \<Rightarrow> Some NoArchKind_Generic
   | Some GenericV2 \<Rightarrow> Some NoArchKind_Generic
   | Some Python \<Rightarrow> Some NoArchKind_Python)"

definition no_arch_is_none :: "no_arch_type \<Rightarrow> bool" where
  "no_arch_is_none t \<longleftrightarrow> raw_no_arch t = None"

definition no_arch_is_python :: "no_arch_type \<Rightarrow> bool" where
  "no_arch_is_python t \<longleftrightarrow> no_arch_kind t = Some NoArchKind_Python"

definition no_arch_is_generic :: "no_arch_type \<Rightarrow> bool" where
  "no_arch_is_generic t \<longleftrightarrow> no_arch_kind t = Some NoArchKind_Generic"

definition no_arch_from_kind :: "no_arch_kind option \<Rightarrow> no_arch_type" where
  "no_arch_from_kind noarch = NoArchType (map_option (\<lambda>noarch. case noarch of
     NoArchKind_Python \<Rightarrow> Python | NoArchKind_Generic \<Rightarrow> GenericV2) noarch)"

lemma no_arch_kind_from_kind: "no_arch_kind (no_arch_from_kind k) = k"
  by (auto simp: no_arch_kind_def no_arch_from_kind_def split: option.splits no_arch_kind.splits)

lemma no_arch_exactly_one:
  "no_arch_is_none t \<and> \<not> no_arch_is_python t \<and> \<not> no_arch_is_generic t
   \<or> \<not> no_arch_is_none t \<and> (no_arch_is_python t \<noteq> no_arch_is_generic t)"
  by (cases t) (auto simp: no_arch_is_none_def no_arch_is_python_def no_arch_is_generic_def no_arch_kind_def
      split: option.splits raw_no_arch_type.splits)

section \<open>Build strings\<close>

datatype build_string = BuildString (build_str: string)

datatype build_string_error =
    InvalidCharacter char
  | TooLong nat nat
  | Empty

definition BUILD_STRING_MAX_LEN :: nat where
  "BUILD_STRING_MAX_LEN = 64"

definition build_char_ok :: "char \<Rightarrow> bool" where
  "build_char_ok c \<longleftrightarrow> is_ascii_lowercase c \<or> is_ascii_uppercase c \<or> is_ascii_digit c \<or> c \<in> set ''_.+''"

definition check_invalid_chars :: "string \<Rightarrow> build_string_error + unit" where
  "check_invalid_chars value = (case find (\<lambda>c. \<not> build_char_ok c) value of
     Some character \<Rightarrow> Inl (InvalidCharacter character)
   | None \<Rightarrow> Inr ())"

definition build_string_validate :: "string \<Rightarrow> build_string_error + unit" where
  "build_string_validate value =
     (if value = [] then Inl Empty
      else case check_invalid_chars value of
        Inl e \<Rightarrow> Inl e
      | Inr _ \<Rightarrow> (if length value > BUILD_STRING_MAX_LEN
                  then Inl (TooLong (length value) BUILD_STRING_MAX_LEN) else Inr ()))"

definition build_string_from_str :: "string \<Rightarrow> build_string_error + build_string" where
  "build_string_from_str value = (case build_string_validate value of
     Inl e \<Rightarrow> Inl e | Inr _ \<Rightarrow> Inr (BuildString value))"

text \<open>\<open>append\<close> and \<open>prepend\<close> mutate their receiver: the new receiver and the result.\<close>

definition build_string_append :: "build_string \<Rightarrow> string \<Rightarrow> build_string \<times> (build_string_error + unit)" where
  "build_string_append b other =
     (let combined = build_str b @ other
      in case build_string_validate combined of
           Inl e \<Rightarrow> (b, Inl e)
         | Inr _ \<Rightarrow> (BuildString combined, Inr ()))"

definition build_string_prepend :: "build_string \<Rightarrow> string \<Rightarrow> build_string \<times> (build_string_error + unit)" where
  "build_string_prepend b other =
     (let combined = other @ build_str b
      in case build_string_validate combined of
           Inl e \<Rightarrow> (b, Inl e)
         | Inr _ \<Rightarrow> (BuildString combined, Inr ()))"

text \<open>CEP 26: 1 to 64 characters of the allowed alphabet.\<close>

definition cep26_build :: "string \<Rightarrow> bool" where
  "cep26_build s \<longleftrightarrow> 1 \<le> length s \<and> length s \<le> 64 \<and> (\<forall>c \<in> set s. build_char_ok c)"

lemma build_string_validate_iff: "build_string_validate s = Inr () \<longleftrightarrow> cep26_build s"
  by (auto simp: build_string_validate_def check_invalid_chars_def cep26_build_def BUILD_STRING_MAX_LEN_def
      find_None_iff find_Some_iff Suc_le_eq split: option.splits)

lemma build_string_validate_cases:
  "build_string_validate s = (if s = [] then Inl Empty
     else case find (\<lambda>c. \<not> build_char_ok c) s of Some c \<Rightarrow> Inl (InvalidCharacter c)
       | None \<Rightarrow> if cep26_build s then Inr () else Inl (TooLong (length s) 64))"
proof (cases "find (\<lambda>c. \<not> build_char_ok c) s")
  case None
  then have "\<forall>c \<in> set s. build_char_ok c" by (simp add: find_None_iff)
  with None show ?thesis
    by (auto simp: build_string_validate_def check_invalid_chars_def cep26_build_def BUILD_STRING_MAX_LEN_def Suc_le_eq)
qed (simp add: build_string_validate_def check_invalid_chars_def)

lemma build_string_edit:
  assumes "cep26_build (build_str b)"
  shows "cep26_build (build_str (fst (build_string_append b s)))"
    and "cep26_build (build_str (fst (build_string_prepend b s)))"
  using assms build_string_validate_iff [of "build_str b @ s"] build_string_validate_iff [of "s @ build_str b"]
  by (auto simp: build_string_append_def build_string_prepend_def Let_def split: sum.splits)

section \<open>Timestamps\<close>

text \<open>\<open>jiff::Timestamp\<close> is an instant; only its order is used.\<close>

record timestamp_ms =
  ts_instant :: int
  ts_is_millis :: bool

definition timestamp_cmp :: "timestamp_ms \<Rightarrow> timestamp_ms \<Rightarrow> ordering" where
  "timestamp_cmp a b = cmp_of (ts_instant a) (ts_instant b)"

text \<open>\<open>Ord for Option\<close>: \<open>None\<close> is below every \<open>Some\<close>.\<close>

definition option_timestamp_cmp :: "timestamp_ms option \<Rightarrow> timestamp_ms option \<Rightarrow> ordering" where
  "option_timestamp_cmp a b = (case (a, b) of
     (None, None) \<Rightarrow> Ord_Equal
   | (None, Some _) \<Rightarrow> Ord_Less
   | (Some _, None) \<Rightarrow> Ord_Greater
   | (Some x, Some y) \<Rightarrow> timestamp_cmp x y)"

section \<open>\<open>PackageRecord\<close>\<close>

record run_exports_json =
  re_weak :: "string list"
  re_strong :: "string list"
  re_noarch :: "string list"
  re_weak_constrains :: "string list"
  re_strong_constrains :: "string list"

definition run_exports_is_empty :: "run_exports_json \<Rightarrow> bool" where
  "run_exports_is_empty r \<longleftrightarrow> re_weak r = [] \<and> re_strong r = [] \<and> re_noarch r = []
     \<and> re_weak_constrains r = [] \<and> re_strong_constrains r = []"

text \<open>
  The ordered containers of the record, the tree map \<open>extra_depends\<close> and the tree set of package
  urls in \<open>purls\<close>, are the lists of their entries in key order; package urls are their text.
\<close>

record package_record =
  pr_arch :: "string option"
  pr_attestations_sha256 :: "u8 list option"
  pr_build :: build_string
  pr_build_number :: u64
  pr_constrains :: "string list"
  pr_depends :: "string list"
  pr_extra_depends :: "(string \<times> string list) list"
  pr_features :: "string option"
  pr_flags :: "string list"
  pr_indexed_timestamp :: "timestamp_ms option"
  pr_legacy_bz2_md5 :: "u8 list option"
  pr_legacy_bz2_size :: "u64 option"
  pr_license :: "string option"
  pr_license_family :: "string option"
  pr_md5 :: "u8 list option"
  pr_name :: package_name
  pr_noarch :: no_arch_type
  pr_platform :: "string option"
  pr_purls :: "string list option"
  pr_python_site_packages_path :: "string option"
  pr_run_exports :: "run_exports_json option"
  pr_sha256 :: "u8 list option"
  pr_size :: "u64 option"
  pr_subdir :: string
  pr_timestamp :: "timestamp_ms option"
  pr_track_features :: "string list"
  pr_version :: version_with_source

definition package_record_cmp :: "package_record \<Rightarrow> package_record \<Rightarrow> ordering" where
  "package_record_cmp a b =
     then_with (package_name_cmp (pr_name a) (pr_name b))
       (then_with (cmp_of (pr_track_features a = []) (pr_track_features b = []))
         (then_with (vws_cmp (pr_version a) (pr_version b))
           (then_with (cmp_of (pr_build_number a) (pr_build_number b))
             (option_timestamp_cmp (pr_timestamp a) (pr_timestamp b)))))"

definition package_record_display :: "package_record \<Rightarrow> string" where
  "package_record_display r =
     (if build_str (pr_build r) = []
      then as_normalized (pr_name r) @ '' '' @ vws_as_str (pr_version r)
      else as_normalized (pr_name r) @ ''='' @ vws_as_str (pr_version r) @ ''='' @ build_str (pr_build r))"

lemma option_timestamp_cmp_key:
  "option_timestamp_cmp a b = cmp_of (map_option ts_instant a) (map_option ts_instant b)"
  by (auto simp: option_timestamp_cmp_def timestamp_cmp_def cmp_of_def split: option.splits)

lemma package_record_cmp_total_preorder: "total_preorder_cmp package_record_cmp"
proof -
  have "package_record_cmp = (\<lambda>a b. then_with (package_name_cmp (pr_name a) (pr_name b))
       (then_with (cmp_of (pr_track_features a = []) (pr_track_features b = []))
         (then_with (vws_cmp (pr_version a) (pr_version b))
           (then_with (cmp_of (pr_build_number a) (pr_build_number b))
             (cmp_of (map_option ts_instant (pr_timestamp a)) (map_option ts_instant (pr_timestamp b)))))))"
    by (intro ext) (simp add: package_record_cmp_def option_timestamp_cmp_key)
  moreover have "total_preorder_cmp \<dots>"
    by (rule then_with_total_preorder [OF cmp_key_total_preorder [OF package_name_cmp_total_preorder]
        then_with_total_preorder [OF cmp_of_key then_with_total_preorder [OF
          cmp_key_total_preorder [OF vws_cmp_total_preorder] then_with_total_preorder [OF cmp_of_key cmp_of_key]]]])
  ultimately show ?thesis by simp
qed

interpretation package_record_ord: total_preorder_cmp package_record_cmp
  by (rule package_record_cmp_total_preorder)

section \<open>Properties\<close>

text \<open>
  A build string is accepted exactly when it has 1 to 64 characters of the allowed alphabet;
  appending or prepending stores the combination exactly when it is valid and otherwise leaves the
  receiver unchanged, so a valid build string stays valid.
\<close>

theorem build_string_cep26:
  "(build_string_from_str s = Inr (BuildString s) \<longleftrightarrow> cep26_build s)
   \<and> (if cep26_build (build_str b @ s) then build_string_append b s = (BuildString (build_str b @ s), Inr ())
      else fst (build_string_append b s) = b \<and> snd (build_string_append b s) \<noteq> Inr ())
   \<and> (cep26_build (build_str b) \<longrightarrow> cep26_build (build_str (fst (build_string_prepend b s))))"
  using build_string_validate_iff [of s] build_string_validate_iff [of "build_str b @ s"] build_string_edit(2) [of b s]
  by (auto simp: build_string_from_str_def build_string_append_def Let_def split: sum.splits)

theorem build_string_cep26_witness:
  "cep26_build ''py37_0'' \<and> build_string_from_str ''py37_0'' = Inr (BuildString ''py37_0'')
   \<and> cep26_build (build_str (fst (build_string_prepend (BuildString ''py37_0'') ''h1_'')))"
proof -
  have "cep26_build ''py37_0''" by code_simp
  then show ?thesis
    using build_string_cep26 [of "''py37_0''"] build_string_cep26 [of "''h1_''" "BuildString ''py37_0''"] by simp
qed

text \<open>
  The order of package records is total and transitive, and records with track features come
  before records of the same name without them.
\<close>

theorem package_record_order:
  "package_record_cmp b a = rev_ordering (package_record_cmp a b)
   \<and> (package_record_cmp a b \<noteq> Ord_Greater \<and> package_record_cmp b c \<noteq> Ord_Greater
      \<longrightarrow> package_record_cmp a c \<noteq> Ord_Greater)
   \<and> (package_name_eq (pr_name a) (pr_name b) \<and> pr_track_features a \<noteq> [] \<and> pr_track_features b = []
      \<longrightarrow> package_record_cmp a b = Ord_Less)"
  using package_record_ord.cmp_rev [of b a] package_record_ord.cmp_trans [of a b c]
  by (auto simp: package_record_cmp_def package_name_cmp_def package_name_eq_def cmp_of_def)

definition sample_record :: "string \<Rightarrow> string list \<Rightarrow> string list \<Rightarrow> package_record" where
  "sample_record name deps feats = \<lparr>pr_arch = None, pr_attestations_sha256 = None, pr_build = BuildString ''0'',
     pr_build_number = 0, pr_constrains = [], pr_depends = deps, pr_extra_depends = [], pr_features = None,
     pr_flags = [], pr_indexed_timestamp = None, pr_legacy_bz2_md5 = None, pr_legacy_bz2_size = None,
     pr_license = None, pr_license_family = None, pr_md5 = None, pr_name = new_unchecked name,
     pr_noarch = NoArchType None, pr_platform = None, pr_purls = None, pr_python_site_packages_path = None,
     pr_run_exports = None, pr_sha256 = None, pr_size = None, pr_subdir = ''linux-64'', pr_timestamp = None,
     pr_track_features = feats,
     pr_version = \<lparr>vws_version = \<lparr>v_components = [Numeral 1], v_segments = [Segment 1], v_flags = Flags 0\<rparr>,
       vws_source = None\<rparr>\<rparr>"

theorem package_record_order_witness:
  "package_record_cmp (sample_record ''a'' [] [''mkl'']) (sample_record ''a'' [] []) = Ord_Less"
proof -
  have "package_name_eq (pr_name (sample_record ''a'' [] [''mkl''])) (pr_name (sample_record ''a'' [] []))"
    "pr_track_features (sample_record ''a'' [] [''mkl'']) \<noteq> []" "pr_track_features (sample_record ''a'' [] []) = []"
    by (simp_all add: sample_record_def package_name_eq_def)
  then show ?thesis using package_record_order by blast
qed

end
