(* ===== verification/Path_Trie.thy ===== *)
theory Path_Trie
  imports Rattler_Prelude "HOL-Library.AList" "HOL-Library.Sublist"
begin

text \<open>
  The path-component trie of \<open>path_resolver/src/lib.rs\<close>: nodes, insertion, removal, pruning,
  prefix propagation and the recursive collections over it. A path is the list of its components; the
  components of an absolute path start with the root directory. A \<open>HashMap\<close> of children is an
  association list with distinct keys, a \<open>HashSet\<close> of owners a set, so statements about what the
  source collects in iteration order are statements about sets.
\<close>

type_synonym path = "string list"
type_synonym owner = string

definition is_relative :: "path \<Rightarrow> bool" where
  "is_relative p \<longleftrightarrow> (case p of c # _ \<Rightarrow> c \<noteq> ''/'' | [] \<Rightarrow> True)"

section \<open>Nodes\<close>

datatype path_trie_node = PathTrieNode
  (prefixes: "owner set") (terminals: "owner set") (children: "(string \<times> path_trie_node) list")

definition empty_node :: path_trie_node where
  "empty_node = PathTrieNode {} {} []"

lemma size_child [termination_simp]: "(c, n) \<in> set cs \<Longrightarrow> size n < Suc (size_list (size_prod (\<lambda>_. 0) size) cs)"
  by (induction cs) auto

lemma path_trie_node_induct [case_names Node]:
  assumes "\<And>P T C. (\<And>c n. (c, n) \<in> set C \<Longrightarrow> Q n) \<Longrightarrow> Q (PathTrieNode P T C)"
  shows "Q n"
proof (induction n rule: path_trie_node.induct)
  case (PathTrieNode P T C)
  show ?case by (rule assms) (use PathTrieNode in \<open>fastforce simp: snds.simps\<close>)
qed

text \<open>\<open>get_node\<close>, the shared descent of \<open>get_node_mut\<close> and \<open>packages_for_prefix\<close>.\<close>

fun get_node :: "path_trie_node \<Rightarrow> path \<Rightarrow> path_trie_node option" where
  "get_node cur [] = Some cur"
| "get_node cur (name # rest) = (case map_of (children cur) name of
     None \<Rightarrow> None
   | Some child \<Rightarrow> get_node child rest)"

text \<open>The insertion loop of \<open>insert_file_owned\<close>.\<close>

fun insert_file :: "owner \<Rightarrow> path \<Rightarrow> path_trie_node \<Rightarrow> path_trie_node" where
  "insert_file package [] node =
     PathTrieNode (insert package (prefixes node)) (insert package (terminals node)) (children node)"
| "insert_file package (name # rest) node =
     PathTrieNode (insert package (prefixes node)) (terminals node)
       (AList.update name
          (insert_file package rest (case map_of (children node) name of Some n \<Rightarrow> n | None \<Rightarrow> empty_node))
          (children node))"

fun propagate_prefix :: "owner \<Rightarrow> path_trie_node \<Rightarrow> path_trie_node" where
  "propagate_prefix package (PathTrieNode P T C) =
     PathTrieNode (insert package P) T (map (\<lambda>(name, child). (name, propagate_prefix package child)) C)"

text \<open>\<open>if let Some(n) = self.get_node_mut(&p) { f(n) }\<close>.\<close>

fun update_node :: "(path_trie_node \<Rightarrow> path_trie_node) \<Rightarrow> path \<Rightarrow> path_trie_node \<Rightarrow> path_trie_node" where
  "update_node f [] node = f node"
| "update_node f (name # rest) node = (case map_of (children node) name of
     None \<Rightarrow> node
   | Some child \<Rightarrow> PathTrieNode (prefixes node) (terminals node)
       (AList.update name (update_node f rest child) (children node)))"

text \<open>The conflict scan of \<open>insert_package\<close> for one path.\<close>

datatype scan_result = Blocked | Found path_trie_node | Missing

fun scan_path :: "path_trie_node \<Rightarrow> path \<Rightarrow> scan_result" where
  "scan_path current_node [] = Missing"
| "scan_path current_node (name # rest) = (case map_of (children current_node) name of
     None \<Rightarrow> Missing
   | Some node \<Rightarrow>
       (if rest \<noteq> [] \<and> terminals node \<noteq> {} then Blocked
        else if rest = [] then Found node
        else scan_path node rest))"

section \<open>Removal\<close>

fun rm :: "owner \<Rightarrow> path_trie_node \<Rightarrow> path_trie_node" where
  "rm pkg (PathTrieNode P T C) =
     PathTrieNode (P - {pkg}) (T - {pkg}) (map (\<lambda>(name, child). (name, rm pkg child)) C)"

definition node_is_empty :: "path_trie_node \<Rightarrow> bool" where
  "node_is_empty n \<longleftrightarrow> prefixes n = {} \<and> terminals n = {} \<and> children n = []"

text \<open>\<open>prune\<close> mutates its node and reports whether it is empty afterwards.\<close>

fun prune :: "path_trie_node \<Rightarrow> path_trie_node" where
  "prune (PathTrieNode P T C) =
     PathTrieNode P T (filter (\<lambda>(name, child). \<not> node_is_empty child)
       (map (\<lambda>(name, child). (name, prune child)) C))"

fun collect_next_candidate_paths ::
  "owner \<Rightarrow> owner list \<Rightarrow> path_trie_node \<Rightarrow> path \<Rightarrow> bool \<Rightarrow> (path \<times> owner) list" where
  "collect_next_candidate_paths package candidates (PathTrieNode P T C) path under_removed =
     (let removed_here = package \<in> T;
          prefix_here = package \<in> P;
          active = under_removed \<or> removed_here \<or> prefix_here
      in if \<not> active then []
         else (case find (\<lambda>candidate. candidate \<in> T) candidates of
                 Some candidate \<Rightarrow> [(path, candidate)] | None \<Rightarrow> [])
              @ (let next_under = under_removed \<or> removed_here
                 in concat (map (\<lambda>(name, child).
                      collect_next_candidate_paths package candidates child (path @ [name]) next_under) C)))"

section \<open>Priorities\<close>

text \<open>
  \<open>prefixes.iter().max_by_key(|p| rank.get(p).copied().unwrap_or(usize::MAX))\<close> with the ranks
  of \<open>order\<close> (lowest first): the owner that comes last in \<open>order\<close>. The assertion of
  \<open>reprioritize_packages\<close> makes \<open>order\<close> cover all packages, and every owner stored in
  the trie is a package, so the default rank is not reached.
\<close>

definition max_by_rank :: "owner list \<Rightarrow> owner set \<Rightarrow> owner option" where
  "max_by_rank order S = find (\<lambda>p. p \<in> S) (rev order)"

definition is_file_of :: "owner option \<Rightarrow> owner set \<Rightarrow> bool" where
  "is_file_of winner T = (case winner of Some p \<Rightarrow> p \<in> T | None \<Rightarrow> False)"

fun collect_removed_subtree :: "owner list \<Rightarrow> path_trie_node \<Rightarrow> path \<Rightarrow> (path \<times> owner) list" where
  "collect_removed_subtree old_order (PathTrieNode P T C) cur =
     (case max_by_rank old_order P of
        Some p \<Rightarrow> (if p \<in> T then [(cur, p)] else [])
      | None \<Rightarrow> [])
     @ concat (map (\<lambda>(name, child). collect_removed_subtree old_order child (cur @ [name])) C)"

fun collect_new_winners :: "owner list \<Rightarrow> path_trie_node \<Rightarrow> path \<Rightarrow> (path \<times> owner) list" where
  "collect_new_winners new_order (PathTrieNode P T C) cur =
     (case max_by_rank new_order P of
        Some p \<Rightarrow>
          (if p \<in> T then [(cur, p)]
           else concat (map (\<lambda>(name, child). collect_new_winners new_order child (cur @ [name])) C))
      | None \<Rightarrow> [])"

text \<open>The nested function \<open>dfs\<close> of \<open>reprioritize_packages\<close>: what it appends to
  \<open>to_clobbers\<close> and \<open>from_clobbers\<close>.\<close>

fun reprioritize_dfs ::
  "owner list \<Rightarrow> owner list \<Rightarrow> path_trie_node \<Rightarrow> path \<Rightarrow> (path \<times> owner) list \<times> (path \<times> owner) list" where
  "reprioritize_dfs old_order new_order (PathTrieNode P T C) cur =
     (let old_winner = max_by_rank old_order P;
          new_winner = max_by_rank new_order P
      in case (is_file_of old_winner T, is_file_of new_winner T) of
           (True, True) \<Rightarrow>
             (if old_winner \<noteq> new_winner
              then ([(cur, the old_winner)], [(cur, the new_winner)]) else ([], []))
         | (False, True) \<Rightarrow>
             (collect_removed_subtree old_order (PathTrieNode P T C) cur, [(cur, the new_winner)])
         | (True, False) \<Rightarrow>
             ([(cur, the old_winner)], collect_new_winners new_order (PathTrieNode P T C) cur)
         | (False, False) \<Rightarrow>
             (concat (map (\<lambda>(name, child). fst (reprioritize_dfs old_order new_order child (cur @ [name]))) C),
              concat (map (\<lambda>(name, child). snd (reprioritize_dfs old_order new_order child (cur @ [name]))) C)))"

section \<open>Reports\<close>

fun find_conflicts_dfs :: "path_trie_node \<Rightarrow> path \<Rightarrow> (path \<times> owner set) list" where
  "find_conflicts_dfs (PathTrieNode P T C) cur =
     (if card T > 1 then [(cur, T)] else [])
     @ concat (map (\<lambda>(name, child). find_conflicts_dfs child (cur @ [name])) C)"

record clobbered_path =
  cp_winner :: owner
  cp_losers :: "owner set"

fun clobbered_paths_dfs :: "owner list \<Rightarrow> path_trie_node \<Rightarrow> path \<Rightarrow> (path \<times> clobbered_path) list" where
  "clobbered_paths_dfs pkgs (PathTrieNode P T C) path =
     (if T \<noteq> {} then
        (case find (\<lambda>pkg. pkg \<in> T) pkgs of
           Some winner \<Rightarrow>
             (let others = T - {winner}
              in if others \<noteq> {} then [(path, \<lparr>cp_winner = winner, cp_losers = others\<rparr>)] else [])
         | None \<Rightarrow> [])
      else [])
     @ concat (map (\<lambda>(name, child). clobbered_paths_dfs pkgs child (path @ [name])) C)"

end
