(* ===== verification/Rust_Path.thy ===== *)
theory Rust_Path
  imports Path_Trie Rust_Text
begin

text \<open>
  The functions of \<open>std::path\<close> the crates use, on Unix. A path is the list of its components
  (type \<open>path\<close>), the root directory being the component \<open>/\<close>; two Rust paths are equal exactly
  when their components are.
\<close>

section \<open>Components\<close>

text \<open>Repeated separators and inner \<open>.\<close> components are dropped; a leading \<open>.\<close> is kept.\<close>

definition path_components :: "string \<Rightarrow> path" where
  "path_components s =
     (let parts = split_char CHR ''/'' s;
          normal = filter (\<lambda>p. p \<noteq> [] \<and> p \<noteq> ''.'')
      in if s \<noteq> [] \<and> hd s = CHR ''/'' then ''/'' # normal parts
         else if hd parts = ''.'' then ''.'' # normal (tl parts)
         else normal parts)"

definition join_path :: "path \<Rightarrow> path \<Rightarrow> path" where
  "join_path p q = (if \<not> is_relative q then q
     else if p = [] then q
     else p @ (if q \<noteq> [] \<and> hd q = ''.'' then tl q else q))"

text \<open>\<open>Path::file_name\<close>: the last component unless it is the root or the parent directory.\<close>

definition file_name :: "path \<Rightarrow> string option" where
  "file_name p = (if p = [] \<or> last p \<in> {''/'', ''..'', ''.''} then None else Some (last p))"

section \<open>Lemmas\<close>

text \<open>A relative path without a leading \<open>.\<close> is appended.\<close>

definition plain_path :: "path \<Rightarrow> bool" where
  "plain_path p \<longleftrightarrow> p = [] \<or> hd p \<noteq> ''/'' \<and> hd p \<noteq> ''.''"

lemma join_plain [simp]: "plain_path q \<Longrightarrow> join_path p q = p @ q"
  by (cases q) (auto simp: join_path_def plain_path_def is_relative_def)

end
