(* ===== verification/Archive_Identifier.thy ===== *)
theory Archive_Identifier
  imports Rust_Path
begin

text \<open>
  File names of package archives (\<open>rattler_conda_types/src/package/archive_identifier.rs\<close> and
  \<open>archive_type.rs\<close>): the name, version and build string that identify a package, the archive
  types with their extensions, and the conversion between identifiers and file names.
\<close>

section \<open>Archive types\<close>

datatype conda_archive_type = Conda | TarBz2

datatype wheel_archive_type = Whl

datatype dist_archive_type = Dist_Conda conda_archive_type | Dist_Wheel wheel_archive_type

fun conda_extension :: "conda_archive_type \<Rightarrow> string" where
  "conda_extension TarBz2 = ''.tar.bz2''"
| "conda_extension Conda = ''.conda''"

fun wheel_extension :: "wheel_archive_type \<Rightarrow> string" where
  "wheel_extension Whl = ''.whl''"

fun dist_extension :: "dist_archive_type \<Rightarrow> string" where
  "dist_extension (Dist_Conda conda_type) = conda_extension conda_type"
| "dist_extension (Dist_Wheel wheel_type) = wheel_extension wheel_type"

definition try_from_magic_bytes :: "u8 list \<Rightarrow> conda_archive_type option" where
  "try_from_magic_bytes bytes =
     (if length bytes \<ge> 4 then
        (let magic = take 4 bytes
         in if magic = [0x50, 0x4B, 0x03, 0x04] \<or> magic = [0x50, 0x4B, 0x05, 0x06] \<or> magic = [0x50, 0x4B, 0x07, 0x08]
            then Some Conda
            else if take 3 magic = [0x42, 0x5a, 0x68] then Some TarBz2
            else None)
      else None)"

definition conda_split_str :: "string \<Rightarrow> (string \<times> conda_archive_type) option" where
  "conda_split_str path = (case strip_suffix ''.conda'' path of
     Some rest \<Rightarrow> Some (rest, Conda)
   | None \<Rightarrow> (case strip_suffix ''.tar.bz2'' path of Some rest \<Rightarrow> Some (rest, TarBz2) | None \<Rightarrow> None))"

definition wheel_split_str :: "string \<Rightarrow> (string \<times> wheel_archive_type) option" where
  "wheel_split_str path = (case strip_suffix ''.whl'' path of Some rest \<Rightarrow> Some (rest, Whl) | None \<Rightarrow> None)"

definition dist_split_str :: "string \<Rightarrow> (string \<times> dist_archive_type) option" where
  "dist_split_str path = (case conda_split_str path of
     Some (rest, conda_type) \<Rightarrow> Some (rest, Dist_Conda conda_type)
   | None \<Rightarrow> (case wheel_split_str path of
       Some (rest, wheel_type) \<Rightarrow> Some (rest, Dist_Wheel wheel_type) | None \<Rightarrow> None))"

definition conda_type_try_from :: "string \<Rightarrow> conda_archive_type option" where
  "conda_type_try_from path = map_option snd (conda_split_str path)"

definition dist_type_try_from :: "string \<Rightarrow> dist_archive_type option" where
  "dist_type_try_from path = map_option snd (dist_split_str path)"

definition cmp_preference :: "dist_archive_type \<Rightarrow> dist_archive_type \<Rightarrow> ordering" where
  "cmp_preference a b =
     (if a = b then Ord_Equal
      else if a = Dist_Conda Conda then Ord_Greater
      else if b = Dist_Conda Conda then Ord_Less
      else if a = Dist_Conda TarBz2 then Ord_Greater
      else if b = Dist_Conda TarBz2 then Ord_Less
      else Ord_Greater)"

section \<open>Identifiers\<close>

record archive_identifier =
  ai_name :: string
  ai_version :: string
  ai_build_string :: string

definition archive_identifier_from_str :: "string \<Rightarrow> string + archive_identifier" where
  "archive_identifier_from_str s = (case rsplitn 3 CHR ''-'' s of
     build_string # version # name # _ \<Rightarrow>
       Inr \<lparr>ai_name = name, ai_version = version, ai_build_string = build_string\<rparr>
   | _ \<Rightarrow> Inl ''invalid archive identifier'')"

definition archive_identifier_display :: "archive_identifier \<Rightarrow> string" where
  "archive_identifier_display i = ai_name i @ ''-'' @ ai_version i @ ''-'' @ ai_build_string i"

record conda_archive_identifier =
  ci_identifier :: archive_identifier
  ci_archive_type :: conda_archive_type

record dist_archive_identifier =
  di_identifier :: archive_identifier
  di_archive_type :: dist_archive_type

definition conda_identifier_display :: "conda_archive_identifier \<Rightarrow> string" where
  "conda_identifier_display i = archive_identifier_display (ci_identifier i) @ conda_extension (ci_archive_type i)"

definition conda_try_from_filename :: "string \<Rightarrow> conda_archive_identifier option" where
  "conda_try_from_filename filename = (case conda_split_str filename of
     None \<Rightarrow> None
   | Some (filename_without_ext, archive_type) \<Rightarrow>
       (case archive_identifier_from_str filename_without_ext of
          Inl _ \<Rightarrow> None
        | Inr identifier \<Rightarrow> Some \<lparr>ci_identifier = identifier, ci_archive_type = archive_type\<rparr>))"

definition conda_identifier_from_str :: "string \<Rightarrow> string + conda_archive_identifier" where
  "conda_identifier_from_str s = (case conda_try_from_filename s of
     Some i \<Rightarrow> Inr i | None \<Rightarrow> Inl ''invalid archive identifier'')"

definition dist_identifier_display :: "dist_archive_identifier \<Rightarrow> string" where
  "dist_identifier_display i = archive_identifier_display (di_identifier i) @ dist_extension (di_archive_type i)"

definition dist_try_from_filename :: "string \<Rightarrow> dist_archive_identifier option" where
  "dist_try_from_filename filename = (case dist_split_str filename of
     None \<Rightarrow> None
   | Some (filename_without_ext, archive_type) \<Rightarrow>
       (case archive_identifier_from_str filename_without_ext of
          Inl _ \<Rightarrow> None
        | Inr identifier \<Rightarrow> Some \<lparr>di_identifier = identifier, di_archive_type = archive_type\<rparr>))"

definition dist_identifier_from_str :: "string \<Rightarrow> string + dist_archive_identifier" where
  "dist_identifier_from_str s = (case dist_try_from_filename s of
     Some i \<Rightarrow> Inr i | None \<Rightarrow> Inl ''invalid archive identifier'')"

definition conda_try_from_path :: "path \<Rightarrow> conda_archive_identifier option" where
  "conda_try_from_path p = Option.bind (file_name p) conda_try_from_filename"

definition dist_try_from_path :: "path \<Rightarrow> dist_archive_identifier option" where
  "dist_try_from_path p = Option.bind (file_name p) dist_try_from_filename"

text \<open>A url is given by its \<open>path_segments\<close>, which are absent for urls that cannot be a base.\<close>

definition conda_try_from_url :: "string list option \<Rightarrow> conda_archive_identifier option" where
  "conda_try_from_url path_segments = Option.bind path_segments (\<lambda>segments.
     if segments = [] then None else conda_try_from_filename (last segments))"

definition dist_try_from_url :: "string list option \<Rightarrow> dist_archive_identifier option" where
  "dist_try_from_url path_segments = Option.bind path_segments (\<lambda>segments.
     if segments = [] then None else dist_try_from_filename (last segments))"

definition dist_from_conda_identifier :: "conda_archive_identifier \<Rightarrow> dist_archive_identifier" where
  "dist_from_conda_identifier i =
     \<lparr>di_identifier = ci_identifier i, di_archive_type = Dist_Conda (ci_archive_type i)\<rparr>"

definition with_archive_type :: "dist_archive_identifier \<Rightarrow> dist_archive_type \<Rightarrow> dist_archive_identifier" where
  "with_archive_type i archive_type = \<lparr>di_identifier = di_identifier i, di_archive_type = archive_type\<rparr>"

section \<open>Lemmas\<close>

lemma suffix_clash:
  assumes "a @ s = b @ t" "last s \<noteq> last t" "s \<noteq> []" "t \<noteq> []"
  shows False
  using assms by (metis last_appendR)

lemma conda_split_str_iff: "conda_split_str path = Some (rest, ty) \<longleftrightarrow> path = rest @ conda_extension ty"
  by (cases ty) (auto simp: conda_split_str_def strip_suffix_None_iff split: option.splits dest: suffix_clash)

lemma dist_split_str_iff: "dist_split_str path = Some (rest, ty) \<longleftrightarrow> path = rest @ dist_extension ty"
proof (cases ty)
  case (Dist_Conda ct)
  then show ?thesis
    by (auto simp: dist_split_str_def conda_split_str_iff simp flip: conda_split_str_iff split: option.splits)
next
  case (Dist_Wheel w)
  have "conda_split_str (rest @ ''.whl'') = None"
  proof (rule ccontr)
    assume "conda_split_str (rest @ ''.whl'') \<noteq> None"
    then obtain r ct where "rest @ ''.whl'' = r @ conda_extension ct"
      by (auto simp: conda_split_str_iff)
    then show False by (cases ct) (auto dest: suffix_clash)
  qed
  with Dist_Wheel show ?thesis
    by (cases w) (auto simp: dist_split_str_def wheel_split_str_def split: option.splits)
qed

definition dash_free :: "archive_identifier \<Rightarrow> bool" where
  "dash_free i \<longleftrightarrow> CHR ''-'' \<notin> set (ai_version i) \<and> CHR ''-'' \<notin> set (ai_build_string i)"

lemma rsplitn_le: "length (rsplitn n c s) \<le> n"
  by (induction n c s rule: rsplitn.induct) (auto split: option.splits)

lemma archive_identifier_from_str_iff:
  "archive_identifier_from_str s = Inr i \<longleftrightarrow> s = archive_identifier_display i \<and> dash_free i"
proof -
  have "archive_identifier_from_str s = Inr i \<longleftrightarrow>
      rsplitn 3 CHR ''-'' s = [ai_build_string i, ai_version i, ai_name i]"
    using rsplitn_le [of 3 "CHR ''-''" s]
    by (cases i) (auto simp: archive_identifier_from_str_def split: list.splits)
  then show ?thesis
    by (simp add: rsplitn_3_iff archive_identifier_display_def dash_free_def conj_ac)
qed

lemma conda_try_from_filename_iff:
  "conda_try_from_filename s = Some i \<longleftrightarrow> s = conda_identifier_display i \<and> dash_free (ci_identifier i)"
proof -
  have "conda_try_from_filename s = Some i \<longleftrightarrow>
      (\<exists>rest. conda_split_str s = Some (rest, ci_archive_type i)
        \<and> archive_identifier_from_str rest = Inr (ci_identifier i))"
    by (cases i) (auto simp: conda_try_from_filename_def split: option.splits sum.splits)
  then show ?thesis
    by (auto simp: conda_split_str_iff archive_identifier_from_str_iff conda_identifier_display_def)
qed

lemma dist_try_from_filename_iff:
  "dist_try_from_filename s = Some i \<longleftrightarrow> s = dist_identifier_display i \<and> dash_free (di_identifier i)"
proof -
  have "dist_try_from_filename s = Some i \<longleftrightarrow>
      (\<exists>rest. dist_split_str s = Some (rest, di_archive_type i)
        \<and> archive_identifier_from_str rest = Inr (di_identifier i))"
    by (cases i) (auto simp: dist_try_from_filename_def split: option.splits sum.splits)
  then show ?thesis
    by (auto simp: dist_split_str_iff archive_identifier_from_str_iff dist_identifier_display_def)
qed

text \<open>The preference is the order of a rank: \<open>.conda\<close>, then \<open>.tar.bz2\<close>, then \<open>.whl\<close>.\<close>

fun preference_rank :: "dist_archive_type \<Rightarrow> nat" where
  "preference_rank (Dist_Conda Conda) = 2"
| "preference_rank (Dist_Conda TarBz2) = 1"
| "preference_rank (Dist_Wheel Whl) = 0"

lemma cmp_preference_rank: "cmp_preference a b = cmp_of (preference_rank a) (preference_rank b)"
  by (cases a rule: preference_rank.cases; cases b rule: preference_rank.cases)
    (simp_all add: cmp_preference_def cmp_of_def)

interpretation preference_ord: total_preorder_cmp cmp_preference
  unfolding cmp_preference_rank [abs_def] by (rule cmp_of_key)

section \<open>Properties\<close>

text \<open>
  C18. A file name parses to an identifier exactly when it is the printed form of that identifier and neither the
  version nor the build string contains a dash; the conda parser accepts exactly what the general parser accepts as
  a conda archive, and two identifiers whose versions and build strings have no dash are equal if their printed
  forms are.
\<close>

theorem archive_file_name_round_trip:
  "(dist_try_from_filename s = Some i \<longleftrightarrow> s = dist_identifier_display i \<and> dash_free (di_identifier i))
   \<and> (conda_try_from_filename s = Some c \<longleftrightarrow> dist_try_from_filename s = Some (dist_from_conda_identifier c))
   \<and> (dash_free (di_identifier i) \<and> dash_free (di_identifier j) \<and> dist_identifier_display i = dist_identifier_display j
      \<longrightarrow> i = j)"
proof (intro conjI impI)
  show "dist_try_from_filename s = Some i \<longleftrightarrow> s = dist_identifier_display i \<and> dash_free (di_identifier i)"
    by (rule dist_try_from_filename_iff)
  show "conda_try_from_filename s = Some c \<longleftrightarrow> dist_try_from_filename s = Some (dist_from_conda_identifier c)"
    by (simp add: conda_try_from_filename_iff dist_try_from_filename_iff dist_from_conda_identifier_def
        conda_identifier_display_def dist_identifier_display_def)
  assume "dash_free (di_identifier i) \<and> dash_free (di_identifier j) \<and> dist_identifier_display i = dist_identifier_display j"
  then show "i = j" using dist_try_from_filename_iff by (metis option.inject)
qed

theorem archive_file_name_round_trip_witness:
  "dash_free \<lparr>ai_name = ''ca-certs'', ai_version = ''1.0'', ai_build_string = ''h1_0''\<rparr>
   \<and> dist_try_from_filename ''ca-certs-1.0-h1_0.tar.bz2'' = Some \<lparr>di_identifier =
       \<lparr>ai_name = ''ca-certs'', ai_version = ''1.0'', ai_build_string = ''h1_0''\<rparr>, di_archive_type = Dist_Conda TarBz2\<rparr>"
proof -
  have "dash_free \<lparr>ai_name = ''ca-certs'', ai_version = ''1.0'', ai_build_string = ''h1_0''\<rparr>" by code_simp
  moreover have "dist_identifier_display \<lparr>di_identifier =
       \<lparr>ai_name = ''ca-certs'', ai_version = ''1.0'', ai_build_string = ''h1_0''\<rparr>, di_archive_type = Dist_Conda TarBz2\<rparr>
     = ''ca-certs-1.0-h1_0.tar.bz2''" by code_simp
  ultimately show ?thesis
    using archive_file_name_round_trip [of "''ca-certs-1.0-h1_0.tar.bz2''" "\<lparr>di_identifier =
       \<lparr>ai_name = ''ca-certs'', ai_version = ''1.0'', ai_build_string = ''h1_0''\<rparr>, di_archive_type = Dist_Conda TarBz2\<rparr>"]
    by simp
qed

end
