(* ===== verification/Prefix_Record.thy ===== *)
theory Prefix_Record
  imports Package_Record Archive_Identifier
begin

text \<open>
  Records of installed packages (\<open>rattler_conda_types/src/prefix_record.rs\<close>,
  \<open>repo_data_record.rs\<close>, \<open>minimal_prefix_record.rs\<close>, \<open>menuinst/mod.rs\<close>): the data
  types with all their fields, the construction of a record from the repodata, its file name, and the
  minimal record with the fields that the comparison of environments reads.
\<close>

section \<open>Installed files\<close>

datatype path_type =
    PT_HardLink | PT_SoftLink | PT_Directory | PT_PycFile | PT_WindowsPythonEntryPointScript
  | PT_WindowsPythonEntryPointExe | PT_UnixPythonEntryPoint | PT_LinkedPackageRecord

datatype package_path_type = PPT_HardLink | PPT_SoftLink | PPT_Directory

fun path_type_from_package :: "package_path_type \<Rightarrow> path_type" where
  "path_type_from_package PPT_HardLink = PT_HardLink"
| "path_type_from_package PPT_SoftLink = PT_SoftLink"
| "path_type_from_package PPT_Directory = PT_Directory"

datatype file_mode = FM_Binary | FM_Text

record paths_entry =
  pe_relative_path :: path
  pe_original_path :: "path option"
  pe_path_type :: path_type
  pe_no_link :: bool
  pe_sha256 :: "u8 list option"
  pe_sha256_in_prefix :: "u8 list option"
  pe_size_in_bytes :: "u64 option"
  pe_file_mode :: "file_mode option"
  pe_prefix_placeholder :: "string option"

definition entry_path :: "paths_entry \<Rightarrow> path" where
  "entry_path e = (case pe_original_path e of Some p \<Rightarrow> p | None \<Rightarrow> pe_relative_path e)"

record prefix_paths =
  pp_paths_version :: u64
  pp_paths :: "paths_entry list"

definition prefix_paths_default :: prefix_paths where
  "prefix_paths_default = \<lparr>pp_paths_version = 1, pp_paths = []\<rparr>"

definition prefix_paths_from :: "paths_entry list \<Rightarrow> prefix_paths" where
  "prefix_paths_from paths = prefix_paths_default\<lparr>pp_paths := paths\<rparr>"

datatype link_type = LT_HardLink | LT_SoftLink | LT_Copy | LT_Directory

record link =
  link_source :: path
  link_link_type :: "link_type option"

section \<open>Installed menu items\<close>

datatype menu_mode = MM_System | MM_User

record linux_registered_mime_file =
  lm_application :: string
  lm_database_path :: path
  lm_config_file :: path
  lm_mime_types :: "string list"

record linux_tracker =
  lt_install_mode :: menu_mode
  lt_paths :: "path list"
  lt_mime_types :: "linux_registered_mime_file option"
  lt_registered_mime_files :: "path list"

record windows_file_extension =
  wf_extension :: string
  wf_identifier :: string

record windows_url_protocol =
  wu_protocol :: string
  wu_identifier :: string

record windows_terminal_profile =
  wt_configuration_file :: path
  wt_identifier :: string

record windows_tracker =
  wi_menu_mode :: menu_mode
  wi_start_menu_subdir_path :: "path option"
  wi_shortcuts :: "path list"
  wi_file_extensions :: "windows_file_extension list"
  wi_url_protocols :: "windows_url_protocol list"
  wi_terminal_profiles :: "windows_terminal_profile list"

definition windows_tracker_new :: "menu_mode \<Rightarrow> windows_tracker" where
  "windows_tracker_new menu_mode = \<lparr>wi_menu_mode = menu_mode, wi_start_menu_subdir_path = None,
     wi_shortcuts = [], wi_file_extensions = [], wi_url_protocols = [], wi_terminal_profiles = []\<rparr>"

record mac_os_tracker =
  mo_app_folder :: path
  mo_lsregister :: "path option"

datatype tracker =
    Tracker_Linux linux_tracker | Tracker_Windows windows_tracker | Tracker_MacOs mac_os_tracker

section \<open>Records\<close>

text \<open>A url is its text.\<close>

record repo_data_record =
  rd_package_record :: package_record
  rd_identifier :: dist_archive_identifier
  rd_url :: string
  rd_channel :: "string option"

record prefix_record =
  px_repodata_record :: repo_data_record
  px_package_tarball_full_path :: "path option"
  px_extracted_package_dir :: "path option"
  px_requested_spec :: "string option"
  px_requested_specs :: "string list"
  px_files :: "path list"
  px_paths_data :: prefix_paths
  px_link :: "link option"
  px_installed_system_menus :: "tracker list"

abbreviation px_package_record :: "prefix_record \<Rightarrow> package_record" where
  "px_package_record p \<equiv> rd_package_record (px_repodata_record p)"

definition prefix_record_name :: "prefix_record \<Rightarrow> package_name" where
  "prefix_record_name p = pr_name (px_package_record p)"

definition repo_data_record_cmp :: "repo_data_record \<Rightarrow> repo_data_record \<Rightarrow> ordering" where
  "repo_data_record_cmp a b = package_record_cmp (rd_package_record a) (rd_package_record b)"

definition prefix_record_cmp :: "prefix_record \<Rightarrow> prefix_record \<Rightarrow> ordering" where
  "prefix_record_cmp a b = repo_data_record_cmp (px_repodata_record a) (px_repodata_record b)"

definition from_repodata_record :: "repo_data_record \<Rightarrow> paths_entry list \<Rightarrow> prefix_record" where
  "from_repodata_record repodata_record paths =
     \<lparr>px_repodata_record = repodata_record, px_package_tarball_full_path = None,
      px_extracted_package_dir = None, px_requested_spec = None, px_requested_specs = [],
      px_files = map pe_relative_path paths, px_paths_data = prefix_paths_from paths, px_link = None,
      px_installed_system_menus = []\<rparr>"

definition prefix_record_file_name :: "prefix_record \<Rightarrow> string" where
  "prefix_record_file_name p =
     (let r = px_package_record p
      in as_normalized (pr_name r) @ ''-'' @ vws_as_str (pr_version r) @ ''-'' @ build_str (pr_build r) @ ''.json'')"

record minimal_prefix_record =
  mp_name :: package_name
  mp_version :: version_with_source
  mp_build :: build_string
  mp_sha256 :: "u8 list option"
  mp_md5 :: "u8 list option"
  mp_size :: "u64 option"
  mp_noarch :: no_arch_type
  mp_python_site_packages_path :: "string option"
  mp_requested_spec :: "string option"
  mp_requested_specs :: "string list"

definition minimal_hashes ::
  "'a option \<Rightarrow> 'b option \<Rightarrow> 'c option \<Rightarrow> 'a option \<times> 'b option \<times> 'c option" where
  "minimal_hashes sha256 md5 size_opt =
     (if sha256 \<noteq> None then (sha256, None, None)
      else if md5 \<noteq> None then (None, md5, None)
      else (None, None, size_opt))"

definition from_prefix_record :: "prefix_record \<Rightarrow> minimal_prefix_record" where
  "from_prefix_record p =
     (let r = px_package_record p;
          (final_sha256, final_md5, final_size) = minimal_hashes (pr_sha256 r) (pr_md5 r) (pr_size r);
          final_python_site_packages_path =
            (if as_source (pr_name r) = ''python'' then pr_python_site_packages_path r else None)
      in \<lparr>mp_name = pr_name r, mp_version = pr_version r, mp_build = pr_build r, mp_sha256 = final_sha256,
          mp_md5 = final_md5, mp_size = final_size, mp_noarch = pr_noarch r,
          mp_python_site_packages_path = final_python_site_packages_path,
          mp_requested_spec = px_requested_spec p, mp_requested_specs = px_requested_specs p\<rparr>)"

definition to_package_record :: "minimal_prefix_record \<Rightarrow> package_record" where
  "to_package_record m = \<lparr>pr_arch = None, pr_attestations_sha256 = None, pr_build = mp_build m,
     pr_build_number = 0, pr_constrains = [], pr_depends = [], pr_extra_depends = [], pr_features = None,
     pr_flags = [], pr_indexed_timestamp = None, pr_legacy_bz2_md5 = None, pr_legacy_bz2_size = None,
     pr_license = None, pr_license_family = None, pr_md5 = mp_md5 m, pr_name = mp_name m,
     pr_noarch = NoArchType None, pr_platform = None, pr_purls = None, pr_python_site_packages_path = None,
     pr_run_exports = None, pr_sha256 = mp_sha256 m, pr_size = mp_size m, pr_subdir = ''noarch'',
     pr_timestamp = None, pr_track_features = [], pr_version = mp_version m\<rparr>"

section \<open>Lemmas\<close>

interpretation prefix_record_ord: total_preorder_cmp prefix_record_cmp
  unfolding prefix_record_cmp_def repo_data_record_cmp_def
  by (rule cmp_key_total_preorder [OF package_record_cmp_total_preorder])

text \<open>
  The file name splits back into its three parts at the last two dashes when the version and the build
  string have none; with a dash in the version it does not.
\<close>

lemma prefix_record_file_name_parts:
  assumes "CHR ''-'' \<notin> set (vws_as_str (pr_version (px_package_record p)))"
    and "CHR ''-'' \<notin> set (build_str (pr_build (px_package_record p)))"
  shows "\<exists>stem. strip_suffix ''.json'' (prefix_record_file_name p) = Some stem
    \<and> rsplitn 3 CHR ''-'' stem = [build_str (pr_build (px_package_record p)),
        vws_as_str (pr_version (px_package_record p)), as_normalized (pr_name (px_package_record p))]"
  using assms
  by (intro exI [of _ "as_normalized (pr_name (px_package_record p)) @ CHR ''-'' #
        vws_as_str (pr_version (px_package_record p)) @ CHR ''-'' # build_str (pr_build (px_package_record p))"])
    (simp add: prefix_record_file_name_def Let_def rsplitn_3_iff)

lemma cep26_no_dash: "cep26_build s \<Longrightarrow> CHR ''-'' \<notin> set s"
  by (auto simp: cep26_build_def build_char_ok_def is_ascii_lowercase_def is_ascii_uppercase_def is_ascii_digit_def)

definition sample_prefix_record :: "package_record \<Rightarrow> path list \<Rightarrow> prefix_record" where
  "sample_prefix_record r files = from_repodata_record
     \<lparr>rd_package_record = r,
      rd_identifier = \<lparr>di_identifier = \<lparr>ai_name = as_normalized (pr_name r), ai_version = ''1'', ai_build_string = ''0''\<rparr>,
        di_archive_type = Dist_Conda Conda\<rparr>,
      rd_url = ''https://conda.example/a.conda'', rd_channel = None\<rparr>
     (map (\<lambda>f. \<lparr>pe_relative_path = f, pe_original_path = None, pe_path_type = PT_HardLink, pe_no_link = False,
        pe_sha256 = None, pe_sha256_in_prefix = None, pe_size_in_bytes = None, pe_file_mode = None,
        pe_prefix_placeholder = None\<rparr>) files)"

end
