(* ===== verification/Subdir.thy ===== *)
theory Subdir
  imports Package_Name
begin

text \<open>
  Platform names (\<open>rattler_conda_types/src/subdir.rs\<close>): the subdirs and architectures conda
  knows, their text, parsing with the two errors, the platform families, and the choice of the subdir
  of the running binary from the build target.
\<close>

section \<open>Subdirs and architectures\<close>

datatype subdir =
    NoArch | Linux32 | Linux64 | LinuxAarch64 | LinuxArmV6l | LinuxArmV7l | LinuxLoongArch64
    | LinuxPpc64le | LinuxPpc64 | LinuxPpc | LinuxS390X | LinuxRiscv32 | LinuxRiscv64 | FreeBsd32
    | FreeBsd64 | FreeBsdArm64 | FreeBsdPpc64le | FreeBsdPpc64 | Osx64 | OsxArm64 | IosArm64
    | IosSimulatorArm64 | IosSimulator64 | AndroidAarch64 | AndroidArmV7a | Android64 | Android32 | Win32
    | Win64 | WinArm64 | EmscriptenWasm32 | EmscriptenWasm64 | WasiWasm32 | ZosZ

datatype arch =
    Arch_X86 | Arch_X86_64 | Arch_Aarch64 | Arch_Arm64 | Arch_ArmV6l | Arch_ArmV7l | Arch_ArmV7a
    | Arch_LoongArch64 | Arch_Ppc64le | Arch_Ppc64 | Arch_Ppc | Arch_S390X | Arch_Riscv32 | Arch_Riscv64
    | Arch_Wasm32 | Arch_Wasm64 | Arch_Z

definition subdir_all :: "subdir list" where
  "subdir_all = [
     NoArch, Linux32, Linux64, LinuxAarch64, LinuxArmV6l, LinuxArmV7l, LinuxLoongArch64, LinuxPpc64le,
     LinuxPpc64, LinuxPpc, LinuxS390X, LinuxRiscv32, LinuxRiscv64, FreeBsd32, FreeBsd64, FreeBsdArm64,
     FreeBsdPpc64le, FreeBsdPpc64, Osx64, OsxArm64, IosArm64, IosSimulatorArm64, IosSimulator64,
     AndroidAarch64, AndroidArmV7a, Android64, Android32, Win32, Win64, WinArm64, EmscriptenWasm32,
     EmscriptenWasm64, WasiWasm32, ZosZ]"

fun subdir_as_str :: "subdir \<Rightarrow> string" where
  "subdir_as_str NoArch = ''noarch''"
| "subdir_as_str Linux32 = ''linux-32''"
| "subdir_as_str Linux64 = ''linux-64''"
| "subdir_as_str LinuxAarch64 = ''linux-aarch64''"
| "subdir_as_str LinuxArmV6l = ''linux-armv6l''"
| "subdir_as_str LinuxArmV7l = ''linux-armv7l''"
| "subdir_as_str LinuxLoongArch64 = ''linux-loongarch64''"
| "subdir_as_str LinuxPpc64le = ''linux-ppc64le''"
| "subdir_as_str LinuxPpc64 = ''linux-ppc64''"
| "subdir_as_str LinuxPpc = ''linux-ppc''"
| "subdir_as_str LinuxS390X = ''linux-s390x''"
| "subdir_as_str LinuxRiscv32 = ''linux-riscv32''"
| "subdir_as_str LinuxRiscv64 = ''linux-riscv64''"
| "subdir_as_str FreeBsd32 = ''freebsd-32''"
| "subdir_as_str FreeBsd64 = ''freebsd-64''"
| "subdir_as_str FreeBsdArm64 = ''freebsd-arm64''"
| "subdir_as_str FreeBsdPpc64le = ''freebsd-ppc64le''"
| "subdir_as_str FreeBsdPpc64 = ''freebsd-ppc64''"
| "subdir_as_str Osx64 = ''osx-64''"
| "subdir_as_str OsxArm64 = ''osx-arm64''"
| "subdir_as_str IosArm64 = ''ios-arm64''"
| "subdir_as_str IosSimulatorArm64 = ''iossimulator-arm64''"
| "subdir_as_str IosSimulator64 = ''iossimulator-64''"
| "subdir_as_str AndroidAarch64 = ''android-aarch64''"
| "subdir_as_str AndroidArmV7a = ''android-armv7a''"
| "subdir_as_str Android64 = ''android-64''"
| "subdir_as_str Android32 = ''android-32''"
| "subdir_as_str Win32 = ''win-32''"
| "subdir_as_str Win64 = ''win-64''"
| "subdir_as_str WinArm64 = ''win-arm64''"
| "subdir_as_str EmscriptenWasm32 = ''emscripten-wasm32''"
| "subdir_as_str EmscriptenWasm64 = ''emscripten-wasm64''"
| "subdir_as_str WasiWasm32 = ''wasi-wasm32''"
| "subdir_as_str ZosZ = ''zos-z''"

fun arch_as_str :: "arch \<Rightarrow> string" where
  "arch_as_str Arch_X86 = ''x86''"
| "arch_as_str Arch_X86_64 = ''x86_64''"
| "arch_as_str Arch_Arm64 = ''arm64''"
| "arch_as_str Arch_Aarch64 = ''aarch64''"
| "arch_as_str Arch_ArmV6l = ''armv6l''"
| "arch_as_str Arch_ArmV7l = ''armv7l''"
| "arch_as_str Arch_ArmV7a = ''armv7a''"
| "arch_as_str Arch_LoongArch64 = ''loongarch64''"
| "arch_as_str Arch_Ppc64le = ''ppc64le''"
| "arch_as_str Arch_Ppc64 = ''ppc64''"
| "arch_as_str Arch_Ppc = ''ppc''"
| "arch_as_str Arch_S390X = ''s390x''"
| "arch_as_str Arch_Riscv32 = ''riscv32''"
| "arch_as_str Arch_Riscv64 = ''riscv64''"
| "arch_as_str Arch_Wasm32 = ''wasm32''"
| "arch_as_str Arch_Wasm64 = ''wasm64''"
| "arch_as_str Arch_Z = ''z''"

definition subdir_cmp :: "subdir \<Rightarrow> subdir \<Rightarrow> ordering" where
  "subdir_cmp a b = cmp_of (subdir_as_str a) (subdir_as_str b)"

section \<open>Parsing\<close>

definition MAX_SUBDIR_LEN :: nat where
  "MAX_SUBDIR_LEN = 32"

definition lowercase_alphanumeric :: "string \<Rightarrow> bool" where
  "lowercase_alphanumeric part \<longleftrightarrow> part \<noteq> [] \<and> list_all (\<lambda>b. is_ascii_lowercase b \<or> is_ascii_digit b) part"

definition is_valid_subdir_name :: "string \<Rightarrow> bool" where
  "is_valid_subdir_name s =
     (if length s > MAX_SUBDIR_LEN then False
      else if s = ''noarch'' then True
      else case split_once CHR ''-'' s of
        Some (os, arch) \<Rightarrow> lowercase_alphanumeric os \<and> lowercase_alphanumeric arch
      | None \<Rightarrow> False)"

datatype parse_subdir_error = InvalidName string | UnknownSubdir string

datatype parse_arch_error = ParseArchError string

text \<open>The literal patterns of the match, in order.\<close>

definition subdir_patterns :: "(string \<times> subdir) list" where
  "subdir_patterns = [
     (''noarch'', NoArch), (''linux-32'', Linux32), (''linux-64'', Linux64),
     (''linux-aarch64'', LinuxAarch64), (''linux-armv6l'', LinuxArmV6l), (''linux-armv7l'', LinuxArmV7l),
     (''linux-loongarch64'', LinuxLoongArch64), (''linux-ppc64le'', LinuxPpc64le),
     (''linux-ppc64'', LinuxPpc64), (''linux-ppc'', LinuxPpc), (''linux-s390x'', LinuxS390X),
     (''linux-riscv32'', LinuxRiscv32), (''linux-riscv64'', LinuxRiscv64), (''freebsd-32'', FreeBsd32),
     (''freebsd-64'', FreeBsd64), (''freebsd-arm64'', FreeBsdArm64),
     (''freebsd-ppc64le'', FreeBsdPpc64le), (''freebsd-ppc64'', FreeBsdPpc64), (''osx-64'', Osx64),
     (''osx-arm64'', OsxArm64), (''ios-arm64'', IosArm64), (''iossimulator-arm64'', IosSimulatorArm64),
     (''iossimulator-64'', IosSimulator64), (''android-aarch64'', AndroidAarch64),
     (''android-armv7a'', AndroidArmV7a), (''android-64'', Android64), (''android-32'', Android32),
     (''win-32'', Win32), (''win-64'', Win64), (''win-arm64'', WinArm64),
     (''emscripten-wasm32'', EmscriptenWasm32), (''emscripten-wasm64'', EmscriptenWasm64),
     (''wasi-wasm32'', WasiWasm32), (''zos-z'', ZosZ)]"

definition subdir_from_str :: "string \<Rightarrow> parse_subdir_error + subdir" where
  "subdir_from_str s = (case map_of subdir_patterns s of
     Some subdir \<Rightarrow> Inr subdir
   | None \<Rightarrow> (if is_valid_subdir_name s then Inl (UnknownSubdir s) else Inl (InvalidName s)))"

definition arch_patterns :: "(string \<times> arch) list" where
  "arch_patterns = [
     (''x86'', Arch_X86), (''x86_64'', Arch_X86_64), (''aarch64'', Arch_Aarch64), (''arm64'', Arch_Arm64),
     (''armv6l'', Arch_ArmV6l), (''armv7l'', Arch_ArmV7l), (''armv7a'', Arch_ArmV7a),
     (''loongarch64'', Arch_LoongArch64), (''ppc64le'', Arch_Ppc64le), (''ppc64'', Arch_Ppc64),
     (''ppc'', Arch_Ppc), (''s390x'', Arch_S390X), (''riscv32'', Arch_Riscv32),
     (''riscv64'', Arch_Riscv64), (''wasm32'', Arch_Wasm32), (''wasm64'', Arch_Wasm64), (''z'', Arch_Z)]"

definition arch_from_str :: "string \<Rightarrow> parse_arch_error + arch" where
  "arch_from_str s = (case map_of arch_patterns s of Some arch \<Rightarrow> Inr arch | None \<Rightarrow> Inl (ParseArchError s))"

section \<open>Families\<close>

definition is_windows :: "subdir \<Rightarrow> bool" where
  "is_windows s \<longleftrightarrow> s \<in> set [
     Win32, Win64, WinArm64]"

definition is_linux :: "subdir \<Rightarrow> bool" where
  "is_linux s \<longleftrightarrow> s \<in> set [
     Linux32, Linux64, LinuxAarch64, LinuxArmV6l, LinuxArmV7l, LinuxLoongArch64, LinuxPpc64le, LinuxPpc64,
     LinuxPpc, LinuxS390X, LinuxRiscv32, LinuxRiscv64]"

definition is_osx :: "subdir \<Rightarrow> bool" where
  "is_osx s \<longleftrightarrow> s \<in> set [
     Osx64, OsxArm64]"

definition is_ios :: "subdir \<Rightarrow> bool" where
  "is_ios s \<longleftrightarrow> s \<in> set [
     IosArm64, IosSimulatorArm64, IosSimulator64]"

definition is_android :: "subdir \<Rightarrow> bool" where
  "is_android s \<longleftrightarrow> s \<in> set [
     AndroidAarch64, AndroidArmV7a, Android64, Android32]"

definition is_unix :: "subdir \<Rightarrow> bool" where
  "is_unix s \<longleftrightarrow> is_linux s \<or> is_osx s \<or> is_ios s \<or> is_android s \<or> s \<in> set [
     EmscriptenWasm32, EmscriptenWasm64, FreeBsd32, FreeBsd64, FreeBsdArm64, FreeBsdPpc64le, FreeBsdPpc64]"

fun only_platform :: "subdir \<Rightarrow> string option" where
  "only_platform NoArch = None"
| "only_platform Linux32 = Some ''linux''"
| "only_platform Linux64 = Some ''linux''"
| "only_platform LinuxAarch64 = Some ''linux''"
| "only_platform LinuxArmV6l = Some ''linux''"
| "only_platform LinuxArmV7l = Some ''linux''"
| "only_platform LinuxLoongArch64 = Some ''linux''"
| "only_platform LinuxPpc64le = Some ''linux''"
| "only_platform LinuxPpc64 = Some ''linux''"
| "only_platform LinuxPpc = Some ''linux''"
| "only_platform LinuxS390X = Some ''linux''"
| "only_platform LinuxRiscv32 = Some ''linux''"
| "only_platform LinuxRiscv64 = Some ''linux''"
| "only_platform FreeBsd32 = Some ''freebsd''"
| "only_platform FreeBsd64 = Some ''freebsd''"
| "only_platform FreeBsdArm64 = Some ''freebsd''"
| "only_platform FreeBsdPpc64le = Some ''freebsd''"
| "only_platform FreeBsdPpc64 = Some ''freebsd''"
| "only_platform Osx64 = Some ''osx''"
| "only_platform OsxArm64 = Some ''osx''"
| "only_platform IosArm64 = Some ''ios''"
| "only_platform IosSimulatorArm64 = Some ''iossimulator''"
| "only_platform IosSimulator64 = Some ''iossimulator''"
| "only_platform AndroidAarch64 = Some ''android''"
| "only_platform AndroidArmV7a = Some ''android''"
| "only_platform Android64 = Some ''android''"
| "only_platform Android32 = Some ''android''"
| "only_platform Win32 = Some ''win''"
| "only_platform Win64 = Some ''win''"
| "only_platform WinArm64 = Some ''win''"
| "only_platform EmscriptenWasm32 = Some ''emscripten''"
| "only_platform EmscriptenWasm64 = Some ''emscripten''"
| "only_platform WasiWasm32 = Some ''wasi''"
| "only_platform ZosZ = Some ''zos''"

fun subdir_arch :: "subdir \<Rightarrow> arch option" where
  "subdir_arch NoArch = None"
| "subdir_arch LinuxArmV6l = Some Arch_ArmV6l"
| "subdir_arch LinuxArmV7l = Some Arch_ArmV7l"
| "subdir_arch LinuxLoongArch64 = Some Arch_LoongArch64"
| "subdir_arch LinuxPpc64le = Some Arch_Ppc64le"
| "subdir_arch FreeBsdPpc64le = Some Arch_Ppc64le"
| "subdir_arch LinuxPpc64 = Some Arch_Ppc64"
| "subdir_arch FreeBsdPpc64 = Some Arch_Ppc64"
| "subdir_arch LinuxPpc = Some Arch_Ppc"
| "subdir_arch LinuxS390X = Some Arch_S390X"
| "subdir_arch LinuxRiscv32 = Some Arch_Riscv32"
| "subdir_arch LinuxRiscv64 = Some Arch_Riscv64"
| "subdir_arch Linux32 = Some Arch_X86"
| "subdir_arch Win32 = Some Arch_X86"
| "subdir_arch FreeBsd32 = Some Arch_X86"
| "subdir_arch Android32 = Some Arch_X86"
| "subdir_arch Linux64 = Some Arch_X86_64"
| "subdir_arch Win64 = Some Arch_X86_64"
| "subdir_arch Osx64 = Some Arch_X86_64"
| "subdir_arch FreeBsd64 = Some Arch_X86_64"
| "subdir_arch IosSimulator64 = Some Arch_X86_64"
| "subdir_arch Android64 = Some Arch_X86_64"
| "subdir_arch LinuxAarch64 = Some Arch_Aarch64"
| "subdir_arch AndroidAarch64 = Some Arch_Aarch64"
| "subdir_arch WinArm64 = Some Arch_Arm64"
| "subdir_arch OsxArm64 = Some Arch_Arm64"
| "subdir_arch FreeBsdArm64 = Some Arch_Arm64"
| "subdir_arch IosArm64 = Some Arch_Arm64"
| "subdir_arch IosSimulatorArm64 = Some Arch_Arm64"
| "subdir_arch AndroidArmV7a = Some Arch_ArmV7a"
| "subdir_arch EmscriptenWasm32 = Some Arch_Wasm32"
| "subdir_arch WasiWasm32 = Some Arch_Wasm32"
| "subdir_arch EmscriptenWasm64 = Some Arch_Wasm64"
| "subdir_arch ZosZ = Some Arch_Z"

section \<open>The build target\<close>

text \<open>
  The \<open>cfg\<close> options \<open>Subdir::current\<close> reads. A combination that has no return value, or for
  which the source has \<open>compile_error!\<close>, does not compile.
\<close>

record build_target =
  target_os :: string
  target_arch :: string
  target_abi :: string
  little_endian :: bool
  feature_v7 :: bool

datatype 'a compiled = Compile_Error | Compiled 'a

definition first_cfg :: "(bool \<times> 'a) list \<Rightarrow> 'a compiled" where
  "first_cfg rows = (case find fst rows of Some (_, x) \<Rightarrow> Compiled x | None \<Rightarrow> Compile_Error)"

definition linux_current :: "build_target \<Rightarrow> subdir option compiled" where
  "linux_current t = first_cfg [
     (target_arch t = ''x86'', Some Linux32),
     (target_arch t = ''x86_64'', Some Linux64),
     (target_arch t = ''aarch64'', Some LinuxAarch64),
     (target_arch t = ''arm'' \<and> feature_v7 t, Some LinuxArmV7l),
     (target_arch t = ''arm'' \<and> \<not> feature_v7 t, Some LinuxArmV6l),
     (target_arch t = ''loongarch64'', Some LinuxLoongArch64),
     (target_arch t = ''powerpc64'' \<and> little_endian t, Some LinuxPpc64le),
     (target_arch t = ''powerpc64'' \<and> \<not> little_endian t, Some LinuxPpc64),
     (target_arch t = ''powerpc'', Some LinuxPpc),
     (target_arch t = ''s390x'', Some LinuxS390X),
     (target_arch t = ''riscv32'', Some LinuxRiscv32),
     (target_arch t = ''riscv64'', Some LinuxRiscv64)]"

definition freebsd_current :: "build_target \<Rightarrow> subdir option compiled" where
  "freebsd_current t = first_cfg [
     (target_arch t = ''x86'', Some FreeBsd32),
     (target_arch t = ''x86_64'', Some FreeBsd64),
     (target_arch t = ''aarch64'', Some FreeBsdArm64),
     (target_arch t = ''powerpc64'' \<and> little_endian t, Some FreeBsdPpc64le),
     (target_arch t = ''powerpc64'' \<and> \<not> little_endian t, Some FreeBsdPpc64)]"

definition ios_current :: "build_target \<Rightarrow> subdir option compiled" where
  "ios_current t =
     (if target_arch t \<noteq> ''aarch64'' \<and> target_arch t \<noteq> ''x86_64'' then Compile_Error
      else first_cfg [
        (target_abi t = ''macabi'', None),
        (target_arch t = ''aarch64'' \<and> target_abi t = ''sim'', Some IosSimulatorArm64),
        (target_arch t = ''aarch64'' \<and> \<not> (target_abi t = ''sim'' \<or> target_abi t = ''macabi''), Some IosArm64),
        (target_arch t = ''x86_64'' \<and> target_abi t \<noteq> ''macabi'', Some IosSimulator64)])"

definition android_current :: "build_target \<Rightarrow> subdir option compiled" where
  "android_current t = first_cfg [
     (target_arch t = ''aarch64'', Some AndroidAarch64),
     (target_arch t = ''arm'', Some AndroidArmV7a),
     (target_arch t = ''x86'', Some Android32),
     (target_arch t = ''x86_64'', Some Android64)]"

definition subdir_current :: "build_target \<Rightarrow> subdir option compiled" where
  "subdir_current t =
     (if target_os t = ''linux'' then linux_current t
      else if target_os t = ''freebsd'' then freebsd_current t
      else if target_os t = ''windows'' then first_cfg [
        (target_arch t = ''x86'', Some Win32),
        (target_arch t = ''x86_64'', Some Win64),
        (target_arch t = ''aarch64'', Some WinArm64)]
      else if target_os t = ''macos'' then first_cfg [
        (target_arch t = ''x86_64'', Some Osx64),
        (target_arch t = ''aarch64'', Some OsxArm64)]
      else if target_os t = ''ios'' then ios_current t
      else if target_os t = ''android'' then android_current t
      else if target_os t = ''emscripten'' then first_cfg [
        (target_arch t = ''wasm32'', Some EmscriptenWasm32),
        (target_arch t = ''wasm64'', Some EmscriptenWasm64)]
      else if target_os t = ''wasi'' then first_cfg [(target_arch t = ''wasm32'', Some WasiWasm32)]
      else Compiled None)"

definition arch_current :: "build_target \<Rightarrow> arch option compiled" where
  "arch_current t = (case subdir_current t of
     Compile_Error \<Rightarrow> Compile_Error
   | Compiled s \<Rightarrow> Compiled (Option.bind s subdir_arch))"

section \<open>Lemmas\<close>

lemma subdir_all_complete: "s \<in> set subdir_all" "distinct subdir_all"
  by (cases s) (simp_all add: subdir_all_def)

lemma distinct_subdir_patterns: "distinct (map fst subdir_patterns)"
  by code_simp

lemma map_of_subdir_as_str: "map_of subdir_patterns (subdir_as_str s) = Some s"
proof -
  have "list_all (\<lambda>s. map_of subdir_patterns (subdir_as_str s) = Some s) subdir_all" by code_simp
  then show ?thesis using subdir_all_complete(1) by (simp add: list_all_iff)
qed

lemma subdir_patterns_as_str: "\<forall>(text, s) \<in> set subdir_patterns. subdir_as_str s = text"
  by code_simp

lemma map_of_subdir_patterns_iff: "map_of subdir_patterns text = Some s \<longleftrightarrow> text = subdir_as_str s"
  using map_of_subdir_as_str subdir_patterns_as_str by (fastforce dest: map_of_SomeD)

lemma subdir_from_str_iff: "subdir_from_str text = Inr s \<longleftrightarrow> text = subdir_as_str s"
proof -
  have "subdir_from_str text = Inr s \<longleftrightarrow> map_of subdir_patterns text = Some s"
    by (simp add: subdir_from_str_def split: option.splits)
  then show ?thesis by (simp add: map_of_subdir_patterns_iff)
qed

lemma map_of_arch_as_str: "map_of arch_patterns (arch_as_str a) = Some a"
  by (cases a) (simp_all add: arch_patterns_def)

lemma arch_patterns_as_str: "\<forall>(text, a) \<in> set arch_patterns. arch_as_str a = text"
  by code_simp

lemma arch_from_str_iff: "arch_from_str text = Inr a \<longleftrightarrow> text = arch_as_str a"
  using map_of_arch_as_str arch_patterns_as_str
  by (fastforce simp: arch_from_str_def dest: map_of_SomeD split: option.splits)

lemma subdir_as_str_inj: "subdir_as_str a = subdir_as_str b \<longleftrightarrow> a = b"
  using map_of_subdir_as_str by (metis option.inject)

lemma known_subdir_valid: "is_valid_subdir_name (subdir_as_str s)"
proof -
  have "list_all (\<lambda>s. is_valid_subdir_name (subdir_as_str s)) subdir_all" by code_simp
  then show ?thesis using subdir_all_complete(1) by (simp add: list_all_iff)
qed

text \<open>The part of the text after the platform: the architecture, with \<open>32\<close> and \<open>64\<close> for Intel.\<close>

definition arch_suffix :: "arch \<Rightarrow> string" where
  "arch_suffix a = (case a of Arch_X86 \<Rightarrow> ''32'' | Arch_X86_64 \<Rightarrow> ''64'' | _ \<Rightarrow> arch_as_str a)"

lemma subdir_text_parts:
  "(case (only_platform s, subdir_arch s) of
      (Some os, Some a) \<Rightarrow> subdir_as_str s = os @ ''-'' @ arch_suffix a
    | (None, None) \<Rightarrow> s = NoArch
    | _ \<Rightarrow> False)"
  by (cases s) (simp_all add: arch_suffix_def)

lemma subdir_families:
  "is_windows s \<longleftrightarrow> only_platform s = Some ''win''"
  "is_linux s \<longleftrightarrow> only_platform s = Some ''linux''"
  "is_osx s \<longleftrightarrow> only_platform s = Some ''osx''"
  "is_android s \<longleftrightarrow> only_platform s = Some ''android''"
  "is_ios s \<longleftrightarrow> only_platform s \<in> {Some ''ios'', Some ''iossimulator''}"
  by (cases s; simp add: is_windows_def is_linux_def is_osx_def is_android_def is_ios_def)+

lemma windows_not_unix: "is_windows s \<Longrightarrow> \<not> is_unix s"
  by (cases s) (simp_all add: is_windows_def is_unix_def is_linux_def is_osx_def is_ios_def is_android_def)

lemma subdir_cmp_Equal: "subdir_cmp s t = Ord_Equal \<longleftrightarrow> s = t"
  by (simp add: subdir_cmp_def cmp_of_eq_iff subdir_as_str_inj)

interpretation subdir_ord: total_preorder_cmp subdir_cmp
  unfolding subdir_cmp_def by (rule cmp_of_key)

text \<open>The subdir of a binary is one of the operating system it was built for.\<close>

lemma first_cfg_Compiled: "first_cfg rows = Compiled x \<Longrightarrow> (True, x) \<in> set rows"
  by (induction rows) (auto simp: first_cfg_def split: if_splits)

lemma subdir_current_family:
  assumes "subdir_current t = Compiled (Some s)"
  shows "target_os t = ''windows'' \<longleftrightarrow> is_windows s" "target_os t = ''linux'' \<longleftrightarrow> is_linux s"
    "target_os t = ''macos'' \<longleftrightarrow> is_osx s" "target_os t = ''ios'' \<longleftrightarrow> is_ios s"
    "target_os t = ''android'' \<longleftrightarrow> is_android s"
  using assms
  by (auto simp: subdir_current_def linux_current_def freebsd_current_def ios_current_def android_current_def
      subdir_families split: if_splits dest!: first_cfg_Compiled)

section \<open>Properties\<close>

text \<open>
  Parsing a subdir succeeds exactly on the text of a known subdir and gives that subdir back; any
  other text is reported as an unknown subdir when it is a valid name of at most 32 characters and as an
  invalid name otherwise. The text is the platform and the architecture joined by a dash, with
  \<open>32\<close> and \<open>64\<close> for the Intel architectures, and \<open>noarch\<close> has neither. Two subdirs compare as
  equal only when they are the same.
\<close>

theorem subdir_text_round_trip:
  "(subdir_from_str text = Inr s \<longleftrightarrow> text = subdir_as_str s)
   \<and> ((\<forall>s. text \<noteq> subdir_as_str s) \<longleftrightarrow>
       subdir_from_str text = Inl (if is_valid_subdir_name text then UnknownSubdir text else InvalidName text))
   \<and> is_valid_subdir_name (subdir_as_str s)
   \<and> (case (only_platform s, subdir_arch s) of
        (Some os, Some a) \<Rightarrow> subdir_as_str s = os @ ''-'' @ arch_suffix a
      | (None, None) \<Rightarrow> s = NoArch
      | _ \<Rightarrow> False)
   \<and> (subdir_cmp s t = Ord_Equal \<longleftrightarrow> s = t)"
proof (intro conjI)
  show "(\<forall>s. text \<noteq> subdir_as_str s) \<longleftrightarrow>
      subdir_from_str text = Inl (if is_valid_subdir_name text then UnknownSubdir text else InvalidName text)"
    by (cases "map_of subdir_patterns text")
      (auto simp: subdir_from_str_def map_of_subdir_as_str dest: map_of_subdir_patterns_iff [THEN iffD1])
qed (rule subdir_from_str_iff known_subdir_valid subdir_text_parts subdir_cmp_Equal)+

end
