(* ===== verification/Python_Info.thy ===== *)
theory Python_Info
  imports Prefix_Record Subdir
begin

text \<open>
  The python interpreter of an environment (\<open>rattler/src/install/python.rs\<close>): where it and its
  packages live, where the files of a noarch python package go, the shebang of its scripts, and when
  noarch packages have to be linked again. Paths that are only printed are text; paths that are joined
  are lists of components.
\<close>

section \<open>Definitions\<close>

record python_info =
  pi_platform :: subdir
  pi_short_version :: "u64 \<times> u64"
  pi_path :: string
  pi_site_packages_path :: string
  pi_bin_dir :: string

datatype python_info_error = InvalidVersion string

definition show_major_minor :: "u64 \<Rightarrow> u64 \<Rightarrow> string" where
  "show_major_minor major minor = show_nat (unat major) @ ''.'' @ show_nat (unat minor)"

definition python_info_from_version ::
  "version \<Rightarrow> string option \<Rightarrow> subdir \<Rightarrow> python_info_error + python_info" where
  "python_info_from_version version site_packages_path platform = (case as_major_minor version of
     None \<Rightarrow> Inl (InvalidVersion (version_display version))
   | Some (major, minor) \<Rightarrow>
       Inr \<lparr>pi_platform = platform, pi_short_version = (major, minor),
         pi_path = (if is_windows platform then ''python.exe'' else ''bin/python'' @ show_major_minor major minor),
         pi_site_packages_path = (case site_packages_path of
             Some p \<Rightarrow> p
           | None \<Rightarrow> (if is_windows platform then ''Lib/site-packages''
                      else ''lib/python'' @ show_major_minor major minor @ ''/site-packages'')),
         pi_bin_dir = (if is_windows platform then ''Scripts'' else ''bin'')\<rparr>)"

definition from_python_record :: "package_record \<Rightarrow> subdir \<Rightarrow> python_info_error + python_info" where
  "from_python_record r platform =
     python_info_from_version (vws_version (pr_version r)) (pr_python_site_packages_path r) platform"

text \<open>\<open>Path::join\<close> on the text of two paths: an absolute second path replaces the first.\<close>

definition join_text :: "string \<Rightarrow> string \<Rightarrow> string" where
  "join_text p q = (if q \<noteq> [] \<and> hd q = CHR ''/'' then q
     else if p = [] \<or> last p = CHR ''/'' then p @ q
     else p @ ''/'' @ q)"

definition shebang :: "python_info \<Rightarrow> string \<Rightarrow> string" where
  "shebang p target_prefix =
     (let target_path = map (\<lambda>c. if c = CHR 0x5C then CHR ''/'' else c) (join_text target_prefix (pi_path p))
      in if length target_path > 127 - 2 \<or> CHR '' '' \<in> set target_path
         then ''#!/bin/sh'' @ [CHR 0x0A, CHR 0x27, CHR 0x27, CHR 0x27] @ ''exec'' @ [CHR 0x27, CHR '' '', CHR 0x22]
           @ target_path @ [CHR 0x22, CHR '' '', CHR 0x22] @ ''$0'' @ [CHR 0x22, CHR '' '', CHR 0x22]
           @ ''$@'' @ [CHR 0x22] @ '' #'' @ [CHR 0x27, CHR 0x27, CHR 0x27]
         else ''#!'' @ target_path)"

definition get_python_noarch_target_path :: "python_info \<Rightarrow> path \<Rightarrow> path" where
  "get_python_noarch_target_path p relative_path = (case strip_prefix [''site-packages''] relative_path of
     Some rest \<Rightarrow> join_path (path_components (pi_site_packages_path p)) rest
   | None \<Rightarrow> (case strip_prefix [''python-scripts''] relative_path of
       Some rest \<Rightarrow> join_path (path_components (pi_bin_dir p)) rest
     | None \<Rightarrow> relative_path))"

definition is_relink_required :: "python_info \<Rightarrow> python_info \<Rightarrow> bool" where
  "is_relink_required p previous \<longleftrightarrow>
     fst (pi_short_version p) \<noteq> fst (pi_short_version previous)
     \<or> snd (pi_short_version p) \<noteq> snd (pi_short_version previous)"

section \<open>Lemmas\<close>

lemma is_relink_required_iff: "is_relink_required p q \<longleftrightarrow> pi_short_version p \<noteq> pi_short_version q"
  by (auto simp: is_relink_required_def prod_eq_iff)

lemma noarch_target_path:
  assumes "plain_path rest"
  shows "get_python_noarch_target_path p (''site-packages'' # rest) = path_components (pi_site_packages_path p) @ rest"
    "get_python_noarch_target_path p (''python-scripts'' # rest) = path_components (pi_bin_dir p) @ rest"
  using assms by (simp_all add: get_python_noarch_target_path_def)

lemma noarch_target_path_other:
  "f \<noteq> [] \<Longrightarrow> hd f \<noteq> ''site-packages'' \<Longrightarrow> hd f \<noteq> ''python-scripts'' \<Longrightarrow> get_python_noarch_target_path p f = f"
  by (cases f) (simp_all add: get_python_noarch_target_path_def)

text \<open>
  The first line of a shebang fits the 127 characters a kernel reads and has no space in the path to
  the interpreter: it names \<open>/bin/sh\<close> when the path to python does not qualify.
\<close>

lemma shebang_first_line:
  "length (takeWhile (\<lambda>c. c \<noteq> CHR 0x0A) (shebang p target_prefix)) \<le> 127"
  "CHR '' '' \<notin> set (takeWhile (\<lambda>c. c \<noteq> CHR 0x0A) (shebang p target_prefix))"
  "take 2 (shebang p target_prefix) = ''#!''"
proof -
  let ?t = "map (\<lambda>c. if c = CHR 0x5C then CHR ''/'' else c) (join_text target_prefix (pi_path p))"
  have first: "takeWhile (\<lambda>c. c \<noteq> CHR 0x0A) (shebang p target_prefix) =
      (if length ?t > 125 \<or> CHR '' '' \<in> set ?t then ''#!/bin/sh'' else ''#!'' @ takeWhile (\<lambda>c. c \<noteq> CHR 0x0A) ?t)"
    by (simp add: shebang_def Let_def)
  show "length (takeWhile (\<lambda>c. c \<noteq> CHR 0x0A) (shebang p target_prefix)) \<le> 127"
    using length_takeWhile_le [of "\<lambda>c. c \<noteq> CHR 0x0A" ?t] by (simp add: first del: length_map)
  show "CHR '' '' \<notin> set (takeWhile (\<lambda>c. c \<noteq> CHR 0x0A) (shebang p target_prefix))"
    unfolding first using set_takeWhileD [of "CHR '' ''" "\<lambda>c. c \<noteq> CHR 0x0A" ?t] by (auto simp del: set_map)
  show "take 2 (shebang p target_prefix) = ''#!''" by (simp add: shebang_def Let_def)
qed

end
