(* ===== verification/Transaction.thy ===== *)
theory Transaction
  imports Python_Info "HOL-Library.AList" "HOL-Library.Multiset"
begin

text \<open>
  The computation of what to change in an environment (\<open>rattler/src/install/transaction.rs\<close> and
  \<open>installer/result_record.rs\<close>). The trait \<open>ContentComparable\<close> is a record of its methods'
  results, one per record type; a generic function takes the conversion of its record types to it. A
  \<open>HashMap\<close> keyed by package names is an association list keyed by their normalized text, which is
  what equality and hash of names use; a \<open>HashSet\<close> of names is a set. Reading a full record from disk
  is a parameter.
\<close>

section \<open>Comparable content\<close>

record content =
  cc_name :: package_name
  cc_version :: version_with_source
  cc_build :: build_string
  cc_sha256 :: "u8 list option"
  cc_md5 :: "u8 list option"
  cc_size :: "u64 option"
  cc_noarch :: no_arch_type
  cc_python_site_packages_path :: "string option"

definition package_record_content :: "package_record \<Rightarrow> content" where
  "package_record_content r = \<lparr>cc_name = pr_name r, cc_version = pr_version r, cc_build = pr_build r,
     cc_sha256 = pr_sha256 r, cc_md5 = pr_md5 r, cc_size = pr_size r, cc_noarch = pr_noarch r,
     cc_python_site_packages_path = pr_python_site_packages_path r\<rparr>"

definition minimal_content :: "minimal_prefix_record \<Rightarrow> content" where
  "minimal_content m = \<lparr>cc_name = mp_name m, cc_version = mp_version m, cc_build = mp_build m,
     cc_sha256 = mp_sha256 m, cc_md5 = mp_md5 m, cc_size = mp_size m, cc_noarch = mp_noarch m,
     cc_python_site_packages_path = mp_python_site_packages_path m\<rparr>"

definition prefix_record_content :: "prefix_record \<Rightarrow> content" where
  "prefix_record_content p = package_record_content (px_package_record p)"

definition repo_data_record_content :: "repo_data_record \<Rightarrow> content" where
  "repo_data_record_content r = package_record_content (rd_package_record r)"

datatype installation_result_record = Max prefix_record | Min minimal_prefix_record

fun installation_result_content :: "installation_result_record \<Rightarrow> content" where
  "installation_result_content (Max prefix_record) = prefix_record_content prefix_record"
| "installation_result_content (Min minimal_prefix_record) = minimal_content minimal_prefix_record"

text \<open>\<open>PrefixRecord::from_path\<close> reads and parses a file: the parameter \<open>from_path\<close>.\<close>

fun result_into_prefix_record ::
  "(path \<Rightarrow> 'e + prefix_record) \<Rightarrow> path \<Rightarrow> installation_result_record \<Rightarrow> 'e + prefix_record" where
  "result_into_prefix_record from_path target_prefix (Max prefix_record) = Inr prefix_record"
| "result_into_prefix_record from_path target_prefix (Min m) =
     from_path (join_path (join_path target_prefix [''conda-meta''])
       [as_normalized (mp_name m) @ ''-'' @ vws_as_str (mp_version m) @ ''-'' @ build_str (mp_build m) @ ''.json''])"

fun result_requested_spec :: "installation_result_record \<Rightarrow> string option" where
  "result_requested_spec (Max p) = px_requested_spec p"
| "result_requested_spec (Min m) = mp_requested_spec m"

fun result_requested_specs :: "installation_result_record \<Rightarrow> string list" where
  "result_requested_specs (Max p) = px_requested_specs p"
| "result_requested_specs (Min m) = mp_requested_specs m"

definition describe_same_content :: "content \<Rightarrow> content \<Rightarrow> bool" where
  "describe_same_content from to =
     (if (cc_sha256 from \<noteq> None) \<noteq> (cc_sha256 to \<noteq> None) then False
      else case (cc_sha256 from, cc_sha256 to) of
        (Some a, Some b) \<Rightarrow> a = b
      | _ \<Rightarrow>
        (if (cc_md5 from \<noteq> None) \<noteq> (cc_md5 to \<noteq> None) then False
         else case (cc_md5 from, cc_md5 to) of
           (Some a, Some b) \<Rightarrow> a = b
         | _ \<Rightarrow>
           (if (case (cc_size from, cc_size to) of (Some a, Some b) \<Rightarrow> a \<noteq> b | _ \<Rightarrow> False) then False
            else package_name_eq (cc_name from) (cc_name to) \<and> vws_eq (cc_version from) (cc_version to)
              \<and> cc_build from = cc_build to)))"

section \<open>Transactions\<close>

datatype ('o, 'n) transaction_operation =
    Install 'n
  | Change (change_old: 'o) (change_new: 'n)
  | Reinstall (reinstall_old: 'o) (reinstall_new: 'n)
  | Remove 'o

fun record_to_install :: "('o, 'n) transaction_operation \<Rightarrow> 'n option" where
  "record_to_install (Install new) = Some new"
| "record_to_install (Change old new) = Some new"
| "record_to_install (Reinstall old new) = Some new"
| "record_to_install (Remove _) = None"

fun record_to_remove :: "('o, 'n) transaction_operation \<Rightarrow> 'o option" where
  "record_to_remove (Install _) = None"
| "record_to_remove (Change old new) = Some old"
| "record_to_remove (Reinstall old new) = Some old"
| "record_to_remove (Remove old) = Some old"

record ('o, 'n) transaction =
  tx_operations :: "('o, 'n) transaction_operation list"
  tx_python_info :: "python_info option"
  tx_current_python_info :: "python_info option"
  tx_platform :: subdir
  tx_unchanged :: "'o list"

definition removed_packages :: "('o, 'n) transaction \<Rightarrow> 'o list" where
  "removed_packages t = List.map_filter record_to_remove (tx_operations t)"

definition installed_packages :: "('o, 'n) transaction \<Rightarrow> 'n list" where
  "installed_packages t = List.map_filter record_to_install (tx_operations t)"

definition packages_to_uninstall :: "('o, 'n) transaction \<Rightarrow> nat" where
  "packages_to_uninstall t = length (removed_packages t)"

definition packages_to_install :: "('o, 'n) transaction \<Rightarrow> nat" where
  "packages_to_install t = length (installed_packages t)"

definition find_python_info :: "content list \<Rightarrow> subdir \<Rightarrow> python_info_error + python_info option" where
  "find_python_info records platform = (case find (\<lambda>r. as_normalized (cc_name r) = ''python'') records of
     None \<Rightarrow> Inr None
   | Some r \<Rightarrow> (case python_info_from_version (vws_version (cc_version r)) (cc_python_site_packages_path r) platform of
       Inl e \<Rightarrow> Inl e
     | Inr info \<Rightarrow> Inr (Some info)))"

datatype transaction_error = Transaction_PythonInfoError python_info_error | Transaction_Cancelled

definition name_of :: "content \<Rightarrow> string" where
  "name_of c = as_normalized (cc_name c)"

definition hashset_contains :: "package_name set option \<Rightarrow> string \<Rightarrow> bool" where
  "hashset_contains s name = (case s of None \<Rightarrow> False | Some names \<Rightarrow> name \<in> as_normalized ` names)"

text \<open>The two loops: over the current packages, and over the desired ones.\<close>

definition current_step ::
  "('o \<Rightarrow> content) \<Rightarrow> string set \<Rightarrow> package_name set option \<Rightarrow> 'o
   \<Rightarrow> ('o, 'n) transaction_operation list \<times> 'o list \<times> (string \<times> 'o) list
   \<Rightarrow> ('o, 'n) transaction_operation list \<times> 'o list \<times> (string \<times> 'o) list" where
  "current_step vo desired_names ignored r st =
     (let (operations, unchanged, current_map) = st; package_name = name_of (vo r)
      in if package_name \<in> desired_names then (operations, unchanged, AList.update package_name r current_map)
         else if hashset_contains ignored package_name then (operations, unchanged @ [r], current_map)
         else (operations @ [Remove r], unchanged, current_map))"

definition desired_step ::
  "('o \<Rightarrow> content) \<Rightarrow> ('n \<Rightarrow> content) \<Rightarrow> bool \<Rightarrow> package_name set option \<Rightarrow> package_name set option \<Rightarrow> 'n
   \<Rightarrow> ('o, 'n) transaction_operation list \<times> 'o list \<times> (string \<times> 'o) list
   \<Rightarrow> ('o, 'n) transaction_operation list \<times> 'o list \<times> (string \<times> 'o) list" where
  "desired_step vo vn needs_python_relink reinstall ignored r st =
     (let (operations, unchanged, current_map) = st;
          name = name_of (vn r);
          old_record = map_of current_map name;
          current_map = AList.delete name current_map
      in if hashset_contains ignored name
         then (operations, (case old_record of Some old \<Rightarrow> unchanged @ [old] | None \<Rightarrow> unchanged), current_map)
         else case old_record of
           Some old \<Rightarrow>
             (if \<not> describe_same_content (vn r) (vo old) \<or> hashset_contains reinstall name
              then (operations @ [Change old r], unchanged, current_map)
              else if needs_python_relink \<and> no_arch_is_python (cc_noarch (vo old))
              then (operations @ [Reinstall old r], unchanged, current_map)
              else (operations, unchanged @ [old], current_map))
         | None \<Rightarrow> (operations @ [Install r], unchanged, current_map))"

definition from_current_and_desired ::
  "('o \<Rightarrow> content) \<Rightarrow> ('n \<Rightarrow> content) \<Rightarrow> 'o list \<Rightarrow> 'n list \<Rightarrow> package_name set option \<Rightarrow> package_name set option
   \<Rightarrow> subdir \<Rightarrow> transaction_error + ('o, 'n) transaction" where
  "from_current_and_desired vo vn current desired reinstall ignored platform =
     (case find_python_info (map vo current) platform of
        Inl e \<Rightarrow> Inl (Transaction_PythonInfoError e)
      | Inr current_python_info \<Rightarrow> (case find_python_info (map vn desired) platform of
          Inl e \<Rightarrow> Inl (Transaction_PythonInfoError e)
        | Inr desired_python_info \<Rightarrow>
            (let needs_python_relink = (case (current_python_info, desired_python_info) of
                   (Some current, Some desired) \<Rightarrow> is_relink_required desired current
                 | _ \<Rightarrow> False);
                 desired_names = set (map (name_of \<circ> vn) desired);
                 (operations, unchanged, current_map) = fold (current_step vo desired_names ignored) current ([], [], []);
                 (operations, unchanged, current_map) =
                   fold (desired_step vo vn needs_python_relink reinstall ignored) desired
                     (rev operations, unchanged, current_map)
             in Inr \<lparr>tx_operations = operations, tx_python_info = desired_python_info,
                     tx_current_python_info = current_python_info, tx_platform = platform,
                     tx_unchanged = unchanged\<rparr>)))"

section \<open>Conversions\<close>

fun convert_op :: "('o \<Rightarrow> 'e + 'p) \<Rightarrow> ('o, 'n) transaction_operation \<Rightarrow> 'e + ('p, 'n) transaction_operation" where
  "convert_op into (Install new) = Inr (Install new)"
| "convert_op into (Change old new) = (case into old of Inl e \<Rightarrow> Inl e | Inr p \<Rightarrow> Inr (Change p new))"
| "convert_op into (Reinstall old new) = (case into old of Inl e \<Rightarrow> Inl e | Inr p \<Rightarrow> Inr (Reinstall p new))"
| "convert_op into (Remove old) = (case into old of Inl e \<Rightarrow> Inl e | Inr p \<Rightarrow> Inr (Remove p))"

fun try_map :: "('a \<Rightarrow> 'e + 'b) \<Rightarrow> 'a list \<Rightarrow> 'e + 'b list" where
  "try_map f [] = Inr []"
| "try_map f (x # xs) = (case f x of Inl e \<Rightarrow> Inl e | Inr y \<Rightarrow>
     (case try_map f xs of Inl e \<Rightarrow> Inl e | Inr ys \<Rightarrow> Inr (y # ys)))"

definition into_prefix_record ::
  "(path \<Rightarrow> 'e + prefix_record) \<Rightarrow> path \<Rightarrow> (installation_result_record, 'n) transaction
   \<Rightarrow> 'e + (prefix_record, 'n) transaction" where
  "into_prefix_record from_path target_prefix t =
     (case try_map (convert_op (result_into_prefix_record from_path target_prefix)) (tx_operations t) of
        Inl e \<Rightarrow> Inl e
      | Inr operations \<Rightarrow> (case try_map (result_into_prefix_record from_path target_prefix) (tx_unchanged t) of
          Inl e \<Rightarrow> Inl e
        | Inr unchanged \<Rightarrow> Inr \<lparr>tx_operations = operations, tx_python_info = tx_python_info t,
            tx_current_python_info = tx_current_python_info t, tx_platform = tx_platform t,
            tx_unchanged = unchanged\<rparr>))"

definition into_installation_result_record ::
  "(prefix_record, 'n) transaction \<Rightarrow> (installation_result_record, 'n) transaction" where
  "into_installation_result_record t = \<lparr>tx_operations = map (map_transaction_operation Max id) (tx_operations t),
     tx_python_info = tx_python_info t, tx_current_python_info = tx_current_python_info t,
     tx_platform = tx_platform t, tx_unchanged = map Max (tx_unchanged t)\<rparr>"

end
