(* ===== verification/Transaction_Plan.thy ===== *)
theory Transaction_Plan
  imports Transaction
begin

text \<open>
  Correctness of transactions. The two loops with their shrinking map are shown equal to a plan: which
  current packages are removed, in reverse order, followed by one decision per desired package, made by
  looking the package up among the current ones. The other properties follow from the plan.
\<close>

section \<open>The plan\<close>

definition named :: "('a \<Rightarrow> content) \<Rightarrow> 'a \<Rightarrow> string" where
  "named v r = name_of (v r)"

definition installed_as :: "('o \<Rightarrow> content) \<Rightarrow> 'o list \<Rightarrow> string \<Rightarrow> 'o option" where
  "installed_as vo current name = find (\<lambda>old. named vo old = name) current"

text \<open>A current package is up to date for a desired one when nothing has to be done.\<close>

definition up_to_date ::
  "('o \<Rightarrow> content) \<Rightarrow> ('n \<Rightarrow> content) \<Rightarrow> bool \<Rightarrow> package_name set option \<Rightarrow> 'o \<Rightarrow> 'n \<Rightarrow> bool" where
  "up_to_date vo vn relink reinstall old r \<longleftrightarrow> describe_same_content (vn r) (vo old)
     \<and> \<not> hashset_contains reinstall (named vn r) \<and> \<not> (relink \<and> no_arch_is_python (cc_noarch (vo old)))"

definition planned_ops ::
  "('o \<Rightarrow> content) \<Rightarrow> ('n \<Rightarrow> content) \<Rightarrow> bool \<Rightarrow> package_name set option \<Rightarrow> package_name set option
   \<Rightarrow> (string \<Rightarrow> 'o option) \<Rightarrow> 'n \<Rightarrow> ('o, 'n) transaction_operation list" where
  "planned_ops vo vn relink reinstall ignored lookup r =
     (if hashset_contains ignored (named vn r) then []
      else case lookup (named vn r) of
        None \<Rightarrow> [Install r]
      | Some old \<Rightarrow> (if up_to_date vo vn relink reinstall old r then []
          else if \<not> describe_same_content (vn r) (vo old) \<or> hashset_contains reinstall (named vn r)
          then [Change old r] else [Reinstall old r]))"

definition planned_kept ::
  "('o \<Rightarrow> content) \<Rightarrow> ('n \<Rightarrow> content) \<Rightarrow> bool \<Rightarrow> package_name set option \<Rightarrow> package_name set option
   \<Rightarrow> (string \<Rightarrow> 'o option) \<Rightarrow> 'n \<Rightarrow> 'o list" where
  "planned_kept vo vn relink reinstall ignored lookup r = (case lookup (named vn r) of
     None \<Rightarrow> []
   | Some old \<Rightarrow> (if hashset_contains ignored (named vn r) \<or> up_to_date vo vn relink reinstall old r
       then [old] else []))"

section \<open>The loops follow the plan\<close>

lemma fold_current_step:
  "fold (current_step vo D ignored) cs (ops, un, cm) =
     (ops @ map Remove (filter (\<lambda>r. named vo r \<notin> D \<and> \<not> hashset_contains ignored (named vo r)) cs),
      un @ filter (\<lambda>r. named vo r \<notin> D \<and> hashset_contains ignored (named vo r)) cs,
      fold (\<lambda>r. AList.update (named vo r) r) (filter (\<lambda>r. named vo r \<in> D) cs) cm)"
  by (induction cs arbitrary: ops un cm) (auto simp: current_step_def Let_def named_def)

lemma desired_step_plan:
  "desired_step vo vn relink reinstall ignored r (ops, un, cm) =
     (ops @ planned_ops vo vn relink reinstall ignored (map_of cm) r,
      un @ planned_kept vo vn relink reinstall ignored (map_of cm) r, AList.delete (named vn r) cm)"
  by (auto simp: desired_step_def planned_ops_def planned_kept_def up_to_date_def named_def Let_def split: option.splits)

lemma fold_desired_step:
  assumes "distinct (map (named vn) ds)"
  shows "\<exists>cm'. fold (desired_step vo vn relink reinstall ignored) ds (ops, un, cm) =
     (ops @ concat (map (planned_ops vo vn relink reinstall ignored (map_of cm)) ds),
      un @ concat (map (planned_kept vo vn relink reinstall ignored (map_of cm)) ds), cm')"
  using assms
proof (induction ds arbitrary: ops un cm)
  case (Cons r ds)
  let ?cm = "AList.delete (named vn r) cm"
  have same: "map_of ?cm (named vn x) = map_of cm (named vn x)" if "x \<in> set ds" for x
  proof -
    have "named vn x \<in> named vn ` set ds" using that by (rule imageI)
    moreover have "named vn r \<notin> named vn ` set ds" using Cons.prems by simp
    ultimately have "named vn x \<noteq> named vn r" by metis
    then show ?thesis by (simp add: AList.delete_conv')
  qed
  then have plan: "map (planned_ops vo vn relink reinstall ignored (map_of ?cm)) ds =
        map (planned_ops vo vn relink reinstall ignored (map_of cm)) ds"
    "map (planned_kept vo vn relink reinstall ignored (map_of ?cm)) ds =
        map (planned_kept vo vn relink reinstall ignored (map_of cm)) ds"
    by (simp_all add: planned_ops_def planned_kept_def)
  have "distinct (map (named vn) ds)" using Cons.prems by simp
  from Cons.IH [OF this, of "ops @ planned_ops vo vn relink reinstall ignored (map_of cm) r"
      "un @ planned_kept vo vn relink reinstall ignored (map_of cm) r" ?cm, unfolded plan]
  show ?case by (simp add: desired_step_plan)
qed simp

lemma fold_update_distinct:
  assumes "distinct (map f rs)" "f ` set rs \<inter> fst ` set cm = {}"
  shows "fold (\<lambda>r. AList.update (f r) r) rs cm = cm @ map (\<lambda>r. (f r, r)) rs"
  using assms
proof (induction rs arbitrary: cm)
  case (Cons r rs)
  have "AList.update k x m = m @ [(k, x)]" if "k \<notin> fst ` set m" for k :: 'a and x :: 'b and m
    using that by (induction m) auto
  then have "AList.update (f r) r cm = cm @ [(f r, r)]" using Cons.prems(2) by auto
  moreover have "f ` set rs \<inter> fst ` set (cm @ [(f r, r)]) = {}" using Cons.prems by auto
  ultimately show ?case using Cons.IH [of "cm @ [(f r, r)]"] Cons.prems(1) by simp
qed simp

lemma map_of_named: "map_of (map (\<lambda>r. (f r, r)) rs) k = find (\<lambda>r. f r = k) rs"
  by (induction rs) auto

lemma find_filter: "P k \<Longrightarrow> find (\<lambda>r. f r = k) (filter (\<lambda>r. P (f r)) rs) = find (\<lambda>r. f r = k) rs"
  by (induction rs) auto

lemma current_map_lookup:
  assumes "distinct (map (named vo) cs)" "k \<in> D"
  shows "map_of (fold (\<lambda>r. AList.update (named vo r) r) (filter (\<lambda>r. named vo r \<in> D) cs) []) k = installed_as vo cs k"
proof -
  have "distinct (map (named vo) (filter (\<lambda>r. named vo r \<in> D) cs))"
    by (rule distinct_map_filter [OF assms(1)])
  then have "fold (\<lambda>r. AList.update (named vo r) r) (filter (\<lambda>r. named vo r \<in> D) cs) [] =
      map (\<lambda>r. (named vo r, r)) (filter (\<lambda>r. named vo r \<in> D) cs)"
    by (subst fold_update_distinct) auto
  then show ?thesis
    using find_filter [of "\<lambda>k. k \<in> D" k "named vo" cs] assms(2) by (simp add: map_of_named installed_as_def)
qed

definition relink_needed :: "python_info option \<Rightarrow> python_info option \<Rightarrow> bool" where
  "relink_needed current_py desired_py \<longleftrightarrow> (case (current_py, desired_py) of
     (Some c, Some d) \<Rightarrow> pi_short_version d \<noteq> pi_short_version c | _ \<Rightarrow> False)"

lemma from_current_and_desired_plan:
  assumes dc: "distinct (map (named vo) current)" and dd: "distinct (map (named vn) desired)"
    and cpy: "find_python_info (map vo current) platform = Inr cp"
    and dpy: "find_python_info (map vn desired) platform = Inr dp"
  shows "from_current_and_desired vo vn current desired reinstall ignored platform = Inr \<lparr>
    tx_operations = map Remove (rev (filter (\<lambda>r. named vo r \<notin> named vn ` set desired
        \<and> \<not> hashset_contains ignored (named vo r)) current))
      @ concat (map (planned_ops vo vn (relink_needed cp dp) reinstall ignored (installed_as vo current)) desired),
    tx_python_info = dp, tx_current_python_info = cp, tx_platform = platform,
    tx_unchanged = filter (\<lambda>r. named vo r \<notin> named vn ` set desired \<and> hashset_contains ignored (named vo r)) current
      @ concat (map (planned_kept vo vn (relink_needed cp dp) reinstall ignored (installed_as vo current)) desired)\<rparr>"
proof -
  let ?D = "named vn ` set desired"
  let ?cm = "fold (\<lambda>r. AList.update (named vo r) r) (filter (\<lambda>r. named vo r \<in> ?D) current) []"
  have D: "(\<lambda>x. name_of (vn x)) ` set desired = ?D" by (simp add: named_def)
  have relink: "(case cp of None \<Rightarrow> False | Some c \<Rightarrow> case dp of None \<Rightarrow> False | Some d \<Rightarrow> is_relink_required d c)
      = relink_needed cp dp"
    by (auto simp: relink_needed_def is_relink_required_iff split: option.splits)
  have "map_of ?cm (named vn r) = installed_as vo current (named vn r)" if "r \<in> set desired" for r
    by (rule current_map_lookup [OF dc]) (use that in simp)
  then have plan:
    "map (planned_ops vo vn (relink_needed cp dp) reinstall ignored (map_of ?cm)) desired =
       map (planned_ops vo vn (relink_needed cp dp) reinstall ignored (installed_as vo current)) desired"
    "map (planned_kept vo vn (relink_needed cp dp) reinstall ignored (map_of ?cm)) desired =
       map (planned_kept vo vn (relink_needed cp dp) reinstall ignored (installed_as vo current)) desired"
    by (simp_all add: planned_ops_def planned_kept_def)
  show ?thesis
    using fold_desired_step [OF dd, of vo "relink_needed cp dp" reinstall ignored
        "map Remove (rev (filter (\<lambda>r. named vo r \<notin> ?D \<and> \<not> hashset_contains ignored (named vo r)) current))"
        "filter (\<lambda>r. named vo r \<notin> ?D \<and> hashset_contains ignored (named vo r)) current" ?cm]
    by (auto simp: from_current_and_desired_def cpy dpy Let_def relink D fold_current_step rev_map plan)
qed


section \<open>Current packages are kept or removed\<close>

definition found :: "(string \<Rightarrow> 'o option) \<Rightarrow> ('n \<Rightarrow> content) \<Rightarrow> 'n list \<Rightarrow> 'o list" where
  "found lookup vn ds = List.map_filter (\<lambda>r. lookup (named vn r)) ds"

lemma removed_or_kept:
  "mset (List.map_filter record_to_remove (planned_ops vo vn relink reinstall ignored lookup r))
     + mset (planned_kept vo vn relink reinstall ignored lookup r)
   = mset (case lookup (named vn r) of None \<Rightarrow> [] | Some old \<Rightarrow> [old])"
  by (auto simp: planned_ops_def planned_kept_def List.map_filter_def split: option.splits)

lemma map_filter_concat: "List.map_filter f (concat xss) = concat (map (List.map_filter f) xss)"
  by (induction xss) (simp_all add: List.map_filter_def)

lemma map_filter_append: "List.map_filter f (xs @ ys) = List.map_filter f xs @ List.map_filter f ys"
  by (simp add: List.map_filter_def)

lemma map_filter_map_Some: "(\<And>x. f (g x) = Some x) \<Longrightarrow> List.map_filter f (map g xs) = xs"
  by (induction xs) (simp_all add: List.map_filter_def)

lemma plan_covers_found:
  "mset (List.map_filter record_to_remove (concat (map (planned_ops vo vn relink reinstall ignored lookup) ds)))
     + mset (concat (map (planned_kept vo vn relink reinstall ignored lookup) ds)) = mset (found lookup vn ds)"
proof (induction ds)
  case (Cons r ds)
  have "mset (found lookup vn (r # ds)) =
      mset (case lookup (named vn r) of None \<Rightarrow> [] | Some old \<Rightarrow> [old]) + mset (found lookup vn ds)"
    by (simp add: found_def List.map_filter_def split: option.splits)
  also have "\<dots> = mset (List.map_filter record_to_remove (planned_ops vo vn relink reinstall ignored lookup r))
      + mset (planned_kept vo vn relink reinstall ignored lookup r) + mset (found lookup vn ds)"
    by (simp add: removed_or_kept)
  finally show ?case using Cons.IH by (simp add: map_filter_append ac_simps flip: Cons.IH)
qed (simp add: found_def List.map_filter_def)

lemma installed_as_Some_iff:
  "distinct (map (named vo) cs) \<Longrightarrow> installed_as vo cs k = Some x \<longleftrightarrow> x \<in> set cs \<and> named vo x = k"
  by (induction cs) (auto simp: installed_as_def)

lemma set_found: "x \<in> set (found lookup vn ds) \<longleftrightarrow> (\<exists>d \<in> set ds. lookup (named vn d) = Some x)"
  by (force simp: found_def List.map_filter_def)

lemma found_current:
  assumes dc: "distinct (map (named vo) cs)" and dd: "distinct (map (named vn) ds)"
  shows "mset (found (installed_as vo cs) vn ds) = mset (filter (\<lambda>r. named vo r \<in> named vn ` set ds) cs)"
proof -
  have "distinct (found (installed_as vo cs) vn ds)" using dd
  proof (induction ds)
    case (Cons d ds)
    have "x \<notin> set (found (installed_as vo cs) vn ds)" if "installed_as vo cs (named vn d) = Some x" for x
      using that Cons.prems by (auto simp: set_found installed_as_Some_iff [OF dc])
    then show ?case using Cons by (auto simp: found_def List.map_filter_def)
  qed (simp add: found_def List.map_filter_def)
  moreover have "distinct (filter (\<lambda>r. named vo r \<in> named vn ` set ds) cs)"
    using dc by (simp add: distinct_map)
  moreover have "set (found (installed_as vo cs) vn ds) = set (filter (\<lambda>r. named vo r \<in> named vn ` set ds) cs)"
    by (auto simp: set_found installed_as_Some_iff [OF dc])
  ultimately show ?thesis using set_eq_iff_mset_eq_distinct by blast
qed

section \<open>Minimal records\<close>

text \<open>
  Two records that agree on name, noarch marker and content lead to the same decisions, whatever their
  types are.
\<close>

definition same_decisions :: "content \<Rightarrow> content \<Rightarrow> bool" where
  "same_decisions c d \<longleftrightarrow> name_of c = name_of d \<and> cc_noarch c = cc_noarch d
     \<and> (\<forall>x. describe_same_content x c = describe_same_content x d)"

abbreviation map_old :: "('o \<Rightarrow> 'p) \<Rightarrow> ('o, 'n) transaction_operation \<Rightarrow> ('p, 'n) transaction_operation" where
  "map_old g \<equiv> map_transaction_operation g id"

definition map_state ::
  "('o \<Rightarrow> 'p) \<Rightarrow> ('o, 'n) transaction_operation list \<times> 'o list \<times> (string \<times> 'o) list
   \<Rightarrow> ('p, 'n) transaction_operation list \<times> 'p list \<times> (string \<times> 'p) list" where
  "map_state g st = (case st of (ops, un, cm) \<Rightarrow> (map (map_old g) ops, map g un, map (\<lambda>(k, x). (k, g x)) cm))"

lemma map_value_update: "AList.update k (g x) (map (\<lambda>(k, x). (k, g x)) m) = map (\<lambda>(k, x). (k, g x)) (AList.update k x m)"
  by (induction m) auto

lemma map_value_delete: "AList.delete k (map (\<lambda>(k, x). (k, g x)) m) = map (\<lambda>(k, x). (k, g x)) (AList.delete k m)"
  by (induction m) auto

lemma map_value_map_of: "map_of (map (\<lambda>(k, x). (k, g x)) m) k = map_option g (map_of m k)"
  by (induction m) auto

lemma current_step_map:
  assumes "\<And>x. same_decisions (vo' (g x)) (vo x)"
  shows "current_step vo' D ignored (g r) (map_state g st) = map_state g (current_step vo D ignored r st)"
  using assms [of r]
  by (cases st) (simp add: current_step_def map_state_def same_decisions_def map_value_update Let_def)

lemma desired_step_map:
  assumes "\<And>x. same_decisions (vo' (g x)) (vo x)"
  shows "desired_step vo' vn relink reinstall ignored r (map_state g st)
    = map_state g (desired_step vo vn relink reinstall ignored r st)"
  using assms
  by (cases st) (auto simp: desired_step_def map_state_def same_decisions_def map_value_delete map_value_map_of Let_def
      split: option.splits)

lemma fold_current_step_map:
  assumes "\<And>x. same_decisions (vo' (g x)) (vo x)"
  shows "fold (current_step vo' D ignored) (map g cs) (map_state g st) = map_state g (fold (current_step vo D ignored) cs st)"
  by (induction cs arbitrary: st) (simp_all add: current_step_map [of vo' g vo, OF assms])

lemma fold_desired_step_map:
  assumes "\<And>x. same_decisions (vo' (g x)) (vo x)"
  shows "fold (desired_step vo' vn relink reinstall ignored) ds (map_state g st)
    = map_state g (fold (desired_step vo vn relink reinstall ignored) ds st)"
  by (induction ds arbitrary: st) (simp_all add: desired_step_map [of vo' g vo, OF assms])

lemma from_current_and_desired_map:
  fixes vo :: "'o \<Rightarrow> content" and vn :: "'n \<Rightarrow> content"
  assumes same: "\<And>x. same_decisions (vo' (g x)) (vo x)"
    and py: "find_python_info (map vo' (map g current)) platform = find_python_info (map vo current) platform"
  shows "from_current_and_desired vo' vn (map g current) desired reinstall ignored platform =
    map_sum id (\<lambda>t. \<lparr>tx_operations = map (map_old g) (tx_operations t), tx_python_info = tx_python_info t,
      tx_current_python_info = tx_current_python_info t, tx_platform = tx_platform t,
      tx_unchanged = map g (tx_unchanged t)\<rparr>)
     (from_current_and_desired vo vn current desired reinstall ignored platform)"
proof (cases "find_python_info (map vo current) platform")
  case (Inr cp)
  note cp = this
  show ?thesis
  proof (cases "find_python_info (map vn desired) platform")
    case (Inr dp)
    let ?D = "set (map (name_of \<circ> vn) desired)"
    let ?relink = "case (cp, dp) of (Some current, Some desired) \<Rightarrow> is_relink_required desired current | _ \<Rightarrow> False"
    obtain ops :: "('o, 'n) transaction_operation list" and un cm where c: "fold (current_step vo ?D ignored) current ([], [], []) = (ops, un, cm)"
      by (rule prod_cases3)
    obtain ops2 un2 cm2 where
      d: "fold (desired_step vo vn ?relink reinstall ignored) desired (rev ops, un, cm) = (ops2, un2, cm2)"
      by (rule prod_cases3)
    have "fold (current_step vo' ?D ignored) (map g current) (map_state g ([], [], [])) = map_state g (ops, un, cm)"
      by (simp only: fold_current_step_map [of vo' g vo, OF same] c)
    then have c': "fold (current_step vo' ?D ignored) (map g current) ([], [], []) =
        (map (map_old g) ops, map g un, map (\<lambda>(k, x). (k, g x)) cm)"
      by (simp add: map_state_def)
    have "fold (desired_step vo' vn ?relink reinstall ignored) desired (map_state g (rev ops, un, cm)) =
        map_state g (ops2, un2, cm2)"
      by (simp only: fold_desired_step_map [of vo' g vo, OF same] d)
    then have d': "fold (desired_step vo' vn ?relink reinstall ignored) desired
        (rev (map (map_old g) ops), map g un, map (\<lambda>(k, x). (k, g x)) cm) =
        (map (map_old g) ops2, map g un2, map (\<lambda>(k, x). (k, g x)) cm2)"
      by (simp add: map_state_def rev_map)
    show ?thesis
      using c d c' d' by (simp only: from_current_and_desired_def py cp Inr Let_def sum.case prod.case map_sum.simps
          transaction.simps id_apply)
  qed (simp add: from_current_and_desired_def py [simplified] cp)
qed (simp add: from_current_and_desired_def py [simplified])

lemma minimal_same_decisions:
  "same_decisions (minimal_content (from_prefix_record p)) (prefix_record_content p)"
proof -
  have "describe_same_content x (minimal_content (from_prefix_record p)) = describe_same_content x (prefix_record_content p)" for x
    by (cases "pr_sha256 (px_package_record p)"; cases "pr_md5 (px_package_record p)"; cases "cc_sha256 x"; cases "cc_md5 x")
      (simp_all add: describe_same_content_def minimal_content_def prefix_record_content_def package_record_content_def
        from_prefix_record_def minimal_hashes_def Let_def)
  then show ?thesis
    by (simp add: same_decisions_def minimal_content_def prefix_record_content_def package_record_content_def
        from_prefix_record_def minimal_hashes_def name_of_def Let_def)
qed

text \<open>The site-packages path survives in the minimal record when the name of python is written in lower case.\<close>

definition python_named_lowercase :: "prefix_record \<Rightarrow> bool" where
  "python_named_lowercase p \<longleftrightarrow>
     (as_normalized (prefix_record_name p) = ''python'' \<longrightarrow> as_source (prefix_record_name p) = ''python'')"

lemma minimal_python_info:
  assumes "\<forall>p \<in> set current. python_named_lowercase p"
  shows "find_python_info (map minimal_content (map from_prefix_record current)) platform =
    find_python_info (map prefix_record_content current) platform"
proof -
  have fields: "cc_name (minimal_content (from_prefix_record p)) = prefix_record_name p"
    "cc_name (prefix_record_content p) = prefix_record_name p"
    "cc_version (minimal_content (from_prefix_record p)) = cc_version (prefix_record_content p)"
    "cc_python_site_packages_path (minimal_content (from_prefix_record p)) =
      (if as_source (prefix_record_name p) = ''python'' then cc_python_site_packages_path (prefix_record_content p) else None)" for p
    by (simp_all add: minimal_content_def prefix_record_content_def package_record_content_def prefix_record_name_def
        from_prefix_record_def minimal_hashes_def Let_def)
  let ?python = "find (\<lambda>p. as_normalized (prefix_record_name p) = ''python'') current"
  have find: "find (\<lambda>r. as_normalized (cc_name r) = ''python'') (map f cs) =
      map_option f (find (\<lambda>p. as_normalized (prefix_record_name p) = ''python'') cs)"
    if "\<And>p. cc_name (f p) = prefix_record_name p" for f and cs
    using that by (induction cs) auto
  show ?thesis
  proof (cases ?python)
    case None
    then show ?thesis
      using find [of "\<lambda>p. minimal_content (from_prefix_record p)"] find [of prefix_record_content]
      by (simp add: find_python_info_def fields comp_def)
  next
    case (Some p)
    then have "p \<in> set current" "as_normalized (prefix_record_name p) = ''python''" by (auto simp: find_Some_iff)
    with assms have "as_source (prefix_record_name p) = ''python''" by (simp add: python_named_lowercase_def)
    with Some show ?thesis
      using find [of "\<lambda>p. minimal_content (from_prefix_record p)"] find [of prefix_record_content]
      by (simp add: find_python_info_def fields comp_def)
  qed
qed

end
