(* ===== verification/Transaction_Properties.thy ===== *)
theory Transaction_Properties
  imports Transaction_Plan
begin

text \<open>
  The properties of transactions: they follow the plan, account for every current and every desired
  package, leave an environment that is already as desired alone, and can be computed from minimal
  records.
\<close>

section \<open>What is installed and removed\<close>

definition needed ::
  "('o \<Rightarrow> content) \<Rightarrow> ('n \<Rightarrow> content) \<Rightarrow> bool \<Rightarrow> package_name set option \<Rightarrow> package_name set option
   \<Rightarrow> (string \<Rightarrow> 'o option) \<Rightarrow> 'n \<Rightarrow> bool" where
  "needed vo vn relink reinstall ignored lookup r \<longleftrightarrow> \<not> hashset_contains ignored (named vn r)
     \<and> (\<forall>old. lookup (named vn r) = Some old \<longrightarrow> \<not> up_to_date vo vn relink reinstall old r)"

lemma planned_installs:
  "List.map_filter record_to_install (concat (map (planned_ops vo vn relink reinstall ignored lookup) ds))
   = filter (needed vo vn relink reinstall ignored lookup) ds"
proof (induction ds)
  case (Cons r ds)
  have "List.map_filter record_to_install (planned_ops vo vn relink reinstall ignored lookup r)
      = (if needed vo vn relink reinstall ignored lookup r then [r] else [])"
    by (auto simp: planned_ops_def needed_def List.map_filter_def split: option.splits)
  with Cons.IH show ?case by (simp add: map_filter_append)
qed (simp add: List.map_filter_def)

lemma Remove_lists:
  "List.map_filter record_to_install (map Remove xs) = []" "List.map_filter record_to_remove (map Remove xs) = xs"
  by (induction xs) (simp_all add: List.map_filter_def)

lemma planned_removes_not_ignored:
  assumes "old \<in> set (List.map_filter record_to_remove (concat (map (planned_ops vo vn relink reinstall ignored
      (installed_as vo cs)) ds)))" "distinct (map (named vo) cs)"
  shows "\<not> hashset_contains ignored (named vo old)"
  using assms
  by (auto simp: planned_ops_def List.map_filter_def installed_as_Some_iff split: if_splits option.splits)

lemma set_planned_kept:
  assumes "distinct (map (named vo) cs)"
  shows "old \<in> set (concat (map (planned_kept vo vn relink reinstall ignored (installed_as vo cs)) ds)) \<longleftrightarrow>
    (\<exists>d \<in> set ds. old \<in> set cs \<and> named vo old = named vn d
       \<and> (hashset_contains ignored (named vn d) \<or> up_to_date vo vn relink reinstall old d))"
  by (auto simp: planned_kept_def installed_as_Some_iff [OF assms] split: option.splits) 
     (metis installed_as_Some_iff [OF assms] option.distinct(1) option.inject)+

lemma describe_same_content_refl: "describe_same_content c c"
  by (simp add: describe_same_content_def package_name_eq_def vws_eq_def version_eq_view split: option.splits)

lemma transaction_parts:
  assumes dc: "distinct (map (named vo) current)" and dd: "distinct (map (named vn) desired)"
    and py: "find_python_info (map vo current) platform = Inr cp" "find_python_info (map vn desired) platform = Inr dp"
    and t: "from_current_and_desired vo vn current desired reinstall ignored platform = Inr t"
  shows "removed_packages t =
      rev (filter (\<lambda>r. named vo r \<notin> named vn ` set desired \<and> \<not> hashset_contains ignored (named vo r)) current)
      @ List.map_filter record_to_remove
          (concat (map (planned_ops vo vn (relink_needed cp dp) reinstall ignored (installed_as vo current)) desired))"
    and "installed_packages t =
      filter (needed vo vn (relink_needed cp dp) reinstall ignored (installed_as vo current)) desired"
    and "tx_unchanged t =
      filter (\<lambda>r. named vo r \<notin> named vn ` set desired \<and> hashset_contains ignored (named vo r)) current
      @ concat (map (planned_kept vo vn (relink_needed cp dp) reinstall ignored (installed_as vo current)) desired)"
proof -
  note plan = sum.inject(2) [THEN iffD1, OF t [unfolded from_current_and_desired_plan [OF dc dd py]]]
  show "removed_packages t =
      rev (filter (\<lambda>r. named vo r \<notin> named vn ` set desired \<and> \<not> hashset_contains ignored (named vo r)) current)
      @ List.map_filter record_to_remove
          (concat (map (planned_ops vo vn (relink_needed cp dp) reinstall ignored (installed_as vo current)) desired))"
    by (simp only: plan [symmetric] removed_packages_def map_filter_append Remove_lists transaction.simps)
  show "installed_packages t =
      filter (needed vo vn (relink_needed cp dp) reinstall ignored (installed_as vo current)) desired"
    by (simp only: plan [symmetric] installed_packages_def map_filter_append Remove_lists planned_installs
        transaction.simps append_Nil)
  show "tx_unchanged t =
      filter (\<lambda>r. named vo r \<notin> named vn ` set desired \<and> hashset_contains ignored (named vo r)) current
      @ concat (map (planned_kept vo vn (relink_needed cp dp) reinstall ignored (installed_as vo current)) desired)"
    by (simp only: plan [symmetric] transaction.simps)
qed

lemma filter_mset_three: "filter_mset (\<lambda>r. P r \<and> \<not> Q r) m + filter_mset (\<lambda>r. P r \<and> Q r) m + filter_mset (\<lambda>r. \<not> P r) m = m"
  by (intro multiset_eqI) simp

lemma removed_and_unchanged:
  assumes dc: "distinct (map (named vo) current)" and dd: "distinct (map (named vn) desired)"
    and py: "find_python_info (map vo current) platform = Inr cp" "find_python_info (map vn desired) platform = Inr dp"
    and t: "from_current_and_desired vo vn current desired reinstall ignored platform = Inr t"
  shows "mset (removed_packages t) + mset (tx_unchanged t) = mset current"
proof -
  let ?new = "\<lambda>r. named vo r \<notin> named vn ` set desired" and ?ign = "\<lambda>r. hashset_contains ignored (named vo r)"
  let ?ops = "concat (map (planned_ops vo vn (relink_needed cp dp) reinstall ignored (installed_as vo current)) desired)"
  let ?kept = "concat (map (planned_kept vo vn (relink_needed cp dp) reinstall ignored (installed_as vo current)) desired)"
  have "mset (List.map_filter record_to_remove ?ops) + mset ?kept = filter_mset (\<lambda>r. \<not> ?new r) (mset current)"
    using plan_covers_found [of vo vn "relink_needed cp dp" reinstall ignored "installed_as vo current" desired]
      found_current [OF dc dd] by simp
  moreover have "mset (removed_packages t) + mset (tx_unchanged t) =
      filter_mset (\<lambda>r. ?new r \<and> \<not> ?ign r) (mset current) + filter_mset (\<lambda>r. ?new r \<and> ?ign r) (mset current)
      + (mset (List.map_filter record_to_remove ?ops) + mset ?kept)"
    unfolding transaction_parts [OF dc dd py t] mset_append mset_rev mset_filter by (simp only: ac_simps)
  ultimately show ?thesis using filter_mset_three [of ?new ?ign "mset current"] by simp
qed

lemma unchanged_for_desired:
  assumes dc: "distinct (map (named vo) current)" and dd: "distinct (map (named vn) desired)"
    and py: "find_python_info (map vo current) platform = Inr cp" "find_python_info (map vn desired) platform = Inr dp"
    and t: "from_current_and_desired vo vn current desired reinstall ignored platform = Inr t"
    and d: "d \<in> set desired" "\<not> hashset_contains ignored (named vn d)" "d \<notin> set (installed_packages t)"
  shows "\<exists>old \<in> set (tx_unchanged t). named vo old = named vn d \<and> describe_same_content (vn d) (vo old)"
proof -
  note parts = transaction_parts [OF dc dd py t]
  from d obtain old where "installed_as vo current (named vn d) = Some old"
      "up_to_date vo vn (relink_needed cp dp) reinstall old d"
    by (auto simp: parts(2) needed_def)
  then show ?thesis
    using d(1) by (auto simp: parts(3) set_planned_kept [OF dc] installed_as_Some_iff [OF dc] up_to_date_def simp del: set_concat)
qed

lemma unchanged_desired_or_ignored:
  assumes dc: "distinct (map (named vo) current)" and dd: "distinct (map (named vn) desired)"
    and py: "find_python_info (map vo current) platform = Inr cp" "find_python_info (map vn desired) platform = Inr dp"
    and t: "from_current_and_desired vo vn current desired reinstall ignored platform = Inr t"
    and old: "old \<in> set (tx_unchanged t)" "\<not> hashset_contains ignored (named vo old)"
  shows "named vo old \<in> named vn ` set desired"
proof -
  have "old \<in> set (concat (map (planned_kept vo vn (relink_needed cp dp) reinstall ignored (installed_as vo current)) desired))"
    using old unfolding transaction_parts(3) [OF dc dd py t] set_append set_filter by blast
  then show ?thesis unfolding set_planned_kept [OF dc] by auto
qed

lemma ignored_untouched:
  assumes dc: "distinct (map (named vo) current)" and dd: "distinct (map (named vn) desired)"
    and py: "find_python_info (map vo current) platform = Inr cp" "find_python_info (map vn desired) platform = Inr dp"
    and t: "from_current_and_desired vo vn current desired reinstall ignored platform = Inr t"
  shows "old \<in> set (removed_packages t) \<Longrightarrow> \<not> hashset_contains ignored (named vo old)"
    and "new \<in> set (installed_packages t) \<Longrightarrow> \<not> hashset_contains ignored (named vn new) \<and> new \<in> set desired"
proof -
  show "new \<in> set (installed_packages t) \<Longrightarrow> \<not> hashset_contains ignored (named vn new) \<and> new \<in> set desired"
    by (simp add: transaction_parts(2) [OF dc dd py t] needed_def)
  show "old \<in> set (removed_packages t) \<Longrightarrow> \<not> hashset_contains ignored (named vo old)"
    using planned_removes_not_ignored [OF _ dc, of old vn "relink_needed cp dp" reinstall ignored desired]
    unfolding transaction_parts(1) [OF dc dd py t] set_append set_rev set_filter by blast
qed

section \<open>Properties\<close>

text \<open>
  C19. With distinct names on both sides and a readable python version, the computed transaction is the
  plan: it removes the current packages that are neither desired nor ignored, last one first, and then
  takes one decision per desired package in the order given: nothing for an ignored one, an installation
  for a new one, nothing for one that is up to date, a change when the content differs or a
  reinstallation was asked for, and a reinstallation when only the python version requires it. An
  unreadable python version is the error.
\<close>

theorem transaction_follows_plan:
  assumes "distinct (map (named vo) current)" "distinct (map (named vn) desired)"
  shows "from_current_and_desired vo vn current desired reinstall ignored platform =
    (case (find_python_info (map vo current) platform, find_python_info (map vn desired) platform) of
       (Inl e, _) \<Rightarrow> Inl (Transaction_PythonInfoError e)
     | (Inr cp, Inl e) \<Rightarrow> Inl (Transaction_PythonInfoError e)
     | (Inr cp, Inr dp) \<Rightarrow> Inr \<lparr>
         tx_operations = map Remove (rev (filter (\<lambda>r. named vo r \<notin> named vn ` set desired
             \<and> \<not> hashset_contains ignored (named vo r)) current))
           @ concat (map (planned_ops vo vn (relink_needed cp dp) reinstall ignored (installed_as vo current)) desired),
         tx_python_info = dp, tx_current_python_info = cp, tx_platform = platform,
         tx_unchanged = filter (\<lambda>r. named vo r \<notin> named vn ` set desired \<and> hashset_contains ignored (named vo r)) current
           @ concat (map (planned_kept vo vn (relink_needed cp dp) reinstall ignored (installed_as vo current)) desired)\<rparr>)"
proof (cases "find_python_info (map vo current) platform")
  case (Inr cp)
  note cp = this
  show ?thesis
  proof (cases "find_python_info (map vn desired) platform")
    case (Inr dp)
    show ?thesis unfolding from_current_and_desired_plan [OF assms cp Inr] cp Inr by simp
  qed (simp add: from_current_and_desired_def cp)
qed (simp add: from_current_and_desired_def)

definition sample_installed :: "package_record list" where
  "sample_installed = [sample_record ''zlib'' [] [], sample_record ''old'' [] []]"

definition sample_desired :: "package_record list" where
  "sample_desired = [sample_record ''zlib'' [] [], sample_record ''new'' [] []]"

theorem transaction_follows_plan_witness:
  "distinct (map (named package_record_content) sample_installed)
   \<and> from_current_and_desired package_record_content package_record_content sample_installed sample_desired None None Linux64
     = Inr \<lparr>tx_operations = [Remove (sample_record ''old'' [] []), Install (sample_record ''new'' [] [])],
         tx_python_info = None, tx_current_python_info = None, tx_platform = Linux64,
         tx_unchanged = [sample_record ''zlib'' [] []]\<rparr>"
proof -
  have d: "distinct (map (named package_record_content) sample_installed)"
    "distinct (map (named package_record_content) sample_desired)" by code_simp+
  have py: "find_python_info (map package_record_content sample_installed) Linux64 = Inr None"
    "find_python_info (map package_record_content sample_desired) Linux64 = Inr None" by code_simp+
  have "named package_record_content (sample_record n [] []) = n" for n
    by (simp add: named_def name_of_def package_record_content_def sample_record_def as_normalized_def new_unchecked_def)
  moreover have "installed_as package_record_content sample_installed ''zlib'' = Some (sample_record ''zlib'' [] [])"
    "installed_as package_record_content sample_installed ''new'' = None" by code_simp+
  ultimately show ?thesis
    unfolding transaction_follows_plan [OF d] py using d(1)
    by (simp add: sample_installed_def sample_desired_def planned_ops_def planned_kept_def up_to_date_def
        describe_same_content_refl relink_needed_def hashset_contains_def)
qed

text \<open>
  C20. When no two current and no two desired packages have the same name, a transaction that is computed without
  an error accounts for every package: each current package is either removed or unchanged and
  none twice; what is installed is a selection of the desired packages in their order; a name that is not
  ignored is present afterwards exactly when it is desired; ignored names are neither removed nor
  installed; and a desired package that is not installed and not ignored has an unchanged package of its
  name that describes the same content.
\<close>

theorem transaction_accounts_for_packages:
  assumes dc: "distinct (map (named vo) current)" and dd: "distinct (map (named vn) desired)"
    and t: "from_current_and_desired vo vn current desired reinstall ignored platform = Inr t"
  shows "mset (removed_packages t) + mset (tx_unchanged t) = mset current
    \<and> subseq (installed_packages t) desired
    \<and> (\<forall>n. \<not> hashset_contains ignored n \<longrightarrow>
         (n \<in> named vo ` set (tx_unchanged t) \<union> named vn ` set (installed_packages t) \<longleftrightarrow> n \<in> named vn ` set desired))
    \<and> (\<forall>n. hashset_contains ignored n \<longrightarrow>
         n \<notin> named vo ` set (removed_packages t) \<union> named vn ` set (installed_packages t))
    \<and> (\<forall>d \<in> set desired. \<not> hashset_contains ignored (named vn d) \<and> d \<notin> set (installed_packages t) \<longrightarrow>
         (\<exists>old \<in> set (tx_unchanged t). named vo old = named vn d \<and> describe_same_content (vn d) (vo old)))"
proof -
  obtain cp dp where py: "find_python_info (map vo current) platform = Inr cp"
      "find_python_info (map vn desired) platform = Inr dp"
    using t by (auto simp: from_current_and_desired_def split: sum.splits)
  note run = dc dd py t
  have kept: "n \<in> named vo ` set (tx_unchanged t) \<union> named vn ` set (installed_packages t)"
    if n: "n \<in> named vn ` set desired" "\<not> hashset_contains ignored n" for n
  proof -
    from n obtain d where d: "d \<in> set desired" "n = named vn d" by blast
    show ?thesis
    proof (cases "d \<in> set (installed_packages t)")
      case False
      with d n unchanged_for_desired [OF run, of d] obtain old where "old \<in> set (tx_unchanged t)" "named vo old = n" by blast
      then show ?thesis by blast
    qed (use d in blast)
  qed
  have "subseq (installed_packages t) desired" unfolding transaction_parts(2) [OF run] by simp
  then show ?thesis
    using removed_and_unchanged [OF run] kept unchanged_desired_or_ignored [OF run] ignored_untouched [OF run]
      unchanged_for_desired [OF run] by blast
qed

theorem transaction_accounts_for_packages_witness:
  "\<exists>t. from_current_and_desired package_record_content package_record_content sample_installed sample_desired None None Linux64
      = Inr t \<and> mset (removed_packages t) + mset (tx_unchanged t) = mset sample_installed
      \<and> subseq (installed_packages t) sample_desired"
proof -
  have d: "distinct (map (named package_record_content) sample_installed)"
    "distinct (map (named package_record_content) sample_desired)" by code_simp+
  have py: "find_python_info (map package_record_content sample_installed) Linux64 = Inr None"
    "find_python_info (map package_record_content sample_desired) Linux64 = Inr None" by code_simp+
  have "\<exists>t. from_current_and_desired package_record_content package_record_content sample_installed sample_desired
      None None Linux64 = Inr t"
    unfolding from_current_and_desired_plan [OF d py] by blast
  with transaction_accounts_for_packages [OF d] show ?thesis by blast
qed

text \<open>
  An environment that already is as desired is left alone: for packages with distinct names whose python
  information can be read, none of which is asked to be reinstalled, the transaction from the list to itself
  has no operation and keeps every package in place, whatever is ignored.
\<close>

theorem transaction_to_itself_is_empty:
  assumes "distinct (map (named v) current)" "find_python_info (map v current) platform = Inr py"
    and "\<forall>r \<in> set current. \<not> hashset_contains reinstall (named v r)"
  shows "from_current_and_desired v v current current reinstall ignored platform = Inr \<lparr>tx_operations = [],
    tx_python_info = py, tx_current_python_info = py, tx_platform = platform, tx_unchanged = current\<rparr>"
proof -
  have relink: "\<not> relink_needed py py" by (simp add: relink_needed_def split: option.splits)
  have lookup: "installed_as v current (named v r) = Some r" if "r \<in> set current" for r
    using that by (simp add: installed_as_Some_iff [OF assms(1)])
  have "concat (map (planned_ops v v (relink_needed py py) reinstall ignored (installed_as v current)) current) = []"
    using assms(3) by (auto simp: planned_ops_def lookup up_to_date_def describe_same_content_refl relink)
  moreover have "map (planned_kept v v (relink_needed py py) reinstall ignored (installed_as v current)) current
      = map (\<lambda>r. [r]) current"
    using assms(3) by (simp add: planned_kept_def lookup up_to_date_def describe_same_content_refl relink)
  moreover have "concat (map (\<lambda>r. [r]) current) = current" by (induction current) simp_all
  moreover have "filter (\<lambda>r. named v r \<notin> named v ` set current \<and> P r) current = []" for P
    by (simp add: filter_empty_conv)
  ultimately show ?thesis
    by (simp only: from_current_and_desired_plan [OF assms(1) assms(1) assms(2) assms(2)]) simp
qed

theorem transaction_to_itself_is_empty_witness:
  "from_current_and_desired package_record_content package_record_content sample_installed sample_installed None None Linux64
   = Inr \<lparr>tx_operations = [], tx_python_info = None, tx_current_python_info = None, tx_platform = Linux64,
       tx_unchanged = sample_installed\<rparr>"
proof (rule transaction_to_itself_is_empty)
  show "distinct (map (named package_record_content) sample_installed)" by code_simp
  show "find_python_info (map package_record_content sample_installed) Linux64 = Inr None" by code_simp
  show "\<forall>r \<in> set sample_installed. \<not> hashset_contains None (named package_record_content r)"
    by (simp add: hashset_contains_def)
qed

text \<open>
  C21. The transaction computed from minimal records is the transaction computed from the full records
  with every full record replaced by its minimal one, when no installed python has upper-case letters in
  its name.
\<close>

theorem transaction_from_minimal_records:
  assumes "\<forall>p \<in> set current. python_named_lowercase p"
  shows "from_current_and_desired minimal_content vn (map from_prefix_record current) desired reinstall ignored platform =
    map_sum id (\<lambda>t. \<lparr>tx_operations = map (map_transaction_operation from_prefix_record id) (tx_operations t),
      tx_python_info = tx_python_info t, tx_current_python_info = tx_current_python_info t,
      tx_platform = tx_platform t, tx_unchanged = map from_prefix_record (tx_unchanged t)\<rparr>)
     (from_current_and_desired prefix_record_content vn current desired reinstall ignored platform)"
  by (rule from_current_and_desired_map [OF minimal_same_decisions minimal_python_info [OF assms]])

theorem transaction_from_minimal_records_witness:
  "from_current_and_desired minimal_content package_record_content
     (map from_prefix_record [sample_prefix_record (sample_record ''zlib'' [] []) []]) sample_desired None None Linux64 =
    map_sum id (\<lambda>t. \<lparr>tx_operations = map (map_transaction_operation from_prefix_record id) (tx_operations t),
      tx_python_info = tx_python_info t, tx_current_python_info = tx_current_python_info t,
      tx_platform = tx_platform t, tx_unchanged = map from_prefix_record (tx_unchanged t)\<rparr>)
     (from_current_and_desired prefix_record_content package_record_content
        [sample_prefix_record (sample_record ''zlib'' [] []) []] sample_desired None None Linux64)"
proof (rule transaction_from_minimal_records)
  show "\<forall>p \<in> set [sample_prefix_record (sample_record ''zlib'' [] []) []]. python_named_lowercase p" by code_simp
qed

section \<open>Cases outside the contracts\<close>

text \<open>
  With python installed under the name \<open>Python\<close> the minimal record drops the site-packages path that
  the full record has, so the two transactions differ in the python of the current environment.
\<close>

lemma minimal_record_drops_site_packages:
  defines "p \<equiv> sample_prefix_record ((sample_record ''a'' [] [])
      \<lparr>pr_name := \<lparr>pn_normalized = Some ''python'', pn_source = ''Python''\<rparr>,
       pr_python_site_packages_path := Some ''lib/site''\<rparr>) []"
  shows "cc_python_site_packages_path (prefix_record_content p) = Some ''lib/site''"
    "cc_python_site_packages_path (minimal_content (from_prefix_record p)) = None"
  unfolding p_def by code_simp+

text \<open>
  The package record made from a minimal record is never noarch, so a comparison that uses it does not
  relink noarch python packages.
\<close>

lemma minimal_package_record_not_noarch:
  "\<not> no_arch_is_python (cc_noarch (package_record_content (to_package_record m)))"
  by (simp add: package_record_content_def to_package_record_def no_arch_is_python_def no_arch_kind_def)

end
