(* ===== verification/Path_Ownership.thy ===== *)
theory Path_Ownership
  imports Path_Trie
begin

text \<open>
  Laws of the path trie. A trie is read through \<open>owners_at\<close> (who has a file exactly at a path) and
  \<open>tags_at\<close> (who is recorded for a prefix); the operations are specified by what they do to these
  two functions, and a local well-formedness predicate is kept by all of them.
\<close>

section \<open>Reading a trie\<close>

definition owners_at :: "path_trie_node \<Rightarrow> path \<Rightarrow> owner set" where
  "owners_at n q = (case get_node n q of Some m \<Rightarrow> terminals m | None \<Rightarrow> {})"

definition tags_at :: "path_trie_node \<Rightarrow> path \<Rightarrow> owner set" where
  "tags_at n q = (case get_node n q of Some m \<Rightarrow> prefixes m | None \<Rightarrow> {})"

lemma at_simps [simp]:
  "owners_at n [] = terminals n" "tags_at n [] = prefixes n"
  "owners_at n (c # q) = (case map_of (children n) c of Some m \<Rightarrow> owners_at m q | None \<Rightarrow> {})"
  "tags_at n (c # q) = (case map_of (children n) c of Some m \<Rightarrow> tags_at m q | None \<Rightarrow> {})"
  by (auto simp: owners_at_def tags_at_def split: option.splits)

lemma at_empty_node [simp]: "owners_at empty_node q = {}" "tags_at empty_node q = {}"
  by (cases q; simp add: empty_node_def)+

lemma get_node_append:
  "get_node n (p @ q) = (case get_node n p of Some m \<Rightarrow> get_node m q | None \<Rightarrow> None)"
  by (induction n p rule: get_node.induct) (auto split: option.splits)

section \<open>Well-formed tries\<close>

fun node_wf :: "path_trie_node \<Rightarrow> bool" where
  "node_wf (PathTrieNode P T C) \<longleftrightarrow> distinct (map fst C) \<and> T \<subseteq> P
     \<and> list_all (\<lambda>(c, m). prefixes m \<subseteq> P \<and> node_wf m) C"

fun node_tight :: "path_trie_node \<Rightarrow> bool" where
  "node_tight (PathTrieNode P T C) \<longleftrightarrow> list_all (\<lambda>(c, m). prefixes m \<noteq> {} \<and> node_tight m) C"

lemma node_wf_iff:
  "node_wf n \<longleftrightarrow> distinct (map fst (children n)) \<and> terminals n \<subseteq> prefixes n
     \<and> (\<forall>(c, m) \<in> set (children n). prefixes m \<subseteq> prefixes n \<and> node_wf m)"
  by (cases n) (auto simp: list_all_iff)

lemma node_tight_iff: "node_tight n \<longleftrightarrow> (\<forall>(c, m) \<in> set (children n). prefixes m \<noteq> {} \<and> node_tight m)"
  by (cases n) (auto simp: list_all_iff)

lemma node_wf_child: "node_wf n \<Longrightarrow> map_of (children n) c = Some m \<Longrightarrow> node_wf m \<and> prefixes m \<subseteq> prefixes n"
  by (subst (asm) node_wf_iff) (auto dest: map_of_SomeD)

lemma node_tight_child: "node_tight n \<Longrightarrow> map_of (children n) c = Some m \<Longrightarrow> node_tight m \<and> prefixes m \<noteq> {}"
  by (subst (asm) node_tight_iff) (auto dest: map_of_SomeD)

lemma node_wf_empty [simp]: "node_wf empty_node" "node_tight empty_node"
  by (simp_all add: empty_node_def)

lemma tags_at_subset: "node_wf n \<Longrightarrow> tags_at n (p @ q) \<subseteq> tags_at n p"
proof (induction p arbitrary: n)
  case Nil
  have "tags_at n q \<subseteq> prefixes n" using Nil
  proof (induction q arbitrary: n)
    case (Cons c q)
    show ?case
    proof (cases "map_of (children n) c")
      case (Some m)
      then show ?thesis using Cons.IH [of m] node_wf_child [OF Cons.prems Some] by auto
    qed simp
  qed simp
  then show ?case by simp
next
  case (Cons c p)
  then show ?case by (auto split: option.splits dest: node_wf_child)
qed

lemma owners_at_tags: "node_wf n \<Longrightarrow> owners_at n q \<subseteq> tags_at n q"
proof (induction q arbitrary: n)
  case Nil
  then show ?case by (simp add: node_wf_iff [of n])
next
  case (Cons c q)
  then show ?case by (auto split: option.splits dest: node_wf_child)
qed

lemma get_node_tags: "node_tight n \<Longrightarrow> get_node n q = Some m \<Longrightarrow> q \<noteq> [] \<Longrightarrow> tags_at n q \<noteq> {}"
proof (induction q arbitrary: n)
  case (Cons c q)
  then obtain k where k: "map_of (children n) c = Some k" "get_node k q = Some m"
    by (auto split: option.splits)
  then show ?case using Cons node_tight_child [OF Cons.prems(1) k(1)] by (cases q) auto
qed simp

section \<open>Insertion\<close>

lemma set_update_alist: "set (AList.update k v al) \<subseteq> insert (k, v) (set al)"
  by (induction al) auto

lemma list_all_update: "list_all P al \<Longrightarrow> P (k, v) \<Longrightarrow> list_all P (AList.update k v al)"
  using set_update_alist [of k v al] by (auto simp: list_all_iff)

lemma insert_file_prefixes [simp]: "prefixes (insert_file pkg p n) = insert pkg (prefixes n)"
  by (cases p) simp_all

lemma insert_file_wf: "node_wf n \<Longrightarrow> node_wf (insert_file pkg p n)"
proof (induction p arbitrary: n)
  case Nil
  then show ?case by (cases n) (auto simp: list_all_iff)
next
  case (Cons c p)
  let ?m = "case map_of (children n) c of Some m \<Rightarrow> m | None \<Rightarrow> empty_node"
  have m: "node_wf ?m" "prefixes ?m \<subseteq> prefixes n"
    using node_wf_child [OF Cons.prems, of c] by (auto split: option.splits simp: empty_node_def)
  have "list_all (\<lambda>(c, m). prefixes m \<subseteq> insert pkg (prefixes n) \<and> node_wf m)
      (AList.update c (insert_file pkg p ?m) (children n))"
    using Cons m by (intro list_all_update) (auto simp: node_wf_iff [of n] list_all_iff)
  then show ?case using Cons.prems by (auto simp: node_wf_iff [of n] distinct_update)
qed

lemma insert_file_tight: "node_tight n \<Longrightarrow> node_tight (insert_file pkg p n)"
proof (induction p arbitrary: n)
  case Nil
  then show ?case by (cases n) simp
next
  case (Cons c p)
  let ?m = "case map_of (children n) c of Some m \<Rightarrow> m | None \<Rightarrow> empty_node"
  have "node_tight ?m" using node_tight_child [OF Cons.prems, of c] by (auto split: option.splits)
  then have "list_all (\<lambda>(c, m). prefixes m \<noteq> {} \<and> node_tight m) (AList.update c (insert_file pkg p ?m) (children n))"
    using Cons by (intro list_all_update) (auto simp: node_tight_iff [of n] list_all_iff)
  then show ?case by simp
qed

lemma insert_file_owners: "owners_at (insert_file pkg p n) q = (if q = p then insert pkg (owners_at n q) else owners_at n q)"
proof (induction p arbitrary: n q)
  case Nil
  then show ?case by (cases q) simp_all
next
  case (Cons c p)
  then show ?case by (cases q) (auto simp: update_conv split: option.splits)
qed

lemma insert_file_tags: "tags_at (insert_file pkg p n) q = (if prefix q p then insert pkg (tags_at n q) else tags_at n q)"
proof (induction p arbitrary: n q)
  case Nil
  then show ?case by (cases q) simp_all
next
  case (Cons c p)
  then show ?case by (cases q) (auto simp: update_conv split: option.splits)
qed

section \<open>Propagation\<close>

lemma propagate_prefix_sel [simp]:
  "prefixes (propagate_prefix pkg n) = insert pkg (prefixes n)"
  "terminals (propagate_prefix pkg n) = terminals n"
  "map_of (children (propagate_prefix pkg n)) c = map_option (propagate_prefix pkg) (map_of (children n) c)"
  by (cases n; simp add: map_of_map)+

lemma propagate_prefix_at:
  "owners_at (propagate_prefix pkg n) q = owners_at n q"
  "tags_at (propagate_prefix pkg n) q = (if get_node n q = None then {} else insert pkg (tags_at n q))"
  by (induction q arbitrary: n) (auto split: option.splits)

lemma map_fst_snd: "map fst (map (\<lambda>(c, m). (c, f m)) C) = map fst C"
  by (induction C) auto

lemma propagate_prefix_wf: "node_wf n \<Longrightarrow> node_wf (propagate_prefix pkg n)"
proof (induction n rule: path_trie_node_induct)
  case (Node P T C)
  then show ?case by (auto simp: list_all_iff map_fst_snd simp del: map_map) (fastforce)
qed

lemma propagate_prefix_tight: "node_tight n \<Longrightarrow> node_tight (propagate_prefix pkg n)"
  by (induction n rule: path_trie_node_induct) (auto simp: list_all_iff)

lemma update_propagate_owners: "owners_at (update_node (propagate_prefix pkg) p n) q = owners_at n q"
proof (induction p arbitrary: n q)
  case (Cons c p)
  then show ?case by (cases q) (auto simp: update_conv split: option.splits)
qed (simp add: propagate_prefix_at)

lemma update_propagate_tags:
  "tags_at (update_node (propagate_prefix pkg) p n) q =
     (if prefix p q \<and> get_node n q \<noteq> None then insert pkg (tags_at n q) else tags_at n q)"
proof (induction p arbitrary: n q)
  case Nil
  then show ?case by (cases "get_node n q") (simp_all add: propagate_prefix_at, simp add: tags_at_def)
next
  case (Cons c p)
  then show ?case by (cases q) (auto simp: update_conv split: option.splits)
qed

lemma update_propagate_wf:
  assumes "node_wf n" "pkg \<in> tags_at n p"
  shows "node_wf (update_node (propagate_prefix pkg) p n) \<and> prefixes (update_node (propagate_prefix pkg) p n) = prefixes n"
  using assms
proof (induction p arbitrary: n)
  case Nil
  then show ?case by (auto simp: propagate_prefix_wf)
next
  case (Cons c p)
  then obtain m where m: "map_of (children n) c = Some m" "pkg \<in> tags_at m p" by (auto split: option.splits)
  note wf = node_wf_child [OF Cons.prems(1) m(1)]
  have "list_all (\<lambda>(c, m). prefixes m \<subseteq> prefixes n \<and> node_wf m)
      (AList.update c (update_node (propagate_prefix pkg) p m) (children n))"
    using Cons.IH [of m] m wf Cons.prems(1) by (intro list_all_update) (auto simp: node_wf_iff [of n] list_all_iff)
  then show ?case using m Cons.prems(1) by (simp add: node_wf_iff [of n] distinct_update)
qed

lemma update_propagate_tight: "node_tight n \<Longrightarrow> node_tight (update_node (propagate_prefix pkg) p n)"
proof (induction p arbitrary: n)
  case (Cons c p)
  show ?case
  proof (cases "map_of (children n) c")
    case (Some m)
    note t = node_tight_child [OF Cons.prems Some]
    have "prefixes (update_node (propagate_prefix pkg) p m) \<supseteq> prefixes m"
      by (cases p) (auto split: option.splits)
    then have "prefixes (update_node (propagate_prefix pkg) p m) \<noteq> {}" using t by blast
    then have "list_all (\<lambda>(c, m). prefixes m \<noteq> {} \<and> node_tight m)
        (AList.update c (update_node (propagate_prefix pkg) p m) (children n))"
      using Cons.IH [of m] t Cons.prems by (intro list_all_update) (auto simp: node_tight_iff [of n] list_all_iff)
    then show ?thesis using Some by simp
  qed (use Cons in simp)
qed (simp add: propagate_prefix_tight)

section \<open>Removal\<close>

lemma rm_sel [simp]:
  "prefixes (rm pkg n) = prefixes n - {pkg}" "terminals (rm pkg n) = terminals n - {pkg}"
  "map_of (children (rm pkg n)) c = map_option (rm pkg) (map_of (children n) c)"
  by (cases n; simp add: map_of_map)+

lemma rm_at: "owners_at (rm pkg n) q = owners_at n q - {pkg}" "tags_at (rm pkg n) q = tags_at n q - {pkg}"
  by (induction q arbitrary: n) (auto split: option.splits)

lemma rm_wf: "node_wf n \<Longrightarrow> node_wf (rm pkg n)"
proof (induction n rule: path_trie_node_induct)
  case (Node P T C)
  then show ?case by (auto simp: list_all_iff map_fst_snd simp del: map_map) (fastforce)+
qed

lemma map_of_filter_distinct:
  "distinct (map fst C) \<Longrightarrow> map_of (filter (\<lambda>(c, m). P m) C) c =
     (case map_of C c of Some m \<Rightarrow> if P m then Some m else None | None \<Rightarrow> None)"
proof (induction C)
  case (Cons x C)
  have "map_of C (fst x) = None" using Cons.prems by (simp add: map_of_eq_None_iff)
  then show ?case using Cons by (cases x) auto
qed simp

lemma prune_sel [simp]: "prefixes (prune n) = prefixes n" "terminals (prune n) = terminals n"
  by (cases n; simp)+

lemma prune_child:
  assumes "node_wf n"
  shows "map_of (children (prune n)) c = (case map_of (children n) c of
     Some m \<Rightarrow> if node_is_empty (prune m) then None else Some (prune m) | None \<Rightarrow> None)"
proof (cases n)
  case (PathTrieNode P T C)
  have d: "distinct (map fst (map (\<lambda>(c, m). (c, prune m)) C))"
    using assms PathTrieNode by (simp only: map_fst_snd) simp
  show ?thesis
    using map_of_filter_distinct [OF d, of "\<lambda>m. \<not> node_is_empty m" c] PathTrieNode
    by (auto simp: map_of_map split: option.splits)
qed

lemma node_is_empty_at: "node_is_empty n \<Longrightarrow> owners_at n q = {} \<and> tags_at n q = {}"
  by (cases q) (simp_all add: node_is_empty_def)

lemma prune_at: "node_wf n \<Longrightarrow> owners_at (prune n) q = owners_at n q \<and> tags_at (prune n) q = tags_at n q"
proof (induction q arbitrary: n)
  case (Cons c q)
  show ?case
  proof (cases "map_of (children n) c")
    case (Some m)
    have "owners_at (prune m) q = owners_at m q \<and> tags_at (prune m) q = tags_at m q"
      using Cons.IH node_wf_child [OF Cons.prems Some] by blast
    then show ?thesis
      using Some node_is_empty_at [of "prune m" q] by (simp add: prune_child [OF Cons.prems])
  qed (simp add: prune_child [OF Cons.prems])
qed simp

lemma prune_wf_tight: "node_wf n \<Longrightarrow> node_wf (prune n) \<and> node_tight (prune n)"
proof (induction n rule: path_trie_node_induct)
  case (Node P T C)
  let ?C = "filter (\<lambda>(c, m). \<not> node_is_empty m) (map (\<lambda>(c, m). (c, prune m)) C)"
  have "distinct (map fst (map (\<lambda>(c, m). (c, prune m)) C))"
    using Node.prems by (simp only: map_fst_snd) simp
  then have d: "distinct (map fst ?C)" by (rule distinct_map_filter)
  have child: "prefixes m \<subseteq> P \<and> prefixes m \<noteq> {} \<and> node_wf m \<and> node_tight m" if cm: "(c, m) \<in> set ?C" for c m
  proof -
    obtain k where k: "(c, k) \<in> set C" "m = prune k" "\<not> node_is_empty m" using cm by auto
    have wf: "node_wf k" "prefixes k \<subseteq> P" using Node.prems k(1) by (auto simp: list_all_iff)
    then have m: "node_wf m" "node_tight m" using Node.IH [OF k(1)] k(2) by auto
    have "prefixes m \<noteq> {}"
    proof (cases "children m")
      case Nil
      then show ?thesis using k(3) m(1) by (auto simp: node_is_empty_def node_wf_iff [of m])
    next
      case (Cons x xs)
      then show ?thesis using m by (cases x) (auto simp: node_wf_iff [of m] node_tight_iff [of m])
    qed
    then show ?thesis using m wf k(2) by simp
  qed
  then have "list_all (\<lambda>(c, m). prefixes m \<subseteq> P \<and> node_wf m) ?C"
    and "list_all (\<lambda>(c, m). prefixes m \<noteq> {} \<and> node_tight m) ?C"
    unfolding list_all_iff by blast+
  then show ?case using d Node.prems by (simp only: prune.simps node_wf.simps node_tight.simps)
qed

section \<open>The conflict scan\<close>

lemma scan_path_Blocked:
  "scan_path n p = Blocked \<longleftrightarrow> (\<exists>q. q \<noteq> [] \<and> strict_prefix q p \<and> owners_at n q \<noteq> {})"
proof (induction p arbitrary: n)
  case (Cons c p)
  have split: "(\<exists>q. q \<noteq> [] \<and> strict_prefix q (c # p) \<and> owners_at n q \<noteq> {}) \<longleftrightarrow>
      (\<exists>q. strict_prefix q p \<and> owners_at n (c # q) \<noteq> {})" (is "?L \<longleftrightarrow> ?R")
  proof
    assume ?L
    then obtain q where q: "q \<noteq> []" "strict_prefix q (c # p)" "owners_at n q \<noteq> {}" by blast
    then obtain q' where "q = c # q'" "strict_prefix q' p" by (cases q) (auto simp: strict_prefix_def)
    then show ?R using q(3) by blast
  next
    assume ?R
    then obtain q where "strict_prefix (c # q) (c # p)" "owners_at n (c # q) \<noteq> {}" by (auto simp: strict_prefix_def)
    then show ?L by blast
  qed
  show ?case
  proof (cases "map_of (children n) c")
    case (Some m)
    have "(\<exists>q. strict_prefix q p \<and> owners_at m q \<noteq> {}) \<longleftrightarrow>
        p \<noteq> [] \<and> terminals m \<noteq> {} \<or> (\<exists>q. q \<noteq> [] \<and> strict_prefix q p \<and> owners_at m q \<noteq> {})"
      by (metis at_simps(1) strict_prefix_simps(1,2) neq_Nil_conv)
    then show ?thesis unfolding split using Some Cons.IH [of m] by (cases p) auto
  qed (auto simp: split)
qed simp

lemma scan_path_Found:
  "scan_path n p = Found m \<longleftrightarrow> p \<noteq> [] \<and> get_node n p = Some m \<and> scan_path n p \<noteq> Blocked"
  by (induction n p rule: scan_path.induct) (auto split: option.splits)

end
