(* ===== verification/Path_Resolver.thy ===== *)
theory Path_Resolver
  imports Path_Ownership
begin

text \<open>
  \<open>PathResolver\<close> of \<open>path_resolver/src/lib.rs\<close>: the trie with the packages in order of
  decreasing priority, and its operations. Assertions of the source are panics. Moving the files on
  disk (\<open>sync_clobbers\<close>) is left out; the lists it receives are what the operations return.
\<close>

section \<open>State and operations\<close>

record path_resolver =
  rv_root :: path_trie_node
  rv_packages :: "owner list"

type_synonym changes = "(path \<times> owner) list \<times> (path \<times> owner) list"

definition resolver_new :: path_resolver where
  "resolver_new = \<lparr>rv_root = empty_node, rv_packages = []\<rparr>"

text \<open>\<open>IndexSet::insert\<close>: a present element keeps its position.\<close>

definition index_insert :: "'a \<Rightarrow> 'a list \<Rightarrow> 'a list" where
  "index_insert x xs = (if x \<in> set xs then xs else xs @ [x])"

text \<open>The checks of \<open>insert_package\<close> for one path: whether it conflicts, and whether it replaces a
  directory.\<close>

definition path_conflict :: "path_trie_node \<Rightarrow> path \<Rightarrow> bool \<times> bool" where
  "path_conflict root p = (case scan_path root p of
     Blocked \<Rightarrow> (True, False)
   | Missing \<Rightarrow> (False, False)
   | Found n \<Rightarrow> (if terminals n \<noteq> {} then (True, False)
                else if children n \<noteq> [] then (True, True) else (False, False)))"

definition insert_package :: "path_resolver \<Rightarrow> owner \<Rightarrow> path list \<Rightarrow> (path_resolver \<times> path list) rust" where
  "insert_package r package paths =
     (if \<not> list_all is_relative paths then Panic
      else
        let pkgs = index_insert package (rv_packages r);
            conflicts = filter (\<lambda>p. fst (path_conflict (rv_root r) p)) paths;
            dir_inserts = filter (\<lambda>p. snd (path_conflict (rv_root r) p)) paths;
            root = fold (insert_file package) paths (rv_root r);
            root = fold (update_node (propagate_prefix package)) dir_inserts root
        in Done (\<lparr>rv_root = root, rv_packages = pkgs\<rparr>, sort (remdups conflicts)))"

definition unregister_package :: "path_resolver \<Rightarrow> owner \<Rightarrow> path_resolver \<times> changes" where
  "unregister_package r package =
     (if package \<notin> set (rv_packages r) then (r, ([], []))
      else
        let candidates = tl (dropWhile (\<lambda>p. p \<noteq> package) (rv_packages r));
            from_clobbers = collect_next_candidate_paths package candidates (rv_root r) [] False
        in (\<lparr>rv_root = prune (rm package (rv_root r)), rv_packages = remove1 package (rv_packages r)\<rparr>,
            ([], from_clobbers)))"

definition reprioritize_packages :: "path_resolver \<Rightarrow> owner list \<Rightarrow> (path_resolver \<times> changes) rust" where
  "reprioritize_packages r new_order =
     (if \<not> (length (rv_packages r) = length new_order \<and> set (rv_packages r) = set new_order) then Panic
      else Done (\<lparr>rv_root = rv_root r, rv_packages = foldl (\<lambda>ps p. index_insert p ps) [] (rev new_order)\<rparr>,
                 reprioritize_dfs (rev (rv_packages r)) new_order (rv_root r) []))"

definition packages_for_prefix :: "path_resolver \<Rightarrow> path \<Rightarrow> owner set option" where
  "packages_for_prefix r path = map_option prefixes (get_node (rv_root r) path)"

definition packages_for_exact :: "path_resolver \<Rightarrow> path \<Rightarrow> owner set option" where
  "packages_for_exact r path = map_option terminals (get_node (rv_root r) path)"

definition find_conflicts :: "path_resolver \<Rightarrow> (path \<times> owner set) list" where
  "find_conflicts r = find_conflicts_dfs (rv_root r) []"

definition collect_clobbered_paths :: "path_resolver \<Rightarrow> (path \<times> clobbered_path) list" where
  "collect_clobbered_paths r = clobbered_paths_dfs (rv_packages r) (rv_root r) []"

section \<open>Invariant\<close>

definition owned :: "path_resolver \<Rightarrow> path \<Rightarrow> owner set" where
  "owned r q = owners_at (rv_root r) q"

definition tags_justified :: "path_trie_node \<Rightarrow> bool" where
  "tags_justified n \<longleftrightarrow> (\<forall>q. \<forall>pkg \<in> tags_at n q. \<exists>f. pkg \<in> owners_at n f \<and> (prefix q f \<or> prefix f q))"

definition resolver_ok :: "path_resolver \<Rightarrow> bool" where
  "resolver_ok r \<longleftrightarrow> node_wf (rv_root r) \<and> node_tight (rv_root r) \<and> distinct (rv_packages r)
     \<and> (\<forall>q. tags_at (rv_root r) q \<subseteq> set (rv_packages r))
     \<and> tags_justified (rv_root r) \<and> owned r [] = {}"

lemma resolver_new_ok: "resolver_ok resolver_new"
  by (simp add: resolver_new_def resolver_ok_def tags_justified_def owned_def) (simp add: empty_node_def)

lemma index_insert_simps: "set (index_insert x xs) = insert x (set xs)" "distinct xs \<Longrightarrow> distinct (index_insert x xs)"
  by (auto simp: index_insert_def)

subsection \<open>Insertion\<close>

lemma fold_insert_owners:
  "owners_at (fold (insert_file pkg) ps n) q = owners_at n q \<union> (if q \<in> set ps then {pkg} else {})"
  by (induction ps arbitrary: n) (auto simp: insert_file_owners)

lemma fold_insert_tags:
  "tags_at (fold (insert_file pkg) ps n) q = tags_at n q \<union> (if \<exists>p \<in> set ps. prefix q p then {pkg} else {})"
  by (induction ps arbitrary: n) (auto simp: insert_file_tags)

lemma fold_insert_wf: "node_wf n \<Longrightarrow> node_wf (fold (insert_file pkg) ps n)"
  "node_tight n \<Longrightarrow> node_tight (fold (insert_file pkg) ps n)"
  by (induction ps arbitrary: n) (auto simp: insert_file_wf insert_file_tight)

lemma fold_propagate:
  assumes "node_wf n" "node_tight n" "\<forall>p \<in> set ps. pkg \<in> tags_at n p"
  shows "node_wf (fold (update_node (propagate_prefix pkg)) ps n)"
    and "node_tight (fold (update_node (propagate_prefix pkg)) ps n)"
    and "owners_at (fold (update_node (propagate_prefix pkg)) ps n) q = owners_at n q"
  using assms
  by (induction ps arbitrary: n)
    (simp_all add: update_propagate_wf update_propagate_tight update_propagate_owners update_propagate_tags)

lemma fold_propagate_tags:
  "x \<in> tags_at (fold (update_node (propagate_prefix pkg)) ps n) q \<Longrightarrow>
     x \<in> tags_at n q \<or> x = pkg \<and> (\<exists>p \<in> set ps. prefix p q)"
proof (induction ps arbitrary: n)
  case (Cons p ps)
  have "x \<in> tags_at (update_node (propagate_prefix pkg) p n) q \<Longrightarrow> x \<in> tags_at n q \<or> x = pkg \<and> prefix p q"
    by (auto simp: update_propagate_tags split: if_splits)
  then show ?case using Cons by fastforce
qed simp

lemma insert_package_ok:
  assumes ok: "resolver_ok r" and rel: "list_all is_relative paths" and ne: "[] \<notin> set paths"
  shows "\<exists>r' cs. insert_package r pkg paths = Done (r', cs) \<and> resolver_ok r'
    \<and> rv_packages r' = index_insert pkg (rv_packages r)
    \<and> (\<forall>q. owned r' q = owned r q \<union> (if q \<in> set paths then {pkg} else {}))"
proof -
  let ?dirs = "filter (\<lambda>p. snd (path_conflict (rv_root r) p)) paths"
  let ?n = "fold (insert_file pkg) paths (rv_root r)"
  let ?m = "fold (update_node (propagate_prefix pkg)) ?dirs ?n"
  let ?r = "\<lparr>rv_root = ?m, rv_packages = index_insert pkg (rv_packages r)\<rparr>"
  have wf: "node_wf (rv_root r)" "node_tight (rv_root r)" "tags_justified (rv_root r)"
    "\<And>q. tags_at (rv_root r) q \<subseteq> set (rv_packages r)"
    using ok by (auto simp: resolver_ok_def)
  have tagged: "\<forall>p \<in> set ?dirs. pkg \<in> tags_at ?n p" by (auto simp: fold_insert_tags)
  note kept = fold_propagate [OF fold_insert_wf(1) [OF wf(1)] fold_insert_wf(2) [OF wf(2)] tagged]
  have own: "owners_at ?m q = owners_at (rv_root r) q \<union> (if q \<in> set paths then {pkg} else {})" for q
    by (simp add: kept(3) fold_insert_owners)
  have tags: "x \<in> tags_at (rv_root r) q \<or> x = pkg \<and> (\<exists>p \<in> set paths. prefix q p \<or> prefix p q)"
    if "x \<in> tags_at ?m q" for x q
    using fold_propagate_tags [OF that] by (auto simp: fold_insert_tags split: if_splits)
  have "tags_justified ?m"
    unfolding tags_justified_def
  proof (intro allI ballI)
    fix q p assume "p \<in> tags_at ?m q"
    then consider "p \<in> tags_at (rv_root r) q" | f where "p = pkg" "f \<in> set paths" "prefix q f \<or> prefix f q"
      using tags by blast
    then show "\<exists>f. p \<in> owners_at ?m f \<and> (prefix q f \<or> prefix f q)"
      using wf(3) by cases (auto simp: own tags_justified_def)
  qed
  moreover have "tags_at ?m q \<subseteq> set (index_insert pkg (rv_packages r))" for q
    using tags [of _ q] wf(4) [of q] unfolding index_insert_simps by blast
  moreover have "owners_at ?m [] = {}" using own [of "[]"] ne ok by (simp add: resolver_ok_def owned_def)
  ultimately have "resolver_ok ?r"
    using ok kept(1,2) by (simp add: resolver_ok_def index_insert_simps owned_def)
  then show ?thesis
    using rel own by (simp add: insert_package_def Let_def owned_def)
qed

text \<open>The reported conflicts: a new path at, below or above a file of the old trie.\<close>

lemma path_conflict_iff:
  assumes ok: "resolver_ok r" and "p \<noteq> []"
  shows "fst (path_conflict (rv_root r) p) \<longleftrightarrow> (\<exists>f. owned r f \<noteq> {} \<and> (prefix f p \<or> prefix p f))"
proof -
  let ?n = "rv_root r"
  have wf: "node_wf ?n" "node_tight ?n" "tags_justified ?n" "owners_at ?n [] = {}"
    using ok by (auto simp: resolver_ok_def owned_def)
  consider (blocked) "scan_path ?n p = Blocked" | (missing) "scan_path ?n p = Missing"
    | (found) m where "scan_path ?n p = Found m" by (cases "scan_path ?n p") auto
  then show ?thesis
  proof cases
    case blocked
    then show ?thesis using scan_path_Blocked [of ?n p]
      by (auto simp: path_conflict_def owned_def strict_prefix_def)
  next
    case missing
    have none: "get_node ?n p = None" and clear: "\<not> (\<exists>q. q \<noteq> [] \<and> strict_prefix q p \<and> owners_at ?n q \<noteq> {})"
      using missing scan_path_Found [of ?n p] scan_path_Blocked [of ?n p] assms(2)
      by (metis option.exhaust scan_result.distinct(3,5), metis scan_result.distinct(3))
    have "owners_at ?n f = {}" if "prefix p f" for f
      using that none by (auto simp: prefix_def owners_at_def get_node_append)
    moreover have "owners_at ?n f = {}" if "strict_prefix f p" for f
      using that clear wf(4) by (cases "f = []") auto
    ultimately show ?thesis using missing by (auto simp: path_conflict_def owned_def strict_prefix_def)
  next
    case found
    then have m: "get_node ?n p = Some m" using scan_path_Found [of ?n p m] by blast
    show ?thesis
    proof (cases "terminals m = {} \<and> children m = []")
      case True
      then have "owners_at ?n f = {}" if "prefix p f" for f
        using that m by (auto simp: prefix_def owners_at_def get_node_append) (case_tac zs; simp)
      moreover have "owners_at ?n f = {}" if "strict_prefix f p" for f
        using that found scan_path_Blocked [of ?n p] wf(4) by (cases "f = []") auto
      ultimately show ?thesis
        using found True by (auto simp: path_conflict_def owned_def strict_prefix_def)
    next
      case False
      have "\<exists>f. owners_at ?n f \<noteq> {} \<and> (prefix f p \<or> prefix p f)"
      proof (cases "terminals m = {}")
        case False
        then show ?thesis using m by (intro exI [of _ p]) (simp add: owners_at_def)
      next
        case True
        then obtain c k where k: "map_of (children m) c = Some k"
          using False by (cases "children m") (force split: if_splits)+
        then have "get_node ?n (p @ [c]) = Some k" using m by (simp add: get_node_append)
        then obtain pkg where "pkg \<in> tags_at ?n (p @ [c])" using get_node_tags [OF wf(2)] by blast
        then obtain f where "pkg \<in> owners_at ?n f" "prefix (p @ [c]) f \<or> prefix f (p @ [c])"
          using wf(3) unfolding tags_justified_def by blast
        then show ?thesis by (metis append_prefixD empty_iff prefix_snoc prefix_order.refl)
      qed
      then show ?thesis using found False by (auto simp: path_conflict_def owned_def)
    qed
  qed
qed

subsection \<open>Removal\<close>

lemma unregister_package_ok:
  assumes ok: "resolver_ok r"
  shows "resolver_ok (fst (unregister_package r pkg))"
    and "rv_packages (fst (unregister_package r pkg)) = remove1 pkg (rv_packages r)"
    and "owned (fst (unregister_package r pkg)) q = owned r q - {pkg}"
proof -
  let ?m = "prune (rm pkg (rv_root r))"
  have wf: "node_wf (rv_root r)" "tags_justified (rv_root r)" "\<And>q. tags_at (rv_root r) q \<subseteq> set (rv_packages r)"
    "distinct (rv_packages r)" "owners_at (rv_root r) [] = {}"
    using ok by (auto simp: resolver_ok_def owned_def)
  have own: "owners_at ?m q = owners_at (rv_root r) q - {pkg}" and tags: "tags_at ?m q = tags_at (rv_root r) q - {pkg}" for q
    using prune_at [OF rm_wf [OF wf(1)]] by (simp_all add: rm_at)
  have "tags_justified ?m" using wf(2) unfolding tags_justified_def own tags by fast
  moreover have "tags_at ?m q \<subseteq> set (remove1 pkg (rv_packages r))" for q
    using wf(3) [of q] wf(4) unfolding tags by auto
  ultimately have new: "resolver_ok \<lparr>rv_root = ?m, rv_packages = remove1 pkg (rv_packages r)\<rparr>"
    using prune_wf_tight [OF rm_wf [OF wf(1)]] wf(4,5) own [of "[]"] by (simp add: resolver_ok_def owned_def)
  have absent: "owners_at (rv_root r) q - {pkg} = owners_at (rv_root r) q" if "pkg \<notin> set (rv_packages r)" for q
    using that wf(3) [of q] owners_at_tags [OF wf(1), of q] by blast
  show "resolver_ok (fst (unregister_package r pkg))"
    using new ok by (simp add: unregister_package_def Let_def)
  show "rv_packages (fst (unregister_package r pkg)) = remove1 pkg (rv_packages r)"
    by (simp add: unregister_package_def Let_def remove1_idem)
  show "owned (fst (unregister_package r pkg)) q = owned r q - {pkg}"
    using own absent by (simp add: unregister_package_def Let_def owned_def)
qed

text \<open>What has to come back from the clobbers directory.\<close>

lemma collect_next_sound:
  assumes "node_wf n" "(q, c) \<in> set (collect_next_candidate_paths pkg cands n path u)"
  shows "\<exists>s. q = path @ s \<and> find (\<lambda>c. c \<in> owners_at n s) cands = Some c"
  using assms
proof (induction n arbitrary: path u rule: path_trie_node_induct)
  case (Node P T C)
  let ?under = "u \<or> pkg \<in> T"
  from Node.prems(2) consider (here) "find (\<lambda>c. c \<in> T) cands = Some c" "q = path"
    | (child) name m where "(name, m) \<in> set C"
        "(q, c) \<in> set (collect_next_candidate_paths pkg cands m (path @ [name]) ?under)"
    by (auto simp: Let_def split: if_splits option.splits)
  then show ?case
  proof cases
    case here
    then show ?thesis by (intro exI [of _ "[]"]) simp
  next
    case child
    have m: "map_of C name = Some m" "node_wf m" using Node.prems(1) child(1) by (auto simp: list_all_iff)
    obtain s where "q = path @ [name] @ s" "find (\<lambda>c. c \<in> owners_at m s) cands = Some c"
      using Node.IH [OF child(1) m(2) child(2)] by auto
    then show ?thesis using m(1) by (intro exI [of _ "name # s"]) simp
  qed
qed

lemma collect_next_complete:
  assumes "node_wf n" "u \<or> (\<exists>f. prefix f s \<and> pkg \<in> owners_at n f)"
    and "find (\<lambda>c. c \<in> owners_at n s) cands = Some c"
  shows "(path @ s, c) \<in> set (collect_next_candidate_paths pkg cands n path u)"
  using assms
proof (induction s arbitrary: n path u)
  case Nil
  then have "u \<or> pkg \<in> terminals n" by auto
  then show ?case using Nil by (cases n) (auto simp: Let_def)
next
  case (Cons name s)
  obtain m where m: "map_of (children n) name = Some m"
    using Cons.prems(3) by (cases "map_of (children n) name") (auto simp: find_Some_iff)
  note wf = node_wf_child [OF Cons.prems(1) m]
  have under: "(u \<or> pkg \<in> terminals n) \<or> (\<exists>f. prefix f s \<and> pkg \<in> owners_at m f)"
    using Cons.prems(2) m by (auto simp: prefix_Cons)
  have rest: "((path @ [name]) @ s, c) \<in> set (collect_next_candidate_paths pkg cands m (path @ [name]) (u \<or> pkg \<in> terminals n))"
    by (rule Cons.IH) (use wf under Cons.prems(3) m in simp_all)
  have "pkg \<in> tags_at n f" if "pkg \<in> owners_at n f" for f using owners_at_tags [OF Cons.prems(1)] that by blast
  then have active: "u \<or> pkg \<in> terminals n \<or> pkg \<in> prefixes n"
    using Cons.prems(2) tags_at_subset [OF Cons.prems(1), of "[]"] by auto
  show ?case
    using rest active map_of_SomeD [OF m] by (cases n) (auto simp: Let_def)
qed

subsection \<open>Changing priorities\<close>

lemma collect_new_winners_prefix: "(q, p) \<in> set (collect_new_winners order n cur) \<Longrightarrow> prefix cur q"
proof (induction n arbitrary: cur rule: path_trie_node_induct)
  case (Node P T C)
  then show ?case
    by (auto split: option.splits if_splits) (meson append_prefixD)
qed

lemma collect_removed_prefix: "(q, p) \<in> set (collect_removed_subtree order n cur) \<Longrightarrow> prefix cur q"
proof (induction n arbitrary: cur rule: path_trie_node_induct)
  case (Node P T C)
  then show ?case
    by (auto split: option.splits if_splits) (meson append_prefixD)+
qed

lemma max_by_rank_None: "max_by_rank order P = None \<Longrightarrow> Q \<subseteq> P \<Longrightarrow> max_by_rank order Q = None"
  by (auto simp: max_by_rank_def find_None_iff)

lemma max_by_rank_Some: "max_by_rank order P = Some p \<Longrightarrow> p \<in> P"
  by (auto simp: max_by_rank_def find_Some_iff)

text \<open>Below a node whose winner is not a file there, the winners of the children are visible.\<close>

lemma collect_new_winners_descend:
  assumes "node_wf (PathTrieNode P T C)" "\<not> is_file_of (max_by_rank order P) T"
  shows "set (collect_new_winners order (PathTrieNode P T C) cur)
    = (\<Union>(name, m) \<in> set C. set (collect_new_winners order m (cur @ [name])))"
proof (cases "max_by_rank order P")
  case None
  have "collect_new_winners order m (cur @ [name]) = []" if "(name, m) \<in> set C" for name m
  proof -
    have "prefixes m \<subseteq> P" using that assms(1) by (auto simp: list_all_iff)
    then have "max_by_rank order (prefixes m) = None" using None max_by_rank_None by blast
    then show ?thesis by (cases m) simp
  qed
  then show ?thesis using None by auto
next
  case (Some p)
  then show ?thesis using assms(2) by (simp add: is_file_of_def case_prod_unfold)
qed

lemma collect_removed_covers:
  assumes "node_wf n"
  shows "set (collect_new_winners order n cur) \<subseteq> set (collect_removed_subtree order n cur)"
  using assms
proof (induction n arbitrary: cur rule: path_trie_node_induct)
  case (Node P T C)
  have child: "set (collect_new_winners order m (cur @ [name])) \<subseteq> set (collect_removed_subtree order m (cur @ [name]))"
    if "(name, m) \<in> set C" for name m
  proof -
    have "node_wf m" using that Node.prems by (auto simp: list_all_iff)
    from Node.IH [OF that this] show ?thesis .
  qed
  then show ?case by (fastforce split: option.splits if_splits)
qed

text \<open>Files below different children of a node have different paths.\<close>

lemma child_paths_disjoint:
  assumes "distinct (map fst C)" "(a, m) \<in> set C" "(b, k) \<in> set C" "prefix (cur @ [a]) q" "prefix (cur @ [b]) q"
  shows "a = b \<and> m = k"
proof -
  have "a = b" using assms(4,5) by (auto simp: prefix_def)
  moreover have "map_of C a = Some m" "map_of C b = Some k" using assms(1-3) by simp_all
  ultimately show ?thesis by simp
qed

lemma reprioritize_dfs_prefix:
  "(q, p) \<in> set (fst (reprioritize_dfs old new n cur)) \<Longrightarrow> prefix cur q"
proof (induction n arbitrary: cur rule: path_trie_node_induct)
  case (Node P T C)
  then show ?case
    using collect_removed_prefix [of q p old "PathTrieNode P T C" cur]
    by (auto simp: Let_def simp del: collect_removed_subtree.simps split: bool.splits if_splits)
      (meson append_prefixD)
qed

text \<open>Moving \<open>to\<close> away and \<open>from\<close> back turns the old layout into the new one.\<close>

definition moves_ok :: "'a set \<Rightarrow> 'a set \<Rightarrow> 'a set \<Rightarrow> 'a set \<Rightarrow> bool" where
  "moves_ok old new to_set from_set \<longleftrightarrow> from_set = new - old \<and> old - new \<subseteq> to_set \<and> to_set \<inter> new = {}"

lemma moves_ok_UN:
  assumes ok: "\<And>i. i \<in> I \<Longrightarrow> moves_ok (A i) (B i) (t i) (f i)"
    and sub: "\<And>i x. i \<in> I \<Longrightarrow> x \<in> A i \<union> B i \<union> t i \<Longrightarrow> D i x"
    and disj: "\<And>i j x. i \<in> I \<Longrightarrow> j \<in> I \<Longrightarrow> D i x \<Longrightarrow> D j x \<Longrightarrow> i = j"
  shows "moves_ok (\<Union>i \<in> I. A i) (\<Union>i \<in> I. B i) (\<Union>i \<in> I. t i) (\<Union>i \<in> I. f i)"
proof -
  have same: "i = j" if "i \<in> I" "j \<in> I" "x \<in> A i \<union> B i \<union> t i" "x \<in> A j \<union> B j \<union> t j" for i j x
    using that sub disj by blast
  have "(\<Union>i \<in> I. f i) = (\<Union>i \<in> I. B i) - (\<Union>i \<in> I. A i)"
    using ok same unfolding moves_ok_def by fast
  moreover have "(\<Union>i \<in> I. A i) - (\<Union>i \<in> I. B i) \<subseteq> (\<Union>i \<in> I. t i)"
    using ok unfolding moves_ok_def by blast
  moreover have "(\<Union>i \<in> I. t i) \<inter> (\<Union>i \<in> I. B i) = {}"
    using ok same unfolding moves_ok_def by fast
  ultimately show ?thesis by (simp add: moves_ok_def)
qed

lemma reprioritize_dfs_moves:
  "node_wf n \<Longrightarrow> moves_ok (set (collect_new_winners old n cur)) (set (collect_new_winners new n cur))
     (set (fst (reprioritize_dfs old new n cur))) (set (snd (reprioritize_dfs old new n cur)))"
proof (induction n arbitrary: cur rule: path_trie_node_induct)
  case (Node P T C)
  let ?n = "PathTrieNode P T C"
  let ?old = "max_by_rank old P" and ?new = "max_by_rank new P"
  have file_here: "set (collect_new_winners order ?n cur) = {(cur, the (max_by_rank order P))}"
    if "is_file_of (max_by_rank order P) T" for order
    using that by (auto simp: is_file_of_def split: option.splits)
  have below: "(cur, p) \<notin> set (collect_new_winners order ?n cur)" if "\<not> is_file_of (max_by_rank order P) T" for order p
    unfolding collect_new_winners_descend [OF Node.prems that]
    using collect_new_winners_prefix by (fastforce simp: prefix_def)
  have removed_below: "(cur, p) \<notin> set (collect_removed_subtree order ?n cur)" if "\<not> is_file_of (max_by_rank order P) T" for order p
    using that collect_removed_prefix by (fastforce simp: prefix_def is_file_of_def split: option.splits)
  consider (ff) "is_file_of ?old T" "is_file_of ?new T" | (df) "\<not> is_file_of ?old T" "is_file_of ?new T"
    | (fd) "is_file_of ?old T" "\<not> is_file_of ?new T" | (dd) "\<not> is_file_of ?old T" "\<not> is_file_of ?new T" by blast
  then show ?case
  proof cases
    case ff
    then have some: "?old = Some (the ?old)" "?new = Some (the ?new)" by (auto simp: is_file_of_def split: option.splits)
    then have eq: "?old = ?new \<longleftrightarrow> the ?old = the ?new" by metis
    show ?thesis
      unfolding file_here [OF ff(1)] file_here [OF ff(2)] using ff by (auto simp: moves_ok_def eq Let_def)
  next
    case df
    have "set (collect_new_winners old ?n cur) \<subseteq> set (collect_removed_subtree old ?n cur)"
      by (rule collect_removed_covers [OF Node.prems])
    then show ?thesis
      unfolding file_here [OF df(2)] moves_ok_def
      using df below [OF df(1)] removed_below [OF df(1)]
      by (auto simp del: collect_new_winners.simps collect_removed_subtree.simps)
  next
    case fd
    then show ?thesis
      unfolding file_here [OF fd(1)] moves_ok_def
      using fd below [OF fd(2)] by (auto simp del: collect_new_winners.simps)
  next
    case dd
    have "moves_ok (\<Union>(name, m) \<in> set C. set (collect_new_winners old m (cur @ [name])))
        (\<Union>(name, m) \<in> set C. set (collect_new_winners new m (cur @ [name])))
        (\<Union>(name, m) \<in> set C. set (fst (reprioritize_dfs old new m (cur @ [name]))))
        (\<Union>(name, m) \<in> set C. set (snd (reprioritize_dfs old new m (cur @ [name]))))"
    proof (rule moves_ok_UN [where D = "\<lambda>(name, m) x. prefix (cur @ [name]) (fst x)"], goal_cases)
      case (1 i)
      moreover obtain name m where i: "i = (name, m)" by (cases i)
      ultimately have "node_wf m" using Node.prems by (auto simp: list_all_iff)
      then show ?case using Node.IH [of name m "cur @ [name]"] 1 i by simp
    next
      case (2 i x)
      then show ?case
        by (cases i; cases x) (auto dest: collect_new_winners_prefix reprioritize_dfs_prefix)
    next
      case (3 i j x)
      then show ?case using child_paths_disjoint [of C _ _ _ _ cur "fst x"] Node.prems by (cases i; cases j) auto
    qed
    moreover have "set (fst (reprioritize_dfs old new ?n cur)) = (\<Union>(name, m) \<in> set C. set (fst (reprioritize_dfs old new m (cur @ [name]))))"
      and "set (snd (reprioritize_dfs old new ?n cur)) = (\<Union>(name, m) \<in> set C. set (snd (reprioritize_dfs old new m (cur @ [name]))))"
      using dd by (simp_all add: case_prod_unfold)
    ultimately show ?thesis
      unfolding collect_new_winners_descend [OF Node.prems dd(1)] collect_new_winners_descend [OF Node.prems dd(2)]
      by simp
  qed
qed

text \<open>The layout a priority order gives: the file at a path is that of the highest package recorded
  there, unless a file of a shorter path is in the way.\<close>

definition file_in :: "owner list \<Rightarrow> path_trie_node \<Rightarrow> path \<Rightarrow> bool" where
  "file_in order n q \<longleftrightarrow> is_file_of (max_by_rank order (tags_at n q)) (owners_at n q)"

definition visible :: "owner list \<Rightarrow> path_trie_node \<Rightarrow> (path \<times> owner) set" where
  "visible order n = {(q, p). max_by_rank order (tags_at n q) = Some p \<and> p \<in> owners_at n q
     \<and> (\<forall>q'. strict_prefix q' q \<longrightarrow> \<not> file_in order n q')}"

lemma file_in_simps:
  "file_in order n [] = is_file_of (max_by_rank order (prefixes n)) (terminals n)"
  "map_of (children n) c = Some m \<Longrightarrow> file_in order n (c # q) = file_in order m q"
  by (simp_all add: file_in_def)

lemma visible_child:
  assumes "map_of (children n) c = Some m"
  shows "(c # s, p) \<in> visible order n \<longleftrightarrow> \<not> file_in order n [] \<and> (s, p) \<in> visible order m"
proof -
  have "(\<forall>q'. strict_prefix q' (c # s) \<longrightarrow> \<not> file_in order n q') \<longleftrightarrow>
      \<not> file_in order n [] \<and> (\<forall>q'. strict_prefix q' s \<longrightarrow> \<not> file_in order m q')" (is "?L \<longleftrightarrow> ?R")
  proof
    assume l: ?L
    have "\<not> file_in order m q'" if "strict_prefix q' s" for q'
      using l that file_in_simps(2) [OF assms] by (metis strict_prefix_simps(3))
    then show ?R using l by (simp add: strict_prefix_def)
  next
    assume r: ?R
    show ?L
    proof (intro allI impI)
      fix q' assume "strict_prefix q' (c # s)"
      then show "\<not> file_in order n q'"
        using r file_in_simps(2) [OF assms] by (cases q') auto
    qed
  qed
  then show ?thesis using assms by (auto simp: visible_def)
qed

lemma collect_new_winners_visible:
  "node_wf n \<Longrightarrow> (q, p) \<in> set (collect_new_winners order n cur) \<longleftrightarrow> (\<exists>s. q = cur @ s \<and> (s, p) \<in> visible order n)"
proof (induction n arbitrary: cur rule: path_trie_node_induct)
  case (Node P T C)
  let ?n = "PathTrieNode P T C"
  show ?case
  proof (cases "is_file_of (max_by_rank order P) T")
    case True
    have "s = []" if "(s, p) \<in> visible order ?n" for s
      using that True file_in_simps(1) [of order ?n] by (cases s) (auto simp: visible_def strict_prefix_def)
    moreover have "([], p) \<in> visible order ?n \<longleftrightarrow> max_by_rank order P = Some p"
      using True by (auto simp: visible_def is_file_of_def)
    ultimately show ?thesis
      using True by (auto simp: is_file_of_def split: option.splits)
  next
    case False
    have nil: "([], p) \<notin> visible order ?n" using False by (auto simp: visible_def is_file_of_def)
    have wf: "map_of C c = Some m \<and> node_wf m" if "(c, m) \<in> set C" for c m
      using Node.prems that by (auto simp: list_all_iff)
    have child: "(c # s, p) \<in> visible order ?n \<longleftrightarrow> (s, p) \<in> visible order m" if "map_of C c = Some m" for c s m
      using visible_child [of ?n c m s p order] that False by (simp add: file_in_simps)
    have missing: "(c # s, p) \<notin> visible order ?n" if "map_of C c = None" for c s
      using that by (simp add: visible_def)
    have "(q, p) \<in> set (collect_new_winners order ?n cur) \<longleftrightarrow>
        (\<exists>c m s. (c, m) \<in> set C \<and> q = cur @ [c] @ s \<and> (s, p) \<in> visible order m)"
      unfolding collect_new_winners_descend [OF Node.prems False] using Node.IH wf by fastforce
    also have "\<dots> \<longleftrightarrow> (\<exists>c s. q = cur @ [c] @ s \<and> (c # s, p) \<in> visible order ?n)"
      using wf child missing by (metis map_of_SomeD option.exhaust)
    also have "\<dots> \<longleftrightarrow> (\<exists>s. q = cur @ s \<and> (s, p) \<in> visible order ?n)"
      using nil by (metis append_Cons append_Nil neq_Nil_conv)
    finally show ?thesis .
  qed
qed

lemma reprioritize_packages_spec:
  assumes ok: "resolver_ok r" and perm: "length (rv_packages r) = length new_order" "set (rv_packages r) = set new_order"
  shows "\<exists>r' to_clobbers from_clobbers. reprioritize_packages r new_order = Done (r', (to_clobbers, from_clobbers))
    \<and> resolver_ok r' \<and> rv_packages r' = rev new_order \<and> rv_root r' = rv_root r
    \<and> moves_ok (visible (rev (rv_packages r)) (rv_root r)) (visible new_order (rv_root r))
        (set to_clobbers) (set from_clobbers)"
proof -
  have d: "distinct new_order"
    using ok perm by (metis card_distinct distinct_card resolver_ok_def)
  have "foldl (\<lambda>ps p. index_insert p ps) acc xs = acc @ xs" if "distinct (acc @ xs)" for acc xs :: "owner list"
    using that by (induction xs arbitrary: acc) (auto simp: index_insert_def)
  then have pk: "foldl (\<lambda>ps p. index_insert p ps) [] (rev new_order) = rev new_order" using d by simp
  have wf: "node_wf (rv_root r)" using ok by (simp add: resolver_ok_def)
  have vis: "set (collect_new_winners order (rv_root r) []) = visible order (rv_root r)" for order
    using collect_new_winners_visible [OF wf, of _ _ order "[]"] by auto
  have "resolver_ok \<lparr>rv_root = rv_root r, rv_packages = rev new_order\<rparr>"
    using ok d perm by (simp add: resolver_ok_def owned_def)
  then show ?thesis
    using perm reprioritize_dfs_moves [OF wf, of "rev (rv_packages r)" "[]" new_order]
    by (cases "reprioritize_dfs (rev (rv_packages r)) new_order (rv_root r) []")
      (simp add: reprioritize_packages_def pk vis)
qed

subsection \<open>Reports\<close>

text \<open>A recursive collection over the trie visits exactly the nodes \<open>get_node\<close> reaches.\<close>

lemma collect_dfs:
  assumes unfold: "\<And>P T C cur. f (PathTrieNode P T C) cur =
      g (PathTrieNode P T C) cur @ concat (map (\<lambda>(name, child). f child (cur @ [name])) C)"
    and wf: "node_wf n"
  shows "x \<in> set (f n cur) \<longleftrightarrow> (\<exists>s m. get_node n s = Some m \<and> x \<in> set (g m (cur @ s)))"
  using wf
proof (induction n arbitrary: cur rule: path_trie_node_induct)
  case (Node P T C)
  have wf: "map_of C c = Some m \<and> node_wf m" if "(c, m) \<in> set C" for c m
    using Node.prems that by (auto simp: list_all_iff)
  have "x \<in> set (f (PathTrieNode P T C) cur) \<longleftrightarrow> x \<in> set (g (PathTrieNode P T C) cur)
      \<or> (\<exists>c m. (c, m) \<in> set C \<and> x \<in> set (f m (cur @ [c])))"
    unfolding unfold by auto
  also have "\<dots> \<longleftrightarrow> x \<in> set (g (PathTrieNode P T C) cur)
      \<or> (\<exists>c s k. get_node (PathTrieNode P T C) (c # s) = Some k \<and> x \<in> set (g k (cur @ c # s)))"
    using Node.IH wf by (fastforce split: option.splits dest: map_of_SomeD)
  also have "\<dots> \<longleftrightarrow> (\<exists>s m. get_node (PathTrieNode P T C) s = Some m \<and> x \<in> set (g m (cur @ s)))"
    by (metis append_Nil2 get_node.simps(1) neq_Nil_conv option.inject)
  finally show ?case .
qed

lemma find_conflicts_iff:
  assumes "resolver_ok r"
  shows "(q, S) \<in> set (find_conflicts r) \<longleftrightarrow> card S > 1 \<and> S = owned r q"
proof -
  have wf: "node_wf (rv_root r)" using assms by (simp add: resolver_ok_def)
  have "(q, S) \<in> set (find_conflicts r) \<longleftrightarrow> (\<exists>s m. get_node (rv_root r) s = Some m
      \<and> (q, S) \<in> set (if card (terminals m) > 1 then [([] @ s, terminals m)] else []))"
    unfolding find_conflicts_def
    by (rule collect_dfs [where g = "\<lambda>m cur. if card (terminals m) > 1 then [(cur, terminals m)] else []", OF _ wf]) simp
  also have "\<dots> \<longleftrightarrow> card S > 1 \<and> S = owned r q"
    by (auto simp: owned_def owners_at_def split: option.splits if_splits)
  finally show ?thesis .
qed

definition clobber_entry :: "owner list \<Rightarrow> owner set \<Rightarrow> path \<Rightarrow> (path \<times> clobbered_path) list" where
  "clobber_entry pkgs T cur = (case find (\<lambda>p. p \<in> T) pkgs of
     Some w \<Rightarrow> if T - {w} \<noteq> {} then [(cur, \<lparr>cp_winner = w, cp_losers = T - {w}\<rparr>)] else []
   | None \<Rightarrow> [])"

lemma clobbered_paths_dfs_unfold:
  "clobbered_paths_dfs pkgs (PathTrieNode P T C) cur = clobber_entry pkgs (terminals (PathTrieNode P T C)) cur
     @ concat (map (\<lambda>(name, child). clobbered_paths_dfs pkgs child (cur @ [name])) C)"
proof (cases "find (\<lambda>p. p \<in> T) pkgs")
  case None
  then show ?thesis by (simp add: clobber_entry_def)
next
  case (Some w)
  then have "T \<noteq> {}" by (auto simp: find_Some_iff)
  then show ?thesis using Some by (simp add: clobber_entry_def Let_def)
qed

lemma clobber_entry_iff:
  "(q, cp) \<in> set (clobber_entry pkgs T cur) \<longleftrightarrow> q = cur \<and> find (\<lambda>p. p \<in> T) pkgs = Some (cp_winner cp)
     \<and> cp_losers cp = T - {cp_winner cp} \<and> cp_losers cp \<noteq> {}"
proof (cases "find (\<lambda>p. p \<in> T) pkgs")
  case None
  then show ?thesis by (simp add: clobber_entry_def)
next
  case (Some w)
  have "cp = \<lparr>cp_winner = w, cp_losers = T - {w}\<rparr> \<longleftrightarrow> cp_winner cp = w \<and> cp_losers cp = T - {w}"
    by (cases cp) simp
  then have "(q, cp) \<in> set (clobber_entry pkgs T cur) \<longleftrightarrow>
      q = cur \<and> cp_winner cp = w \<and> cp_losers cp = T - {w} \<and> T - {w} \<noteq> {}"
    using Some by (simp add: clobber_entry_def)
  then show ?thesis unfolding Some option.inject by metis
qed

lemma collect_clobbered_paths_iff:
  assumes "resolver_ok r"
  shows "(q, cp) \<in> set (collect_clobbered_paths r) \<longleftrightarrow>
    find (\<lambda>p. p \<in> owned r q) (rv_packages r) = Some (cp_winner cp)
    \<and> cp_losers cp = owned r q - {cp_winner cp} \<and> cp_losers cp \<noteq> {}"
proof -
  have wf: "node_wf (rv_root r)" using assms by (simp add: resolver_ok_def)
  have "(q, cp) \<in> set (collect_clobbered_paths r) \<longleftrightarrow> (\<exists>s m. get_node (rv_root r) s = Some m
      \<and> (q, cp) \<in> set (clobber_entry (rv_packages r) (terminals m) ([] @ s)))"
    unfolding collect_clobbered_paths_def by (rule collect_dfs [OF clobbered_paths_dfs_unfold wf])
  also have "\<dots> \<longleftrightarrow> (\<exists>m. get_node (rv_root r) q = Some m
      \<and> (q, cp) \<in> set (clobber_entry (rv_packages r) (terminals m) q))"
    unfolding clobber_entry_iff by auto
  also have "\<dots> \<longleftrightarrow> find (\<lambda>p. p \<in> owned r q) (rv_packages r) = Some (cp_winner cp)
      \<and> cp_losers cp = owned r q - {cp_winner cp} \<and> cp_losers cp \<noteq> {}"
    unfolding clobber_entry_iff owned_def owners_at_def
    by (cases "get_node (rv_root r) q") simp_all
  finally show ?thesis .
qed

section \<open>The interface other components rely on\<close>

text \<open>
  What a user of the resolver relies on: registering and unregistering keep the invariant, change the
  owners of exactly the given paths, and report conflicts only for registered paths that touch a file
  that was there before.
\<close>

definition paths_valid :: "path list \<Rightarrow> bool" where
  "paths_valid paths \<longleftrightarrow> list_all is_relative paths \<and> [] \<notin> set paths"

locale ownership_registry =
  fixes inv :: "'s \<Rightarrow> bool"
    and owners :: "'s \<Rightarrow> path \<Rightarrow> owner set"
    and names :: "'s \<Rightarrow> owner list"
    and register :: "'s \<Rightarrow> owner \<Rightarrow> path list \<Rightarrow> ('s \<times> path list) rust"
    and unregister :: "'s \<Rightarrow> owner \<Rightarrow> 's \<times> changes"
  assumes register_law: "inv s \<Longrightarrow> paths_valid paths \<Longrightarrow> \<exists>s' cs. register s pkg paths = Done (s', cs) \<and> inv s'
      \<and> names s' = index_insert pkg (names s)
      \<and> (\<forall>q. owners s' q = owners s q \<union> (if q \<in> set paths then {pkg} else {}))
      \<and> set cs = {p \<in> set paths. \<exists>f. owners s f \<noteq> {} \<and> (prefix f p \<or> prefix p f)}"
    and unregister_law: "inv s \<Longrightarrow> inv (fst (unregister s pkg)) \<and> names (fst (unregister s pkg)) = remove1 pkg (names s)
      \<and> (\<forall>q. owners (fst (unregister s pkg)) q = owners s q - {pkg})"
    and names_law: "inv s \<Longrightarrow> distinct (names s) \<and> owners s q \<subseteq> set (names s)"
begin

fun register_all :: "'s \<Rightarrow> (owner \<times> path list) list \<Rightarrow> 's rust" where
  "register_all s [] = Done s"
| "register_all s ((pkg, paths) # rest) = rust_bind (register s pkg paths) (\<lambda>(s', cs). register_all s' rest)"

lemma register_all_owners:
  assumes "inv s" "\<forall>(pkg, paths) \<in> set ps. paths_valid paths"
  shows "\<exists>s'. register_all s ps = Done s' \<and> inv s'
    \<and> (\<forall>q. owners s' q = owners s q \<union> {pkg. \<exists>paths. (pkg, paths) \<in> set ps \<and> q \<in> set paths})
    \<and> set (names s') = set (names s) \<union> fst ` set ps"
  using assms
proof (induction ps arbitrary: s)
  case (Cons x ps)
  obtain pkg paths where x: "x = (pkg, paths)" by (cases x)
  then obtain s1 cs where s1: "register s pkg paths = Done (s1, cs)" "inv s1"
    "names s1 = index_insert pkg (names s)" "\<forall>q. owners s1 q = owners s q \<union> (if q \<in> set paths then {pkg} else {})"
    using register_law [of s paths pkg] Cons.prems by auto
  obtain s' where s': "register_all s1 ps = Done s'" "inv s'"
    "\<forall>q. owners s' q = owners s1 q \<union> {pkg. \<exists>paths. (pkg, paths) \<in> set ps \<and> q \<in> set paths}"
    "set (names s') = set (names s1) \<union> fst ` set ps"
    using Cons.IH [OF s1(2)] Cons.prems(2) by auto
  have "owners s' q = owners s q \<union> {p. \<exists>ps'. (p, ps') \<in> set (x # ps) \<and> q \<in> set ps'}" for q
    using s'(3) s1(4) x by (auto split: if_splits)
  moreover have "set (names s') = set (names s) \<union> fst ` set (x # ps)"
    using s'(4) s1(3) x by (auto simp: index_insert_simps)
  ultimately show ?case using s' s1 x by simp
qed simp

text \<open>Registering a package and taking it back changes no other ownership.\<close>

lemma register_unregister:
  assumes "inv s" "paths_valid paths" "pkg \<notin> set (names s)" "register s pkg paths = Done (s1, cs)"
  shows "owners (fst (unregister s1 pkg)) q = owners s q" "names (fst (unregister s1 pkg)) = names s"
proof -
  have s1: "inv s1" "names s1 = names s @ [pkg]" "owners s1 q = owners s q \<union> (if q \<in> set paths then {pkg} else {})"
    using register_law [OF assms(1,2), of pkg] assms(3,4) by (auto simp: index_insert_def)
  have "pkg \<notin> owners s q" using names_law [OF assms(1), of q] assms(3) by blast
  then show "owners (fst (unregister s1 pkg)) q = owners s q"
    using unregister_law [OF s1(1), of pkg] s1(3) by (auto split: if_splits)
  show "names (fst (unregister s1 pkg)) = names s"
    using unregister_law [OF s1(1), of pkg] s1(2) assms(3) by (simp add: remove1_append remove1_idem)
qed

end

lemma insert_package_conflicts:
  assumes ok: "resolver_ok r" and "paths_valid paths" and ins: "insert_package r pkg paths = Done (r', cs)"
  shows "set cs = {p \<in> set paths. \<exists>f. owned r f \<noteq> {} \<and> (prefix f p \<or> prefix p f)}" "sorted cs" "distinct cs"
proof -
  have cs: "cs = sort (remdups (filter (\<lambda>p. fst (path_conflict (rv_root r) p)) paths))"
    using ins assms(2) by (auto simp: insert_package_def paths_valid_def Let_def split: if_splits)
  then show "sorted cs" "distinct cs" by simp_all
  have "p \<noteq> []" if "p \<in> set paths" for p using that assms(2) by (auto simp: paths_valid_def)
  then show "set cs = {p \<in> set paths. \<exists>f. owned r f \<noteq> {} \<and> (prefix f p \<or> prefix p f)}"
    using path_conflict_iff [OF ok] unfolding cs by auto
qed

lemma owned_names:
  assumes "resolver_ok r"
  shows "distinct (rv_packages r) \<and> owned r q \<subseteq> set (rv_packages r)"
proof -
  have "owners_at (rv_root r) q \<subseteq> tags_at (rv_root r) q" "tags_at (rv_root r) q \<subseteq> set (rv_packages r)"
    using assms owners_at_tags [of "rv_root r" q] by (simp_all add: resolver_ok_def)
  then show ?thesis using assms by (auto simp: resolver_ok_def owned_def)
qed

interpretation trie: ownership_registry resolver_ok owned rv_packages insert_package unregister_package
proof unfold_locales
  fix s paths pkg assume ok: "resolver_ok s" "paths_valid paths"
  then obtain r' cs where r': "insert_package s pkg paths = Done (r', cs)" "resolver_ok r'"
    "rv_packages r' = index_insert pkg (rv_packages s)"
    "\<forall>q. owned r' q = owned s q \<union> (if q \<in> set paths then {pkg} else {})"
    using insert_package_ok [of s paths pkg] by (auto simp: paths_valid_def)
  then show "\<exists>s' cs. insert_package s pkg paths = Done (s', cs) \<and> resolver_ok s'
      \<and> rv_packages s' = index_insert pkg (rv_packages s)
      \<and> (\<forall>q. owned s' q = owned s q \<union> (if q \<in> set paths then {pkg} else {}))
      \<and> set cs = {p \<in> set paths. \<exists>f. owned s f \<noteq> {} \<and> (prefix f p \<or> prefix p f)}"
    using insert_package_conflicts(1) [OF ok r'(1)] by blast
qed (simp_all add: unregister_package_ok owned_names)

section \<open>Properties\<close>

text \<open>\<open>b\<close> owns \<open>d/x\<close>.\<close>

definition sample_resolver :: path_resolver where
  "sample_resolver = (case insert_package resolver_new ''b'' [[''d'', ''x'']] of Done (r, _) \<Rightarrow> r | Panic \<Rightarrow> resolver_new)"

lemma sample_resolver_ok:
  "resolver_ok sample_resolver" "rv_packages sample_resolver = [''b'']"
  "owned sample_resolver q = (if q = [''d'', ''x''] then {''b''} else {})"
proof -
  have "paths_valid [[''d'', ''x'']]" by code_simp
  from trie.register_law [OF resolver_new_ok this, of "''b''"] obtain r cs where
    r: "insert_package resolver_new ''b'' [[''d'', ''x'']] = Done (r, cs)" "resolver_ok r"
    "rv_packages r = index_insert ''b'' (rv_packages resolver_new)"
    "\<forall>q. owned r q = owned resolver_new q \<union> (if q \<in> set [[''d'', ''x'']] then {''b''} else {})" by blast
  then show "resolver_ok sample_resolver" "rv_packages sample_resolver = [''b'']"
    "owned sample_resolver q = (if q = [''d'', ''x''] then {''b''} else {})"
    by (simp_all add: sample_resolver_def resolver_new_def index_insert_def owned_def)
qed

text \<open>Both \<open>b\<close> and \<open>c\<close> own \<open>d/x\<close>.\<close>

definition sample_clobbered :: path_resolver where
  "sample_clobbered = (case insert_package sample_resolver ''c'' [[''d'', ''x'']] of Done (r, _) \<Rightarrow> r | Panic \<Rightarrow> resolver_new)"

lemma sample_clobbered_ok:
  "resolver_ok sample_clobbered" "rv_packages sample_clobbered = [''b'', ''c'']"
  "owned sample_clobbered [''d'', ''x''] = {''b'', ''c''}"
proof -
  have "paths_valid [[''d'', ''x'']]" by code_simp
  from trie.register_law [OF sample_resolver_ok(1) this, of "''c''"] obtain r cs where
    r: "insert_package sample_resolver ''c'' [[''d'', ''x'']] = Done (r, cs)" "resolver_ok r"
    "rv_packages r = index_insert ''c'' (rv_packages sample_resolver)"
    "\<forall>q. owned r q = owned sample_resolver q \<union> (if q \<in> set [[''d'', ''x'']] then {''c''} else {})" by blast
  then show "resolver_ok sample_clobbered" "rv_packages sample_clobbered = [''b'', ''c'']"
    "owned sample_clobbered [''d'', ''x''] = {''b'', ''c''}"
    by (simp_all add: sample_clobbered_def sample_resolver_ok index_insert_def insert_commute)
qed

text \<open>
  C5. For a well-formed resolver and paths that are all relative and not empty, registering the files of a package
  returns (an absolute path would panic), keeps the invariant, adds the package behind the known ones unless it is
  one of them, makes the package an owner of exactly those paths, and reports exactly the paths that are at, below
  or above a file of the trie before the call, in order and without repetition.
\<close>

theorem insert_package_contract:
  assumes "resolver_ok r" "paths_valid paths"
  shows "\<exists>r' conflicts. insert_package r pkg paths = Done (r', conflicts) \<and> resolver_ok r'
    \<and> rv_packages r' = index_insert pkg (rv_packages r)
    \<and> (\<forall>q. owned r' q = owned r q \<union> (if q \<in> set paths then {pkg} else {}))
    \<and> set conflicts = {p \<in> set paths. \<exists>f. owned r f \<noteq> {} \<and> (prefix f p \<or> prefix p f)}
    \<and> sorted conflicts \<and> distinct conflicts"
proof -
  obtain r' cs where r': "insert_package r pkg paths = Done (r', cs)" "resolver_ok r'"
    "rv_packages r' = index_insert pkg (rv_packages r)"
    "\<forall>q. owned r' q = owned r q \<union> (if q \<in> set paths then {pkg} else {})"
    "set cs = {p \<in> set paths. \<exists>f. owned r f \<noteq> {} \<and> (prefix f p \<or> prefix p f)}"
    using trie.register_law [OF assms, of pkg] by (elim exE conjE)
  show ?thesis
    by (rule exI [of _ r'], rule exI [of _ cs]) (intro conjI r' insert_package_conflicts(2,3) [OF assms r'(1)])
qed

theorem insert_package_contract_witness:
  "\<exists>r' conflicts. insert_package sample_resolver ''c'' [[''e''], [''d'']] = Done (r', conflicts) \<and> resolver_ok r'
    \<and> set conflicts = {[''d'']}"
proof -
  have valid: "paths_valid [[''e''], [''d'']]" by code_simp
  have touch: "(\<exists>f. owned sample_resolver f \<noteq> {} \<and> (prefix f p \<or> prefix p f)) \<longleftrightarrow>
      prefix [''d'', ''x''] p \<or> prefix p [''d'', ''x'']" for p
    unfolding sample_resolver_ok(3) by (metis empty_not_insert)
  have eval: "{p \<in> set [[''e''], [''d'']]. prefix [''d'', ''x''] p \<or> prefix p [''d'', ''x'']} = {[''d'']}"
    by code_simp
  from insert_package_contract [OF sample_resolver_ok(1) valid, of "''c''", unfolded touch eval]
  show ?thesis by (elim exE conjE) (intro exI conjI; assumption)
qed

text \<open>
  C6. Changing the priorities of the registered packages returns the moves that turn the file layout of
  the old order into the layout of the new order: the files to bring back are exactly those visible
  only in the new layout, the files to move away include all visible only in the old one and none
  visible in the new one. Anything but a reordering panics.
\<close>

theorem reprioritize_packages_contract:
  assumes "resolver_ok r"
  shows "if length (rv_packages r) = length new_order \<and> set (rv_packages r) = set new_order
    then \<exists>r' to_clobbers from_clobbers. reprioritize_packages r new_order = Done (r', (to_clobbers, from_clobbers))
      \<and> resolver_ok r' \<and> rv_packages r' = rev new_order \<and> rv_root r' = rv_root r
      \<and> set from_clobbers = visible new_order (rv_root r) - visible (rev (rv_packages r)) (rv_root r)
      \<and> visible (rev (rv_packages r)) (rv_root r) - visible new_order (rv_root r) \<subseteq> set to_clobbers
      \<and> set to_clobbers \<inter> visible new_order (rv_root r) = {}
    else reprioritize_packages r new_order = Panic"
proof (cases "length (rv_packages r) = length new_order \<and> set (rv_packages r) = set new_order")
  case True
  then show ?thesis using reprioritize_packages_spec [OF assms, of new_order] by (simp add: moves_ok_def)
next
  case False
  then have "reprioritize_packages r new_order = Panic" unfolding reprioritize_packages_def by (simp only: if_True not_False_eq_True)
  then show ?thesis unfolding if_not_P [OF False] .
qed

theorem reprioritize_packages_contract_witness:
  "\<exists>r' to_clobbers from_clobbers. reprioritize_packages sample_resolver [''b''] = Done (r', (to_clobbers, from_clobbers))
     \<and> resolver_ok r'"
  using reprioritize_packages_contract [OF sample_resolver_ok(1), of "[''b'']"] by (auto simp: sample_resolver_ok(2))

text \<open>
  C12. Unregistering a package keeps the invariant, removes it from the priorities and from the owners
  of every path, and changes no other ownership.
\<close>

theorem unregister_package_contract:
  assumes "resolver_ok r"
  shows "resolver_ok (fst (unregister_package r pkg))
    \<and> rv_packages (fst (unregister_package r pkg)) = remove1 pkg (rv_packages r)
    \<and> (\<forall>q. owned (fst (unregister_package r pkg)) q = owned r q - {pkg})"
  using unregister_package_ok [OF assms] by blast

theorem unregister_package_contract_witness:
  "resolver_ok (fst (unregister_package sample_resolver ''b'')) \<and> rv_packages (fst (unregister_package sample_resolver ''b'')) = []"
  using unregister_package_contract [OF sample_resolver_ok(1), of "''b''"] by (simp add: sample_resolver_ok(2))

text \<open>
  What unregistering reports to bring back: every entry is the file of the highest package after
  the removed one that owns the path, and every such file at or below a file of the removed package is
  reported.
\<close>

theorem unregister_package_candidates:
  assumes "resolver_ok r" "pkg \<in> set (rv_packages r)"
  defines "after \<equiv> tl (dropWhile (\<lambda>p. p \<noteq> pkg) (rv_packages r))"
  shows "((q, c) \<in> set (snd (snd (unregister_package r pkg))) \<longrightarrow> find (\<lambda>c. c \<in> owned r q) after = Some c)
    \<and> (find (\<lambda>c. c \<in> owned r q) after = Some c \<and> prefix f q \<and> pkg \<in> owned r f
       \<longrightarrow> (q, c) \<in> set (snd (snd (unregister_package r pkg))))"
proof -
  have wf: "node_wf (rv_root r)" using assms(1) by (simp add: resolver_ok_def)
  have out: "snd (snd (unregister_package r pkg)) = collect_next_candidate_paths pkg after (rv_root r) [] False"
    using assms(2) by (simp add: unregister_package_def Let_def after_def)
  show ?thesis
    unfolding out owned_def
    using collect_next_sound [OF wf, of q c pkg after "[]" False]
      collect_next_complete [OF wf, of False q pkg after c "[]"] by auto
qed

theorem unregister_package_candidates_witness:
  "([''d'', ''x''], ''c'') \<in> set (snd (snd (unregister_package sample_clobbered ''b'')))"
  using unregister_package_candidates [OF sample_clobbered_ok(1), of "''b''" "[''d'', ''x'']" "''c''" "[''d'', ''x'']"]
  by (simp add: sample_clobbered_ok)

text \<open>
  C13. The clobbered paths are exactly the paths with several owners; the winner is the owner with the
  highest priority and the losers are all others.
\<close>

theorem clobbered_paths_contract:
  assumes "resolver_ok r"
  shows "((q, cp) \<in> set (collect_clobbered_paths r) \<longleftrightarrow>
      find (\<lambda>p. p \<in> owned r q) (rv_packages r) = Some (cp_winner cp)
      \<and> cp_losers cp = owned r q - {cp_winner cp} \<and> cp_losers cp \<noteq> {})
    \<and> ((q, S) \<in> set (find_conflicts r) \<longleftrightarrow> card S > 1 \<and> S = owned r q)"
  using collect_clobbered_paths_iff [OF assms] find_conflicts_iff [OF assms] by blast

theorem clobbered_paths_contract_witness:
  "([''d'', ''x''], \<lparr>cp_winner = ''b'', cp_losers = {''c''}\<rparr>) \<in> set (collect_clobbered_paths sample_clobbered)"
proof -
  have "owned sample_clobbered [''d'', ''x''] - {''b''} = {''c''}" by (auto simp: sample_clobbered_ok)
  then show ?thesis
    using clobbered_paths_contract [OF sample_clobbered_ok(1), of "[''d'', ''x'']" "\<lparr>cp_winner = ''b'', cp_losers = {''c''}\<rparr>"]
    by (simp add: sample_clobbered_ok)
qed

text \<open>
  Registering several packages one after the other returns and records exactly the given
  ownership; registering a new package and taking it back restores every owner and the priorities.
\<close>

theorem register_packages_contract:
  assumes "resolver_ok r" "\<forall>(pkg, paths) \<in> set ps. paths_valid paths"
  shows "\<exists>r'. trie.register_all r ps = Done r' \<and> resolver_ok r'
    \<and> (\<forall>q. owned r' q = owned r q \<union> {pkg. \<exists>paths. (pkg, paths) \<in> set ps \<and> q \<in> set paths})
    \<and> (\<forall>pkg paths r2 cs. pkg \<notin> set (rv_packages r') \<and> paths_valid paths \<and> insert_package r' pkg paths = Done (r2, cs)
        \<longrightarrow> (\<forall>q. owned (fst (unregister_package r2 pkg)) q = owned r' q) \<and> rv_packages (fst (unregister_package r2 pkg)) = rv_packages r')"
  using trie.register_all_owners [OF assms] trie.register_unregister by meson

theorem register_packages_contract_witness:
  "\<exists>r'. trie.register_all resolver_new [(''b'', [[''d'', ''x'']]), (''c'', [[''e'']])] = Done r' \<and> resolver_ok r'"
proof -
  have "paths_valid [[''d'', ''x'']]" "paths_valid [[''e'']]" by code_simp+
  then show ?thesis
    using register_packages_contract [OF resolver_new_ok, of "[(''b'', [[''d'', ''x'']]), (''c'', [[''e'']])]"] by auto
qed

end
