(* ===== verification/Topological_Order.thy ===== *)
theory Topological_Order
  imports Topological_Sort "HOL-Library.Multiset"
begin

text \<open>
  Correctness of \<open>sort_topologically\<close>: the search for cycles returns and reports only real cycles,
  breaking them cannot hit a missing package, the result is a permutation of the packages, and every
  dependency edge of an acyclic graph is respected.
\<close>

section \<open>The dependency graph\<close>

definition dep_edge :: "packages \<Rightarrow> string \<Rightarrow> string \<Rightarrow> bool" where
  "dep_edge pkgs a b \<longleftrightarrow> (\<exists>p. map_of pkgs a = Some p \<and> b \<in> set (dep_names p))"

definition cycle_ok :: "packages \<Rightarrow> string list \<Rightarrow> bool" where
  "cycle_ok pkgs c \<longleftrightarrow> c \<noteq> [] \<and> set c \<subseteq> keys pkgs \<and> successively (dep_edge pkgs) c \<and> dep_edge pkgs (last c) (hd c)"

lemma dep_edge_key: "dep_edge pkgs a b \<Longrightarrow> a \<in> keys pkgs"
  by (auto simp: dep_edge_def dest: map_of_key)

section \<open>The search for cycles\<close>

definition dfs_inv :: "packages \<Rightarrow> dfs_state \<Rightarrow> bool" where
  "dfs_inv pkgs st \<longleftrightarrow> distinct (ds_path st) \<and> set (ds_path st) \<subseteq> keys pkgs
     \<and> successively (dep_edge pkgs) (ds_path st) \<and> (\<forall>c \<in> set (ds_cycles st). cycle_ok pkgs c)"

lemma dfs_inv_length: "dfs_inv pkgs st \<Longrightarrow> length (ds_path st) \<le> length pkgs"
proof -
  assume inv: "dfs_inv pkgs st"
  have "length (ds_path st) = card (set (ds_path st))" using inv by (simp add: dfs_inv_def distinct_card)
  also have "\<dots> \<le> card (keys pkgs)" using inv by (intro card_mono) (auto simp: dfs_inv_def)
  also have "\<dots> \<le> length pkgs" using card_image_le [of "set pkgs" fst] card_length [of pkgs] by simp
  finally show ?thesis .
qed

lemma fold_option_spec:
  assumes "\<And>x s. x \<in> set xs \<Longrightarrow> P s \<Longrightarrow> \<exists>s'. f x s = Some s' \<and> P s'" and "P s"
  shows "\<exists>s'. fold_option f xs s = Some s' \<and> P s'"
  using assms
proof (induction xs arbitrary: s)
  case (Cons x xs)
  obtain s' where "f x s = Some s'" "P s'" using Cons.prems by (meson list.set_intros(1))
  then show ?case using Cons by auto
qed auto

lemma successively_snoc: "successively P (xs @ [x]) \<longleftrightarrow> successively P xs \<and> (xs \<noteq> [] \<longrightarrow> P (last xs) x)"
  by (auto simp: successively_append_iff)

lemma dfs_cycle_ok:
  assumes inv: "dfs_inv pkgs st" and node: "node \<in> set (ds_path st)" and e: "dep_edge pkgs (last (ds_path st)) node"
  shows "cycle_ok pkgs (dropWhile (\<lambda>x. x \<noteq> node) (ds_path st))"
proof -
  obtain xs ys where path: "ds_path st = xs @ node # ys" and "node \<notin> set xs" using node by (meson split_list_first)
  then have "dropWhile (\<lambda>x. x \<noteq> node) (ds_path st) = node # ys"
    by (auto simp: dropWhile_append)
  then show ?thesis using inv e by (auto simp: cycle_ok_def dfs_inv_def path successively_append_iff)
qed

lemma dfs_spec:
  assumes "length pkgs < fuel + length (ds_path st)" and "dfs_inv pkgs st"
    and "ds_path st \<noteq> [] \<longrightarrow> dep_edge pkgs (last (ds_path st)) node"
  shows "\<exists>st'. dfs fuel pkgs node st = Some st' \<and> dfs_inv pkgs st' \<and> ds_path st' = ds_path st"
  using assms
proof (induction fuel arbitrary: node st)
  case 0
  then show ?case using dfs_inv_length [of pkgs st] by simp
next
  case (Suc fuel)
  note inv = Suc.prems(2)
  let ?st = "st\<lparr>ds_visited := insert node (ds_visited st), ds_path := ds_path st @ [node]\<rparr>"
  consider (cycle) "node \<in> set (ds_path st)" | (seen) "node \<notin> set (ds_path st)" "node \<in> ds_visited st"
    | (virtual) "node \<notin> set (ds_path st)" "node \<notin> ds_visited st" "map_of pkgs node = None"
    | (new) p where "node \<notin> set (ds_path st)" "node \<notin> ds_visited st" "map_of pkgs node = Some p"
    by fastforce
  then show ?case
  proof cases
    case cycle
    then have "cycle_ok pkgs (dropWhile (\<lambda>x. x \<noteq> node) (ds_path st))"
      using dfs_cycle_ok [OF inv] Suc.prems(3) by (metis empty_iff empty_set)
    then show ?thesis using cycle inv by (simp add: dfs_inv_def)
  next
    case new
    have inv': "dfs_inv pkgs ?st"
      using inv new Suc.prems(3) by (auto simp: dfs_inv_def successively_snoc dest: map_of_key)
    have "\<exists>st'. fold_option (dfs fuel pkgs) (dep_names p) ?st = Some st' \<and> dfs_inv pkgs st' \<and> ds_path st' = ds_path st @ [node]"
    proof (rule fold_option_spec)
      fix d s assume d: "d \<in> set (dep_names p)" and s: "dfs_inv pkgs s \<and> ds_path s = ds_path st @ [node]"
      have "dep_edge pkgs node d" using d new by (simp add: dep_edge_def)
      then show "\<exists>s'. dfs fuel pkgs d s = Some s' \<and> dfs_inv pkgs s' \<and> ds_path s' = ds_path st @ [node]"
        using Suc.IH [of s d] s Suc.prems(1) by simp
    qed (use inv' in simp)
    then show ?thesis using new inv by (auto simp: dfs_inv_def)
  qed (use inv in \<open>simp_all add: dfs_inv_def\<close>)
qed

lemma find_all_cycles_spec: "\<exists>cycles. find_all_cycles pkgs = Some cycles \<and> (\<forall>c \<in> set cycles. cycle_ok pkgs c)"
proof -
  let ?f = "\<lambda>package st. if package \<notin> ds_visited st then dfs (length pkgs + 1) pkgs package (st\<lparr>ds_path := []\<rparr>)
         else Some st"
  have "\<exists>st'. fold_option ?f (sort (map fst pkgs)) \<lparr>ds_visited = {}, ds_path = [], ds_cycles = []\<rparr> = Some st'
      \<and> dfs_inv pkgs st'"
  proof (rule fold_option_spec)
    fix n st assume inv: "dfs_inv pkgs st"
    then have "dfs_inv pkgs (st\<lparr>ds_path := []\<rparr>)" by (simp add: dfs_inv_def)
    from dfs_spec [OF _ this, of "length pkgs + 1" n] show "\<exists>st'. ?f n st = Some st' \<and> dfs_inv pkgs st'"
      using inv by auto
  qed (simp add: dfs_inv_def)
  then show ?thesis by (auto simp: find_all_cycles_def dfs_inv_def)
qed

text \<open>An acyclic graph has no cycles to break.\<close>

definition acyclic_deps :: "packages \<Rightarrow> bool" where
  "acyclic_deps pkgs \<longleftrightarrow> (\<nexists>n. (dep_edge pkgs)\<^sup>+\<^sup>+ n n)"

lemma successively_rtranclp:
  assumes "successively R c" "c \<noteq> []"
  shows "R\<^sup>*\<^sup>* (hd c) (last c)"
  using assms
proof (induction c rule: induct_list012)
  case (3 x y zs)
  then have "R x y" "R\<^sup>*\<^sup>* y (last (y # zs))" by auto
  then show ?case by (simp add: converse_rtranclp_into_rtranclp)
qed auto

lemma acyclic_no_cycles:
  assumes "acyclic_deps pkgs" "find_all_cycles pkgs = Some cycles"
  shows "cycles = []"
proof (rule ccontr)
  assume "cycles \<noteq> []"
  then obtain c where "cycle_ok pkgs c" using find_all_cycles_spec [of pkgs] assms(2) by (cases cycles) auto
  then have "(dep_edge pkgs)\<^sup>+\<^sup>+ (hd c) (hd c)"
    using successively_rtranclp [of "dep_edge pkgs" c] by (auto simp: cycle_ok_def intro: rtranclp_into_tranclp1)
  then show False using assms(1) by (auto simp: acyclic_deps_def)
qed

section \<open>Breaking cycles\<close>

lemma break_cycle_from_Done:
  assumes "set cycle \<subseteq> keys pkgs" "\<forall>i \<in> set is. i < length cycle"
  shows "\<exists>b. break_cycle_from pkgs cycle is br = Done b"
  using assms(2)
proof (induction "is" arbitrary: br)
  case (Cons i "is")
  have some: "\<exists>p. map_of pkgs (cycle ! j) = Some p" if "j < length cycle" for j
    using that assms(1) nth_mem [OF that] by (metis map_of_eq_None_iff not_None_eq subsetD)
  have "(i + 1) mod length cycle < length cycle" using Cons.prems by (cases cycle) auto
  from some [OF this] obtain p2 where p2: "map_of pkgs (cycle ! ((i + 1) mod length cycle)) = Some p2" by blast
  obtain p1 where p1: "map_of pkgs (cycle ! i) = Some p1" using some [of i] Cons.prems by auto
  show ?case using Cons p1 p2 by (simp add: Let_def)
qed simp

lemma break_cycles_into_Done:
  assumes "\<forall>c \<in> set cycles. set c \<subseteq> keys pkgs"
  shows "\<exists>b. break_cycles_into pkgs cycles br = Done b"
  using assms
proof (induction cycles arbitrary: br)
  case (Cons c cycles)
  obtain b where "break_cycle_from pkgs c [0..<length c] br = Done b"
    using break_cycle_from_Done [of c pkgs "[0..<length c]" br] Cons.prems by auto
  then show ?case using Cons by simp
qed simp

section \<open>The traversal\<close>

definition installs :: "action list \<Rightarrow> string list" where
  "installs stack = map action_name (filter is_Install stack)"

lemma installs_simps [simp]:
  "installs [] = []" "installs (Install n # st) = n # installs st"
  "installs (ResolveAndInstall n # st) = installs st"
  "installs (map ResolveAndInstall ds @ st) = installs st"
  by (simp_all add: installs_def comp_def)

definition visit_inv :: "packages \<Rightarrow> string list \<Rightarrow> string set \<Rightarrow> action list \<Rightarrow> bool" where
  "visit_inv pkgs order visited stack \<longleftrightarrow> distinct (order @ installs stack)
     \<and> set order \<union> set (installs stack) = visited \<inter> keys pkgs"

lemma visit_inv_step:
  "visit_inv pkgs order visited (Install n # st) \<Longrightarrow> visit_inv pkgs (order @ [n]) visited st"
  "visit_inv pkgs order visited (ResolveAndInstall n # st) \<Longrightarrow> visit_inv pkgs order visited st"
  "visit_inv pkgs order visited (ResolveAndInstall n # st) \<Longrightarrow> map_of pkgs n = None \<Longrightarrow>
     visit_inv pkgs order (insert n visited) st"
  "visit_inv pkgs order visited (ResolveAndInstall n # st) \<Longrightarrow> n \<notin> visited \<Longrightarrow> map_of pkgs n = Some p \<Longrightarrow>
     visit_inv pkgs order (insert n visited) (map ResolveAndInstall ds @ Install n # st)"
  using map_of_key [of pkgs n p] by (auto simp: visit_inv_def map_of_eq_None_iff)

lemma run_stack_visit:
  "visit_inv pkgs order visited stack \<Longrightarrow>
     visit_inv pkgs (fst (run_stack pkgs br order visited stack)) (snd (run_stack pkgs br order visited stack)) []"
proof (induction pkgs br order visited stack rule: run_stack.induct)
  case (3 pkgs br order visited n stack)
  then show ?case
    by (cases "n \<in> visited"; cases "map_of pkgs n")
      (simp_all add: visit_inv_step rev_map)
qed (auto simp: visit_inv_step)

subsection \<open>Dependencies first\<close>

definition kept_edge :: "packages \<Rightarrow> (string \<times> string) set \<Rightarrow> string \<Rightarrow> string \<Rightarrow> bool" where
  "kept_edge pkgs br a b \<longleftrightarrow> b \<in> set (kept_deps pkgs br a)"

definition deps_first :: "packages \<Rightarrow> (string \<times> string) set \<Rightarrow> string list \<Rightarrow> bool" where
  "deps_first pkgs br order \<longleftrightarrow>
     (\<forall>i < length order. set (kept_deps pkgs br (order ! i)) \<inter> keys pkgs \<subseteq> set (take i order))"

lemma deps_first_snoc:
  "deps_first pkgs br (order @ [n]) \<longleftrightarrow>
     deps_first pkgs br order \<and> set (kept_deps pkgs br n) \<inter> keys pkgs \<subseteq> set order"
  by (auto simp: deps_first_def less_Suc_eq nth_append)

text \<open>Every entry was pushed for the nearest pending installation below it.\<close>

fun pushed_for :: "packages \<Rightarrow> (string \<times> string) set \<Rightarrow> string list \<Rightarrow> string \<Rightarrow> bool" where
  "pushed_for pkgs br [] x = True"
| "pushed_for pkgs br (q # qs) x = kept_edge pkgs br q x"

fun chain_ok :: "packages \<Rightarrow> (string \<times> string) set \<Rightarrow> action list \<Rightarrow> bool" where
  "chain_ok pkgs br [] = True"
| "chain_ok pkgs br (a # st) =
     (pushed_for pkgs br (installs st) (action_name a) \<and> chain_ok pkgs br st)"

lemma chain_ancestors:
  assumes "chain_ok pkgs br st" "pushed_for pkgs br (installs st) x" "q \<in> set (installs st)"
  shows "(kept_edge pkgs br)\<^sup>+\<^sup>+ q x"
  using assms
proof (induction st arbitrary: x)
  case (Cons a st)
  show ?case
  proof (cases a)
    case (Install n)
    then have nx: "kept_edge pkgs br n x" using Cons.prems(2) by simp
    show ?thesis
    proof (cases "q = n")
      case False
      then have "(kept_edge pkgs br)\<^sup>+\<^sup>+ q n" using Cons.IH [of n] Cons.prems Install by simp
      then show ?thesis using nx by (rule tranclp.trancl_into_trancl)
    qed (use nx in blast)
  qed (use Cons in simp)
qed simp

lemma chain_ok_push:
  "chain_ok pkgs br (map ResolveAndInstall ds @ Install n # st) \<longleftrightarrow>
     (\<forall>d \<in> set ds. kept_edge pkgs br n d) \<and> chain_ok pkgs br (Install n # st)"
  by (induction ds) auto

text \<open>Every pending installation has its dependencies installed or above it on the stack.\<close>

fun pending_ok :: "packages \<Rightarrow> (string \<times> string) set \<Rightarrow> string set \<Rightarrow> action list \<Rightarrow> bool" where
  "pending_ok pkgs br done [] = True"
| "pending_ok pkgs br done (ResolveAndInstall n # st) = pending_ok pkgs br (insert n done) st"
| "pending_ok pkgs br done (Install n # st) =
     (set (kept_deps pkgs br n) \<inter> keys pkgs \<subseteq> done \<and> pending_ok pkgs br (insert n done) st)"

lemma pending_ok_mono:
  "pending_ok pkgs br A st \<Longrightarrow> A \<inter> keys pkgs \<subseteq> B \<Longrightarrow> pending_ok pkgs br B st"
proof (induction pkgs br A st arbitrary: B rule: pending_ok.induct)
  case (2 pkgs br A n st)
  have "insert n A \<inter> keys pkgs \<subseteq> insert n B" using 2(3) by blast
  then show ?case using 2(1) [of "insert n B"] 2(2) by simp
next
  case (3 pkgs br A n st)
  have "insert n A \<inter> keys pkgs \<subseteq> insert n B" using 3(3) by blast
  moreover have "set (kept_deps pkgs br n) \<inter> keys pkgs \<subseteq> B"
    using 3(2,3) unfolding pending_ok.simps by blast
  ultimately show ?case using 3(1) [of "insert n B"] 3(2) by simp
qed simp

lemma pending_ok_push: "pending_ok pkgs br A (map ResolveAndInstall ds @ st) = pending_ok pkgs br (A \<union> set ds) st"
  by (induction ds arbitrary: A) auto

lemma pending_ok_drop:
  assumes "\<nexists>n. (kept_edge pkgs br)\<^sup>+\<^sup>+ n n" "chain_ok pkgs br st" "x \<in> set (installs st)"
    and "pending_ok pkgs br (insert x A) st"
  shows "pending_ok pkgs br A st"
  using assms(2-)
proof (induction st arbitrary: A)
  case (Cons a st)
  show ?case
  proof (cases a)
    case (ResolveAndInstall n)
    then show ?thesis using Cons by (simp add: insert_commute)
  next
    case (Install n)
    have "\<not> kept_edge pkgs br n x"
    proof
      assume e: "kept_edge pkgs br n x"
      have "n = x \<or> (kept_edge pkgs br)\<^sup>+\<^sup>+ x n"
        using Cons.prems Install chain_ancestors [of pkgs br st n x] by auto
      then show False using e assms(1) by (metis tranclp.r_into_trancl tranclp.trancl_into_trancl)
    qed
    then have "set (kept_deps pkgs br n) \<inter> keys pkgs \<subseteq> A"
      using Cons.prems(3) Install by (auto simp: kept_edge_def)
    moreover have "pending_ok pkgs br (insert n A) st"
    proof (cases "n = x")
      case False
      then show ?thesis using Cons Install by (simp add: insert_commute)
    qed (use Cons.prems(3) Install in simp)
    ultimately show ?thesis using Install by simp
  qed
qed simp

lemma run_stack_deps_first:
  assumes "\<nexists>n. (kept_edge pkgs br)\<^sup>+\<^sup>+ n n"
    and "visit_inv pkgs order visited stack" "deps_first pkgs br order"
    and "chain_ok pkgs br stack" "pending_ok pkgs br (set order) stack"
  shows "deps_first pkgs br (fst (run_stack pkgs br order visited stack))"
  using assms
proof (induction pkgs br order visited stack rule: run_stack.induct)
  case (2 pkgs br order visited n stack)
  then show ?case by (simp add: visit_inv_step deps_first_snoc)
next
  case (3 pkgs br order visited n stack)
  note inv = 3(5) and chain = 3(7) and pend = 3(8)
  show ?case
  proof (cases "n \<in> visited")
    case True
    have "pending_ok pkgs br (set order) stack"
    proof (cases "n \<in> set (installs stack)")
      case True
      then show ?thesis using pending_ok_drop [OF 3(4)] chain pend by simp
    next
      case False
      then have "n \<in> set order \<or> n \<notin> keys pkgs" using inv True by (auto simp: visit_inv_def)
      then show ?thesis using pend pending_ok_mono [of pkgs br "insert n (set order)" stack "set order"] by auto
    qed
    then show ?thesis using 3 True by (simp add: visit_inv_step(2))
  next
    case new: False
    show ?thesis
    proof (cases "map_of pkgs n")
      case None
      then have "pending_ok pkgs br (set order) stack"
        using pend pending_ok_mono [of pkgs br "insert n (set order)" stack "set order"]
        by (auto simp: map_of_eq_None_iff)
      then show ?thesis using 3 new None by (simp add: visit_inv_step(3))
    next
      case (Some p)
      let ?ds = "rev (sort (kept_deps pkgs br n))"
      have "pending_ok pkgs br (set order) (map ResolveAndInstall ?ds @ Install n # stack)"
        using pend by (auto simp: pending_ok_push intro: pending_ok_mono)
      moreover have "chain_ok pkgs br (map ResolveAndInstall ?ds @ Install n # stack)"
        unfolding chain_ok_push using chain by (simp add: kept_edge_def)
      ultimately show ?thesis
        using 3(3) [OF new] 3(4-6) new Some visit_inv_step(4) [OF inv new Some] by (simp add: rev_map)
    qed
  qed
qed simp

section \<open>The whole sort\<close>

lemma visit_inv_roots: "visit_inv pkgs order visited [] \<Longrightarrow> visit_inv pkgs order visited (map ResolveAndInstall ns)"
  by (simp add: visit_inv_def installs_def)

lemma chain_ok_roots [simp]: "chain_ok pkgs br (map ResolveAndInstall ns)"
  by (induction ns) (simp_all add: installs_def)

lemma pending_ok_roots [simp]: "pending_ok pkgs br A (map ResolveAndInstall ns)"
  by (induction ns arbitrary: A) auto

lemma order_loop_visit:
  assumes "visit_inv pkgs order visited (map ResolveAndInstall ns)"
  shows "distinct (order_loop pkgs br order visited (map ResolveAndInstall ns))
    \<and> set (order_loop pkgs br order visited (map ResolveAndInstall ns)) = keys pkgs"
  using assms
proof (induction pkgs br order visited "map ResolveAndInstall ns" arbitrary: ns rule: order_loop.induct)
  case (1 pkgs br order visited)
  obtain order' visited' where r: "run_stack pkgs br order visited (map ResolveAndInstall ns) = (order', visited')"
    by (cases "run_stack pkgs br order visited (map ResolveAndInstall ns)")
  have inv: "visit_inv pkgs order' visited' []" using run_stack_visit [OF "1.prems", of br] r by simp
  let ?un = "filter (\<lambda>k. k \<notin> visited') (map fst pkgs)"
  show ?case
  proof (cases "?un = []")
    case True
    then have "keys pkgs \<subseteq> visited'" by (auto simp: filter_empty_conv)
    then show ?thesis
      using True inv by (subst (1 2) order_loop.simps) (auto simp: r visit_inv_def)
  next
    case False
    have "order_loop pkgs br order visited (map ResolveAndInstall ns)
        = order_loop pkgs br order' visited' (map ResolveAndInstall (rev (sort ?un)))"
      using False by (subst order_loop.simps) (simp add: r rev_map)
    then show ?thesis
      using "1.hyps" [OF r [symmetric] refl refl False, of "rev (sort ?un)"] visit_inv_roots [OF inv]
      by (simp add: rev_map)
  qed
qed

lemma order_loop_deps_first:
  assumes "\<nexists>n. (kept_edge pkgs br)\<^sup>+\<^sup>+ n n"
    and "visit_inv pkgs order visited (map ResolveAndInstall ns)" "deps_first pkgs br order"
  shows "deps_first pkgs br (order_loop pkgs br order visited (map ResolveAndInstall ns))"
  using assms
proof (induction pkgs br order visited "map ResolveAndInstall ns" arbitrary: ns rule: order_loop.induct)
  case (1 pkgs br order visited)
  obtain order' visited' where r: "run_stack pkgs br order visited (map ResolveAndInstall ns) = (order', visited')"
    by (cases "run_stack pkgs br order visited (map ResolveAndInstall ns)")
  have inv: "visit_inv pkgs order' visited' []" using run_stack_visit [OF 1(3), of br] r by simp
  have df: "deps_first pkgs br order'" using run_stack_deps_first [OF 1(2,3,4)] r by simp
  let ?un = "filter (\<lambda>k. k \<notin> visited') (map fst pkgs)"
  show ?case
  proof (cases "?un = []")
    case True
    then show ?thesis using df by (subst order_loop.simps) (simp add: r)
  next
    case False
    have "order_loop pkgs br order visited (map ResolveAndInstall ns)
        = order_loop pkgs br order' visited' (map ResolveAndInstall (rev (sort ?un)))"
      using False by (subst order_loop.simps) (simp add: r rev_map)
    then show ?thesis
      using 1(1) [OF r [symmetric] refl refl False, of "rev (sort ?un)"] visit_inv_roots [OF inv] df 1(2)
      by (simp add: rev_map)
  qed
qed

lemma remove_packages_Done:
  assumes "distinct ns" "set ns \<subseteq> keys pkgs"
  shows "remove_packages pkgs ns = Done (map (\<lambda>n. the (map_of pkgs n)) ns)"
  using assms
proof (induction ns arbitrary: pkgs)
  case (Cons n ns)
  obtain p where p: "map_of pkgs n = Some p"
    using Cons.prems by (metis insert_subset list.simps(15) map_of_eq_None_iff not_None_eq)
  have "set ns \<subseteq> keys (AList.delete n pkgs)"
    using Cons.prems by (auto simp flip: dom_map_of_conv_image_fst simp: delete_conv)
  then have "remove_packages (AList.delete n pkgs) ns = Done (map (\<lambda>m. the (map_of (AList.delete n pkgs) m)) ns)"
    using Cons by simp
  moreover have "map_of (AList.delete n pkgs) m = map_of pkgs m" if "m \<in> set ns" for m
    using that Cons.prems by (auto simp: delete_conv)
  ultimately show ?case using p by simp
qed simp

lemma get_topological_order_spec:
  "\<exists>order. get_topological_order roots pkgs br = Done (map (\<lambda>n. the (map_of pkgs n)) order)
     \<and> distinct order \<and> set order = keys pkgs
     \<and> ((\<nexists>n. (kept_edge pkgs br)\<^sup>+\<^sup>+ n n) \<longrightarrow> deps_first pkgs br order)"
proof -
  let ?order = "order_loop pkgs br [] {} (map ResolveAndInstall (rev (sort roots)))"
  have inv: "visit_inv pkgs [] {} (map ResolveAndInstall (rev (sort roots)))"
    by (rule visit_inv_roots) (simp add: visit_inv_def)
  note perm = order_loop_visit [OF inv, of br]
  have "(\<nexists>n. (kept_edge pkgs br)\<^sup>+\<^sup>+ n n) \<longrightarrow> deps_first pkgs br ?order"
    using order_loop_deps_first [OF _ inv] by (simp add: deps_first_def)
  then show ?thesis
    using perm remove_packages_Done [of ?order pkgs]
    by (intro exI [of _ ?order]) (simp add: get_topological_order_def rev_map)
qed

abbreviation record_name :: "package_record \<Rightarrow> string" where
  "record_name p \<equiv> as_normalized (pr_name p)"

lemma collect_packages_snoc:
  "collect_packages (ps @ [p]) = AList.update (record_name p) p (collect_packages ps)"
  by (simp add: collect_packages_def)

lemma collect_packages_keys: "keys (collect_packages ps) = record_name ` set ps"
  by (induction ps rule: rev_induct) (auto simp: collect_packages_snoc dom_update, simp add: collect_packages_def)

lemma collect_packages_map_of:
  "distinct (map record_name ps) \<Longrightarrow> p \<in> set ps \<Longrightarrow> map_of (collect_packages ps) (record_name p) = Some p"
  by (induction ps rule: rev_induct) (auto simp: collect_packages_snoc update_conv rev_image_eqI)

lemma sort_topologically_spec:
  fixes ps :: "package_record list"
  defines "pkgs \<equiv> collect_packages ps"
  shows "\<exists>order br. sort_topologically ps = Some (Done (map (\<lambda>n. the (map_of pkgs n)) order))
    \<and> distinct order \<and> set order = keys pkgs
    \<and> ((\<nexists>n. (kept_edge pkgs br)\<^sup>+\<^sup>+ n n) \<longrightarrow> deps_first pkgs br order)
    \<and> (acyclic_deps pkgs \<longrightarrow> br = {})"
proof -
  obtain cycles where c: "find_all_cycles pkgs = Some cycles" "\<forall>c \<in> set cycles. cycle_ok pkgs c"
    using find_all_cycles_spec by blast
  then have "\<forall>c \<in> set cycles. set c \<subseteq> keys pkgs" by (auto simp: cycle_ok_def)
  then obtain br where br: "break_cycles cycles pkgs = Done br"
    using break_cycles_into_Done unfolding break_cycles_def by blast
  have "br = {}" if "acyclic_deps pkgs" using acyclic_no_cycles [OF that c(1)] br by (simp add: break_cycles_def)
  moreover obtain order where o: "get_topological_order (get_graph_roots ps br) pkgs br = Done (map (\<lambda>n. the (map_of pkgs n)) order)"
    "distinct order" "set order = keys pkgs" "(\<nexists>n. (kept_edge pkgs br)\<^sup>+\<^sup>+ n n) \<longrightarrow> deps_first pkgs br order"
    using get_topological_order_spec by blast
  moreover have "sort_topologically ps = Some (Done (map (\<lambda>n. the (map_of pkgs n)) order))"
    using c(1) br o(1) by (simp add: sort_topologically_def pkgs_def [symmetric] Let_def)
  ultimately show ?thesis using o(2-) by (intro exI [of _ order] exI [of _ br]) simp
qed

lemma kept_edge_no_breaks: "kept_edge pkgs {} = dep_edge pkgs"
proof (intro ext)
  show "kept_edge pkgs {} a b = dep_edge pkgs a b" for a b
    by (cases "map_of pkgs a") (simp_all add: kept_edge_def kept_deps_def dep_edge_def)
qed

section \<open>Properties\<close>

lemma acyclic_by_rank:
  assumes "\<And>a b. dep_edge pkgs a b \<Longrightarrow> (f b :: nat) < f a"
  shows "acyclic_deps pkgs"
proof -
  have "f b < f a" if "(dep_edge pkgs)\<^sup>+\<^sup>+ a b" for a b
    using that by (induction rule: tranclp_induct) (auto dest: assms intro: less_trans)
  then show ?thesis unfolding acyclic_deps_def by blast
qed

lemma sorted_names:
  assumes "distinct (map record_name ps)" "set order = keys (collect_packages ps)"
    and "out = map (\<lambda>n. the (map_of (collect_packages ps) n)) order"
  shows "map record_name out = order" "distinct order \<Longrightarrow> mset out = mset ps"
proof -
  have keys: "set order = record_name ` set ps" using assms(2) by (simp add: collect_packages_keys)
  have "record_name (the (map_of (collect_packages ps) n)) = n" if "n \<in> set order" for n
    using that keys collect_packages_map_of [OF assms(1)] by force
  then show "map record_name out = order" using assms(3) by (simp add: map_idI)
  assume d: "distinct order"
  have "mset order = mset (map record_name ps)"
    using d assms(1) keys by (metis list.set_map set_eq_iff_mset_eq_distinct)
  then have "mset out = mset (map (\<lambda>n. the (map_of (collect_packages ps) n)) (map record_name ps))"
    using assms(3) by (metis mset_map)
  also have "map (\<lambda>n. the (map_of (collect_packages ps) n)) (map record_name ps) = ps"
    using collect_packages_map_of [OF assms(1)] by (auto intro!: map_idI)
  finally show "mset out = mset ps" .
qed

lemma sort_topologically_result:
  assumes names: "distinct (map record_name ps)"
  shows "\<exists>out. sort_topologically ps = Some (Done out) \<and> mset out = mset ps
    \<and> (acyclic_deps (collect_packages ps) \<longrightarrow> (\<forall>i < length out. \<forall>d \<in> set (dep_names (out ! i)).
          d \<in> record_name ` set ps \<longrightarrow> (\<exists>j < i. record_name (out ! j) = d)))"
proof -
  let ?pkgs = "collect_packages ps"
  obtain order br where o: "sort_topologically ps = Some (Done (map (\<lambda>n. the (map_of ?pkgs n)) order))"
    "distinct order" "set order = keys ?pkgs"
    "(\<nexists>n. (kept_edge ?pkgs br)\<^sup>+\<^sup>+ n n) \<longrightarrow> deps_first ?pkgs br order" "acyclic_deps ?pkgs \<longrightarrow> br = {}"
    using sort_topologically_spec [of ps] by blast
  have df: "deps_first ?pkgs {} order" if acyclic: "acyclic_deps ?pkgs"
    using o(4,5) acyclic by (simp add: acyclic_deps_def kept_edge_no_breaks)
  define out where "out = map (\<lambda>n. the (map_of ?pkgs n)) order"
  have ord: "order = map record_name out" using sorted_names(1) [OF names o(3) out_def] by simp
  have before: "\<exists>j < i. record_name (out ! j) = d"
    if acyclic: "acyclic_deps ?pkgs" and i: "i < length out" and d: "d \<in> set (dep_names (out ! i))" "d \<in> record_name ` set ps" for i d
  proof -
    have i': "i < length order" using i by (simp add: out_def)
    then have "order ! i \<in> keys ?pkgs" using o(3) nth_mem by blast
    then obtain p where "map_of ?pkgs (order ! i) = Some p" by (metis map_of_eq_None_iff option.exhaust)
    then have "out ! i = p" "d \<in> set (kept_deps ?pkgs {} (order ! i))"
      using i' d(1) by (simp_all add: out_def kept_deps_def)
    moreover have "d \<in> keys ?pkgs" using d(2) by (simp add: collect_packages_keys)
    moreover have "set (kept_deps ?pkgs {} (order ! i)) \<inter> keys ?pkgs \<subseteq> set (take i order)"
      using df [OF acyclic] i' unfolding deps_first_def by blast
    ultimately have "d \<in> set (take i order)" by blast
    then obtain j where j: "j < i" "order ! j = d" unfolding in_set_conv_nth using i' by fastforce
    have "record_name (out ! j) = order ! j"
      unfolding ord using j(1) i by (intro nth_map [symmetric]) simp
    then show ?thesis using j by blast
  qed
  have "mset out = mset ps" by (rule sorted_names(2) [OF names o(3) out_def o(2)])
  then show ?thesis using o(1) before unfolding out_def [symmetric] by blast
qed

text \<open>
  C3. For packages with distinct names whose dependencies have no cycle, the sort returns, and every
  dependency that is among the packages comes before the package that needs it.
\<close>

theorem sort_topologically_dependencies_first:
  assumes names: "distinct (map record_name ps)" and acyclic: "acyclic_deps (collect_packages ps)"
  shows "\<exists>out. sort_topologically ps = Some (Done out)
    \<and> (\<forall>i < length out. \<forall>d \<in> set (dep_names (out ! i)).
          d \<in> record_name ` set ps \<longrightarrow> (\<exists>j < i. record_name (out ! j) = d))"
  using sort_topologically_result [OF names] acyclic by blast

theorem sort_topologically_dependencies_first_witness:
  "\<exists>out. sort_topologically [sample_record ''a'' [''b >=1''] [], sample_record ''b'' [] []] = Some (Done out)
    \<and> (\<forall>i < length out. \<forall>d \<in> set (dep_names (out ! i)).
          d \<in> record_name ` set [sample_record ''a'' [''b >=1''] [], sample_record ''b'' [] []]
          \<longrightarrow> (\<exists>j < i. record_name (out ! j) = d))"
proof (rule sort_topologically_dependencies_first)
  let ?ps = "[sample_record ''a'' [''b >=1''] [], sample_record ''b'' [] []]"
  show "distinct (map record_name ?ps)" by code_simp
  have pkgs: "collect_packages ?ps = [(''a'', sample_record ''a'' [''b >=1''] []), (''b'', sample_record ''b'' [] [])]"
    by code_simp
  have deps: "dep_names (sample_record ''a'' [''b >=1''] []) = [''b'']" "dep_names (sample_record ''b'' [] []) = []"
    by code_simp+
  have "a = ''a'' \<and> b = ''b''" if e: "dep_edge (collect_packages ?ps) a b" for a b
  proof -
    obtain p where p: "map_of (collect_packages ?ps) a = Some p" "b \<in> set (dep_names p)"
      using e unfolding dep_edge_def by blast
    from p(1) have "a = ''a'' \<and> p = sample_record ''a'' [''b >=1''] [] \<or> p = sample_record ''b'' [] []"
      unfolding pkgs map_of.simps by (simp only: fun_upd_apply fst_conv snd_conv split: if_splits) blast+
    with p(2) show ?thesis using deps by force
  qed
  then show "acyclic_deps (collect_packages ?ps)"
    by (intro acyclic_by_rank [where f = "\<lambda>n. if n = ''a'' then 1 else 0"]) force
qed

text \<open>
  C4. For packages with distinct names, cyclic or not, the sort returns a permutation of the packages
  without a panic.
\<close>

theorem sort_topologically_permutation:
  assumes "distinct (map record_name ps)"
  shows "\<exists>out. sort_topologically ps = Some (Done out) \<and> mset out = mset ps"
  using sort_topologically_result [OF assms] by blast

theorem sort_topologically_permutation_witness:
  "\<exists>out. sort_topologically [sample_record ''a'' [''b''] [], sample_record ''b'' [''a''] []] = Some (Done out)
    \<and> mset out = mset [sample_record ''a'' [''b''] [], sample_record ''b'' [''a''] []]"
proof (rule sort_topologically_permutation)
  show "distinct (map record_name [sample_record ''a'' [''b''] [], sample_record ''b'' [''a''] []])" by code_simp
qed

text \<open>
  With a cycle the result depends on the order of a \<open>depends\<close> list, and a noarch package of a cycle of
  three is not sorted after the others.
\<close>

definition sorted_record_names :: "package_record list rust option \<Rightarrow> string list" where
  "sorted_record_names r = (case r of Some (Done ps) \<Rightarrow> map record_name ps | _ \<Rightarrow> [])"

lemma sort_depends_on_depends_order:
  "sorted_record_names (sort_topologically
     [sample_record ''a'' [''b'', ''c''] [], sample_record ''b'' [''c''] [], sample_record ''c'' [''b''] []])
     = [''b'', ''c'', ''a'']"
  "sorted_record_names (sort_topologically
     [sample_record ''a'' [''c'', ''b''] [], sample_record ''b'' [''c''] [], sample_record ''c'' [''b''] []])
     = [''c'', ''b'', ''a'']"
  by code_simp+

lemma sort_noarch_not_last:
  "sorted_record_names (sort_topologically
     [(sample_record ''a'' [''b''] [])\<lparr>pr_noarch := NoArchType (Some Python)\<rparr>,
      sample_record ''b'' [''c''] [], sample_record ''c'' [''a''] []]) = [''b'', ''a'', ''c'']"
  by code_simp

end
