(* ===== verification/Clobber_Registry.thy ===== *)
theory Clobber_Registry
  imports Path_Resolver Prefix_Record Topological_Order
begin

text \<open>
  The registry of files that several packages install (\<open>rattler/src/install/clobber_registry.rs\<close>), a
  client of the path resolver: it keeps the resolver, the original spelling of the package names and the
  files to bring back, registers packages in dependency order, and after an installation computes which
  files are moved and how the records of the packages change. Moving the files
  (\<open>PathResolver::sync_clobbers\<close>) and writing the records (\<open>update_conda_meta\<close>) are parameters
  that may fail. A \<open>HashMap\<close> is an association list, the packages that lost a file are a set.
\<close>

section \<open>State\<close>

definition CLOBBERS_DIR_NAME :: string where
  "CLOBBERS_DIR_NAME = ''__clobbers__''"

datatype clobber_mode = ClobberMode_Rename | ClobberMode_Error

record registry_clobbered_path =
  rc_package :: package_name
  rc_other_packages :: "package_name set"

datatype 'e clobber_error = ClobberError_IoError string 'e

record clobber_registry =
  cr_package_name_map :: "(owner \<times> package_name) list"
  cr_path_trie :: path_resolver
  cr_to_add :: "(path \<times> owner) list"

definition clobber_registry_default :: clobber_registry where
  "clobber_registry_default = \<lparr>cr_package_name_map = [], cr_path_trie = resolver_new, cr_to_add = []\<rparr>"

section \<open>Registering and unregistering\<close>

definition get_clobber_relative_path :: "string \<Rightarrow> path \<Rightarrow> path" where
  "get_clobber_relative_path package_name relative_file_path =
     join_path (join_path [CLOBBERS_DIR_NAME] (path_components package_name)) relative_file_path"

definition register_paths_by_name ::
  "clobber_registry \<Rightarrow> package_name \<Rightarrow> path list \<Rightarrow> (clobber_registry \<times> (path \<times> path) list) rust" where
  "register_paths_by_name reg name computed_paths =
     (let normalized_name = as_normalized name
      in rust_bind (insert_package (cr_path_trie reg) normalized_name computed_paths) (\<lambda>(trie, immediate_conflicts).
           let link_paths = map (\<lambda>p. (p, get_clobber_relative_path normalized_name p)) immediate_conflicts
           in Done (\<lparr>cr_package_name_map = AList.update normalized_name name (cr_package_name_map reg),
                     cr_path_trie = trie, cr_to_add = cr_to_add reg\<rparr>, link_paths)))"

text \<open>\<open>register_paths\<close> takes the name from \<open>index.json\<close> and the second component of each entry.\<close>

definition register_paths ::
  "clobber_registry \<Rightarrow> package_name \<Rightarrow> ('entry \<times> path) list \<Rightarrow> (clobber_registry \<times> (path \<times> path) list) rust" where
  "register_paths reg index_name computed_paths = register_paths_by_name reg index_name (map snd computed_paths)"

definition unregister_paths :: "clobber_registry \<Rightarrow> prefix_record \<Rightarrow> clobber_registry" where
  "unregister_paths reg prefix_paths =
     (let normalized_name = as_normalized (prefix_record_name prefix_paths);
          (trie, _, to_add) = unregister_package (cr_path_trie reg) normalized_name
      in \<lparr>cr_package_name_map = AList.delete normalized_name (cr_package_name_map reg),
          cr_path_trie = trie, cr_to_add = cr_to_add reg @ to_add\<rparr>)"

text \<open>
  \<open>PackageRecord::sort_topologically\<close> is generic in the type of its elements: it orders the package
  records and returns, for each name, the element its map holds, the last one given.
\<close>

definition sort_prefix_records :: "prefix_record list \<Rightarrow> prefix_record list rust option" where
  "sort_prefix_records ps = map_option (\<lambda>sorted. rust_bind sorted (\<lambda>rs.
     Done (map (\<lambda>r. the (find (\<lambda>p. as_normalized (prefix_record_name p) = as_normalized (pr_name r)) (rev ps))) rs)))
     (sort_topologically (map px_package_record ps))"

fun register_all_records :: "clobber_registry \<Rightarrow> prefix_record list \<Rightarrow> clobber_registry rust" where
  "register_all_records reg [] = Done reg"
| "register_all_records reg (p # ps) =
     rust_bind (register_paths_by_name reg (prefix_record_name p) (map entry_path (pp_paths (px_paths_data p))))
       (\<lambda>(reg, _). register_all_records reg ps)"

definition clobber_registry_new :: "prefix_record list \<Rightarrow> clobber_registry rust option" where
  "clobber_registry_new prefix_records = map_option (\<lambda>sorted. rust_bind sorted (\<lambda>ps.
     register_all_records clobber_registry_default (rev ps))) (sort_prefix_records prefix_records)"

section \<open>Unclobbering\<close>

definition rename_path_in_prefix_record :: "prefix_record \<Rightarrow> path \<Rightarrow> path \<Rightarrow> bool \<Rightarrow> prefix_record" where
  "rename_path_in_prefix_record p old_path new_path new_path_is_clobber =
     p\<lparr>px_files := map (\<lambda>f. if f = old_path then new_path else f) (px_files p),
       px_paths_data := (px_paths_data p)\<lparr>pp_paths := map (\<lambda>e. if pe_relative_path e = old_path
           then e\<lparr>pe_relative_path := new_path,
                   pe_original_path := (if new_path_is_clobber then Some old_path else None)\<rparr>
           else e) (pp_paths (px_paths_data p))\<rparr>\<rparr>"

text \<open>Step 1: the files to move away and to bring back, without those that would be both.\<close>

definition plan_moves ::
  "path_resolver \<Rightarrow> (path \<times> owner) list \<Rightarrow> (path \<times> owner) list \<Rightarrow> (path \<times> owner) list
   \<Rightarrow> (path \<times> owner) list \<times> (path \<times> owner) list" where
  "plan_moves trie to_add removals additions =
     (let more_additions = filter (\<lambda>p. snd p \<in> set (rv_packages trie) \<and> p \<notin> set additions) to_add;
          all_additions = more_additions @ additions;
          duplicates = filter (\<lambda>r. r \<in> set all_additions) removals
      in (filter (\<lambda>r. r \<notin> set all_additions) removals, filter (\<lambda>a. a \<notin> set duplicates) all_additions))"

text \<open>Step 3: the records follow the moves; a package without a record is a panic.\<close>

fun rename_moved ::
  "(path \<Rightarrow> path \<Rightarrow> prefix_record \<Rightarrow> prefix_record) \<Rightarrow> (string \<times> prefix_record) list \<Rightarrow> (path \<times> owner) list
   \<Rightarrow> (string \<times> prefix_record) list rust" where
  "rename_moved rename records [] = Done records"
| "rename_moved rename records ((path, pkg) # moves) =
     rust_bind (expect (map_of records pkg)) (\<lambda>r.
       let clobber_path = join_path (join_path [CLOBBERS_DIR_NAME] (path_components pkg)) path
       in rename_moved rename (AList.update pkg (rename path clobber_path r) records) moves)"

text \<open>Step 4: the overview, with the names as they were registered.\<close>

fun original_names :: "(owner \<times> package_name) list \<Rightarrow> (path \<times> clobbered_path) list
   \<Rightarrow> (path \<times> registry_clobbered_path) list rust" where
  "original_names name_map [] = Done []"
| "original_names name_map ((k, v) # rest) =
     rust_bind (expect (map_of name_map (cp_winner v))) (\<lambda>winner.
       if cp_losers v \<subseteq> fst ` set name_map then
         rust_bind (original_names name_map rest) (\<lambda>out. Done ((k, \<lparr>rc_package = winner,
           rc_other_packages = (\<lambda>l. the (map_of name_map l)) ` cp_losers v\<rparr>) # out))
       else Panic)"

definition unclobber ::
  "((path \<times> owner) list \<Rightarrow> (path \<times> owner) list \<Rightarrow> 'e + unit) \<Rightarrow> ((string \<times> prefix_record) list \<Rightarrow> owner set \<Rightarrow> 'e clobber_error + unit)
   \<Rightarrow> clobber_registry \<Rightarrow> prefix_record list
   \<Rightarrow> (clobber_registry \<times> ('e clobber_error + (path \<times> registry_clobbered_path) list)) rust" where
  "unclobber sync_clobbers update_conda_meta reg sorted_prefix_records =
     (let prefix_records = fold (\<lambda>p. AList.update (as_normalized (prefix_record_name p)) p) sorted_prefix_records [];
          new_priorities = map (\<lambda>p. as_normalized (prefix_record_name p)) sorted_prefix_records
      in rust_bind (reprioritize_packages (cr_path_trie reg) new_priorities) (\<lambda>(trie, removals, additions).
         let reg = reg\<lparr>cr_path_trie := trie\<rparr>;
             (removals, all_additions) = plan_moves trie (cr_to_add reg) removals additions
         in case sync_clobbers removals all_additions of
              Inl e \<Rightarrow> Done (reg, Inl (ClobberError_IoError ''On-disk synchronization error'' e))
            | Inr _ \<Rightarrow>
                rust_bind (rename_moved (\<lambda>path clobber r. rename_path_in_prefix_record r path clobber True)
                    prefix_records removals) (\<lambda>prefix_records.
                rust_bind (rename_moved (\<lambda>path clobber r. rename_path_in_prefix_record r clobber path False)
                    prefix_records all_additions) (\<lambda>prefix_records.
                case update_conda_meta prefix_records (snd ` set removals \<union> snd ` set all_additions) of
                  Inl e \<Rightarrow> Done (reg, Inl e)
                | Inr _ \<Rightarrow> rust_bind (original_names (cr_package_name_map reg) (collect_clobbered_paths trie))
                    (\<lambda>clobbered_paths. Done (reg, Inr clobbered_paths))))))"

end
