(* ===== verification/Clobber_Properties.thy ===== *)
theory Clobber_Properties
  imports Clobber_Registry
begin

text \<open>
  Correctness of the clobber registry: its invariant, that unclobbering does not panic and reports
  exactly the files with several owners, and that the records follow the files when they are moved.
\<close>

section \<open>Invariant\<close>

definition registry_ok :: "clobber_registry \<Rightarrow> bool" where
  "registry_ok reg \<longleftrightarrow> resolver_ok (cr_path_trie reg)
     \<and> fst ` set (cr_package_name_map reg) = set (rv_packages (cr_path_trie reg))
     \<and> distinct (map fst (cr_package_name_map reg))
     \<and> (\<forall>(k, n) \<in> set (cr_package_name_map reg). as_normalized n = k)"

abbreviation record_key :: "prefix_record \<Rightarrow> string" where
  "record_key p \<equiv> as_normalized (prefix_record_name p)"

definition record_paths :: "prefix_record \<Rightarrow> path list" where
  "record_paths p = map entry_path (pp_paths (px_paths_data p))"

lemma registry_default_ok: "registry_ok clobber_registry_default"
  by (simp add: registry_ok_def clobber_registry_default_def resolver_new_ok) (simp add: resolver_new_def)

lemma set_update_subset: "set (AList.update k v m) \<subseteq> insert (k, v) (set m)"
  by (induction m) auto

lemma register_paths_by_name_ok:
  assumes ok: "registry_ok reg" and paths: "paths_valid paths"
  shows "\<exists>reg' links. register_paths_by_name reg name paths = Done (reg', links) \<and> registry_ok reg'
    \<and> rv_packages (cr_path_trie reg') = index_insert (as_normalized name) (rv_packages (cr_path_trie reg))
    \<and> (\<forall>q. owned (cr_path_trie reg') q = owned (cr_path_trie reg) q \<union> (if q \<in> set paths then {as_normalized name} else {}))
    \<and> set links = {(p, get_clobber_relative_path (as_normalized name) p) | p.
         p \<in> set paths \<and> (\<exists>f. owned (cr_path_trie reg) f \<noteq> {} \<and> (prefix f p \<or> prefix p f))}"
proof -
  have "resolver_ok (cr_path_trie reg)" using ok by (simp add: registry_ok_def)
  from trie.register_law [OF this paths, of "as_normalized name"] obtain tr cs where
    tr: "insert_package (cr_path_trie reg) (as_normalized name) paths = Done (tr, cs)" "resolver_ok tr"
    "rv_packages tr = index_insert (as_normalized name) (rv_packages (cr_path_trie reg))"
    "\<forall>q. owned tr q = owned (cr_path_trie reg) q \<union> (if q \<in> set paths then {as_normalized name} else {})"
    "set cs = {p \<in> set paths. \<exists>f. owned (cr_path_trie reg) f \<noteq> {} \<and> (prefix f p \<or> prefix p f)}" by blast
  let ?reg = "\<lparr>cr_package_name_map = AList.update (as_normalized name) name (cr_package_name_map reg),
    cr_path_trie = tr, cr_to_add = cr_to_add reg\<rparr>"
  let ?links = "map (\<lambda>p. (p, get_clobber_relative_path (as_normalized name) p)) cs"
  have "registry_ok ?reg"
    using ok tr set_update_subset [of "as_normalized name" name "cr_package_name_map reg"]
    by (auto simp: registry_ok_def index_insert_def dom_update distinct_update)
  moreover have "register_paths_by_name reg name paths = Done (?reg, ?links)"
    by (simp add: register_paths_by_name_def tr(1) Let_def)
  moreover have "set ?links = {(p, get_clobber_relative_path (as_normalized name) p) | p.
         p \<in> set paths \<and> (\<exists>f. owned (cr_path_trie reg) f \<noteq> {} \<and> (prefix f p \<or> prefix p f))}"
    unfolding set_map tr(5) by blast
  ultimately show ?thesis using tr(3,4) by (intro exI [of _ ?reg] exI [of _ ?links]) simp
qed

lemma unregister_paths_ok:
  assumes ok: "registry_ok reg"
  shows "registry_ok (unregister_paths reg p)"
    and "rv_packages (cr_path_trie (unregister_paths reg p)) = remove1 (record_key p) (rv_packages (cr_path_trie reg))"
    and "owned (cr_path_trie (unregister_paths reg p)) q = owned (cr_path_trie reg) q - {record_key p}"
proof -
  have tr: "resolver_ok (cr_path_trie reg)" and d: "distinct (rv_packages (cr_path_trie reg))"
    using ok by (simp_all add: registry_ok_def resolver_ok_def)
  note un = unregister_package_ok [OF tr, of "record_key p"]
  have new: "cr_path_trie (unregister_paths reg p) = fst (unregister_package (cr_path_trie reg) (record_key p))"
    "cr_package_name_map (unregister_paths reg p) = AList.delete (record_key p) (cr_package_name_map reg)"
    by (simp_all add: unregister_paths_def Let_def split: prod.splits)
  show "rv_packages (cr_path_trie (unregister_paths reg p)) = remove1 (record_key p) (rv_packages (cr_path_trie reg))"
    "owned (cr_path_trie (unregister_paths reg p)) q = owned (cr_path_trie reg) q - {record_key p}"
    by (simp_all add: new un)
  show "registry_ok (unregister_paths reg p)"
  proof -
    let ?m = "AList.delete (record_key p) (cr_package_name_map reg)"
    have m: "?m = filter (\<lambda>(k, _). record_key p \<noteq> k) (cr_package_name_map reg)"
      by (simp add: AList.delete_eq)
    have "fst ` set ?m = fst ` set (cr_package_name_map reg) - {record_key p}" unfolding m by force
    moreover have "distinct (map fst ?m)" using ok by (simp add: registry_ok_def distinct_delete)
    moreover have "\<forall>(k, n) \<in> set ?m. as_normalized n = k" using ok unfolding m by (auto simp: registry_ok_def)
    ultimately show ?thesis using ok un(1,2) d by (simp add: registry_ok_def new set_remove1_eq)
  qed
qed

lemma index_insert_new: "x \<notin> set xs \<Longrightarrow> index_insert x xs = xs @ [x]"
  by (simp add: index_insert_def)

lemma register_all_records_ok:
  assumes "registry_ok reg" "\<forall>p \<in> set ps. paths_valid (record_paths p)"
    and "distinct (rv_packages (cr_path_trie reg) @ map record_key ps)"
  shows "\<exists>reg'. register_all_records reg ps = Done reg' \<and> registry_ok reg'
    \<and> rv_packages (cr_path_trie reg') = rv_packages (cr_path_trie reg) @ map record_key ps
    \<and> (\<forall>q. owned (cr_path_trie reg') q =
         owned (cr_path_trie reg) q \<union> {record_key p | p. p \<in> set ps \<and> q \<in> set (record_paths p)})"
  using assms
proof (induction ps arbitrary: reg)
  case (Cons p ps)
  have valid: "paths_valid (record_paths p)" using Cons.prems(2) by simp
  from register_paths_by_name_ok [OF Cons.prems(1) valid, of "prefix_record_name p"] obtain reg1 links where
    reg1: "register_paths_by_name reg (prefix_record_name p) (record_paths p) = Done (reg1, links)" "registry_ok reg1"
    "rv_packages (cr_path_trie reg1) = rv_packages (cr_path_trie reg) @ [record_key p]"
    "\<forall>q. owned (cr_path_trie reg1) q = owned (cr_path_trie reg) q \<union> (if q \<in> set (record_paths p) then {record_key p} else {})"
    using Cons.prems(3) by (auto simp: index_insert_new)
  have "distinct (rv_packages (cr_path_trie reg1) @ map record_key ps)" using Cons.prems(3) reg1(3) by simp
  then obtain reg2 where "register_all_records reg1 ps = Done reg2" "registry_ok reg2"
    "rv_packages (cr_path_trie reg2) = rv_packages (cr_path_trie reg1) @ map record_key ps"
    "\<forall>q. owned (cr_path_trie reg2) q =
         owned (cr_path_trie reg1) q \<union> {record_key p | p. p \<in> set ps \<and> q \<in> set (record_paths p)}"
    using Cons.IH [OF reg1(2)] Cons.prems(2) by auto
  then show ?case
    using reg1 by (intro exI [of _ reg2]) (auto simp: record_paths_def [symmetric])
qed simp

section \<open>Unclobbering\<close>

text \<open>Everything the resolver asks to move belongs to a registered package.\<close>

lemma find_in: "find P xs = Some x \<Longrightarrow> x \<in> set xs \<and> P x"
  by (auto simp: find_Some_iff)

lemma max_by_rank_in: "max_by_rank order S = Some p \<Longrightarrow> p \<in> set order"
  using find_in [of "\<lambda>p. p \<in> S" "rev order" p] unfolding max_by_rank_def by simp

lemma collect_removed_owner: "(q, p) \<in> set (collect_removed_subtree old n cur) \<Longrightarrow> p \<in> set old"
proof (induction n arbitrary: cur rule: path_trie_node_induct)
  case (Node P T C)
  then show ?case by (auto split: option.splits if_splits dest: max_by_rank_in max_by_rank_in [OF sym])
qed

lemma reprioritize_dfs_owner: "(q, p) \<in> set (fst (reprioritize_dfs old new n cur)) \<Longrightarrow> p \<in> set old"
proof (induction n arbitrary: cur rule: path_trie_node_induct)
  case (Node P T C)
  then show ?case
    using collect_removed_owner [of q p old "PathTrieNode P T C" cur]
    by (auto simp: Let_def is_file_of_def simp del: collect_removed_subtree.simps
        split: bool.splits if_splits option.splits dest: max_by_rank_in)
qed

lemma reprioritize_moves_owners:
  assumes ok: "resolver_ok r" and perm: "length (rv_packages r) = length new_order" "set (rv_packages r) = set new_order"
  shows "\<exists>r' to_clobbers from_clobbers. reprioritize_packages r new_order = Done (r', (to_clobbers, from_clobbers))
    \<and> resolver_ok r' \<and> rv_packages r' = rev new_order \<and> rv_root r' = rv_root r
    \<and> snd ` set to_clobbers \<subseteq> set new_order \<and> snd ` set from_clobbers \<subseteq> set new_order"
proof -
  obtain r' tos froms where r': "reprioritize_packages r new_order = Done (r', (tos, froms))"
    "resolver_ok r'" "rv_packages r' = rev new_order" "rv_root r' = rv_root r"
    "moves_ok (visible (rev (rv_packages r)) (rv_root r)) (visible new_order (rv_root r)) (set tos) (set froms)"
    using reprioritize_packages_spec [OF assms] by blast
  have "set froms \<subseteq> visible new_order (rv_root r)" using r'(5) by (auto simp: moves_ok_def)
  then have "snd ` set froms \<subseteq> set new_order" by (auto simp: visible_def dest!: max_by_rank_in)
  moreover have "tos = fst (reprioritize_dfs (rev (rv_packages r)) new_order (rv_root r) [])"
    using r'(1) perm by (auto simp: reprioritize_packages_def)
  then have "snd ` set tos \<subseteq> set new_order"
    using reprioritize_dfs_owner [of _ _ "rev (rv_packages r)" new_order "rv_root r" "[]"] perm(2) by fastforce
  ultimately show ?thesis using r' by blast
qed

lemma plan_moves_owners:
  assumes "snd ` set removals \<subseteq> S" "snd ` set additions \<subseteq> S" "set (rv_packages trie) = S"
    and "plan_moves trie to_add removals additions = (rs, as)"
  shows "snd ` set rs \<subseteq> S" "snd ` set as \<subseteq> S" "set rs \<inter> set as = {}"
proof -
  let ?more = "filter (\<lambda>p. snd p \<in> set (rv_packages trie) \<and> p \<notin> set additions) to_add"
  have rs: "rs = filter (\<lambda>r. r \<notin> set (?more @ additions)) removals" and as: "set as \<subseteq> set (?more @ additions)"
    using assms(4) by (auto simp: plan_moves_def Let_def)
  show "snd ` set rs \<subseteq> S" using assms(1) unfolding rs set_filter by blast
  have "snd ` set ?more \<subseteq> S" using assms(3) by auto
  then show "snd ` set as \<subseteq> S" using as assms(2) unfolding set_append by blast
  show "set rs \<inter> set as = {}" using as unfolding rs set_filter by blast
qed

lemma map_of_key_Some: "k \<in> fst ` set m \<Longrightarrow> \<exists>v. map_of m k = Some v"
  by (cases "map_of m k") (simp_all add: map_of_eq_None_iff)

lemma rename_moved_Done:
  assumes "snd ` set moves \<subseteq> fst ` set records"
  shows "\<exists>records'. rename_moved rename records moves = Done records' \<and> fst ` set records' = fst ` set records"
  using assms
proof (induction moves arbitrary: records)
  case (Cons m moves)
  obtain path pkg where m: "m = (path, pkg)" by (cases m)
  then have pkg: "pkg \<in> fst ` set records" using Cons.prems by simp
  then obtain p where p: "map_of records pkg = Some p" using map_of_key_Some by metis
  let ?records = "AList.update pkg (rename path (join_path (join_path [CLOBBERS_DIR_NAME] (path_components pkg)) path) p) records"
  have keys: "fst ` set ?records = fst ` set records"
    using pkg by (simp add: dom_update insert_absorb)
  show ?case using Cons.IH [of ?records] Cons.prems by (simp add: m p keys Let_def)
qed simp

lemma original_names_Done:
  assumes "\<forall>(k, v) \<in> set cps. cp_winner v \<in> fst ` set m \<and> cp_losers v \<subseteq> fst ` set m"
  shows "original_names m cps = Done (map (\<lambda>(k, v). (k, \<lparr>rc_package = the (map_of m (cp_winner v)),
    rc_other_packages = (\<lambda>l. the (map_of m l)) ` cp_losers v\<rparr>)) cps)"
  using assms
proof (induction cps)
  case (Cons x cps)
  obtain k v where x: "x = (k, v)" by (cases x)
  then obtain n where "map_of m (cp_winner v) = Some n"
    using Cons.prems map_of_key_Some [of "cp_winner v" m] by auto
  then show ?case using Cons x by auto
qed simp

lemma fold_update_keys: "fst ` set (fold (\<lambda>p. AList.update (f p) p) ps m) = f ` set ps \<union> fst ` set m"
  by (induction ps arbitrary: m) (auto simp: dom_update)

text \<open>The overview that a run without an error returns.\<close>

definition overview :: "(owner \<times> package_name) list \<Rightarrow> path_resolver \<Rightarrow> (path \<times> registry_clobbered_path) list" where
  "overview m r = map (\<lambda>(k, v). (k, \<lparr>rc_package = the (map_of m (cp_winner v)),
     rc_other_packages = (\<lambda>l. the (map_of m l)) ` cp_losers v\<rparr>)) (collect_clobbered_paths r)"

lemma overview_iff:
  assumes "resolver_ok r"
  shows "(q, v) \<in> set (overview m r) \<longleftrightarrow> (\<exists>w. find (\<lambda>p. p \<in> owned r q) (rv_packages r) = Some w
    \<and> owned r q - {w} \<noteq> {} \<and> v = \<lparr>rc_package = the (map_of m w),
      rc_other_packages = (\<lambda>l. the (map_of m l)) ` (owned r q - {w})\<rparr>)"
proof -
  have "(q, v) \<in> set (overview m r) \<longleftrightarrow> (\<exists>cp. (q, cp) \<in> set (collect_clobbered_paths r) \<and>
      v = \<lparr>rc_package = the (map_of m (cp_winner cp)), rc_other_packages = (\<lambda>l. the (map_of m l)) ` cp_losers cp\<rparr>)"
    unfolding overview_def by force
  also have "\<dots> \<longleftrightarrow> (\<exists>w. (q, \<lparr>cp_winner = w, cp_losers = owned r q - {w}\<rparr>) \<in> set (collect_clobbered_paths r) \<and>
      v = \<lparr>rc_package = the (map_of m w), rc_other_packages = (\<lambda>l. the (map_of m l)) ` (owned r q - {w})\<rparr>)"
    by (simp only: collect_clobbered_paths_iff [OF assms]) (metis clobbered_path.select_convs)
  finally show ?thesis by (simp add: collect_clobbered_paths_iff [OF assms])
qed

lemma overview_Done:
  assumes "resolver_ok r" "fst ` set m = set (rv_packages r)"
  shows "original_names m (collect_clobbered_paths r) = Done (overview m r)"
proof -
  have "cp_winner v \<in> fst ` set m \<and> cp_losers v \<subseteq> fst ` set m" if "(q, v) \<in> set (collect_clobbered_paths r)" for q v
    using that owned_names [OF assms(1), of q] collect_clobbered_paths_iff [OF assms(1), of q v] assms(2)
    by (auto dest!: find_in)
  then show ?thesis unfolding overview_def by (intro original_names_Done) auto
qed

lemma unclobber_runs:
  assumes ok: "registry_ok reg"
    and names: "distinct (map record_key ps)" "record_key ` set ps = set (rv_packages (cr_path_trie reg))"
  shows "\<exists>r'. resolver_ok r' \<and> rv_packages r' = rev (map record_key ps) \<and> rv_root r' = rv_root (cr_path_trie reg)
    \<and> (\<exists>res. unclobber sync upd reg ps = Done (reg\<lparr>cr_path_trie := r'\<rparr>, res)
       \<and> (\<forall>out. res = Inr out \<longrightarrow> out = overview (cr_package_name_map reg) r'))"
proof -
  let ?names = "map record_key ps" and ?tr = "cr_path_trie reg"
  let ?records = "fold (\<lambda>p. AList.update (record_key p) p) ps []"
  have tr: "resolver_ok ?tr" using ok by (simp add: registry_ok_def)
  have perm: "length (rv_packages ?tr) = length ?names" "set (rv_packages ?tr) = set ?names"
    using names tr by (metis distinct_card list.set_map resolver_ok_def) (simp add: names)
  obtain r' tos froms where r': "reprioritize_packages ?tr ?names = Done (r', tos, froms)" "resolver_ok r'"
    "rv_packages r' = rev ?names" "rv_root r' = rv_root ?tr"
    "snd ` set tos \<subseteq> set ?names" "snd ` set froms \<subseteq> set ?names"
    using reprioritize_moves_owners [OF tr perm] by blast
  obtain rs as where plan: "plan_moves r' (cr_to_add reg) tos froms = (rs, as)"
    by (cases "plan_moves r' (cr_to_add reg) tos froms")
  have moves: "snd ` set rs \<subseteq> set ?names" "snd ` set as \<subseteq> set ?names"
    using plan_moves_owners [OF r'(5,6) _ plan] r'(3) by simp_all
  have keys: "fst ` set ?records = set ?names" by (simp add: fold_update_keys)
  obtain rec1 where rec1: "rename_moved (\<lambda>path clobber r. rename_path_in_prefix_record r path clobber True) ?records rs
      = Done rec1" "fst ` set rec1 = set ?names"
    using rename_moved_Done [of rs ?records] moves(1) unfolding keys by blast
  obtain rec2 where rec2: "rename_moved (\<lambda>path clobber r. rename_path_in_prefix_record r clobber path False) rec1 as
      = Done rec2"
    using rename_moved_Done [of as rec1] moves(2) unfolding rec1(2) by blast
  have names_ok: "fst ` set (cr_package_name_map reg) = set (rv_packages r')"
    using ok r'(3) names(2) by (simp add: registry_ok_def)
  have "\<exists>res. unclobber sync upd reg ps = Done (reg\<lparr>cr_path_trie := r'\<rparr>, res)
      \<and> (\<forall>out. res = Inr out \<longrightarrow> out = overview (cr_package_name_map reg) r')"
    by (cases "sync rs as"; cases "upd rec2 (snd ` set rs \<union> snd ` set as)")
      (simp_all add: unclobber_def Let_def r'(1) plan rec1(1) rec2 overview_Done [OF r'(2) names_ok])
  then show ?thesis using r'(2-4) by blast
qed

section \<open>Properties\<close>

text \<open>
  C22. Unclobbering with the records of exactly the registered packages does not panic, whatever the
  file system answers: it keeps the ownership of every file and the invariant, takes over the new
  priorities (later packages win), and on success reports exactly the files with several owners, with
  the highest owner as winner and the others as losers, under the names they were registered with.
\<close>

theorem unclobber_contract:
  assumes ok: "registry_ok reg"
    and names: "distinct (map record_key ps)" "record_key ` set ps = set (rv_packages (cr_path_trie reg))"
  shows "\<exists>reg' res. unclobber sync upd reg ps = Done (reg', res) \<and> registry_ok reg'
    \<and> rv_packages (cr_path_trie reg') = rev (map record_key ps)
    \<and> (\<forall>q. owned (cr_path_trie reg') q = owned (cr_path_trie reg) q)
    \<and> (\<forall>out. res = Inr out \<longrightarrow> (\<forall>q v. (q, v) \<in> set out \<longleftrightarrow>
         (\<exists>w. find (\<lambda>p. p \<in> owned (cr_path_trie reg) q) (rev (map record_key ps)) = Some w
            \<and> owned (cr_path_trie reg) q - {w} \<noteq> {}
            \<and> v = \<lparr>rc_package = the (map_of (cr_package_name_map reg) w),
                  rc_other_packages = (\<lambda>l. the (map_of (cr_package_name_map reg) l)) ` (owned (cr_path_trie reg) q - {w})\<rparr>)))"
proof -
  obtain r' where run: "resolver_ok r'" "rv_packages r' = rev (map record_key ps)" "rv_root r' = rv_root (cr_path_trie reg)"
    "\<exists>res. unclobber sync upd reg ps = Done (reg\<lparr>cr_path_trie := r'\<rparr>, res)
       \<and> (\<forall>out. res = Inr out \<longrightarrow> out = overview (cr_package_name_map reg) r')"
    using unclobber_runs [OF ok names] by blast
  have owned: "owned r' q = owned (cr_path_trie reg) q" for q using run(3) by (simp add: owned_def)
  have "registry_ok (reg\<lparr>cr_path_trie := r'\<rparr>)" using ok run(1,2) names by (simp add: registry_ok_def)
  then show ?thesis
    using run(2,4) overview_iff [OF run(1)] by (fastforce simp: owned)
qed

definition sample_package :: prefix_record where
  "sample_package = sample_prefix_record (sample_record ''a'' [] []) [[''d'', ''x'']]"

lemma sample_package_paths: "record_paths sample_package = [[''d'', ''x'']]" "record_key sample_package = ''a''"
  by code_simp+

theorem unclobber_contract_witness:
  "\<exists>reg reg' res. register_all_records clobber_registry_default [sample_package] = Done reg
     \<and> unclobber (\<lambda>_ _. Inr ()) (\<lambda>_ _. Inr ()) reg [sample_package] = Done (reg', res) \<and> registry_ok reg'"
proof -
  have valid: "paths_valid (record_paths sample_package)" unfolding sample_package_paths by code_simp
  have pk: "rv_packages (cr_path_trie clobber_registry_default) = []"
    by (simp add: clobber_registry_default_def resolver_new_def)
  have "distinct (rv_packages (cr_path_trie clobber_registry_default) @ map record_key [sample_package])" by (simp add: pk)
  with register_all_records_ok [OF registry_default_ok, of "[sample_package]"] valid obtain reg where
    reg: "register_all_records clobber_registry_default [sample_package] = Done reg" "registry_ok reg"
      "rv_packages (cr_path_trie reg) = [record_key sample_package]"
    by (auto simp: pk)
  have "distinct (map record_key [sample_package])" "record_key ` set [sample_package] = set (rv_packages (cr_path_trie reg))"
    by (simp_all add: reg(3))
  from unclobber_contract [OF reg(2) this, of "\<lambda>_ _. Inr ()" "\<lambda>_ _. Inr ()"] reg(1) show ?thesis by blast
qed

text \<open>
  Moving a file aside and bringing it back leaves the record of its package as it was, when the
  place it is moved to is not a file of the package and the file had not been moved before.
\<close>

theorem rename_path_round_trip:
  assumes "clobber \<notin> set (px_files p)" "\<forall>e \<in> set (pp_paths (px_paths_data p)). pe_relative_path e \<noteq> clobber"
    and "\<forall>e \<in> set (pp_paths (px_paths_data p)). pe_relative_path e = file \<longrightarrow> pe_original_path e = None"
  shows "rename_path_in_prefix_record (rename_path_in_prefix_record p file clobber True) clobber file False = p"
proof -
  have "map ((\<lambda>f. if f = clobber then file else f) \<circ> (\<lambda>f. if f = file then clobber else f)) (px_files p) = px_files p"
    using assms(1) by (intro map_idI) auto
  moreover have "map ((\<lambda>e. if pe_relative_path e = clobber then e\<lparr>pe_relative_path := file, pe_original_path := None\<rparr> else e)
      \<circ> (\<lambda>e. if pe_relative_path e = file then e\<lparr>pe_relative_path := clobber, pe_original_path := Some file\<rparr> else e))
      (pp_paths (px_paths_data p)) = pp_paths (px_paths_data p)"
    using assms(2,3) by (intro map_idI) auto
  ultimately show ?thesis by (simp add: rename_path_in_prefix_record_def)
qed

theorem rename_path_round_trip_witness:
  "rename_path_in_prefix_record (rename_path_in_prefix_record sample_package [''d'', ''x''] [''__clobbers__'', ''a'', ''d'', ''x''] True)
     [''__clobbers__'', ''a'', ''d'', ''x''] [''d'', ''x''] False = sample_package"
proof (rule rename_path_round_trip)
  show "[''__clobbers__'', ''a'', ''d'', ''x''] \<notin> set (px_files sample_package)" by code_simp
  show "\<forall>e \<in> set (pp_paths (px_paths_data sample_package)). pe_relative_path e \<noteq> [''__clobbers__'', ''a'', ''d'', ''x'']"
    by code_simp
  show "\<forall>e \<in> set (pp_paths (px_paths_data sample_package)). pe_relative_path e = [''d'', ''x''] \<longrightarrow> pe_original_path e = None"
    by code_simp
qed

section \<open>The registry of an environment\<close>

lemma sort_prefix_records_result:
  assumes d: "distinct (map record_key ps)"
  shows "\<exists>out. sort_prefix_records ps = Some (Done out) \<and> mset out = mset ps
    \<and> sort_topologically (map px_package_record ps) = Some (Done (map px_package_record out))"
proof -
  have d': "distinct (map record_name (map px_package_record ps))" using d by (simp add: prefix_record_name_def comp_def)
  from sort_topologically_result [OF this] obtain rs where
    rs: "sort_topologically (map px_package_record ps) = Some (Done rs)" "mset rs = mset (map px_package_record ps)" by blast
  let ?origin = "\<lambda>r. the (find (\<lambda>p. record_key p = as_normalized (pr_name r)) (rev ps))"
  have origin: "?origin (px_package_record p) = p" if p: "p \<in> set ps" for p
  proof -
    have "find (\<lambda>p'. record_key p' = record_key p) (rev ps) \<noteq> None" using p by (auto simp: find_None_iff)
    then obtain p' where p': "find (\<lambda>p'. record_key p' = record_key p) (rev ps) = Some p'" by blast
    then have "p' \<in> set ps \<and> record_key p' = record_key p" using find_in [OF p'] by simp
    then have "p' = p" using d p by (auto simp: distinct_map inj_on_def)
    with p' show ?thesis by (simp add: prefix_record_name_def)
  qed
  have "map px_package_record (map ?origin rs) = rs"
  proof (unfold map_map, rule map_idI)
    fix r assume "r \<in> set rs"
    then obtain p where "p \<in> set ps" "r = px_package_record p" using rs(2) by (metis imageE list.set_map set_mset_mset)
    then show "(px_package_record \<circ> ?origin) r = r" using origin by simp
  qed
  moreover have "mset (map ?origin rs) = mset ps"
  proof -
    have "mset (map ?origin rs) = image_mset ?origin (mset (map px_package_record ps))" using rs(2) by simp
    also have "\<dots> = mset (map (?origin \<circ> px_package_record) ps)" unfolding mset_map multiset.map_comp ..
    also have "map (?origin \<circ> px_package_record) ps = ps" using origin by (intro map_idI) simp
    finally show ?thesis .
  qed
  ultimately show ?thesis
    using rs(1) by (intro exI [of _ "map ?origin rs"]) (simp add: sort_prefix_records_def)
qed

lemma clobber_registry_new_result:
  assumes d: "distinct (map record_key ps)" and valid: "\<forall>p \<in> set ps. paths_valid (record_paths p)"
  shows "\<exists>out reg. clobber_registry_new ps = Some (Done reg) \<and> registry_ok reg \<and> mset out = mset ps
    \<and> sort_topologically (map px_package_record ps) = Some (Done (map px_package_record out))
    \<and> rv_packages (cr_path_trie reg) = rev (map record_key out)
    \<and> (\<forall>q. owned (cr_path_trie reg) q = {record_key p | p. p \<in> set ps \<and> q \<in> set (record_paths p)})"
proof -
  obtain out where out: "sort_prefix_records ps = Some (Done out)" "mset out = mset ps"
    "sort_topologically (map px_package_record ps) = Some (Done (map px_package_record out))"
    using sort_prefix_records_result [OF d] by blast
  have set: "set out = set ps" using out(2) by (metis set_mset_mset)
  have "distinct (map record_key out)"
    using d out(2) by (metis mset_eq_imp_distinct_iff mset_map)
  then have "distinct (rv_packages (cr_path_trie clobber_registry_default) @ map record_key (rev out))"
    by (simp add: clobber_registry_default_def resolver_new_def flip: rev_map)
  moreover have "\<forall>p \<in> set (rev out). paths_valid (record_paths p)" using valid set by simp
  ultimately obtain reg where "register_all_records clobber_registry_default (rev out) = Done reg" "registry_ok reg"
    "rv_packages (cr_path_trie reg) = rv_packages (cr_path_trie clobber_registry_default) @ map record_key (rev out)"
    "\<forall>q. owned (cr_path_trie reg) q = owned (cr_path_trie clobber_registry_default) q
        \<union> {record_key p | p. p \<in> set (rev out) \<and> q \<in> set (record_paths p)}"
    using register_all_records_ok [OF registry_default_ok] by blast
  moreover have "owned (cr_path_trie clobber_registry_default) q = {}" for q
    using registry_default_ok owned_names [of "cr_path_trie clobber_registry_default" q]
    by (simp add: registry_ok_def clobber_registry_default_def resolver_new_def)
  ultimately show ?thesis
    using out set by (intro exI [of _ out] exI [of _ reg])
      (simp add: clobber_registry_new_def clobber_registry_default_def resolver_new_def rev_map)
qed

lemma find_not_later:
  assumes "distinct xs" "i < j" "j < length xs" "P (xs ! i)"
  shows "find P xs \<noteq> Some (xs ! j)"
proof
  assume "find P xs = Some (xs ! j)"
  then obtain k where "k < length xs" "xs ! k = xs ! j" "\<forall>l<k. \<not> P (xs ! l)" by (auto simp: find_Some_iff)
  then show False using assms by (metis nth_eq_iff_index_eq)
qed

lemma dependency_not_winner:
  assumes names: "distinct (map record_key ps)" and out: "mset out = mset ps"
    and sorted: "sort_topologically (map px_package_record ps) = Some (Done (map px_package_record out))"
    and pk: "rv_packages (cr_path_trie reg) = rev (map record_key out)"
    and owned: "\<forall>q. owned (cr_path_trie reg) q = {record_key p | p. p \<in> set ps \<and> q \<in> set (record_paths p)}"
    and acyclic: "acyclic_deps (collect_packages (map px_package_record ps))"
    and p: "p \<in> set ps" "dep \<in> set ps" "record_key dep \<in> set (dep_names (px_package_record p))" "q \<in> set (record_paths p)"
  shows "find (\<lambda>k. k \<in> owned (cr_path_trie reg) q) (rv_packages (cr_path_trie reg)) \<noteq> Some (record_key dep)"
proof -
  let ?rs = "map px_package_record ps" and ?names = "map record_key out"
  have d: "distinct ?names" using names out by (metis mset_eq_imp_distinct_iff mset_map)
  have key: "record_key x = record_name (px_package_record x)" for x by (simp add: prefix_record_name_def)
  have "distinct (map record_name ?rs)" using names by (simp add: key comp_def)
  from sort_topologically_result [OF this] acyclic sorted have first:
    "\<forall>i < length out. \<forall>d \<in> set (dep_names (px_package_record (out ! i))).
        d \<in> record_name ` set ?rs \<longrightarrow> (\<exists>j < i. record_name (map px_package_record out ! j) = d)" by auto
  obtain i where i: "i < length out" "out ! i = p" using p(1) out by (metis in_set_conv_nth set_mset_mset)
  have "record_key dep \<in> record_name ` set ?rs" using p(2) by (auto simp: key)
  then obtain j where j: "j < i" "?names ! j = record_key dep"
  proof -
    assume found: "\<And>j. j < i \<Longrightarrow> ?names ! j = record_key dep \<Longrightarrow> thesis"
    obtain j where "j < i" "record_name (map px_package_record out ! j) = record_key dep"
      using first i p(3) \<open>record_key dep \<in> record_name ` set ?rs\<close> by blast
    then show thesis using found [of j] i(1) by (simp add: key)
  qed
  let ?l = "length ?names"
  have "rev ?names ! (?l - Suc i) = record_key p" "rev ?names ! (?l - Suc j) = record_key dep"
    using i j by (simp_all add: rev_nth)
  moreover have "?l - Suc i < ?l - Suc j" "?l - Suc j < length (rev ?names)" using i(1) j(1) by auto
  moreover have "record_key p \<in> owned (cr_path_trie reg) q" using owned p(1,4) by blast
  ultimately show ?thesis
    using find_not_later [of "rev ?names" "?l - Suc i" "?l - Suc j" "\<lambda>k. k \<in> owned (cr_path_trie reg) q"] d pk by simp
qed

end
