(* ===== verification/Offset_Encoding.thy ===== *)
theory Offset_Encoding
  imports Rattler_Prelude Prefix_Record "HOL-Library.Word"
begin

text \<open>
  The prefix placeholder of a file as \<open>paths.json\<close> records it
  (\<open>rattler_conda_types/src/package/paths.rs\<close>): the text encodings of the draft CEP, the offset groups and
  their validation, and the placeholder with its (untrusted) offsets. Because the encodings depend on
  the code points, a Rust \<open>str\<close> is here a list of Unicode scalar values, and a \<open>Vec<u8>\<close> a list
  of 8-bit words.
\<close>

section \<open>Text and bytes\<close>

type_synonym byte = "8 word"
type_synonym scalar = nat
type_synonym utext = "scalar list"

definition is_scalar :: "nat \<Rightarrow> bool" where
  "is_scalar c \<longleftrightarrow> c < 0xD800 \<or> 0xE000 \<le> c \<and> c < 0x110000"

abbreviation is_text :: "utext \<Rightarrow> bool" where
  "is_text t \<equiv> list_all is_scalar t"

definition to_byte :: "nat \<Rightarrow> byte" where
  "to_byte n = word_of_nat n"

definition ascii :: "string \<Rightarrow> utext" where
  "ascii s = map of_char s"

definition ascii_bytes :: "string \<Rightarrow> byte list" where
  "ascii_bytes s = map (\<lambda>c. to_byte (of_char c)) s"

text \<open>\<open>str::as_bytes\<close>: the UTF-8 encoding of each scalar value.\<close>

definition utf8_char :: "scalar \<Rightarrow> byte list" where
  "utf8_char c =
     (if c < 0x80 then [to_byte c]
      else if c < 0x800 then [to_byte (0xC0 + c div 64), to_byte (0x80 + c mod 64)]
      else if c < 0x10000 then
        [to_byte (0xE0 + c div 4096), to_byte (0x80 + c div 64 mod 64), to_byte (0x80 + c mod 64)]
      else
        [to_byte (0xF0 + c div 262144), to_byte (0x80 + c div 4096 mod 64),
         to_byte (0x80 + c div 64 mod 64), to_byte (0x80 + c mod 64)])"

definition as_bytes :: "utext \<Rightarrow> byte list" where
  "as_bytes t = concat (map utf8_char t)"

text \<open>\<open>str::encode_utf16\<close>: one unit, or a surrogate pair.\<close>

definition utf16_char :: "scalar \<Rightarrow> nat list" where
  "utf16_char c =
     (if c < 0x10000 then [c]
      else [0xD800 + (c - 0x10000) div 1024, 0xDC00 + (c - 0x10000) mod 1024])"

definition encode_utf16 :: "utext \<Rightarrow> nat list" where
  "encode_utf16 t = concat (map utf16_char t)"

text \<open>\<open>to_le_bytes\<close> and \<open>to_be_bytes\<close> of a \<open>k\<close>-byte integer.\<close>

fun to_le_bytes :: "nat \<Rightarrow> nat \<Rightarrow> byte list" where
  "to_le_bytes 0 n = []"
| "to_le_bytes (Suc k) n = to_byte (n mod 256) # to_le_bytes k (n div 256)"

definition to_be_bytes :: "nat \<Rightarrow> nat \<Rightarrow> byte list" where
  "to_be_bytes k n = rev (to_le_bytes k n)"

section \<open>Encodings\<close>

datatype offset_encoding = OE_Utf8 | OE_Utf16Le | OE_Utf16Be | OE_Utf32Le | OE_Utf32Be

definition DEFINED :: "offset_encoding list" where
  "DEFINED = [OE_Utf8, OE_Utf16Le, OE_Utf16Be, OE_Utf32Le, OE_Utf32Be]"

fun encoding_as_str :: "offset_encoding \<Rightarrow> string" where
  "encoding_as_str OE_Utf8 = ''utf-8''"
| "encoding_as_str OE_Utf16Le = ''utf-16-le''"
| "encoding_as_str OE_Utf16Be = ''utf-16-be''"
| "encoding_as_str OE_Utf32Le = ''utf-32-le''"
| "encoding_as_str OE_Utf32Be = ''utf-32-be''"

fun code_unit_size :: "offset_encoding \<Rightarrow> nat" where
  "code_unit_size OE_Utf8 = 1"
| "code_unit_size OE_Utf16Le = 2"
| "code_unit_size OE_Utf16Be = 2"
| "code_unit_size OE_Utf32Le = 4"
| "code_unit_size OE_Utf32Be = 4"

fun encode :: "offset_encoding \<Rightarrow> utext \<Rightarrow> byte list" where
  "encode OE_Utf8 t = as_bytes t"
| "encode OE_Utf16Le t = concat (map (to_le_bytes 2) (encode_utf16 t))"
| "encode OE_Utf16Be t = concat (map (to_be_bytes 2) (encode_utf16 t))"
| "encode OE_Utf32Le t = concat (map (to_le_bytes 4) t)"
| "encode OE_Utf32Be t = concat (map (to_be_bytes 4) t)"

section \<open>Recorded offsets\<close>

datatype invalid_offsets_error =
  IO_EmptyList
| IO_UnrecognizedEncoding string
| IO_UnrecognizedMembers offset_encoding "string list"
| IO_DuplicateEncoding offset_encoding
| IO_EmptyRanges offset_encoding
| IO_RangesShapeMismatch offset_encoding
| IO_ShortCStringRanges offset_encoding
| IO_ShebangLengthOnBinary
| IO_MalformedShebangLength

definition offset_encoding_from_str :: "string \<Rightarrow> invalid_offsets_error + offset_encoding" where
  "offset_encoding_from_str name =
     (case List.find (\<lambda>e. encoding_as_str e = name) DEFINED of
        Some e \<Rightarrow> Inr e
      | None \<Rightarrow> Inl (IO_UnrecognizedEncoding name))"

datatype offset_ranges = OR_Text "nat list" | OR_Binary "nat list list"

fun ranges_is_empty :: "offset_ranges \<Rightarrow> bool" where
  "ranges_is_empty (OR_Text offsets) \<longleftrightarrow> offsets = []"
| "ranges_is_empty (OR_Binary groups) \<longleftrightarrow> groups = []"

record offset_group =
  og_encoding :: offset_encoding
  og_ranges :: offset_ranges

definition offset_group_new :: "offset_encoding \<Rightarrow> offset_ranges \<Rightarrow> invalid_offsets_error + offset_group" where
  "offset_group_new encoding ranges =
     (if ranges_is_empty ranges then Inl (IO_EmptyRanges encoding)
      else if (case ranges of OR_Binary cstrings \<Rightarrow> list_ex (\<lambda>c. length c < 2) cstrings | OR_Text _ \<Rightarrow> False)
      then Inl (IO_ShortCStringRanges encoding)
      else Inr \<lparr>og_encoding = encoding, og_ranges = ranges\<rparr>)"

record prefix_offsets =
  po_file_mode :: file_mode
  po_groups :: "offset_group list"
  po_shebang_length :: "nat option"

fun shape_matches :: "file_mode \<Rightarrow> offset_ranges \<Rightarrow> bool" where
  "shape_matches FM_Text (OR_Text _) \<longleftrightarrow> True"
| "shape_matches FM_Binary (OR_Binary _) \<longleftrightarrow> True"
| "shape_matches FM_Text (OR_Binary _) \<longleftrightarrow> False"
| "shape_matches FM_Binary (OR_Text _) \<longleftrightarrow> False"

text \<open>The loop over the groups with their index: \<open>earlier\<close> is \<open>groups[..index]\<close>.\<close>

fun check_groups :: "file_mode \<Rightarrow> offset_group list \<Rightarrow> offset_group list \<Rightarrow> invalid_offsets_error option" where
  "check_groups file_mode earlier [] = None"
| "check_groups file_mode earlier (g # groups) =
     (if list_ex (\<lambda>e. og_encoding e = og_encoding g) earlier then Some (IO_DuplicateEncoding (og_encoding g))
      else if \<not> shape_matches file_mode (og_ranges g) then Some (IO_RangesShapeMismatch (og_encoding g))
      else check_groups file_mode (earlier @ [g]) groups)"

definition prefix_offsets_new ::
    "file_mode \<Rightarrow> offset_group list \<Rightarrow> nat option \<Rightarrow> invalid_offsets_error + prefix_offsets" where
  "prefix_offsets_new file_mode groups shebang_length =
     (if shebang_length \<noteq> None \<and> file_mode = FM_Binary then Inl IO_ShebangLengthOnBinary
      else if groups = [] \<and> shebang_length = None then Inl IO_EmptyList
      else case check_groups file_mode [] groups of
          Some e \<Rightarrow> Inl e
        | None \<Rightarrow> Inr \<lparr>po_file_mode = file_mode, po_groups = groups, po_shebang_length = shebang_length\<rparr>)"

section \<open>The placeholder in paths.json\<close>

text \<open>
  JSON values are values of the \<open>serde_json\<close> crate, a parameter: \<open>as_u64\<close> reads a length, \<open>from_u64\<close>
  writes one.
\<close>

record 'j raw_offset_group =
  rg_encoding :: string
  rg_ranges :: offset_ranges
  rg_other_members :: "(string \<times> 'j) list"

definition into_offset_group :: "'j raw_offset_group \<Rightarrow> invalid_offsets_error + offset_group" where
  "into_offset_group raw =
     (case offset_encoding_from_str (rg_encoding raw) of
        Inl e \<Rightarrow> Inl e
      | Inr encoding \<Rightarrow>
          if rg_other_members raw \<noteq> [] then Inl (IO_UnrecognizedMembers encoding (map fst (rg_other_members raw)))
          else offset_group_new encoding (rg_ranges raw))"

text \<open>\<open>collect::<Result<Vec<_>, _>>\<close> of the groups.\<close>

fun into_offset_groups :: "'j raw_offset_group list \<Rightarrow> invalid_offsets_error + offset_group list" where
  "into_offset_groups [] = Inr []"
| "into_offset_groups (raw # raws) =
     (case into_offset_group raw of
        Inl e \<Rightarrow> Inl e
      | Inr g \<Rightarrow> (case into_offset_groups raws of Inl e \<Rightarrow> Inl e | Inr gs \<Rightarrow> Inr (g # gs)))"

record prefix_placeholder =
  ph_file_mode :: file_mode
  ph_placeholder :: utext
  ph_experimental_offsets :: "(invalid_offsets_error + prefix_offsets) option"

record 'j raw_prefix_placeholder =
  rp_file_mode :: file_mode
  rp_placeholder :: utext
  rp_offsets :: "'j raw_offset_group list option"
  rp_shebang_length :: "'j option"

definition raw_shebang_length :: "('j \<Rightarrow> nat option) \<Rightarrow> 'j option \<Rightarrow> invalid_offsets_error + nat option" where
  "raw_shebang_length as_u64 v =
     (case v of
        None \<Rightarrow> Inr None
      | Some j \<Rightarrow> (case as_u64 j of Some n \<Rightarrow> Inr (Some n) | None \<Rightarrow> Inl IO_MalformedShebangLength))"

definition placeholder_deserialize :: "('j \<Rightarrow> nat option) \<Rightarrow> 'j raw_prefix_placeholder \<Rightarrow> prefix_placeholder" where
  "placeholder_deserialize as_u64 raw =
     \<lparr>ph_file_mode = rp_file_mode raw,
      ph_placeholder = rp_placeholder raw,
      ph_experimental_offsets =
        map_option (\<lambda>groups.
          case raw_shebang_length as_u64 (rp_shebang_length raw) of
            Inl e \<Rightarrow> Inl e
          | Inr shebang_length \<Rightarrow>
              (case into_offset_groups groups of
                 Inl e \<Rightarrow> Inl e
               | Inr groups \<Rightarrow> prefix_offsets_new (rp_file_mode raw) groups shebang_length)) (rp_offsets raw)\<rparr>"

definition serialize_group :: "offset_group \<Rightarrow> 'j raw_offset_group" where
  "serialize_group g =
     \<lparr>rg_encoding = encoding_as_str (og_encoding g), rg_ranges = og_ranges g, rg_other_members = []\<rparr>"

definition placeholder_serialize :: "(nat \<Rightarrow> 'j) \<Rightarrow> prefix_placeholder \<Rightarrow> 'j raw_prefix_placeholder" where
  "placeholder_serialize from_u64 p =
     (let offsets = (case ph_experimental_offsets p of
                       Some (Inr offsets) \<Rightarrow> if po_file_mode offsets = ph_file_mode p then Some offsets else None
                     | Some (Inl _) \<Rightarrow> None
                     | None \<Rightarrow> None)
      in \<lparr>rp_file_mode = ph_file_mode p,
          rp_placeholder = ph_placeholder p,
          rp_offsets = map_option (\<lambda>po. map serialize_group (po_groups po)) offsets,
          rp_shebang_length = map_option from_u64 (Option.bind offsets po_shebang_length)\<rparr>)"

section \<open>Lemmas on the encodings\<close>

lemma utf8_char_nonempty [simp]: "utf8_char c \<noteq> []"
  by (simp add: utf8_char_def)

lemma utf16_char_nonempty [simp]: "utf16_char c \<noteq> []"
  by (simp add: utf16_char_def)

lemma length_to_le_bytes [simp]: "length (to_le_bytes k n) = k"
  by (induction k n rule: to_le_bytes.induct) simp_all

lemma length_to_be_bytes [simp]: "length (to_be_bytes k n) = k"
  by (simp add: to_be_bytes_def)

lemma length_concat_const: "(\<And>x. length (f x) = k) \<Longrightarrow> length (concat (map f xs)) = k * length xs"
  by (induction xs) simp_all

lemma code_unit_size_pos [simp]: "0 < code_unit_size e"
  by (cases e) simp_all

lemma encode_units: "code_unit_size e dvd length (encode e t)"
  by (cases e) (simp_all add: length_concat_const)

lemma concat_map_Nil_iff: "(\<And>x. f x \<noteq> []) \<Longrightarrow> concat (map f xs) = [] \<longleftrightarrow> xs = []"
  by (cases xs) simp_all

lemma to_bytes_nonempty [simp]: "to_le_bytes (Suc k) n \<noteq> []" "to_be_bytes (Suc k) n \<noteq> []"
  by (simp_all add: to_be_bytes_def)

lemma as_bytes_Nil_iff [simp]: "as_bytes t = [] \<longleftrightarrow> t = []"
  unfolding as_bytes_def by (rule concat_map_Nil_iff) simp

lemma encode_Nil_iff [simp]: "encode e t = [] \<longleftrightarrow> t = []"
proof -
  have "encode_utf16 t = [] \<longleftrightarrow> t = []"
    unfolding encode_utf16_def by (rule concat_map_Nil_iff) simp
  moreover have "concat (map (to_le_bytes (Suc k)) xs) = [] \<longleftrightarrow> xs = []"
    and "concat (map (to_be_bytes (Suc k)) xs) = [] \<longleftrightarrow> xs = []" for k xs
    by (rule concat_map_Nil_iff, simp)+
  ultimately show ?thesis
    by (cases e) (simp_all only: encode.simps numeral_2_eq_2 eval_nat_numeral as_bytes_Nil_iff)
qed

declare encode.simps(2-5) [simp del]

lemma encoding_as_str_inject [simp]: "encoding_as_str a = encoding_as_str b \<longleftrightarrow> a = b"
  by (cases a; cases b) simp_all

lemma in_DEFINED [simp]: "e \<in> set DEFINED"
  by (cases e) (simp_all add: DEFINED_def)

lemma offset_encoding_round_trip [simp]: "offset_encoding_from_str (encoding_as_str e) = Inr e"
  by (cases e) (simp_all add: offset_encoding_from_str_def DEFINED_def)

section \<open>Lemmas on the recorded offsets\<close>

text \<open>What a group and the offsets of a file promise once they are constructed.\<close>

fun ranges_wf :: "offset_ranges \<Rightarrow> bool" where
  "ranges_wf (OR_Text offsets) \<longleftrightarrow> offsets \<noteq> []"
| "ranges_wf (OR_Binary cstrings) \<longleftrightarrow> cstrings \<noteq> [] \<and> (\<forall>c \<in> set cstrings. 2 \<le> length c)"

definition prefix_offsets_wf :: "prefix_offsets \<Rightarrow> bool" where
  "prefix_offsets_wf po \<longleftrightarrow>
     distinct (map og_encoding (po_groups po))
     \<and> (\<forall>g \<in> set (po_groups po). shape_matches (po_file_mode po) (og_ranges g))
     \<and> (po_groups po = [] \<longrightarrow> po_shebang_length po \<noteq> None)
     \<and> (po_shebang_length po \<noteq> None \<longrightarrow> po_file_mode po = FM_Text)"

lemma offset_group_new_iff:
  "offset_group_new e r = Inr g \<longleftrightarrow> ranges_wf r \<and> g = \<lparr>og_encoding = e, og_ranges = r\<rparr>"
  by (cases r) (auto simp: offset_group_new_def list_ex_iff not_less [symmetric])

lemma check_groups_None_iff:
  "check_groups fm earlier groups = None \<longleftrightarrow>
     distinct (map og_encoding groups) \<and> (\<forall>g \<in> set groups. \<forall>e \<in> set earlier. og_encoding e \<noteq> og_encoding g)
     \<and> (\<forall>g \<in> set groups. shape_matches fm (og_ranges g))"
  by (induction fm earlier groups rule: check_groups.induct) (auto simp: list_ex_iff)

lemma prefix_offsets_new_iff:
  "prefix_offsets_new fm groups sl = Inr po \<longleftrightarrow>
     po = \<lparr>po_file_mode = fm, po_groups = groups, po_shebang_length = sl\<rparr> \<and> prefix_offsets_wf po"
proof -
  have "check_groups fm [] groups = None \<longleftrightarrow>
      distinct (map og_encoding groups) \<and> (\<forall>g \<in> set groups. shape_matches fm (og_ranges g))"
    by (simp add: check_groups_None_iff)
  then show ?thesis
    by (cases fm; cases "check_groups fm [] groups"; cases sl)
      (auto simp: prefix_offsets_new_def prefix_offsets_wf_def)
qed

lemma into_offset_group_serialize:
  "ranges_wf (og_ranges g) \<Longrightarrow> into_offset_group (serialize_group g) = Inr g"
  by (simp add: into_offset_group_def serialize_group_def offset_group_new_iff)

lemma into_offset_groups_serialize:
  "\<forall>g \<in> set gs. ranges_wf (og_ranges g) \<Longrightarrow> into_offset_groups (map serialize_group gs) = Inr gs"
  by (induction gs) (simp_all add: into_offset_group_serialize)

lemma into_offset_group_wf: "into_offset_group raw = Inr g \<Longrightarrow> ranges_wf (og_ranges g)"
  by (auto simp: into_offset_group_def offset_group_new_iff split: sum.splits if_splits)

lemma into_offset_groups_wf: "into_offset_groups raws = Inr gs \<Longrightarrow> g \<in> set gs \<Longrightarrow> ranges_wf (og_ranges g)"
  by (induction raws arbitrary: gs) (auto split: sum.splits dest: into_offset_group_wf)

text \<open>What a consumer can rely on of the offsets of a placeholder that was read.\<close>

definition offsets_wf :: "file_mode \<Rightarrow> prefix_offsets \<Rightarrow> bool" where
  "offsets_wf fm po \<longleftrightarrow> po_file_mode po = fm \<and> prefix_offsets_wf po \<and> (\<forall>g \<in> set (po_groups po). ranges_wf (og_ranges g))"

lemma deserialize_wf:
  assumes "ph_experimental_offsets (placeholder_deserialize as_u64 raw) = Some (Inr po)"
  shows "offsets_wf (rp_file_mode raw) po"
proof -
  obtain groups sl gs where "rp_offsets raw = Some groups" "into_offset_groups groups = Inr gs"
    "prefix_offsets_new (rp_file_mode raw) gs sl = Inr po"
    using assms
    by (cases "raw_shebang_length as_u64 (rp_shebang_length raw)"; cases "rp_offsets raw";
        cases "into_offset_groups (the (rp_offsets raw))")
      (auto simp: placeholder_deserialize_def)
  then show ?thesis
    by (auto simp: offsets_wf_def prefix_offsets_new_iff dest: into_offset_groups_wf)
qed

lemma raw_shebang_length_round_trip:
  "\<forall>n. as_u64 (from_u64 n) = Some n \<Longrightarrow> raw_shebang_length as_u64 (map_option from_u64 sl) = Inr sl"
  by (cases sl) (simp_all add: raw_shebang_length_def)

text \<open>
  C29. The offsets read from \<open>paths.json\<close> and accepted have the file mode of their placeholder, one
  group per encoding, ranges of the shape of the file mode and at least one occurrence per group and per
  c-string; a placeholder without offsets or with such offsets is read back as it was written; and offsets that
  were invalid or belong to another file mode are not written.
\<close>

theorem placeholder_round_trip:
  fixes from_u64 :: "nat \<Rightarrow> 'j"
  assumes "\<forall>n. as_u64 (from_u64 n) = Some n"
  shows "(\<forall>po. ph_experimental_offsets (placeholder_deserialize as_u64 raw) = Some (Inr po) \<longrightarrow> offsets_wf (rp_file_mode raw) po)
    \<and> (ph_experimental_offsets p = None \<or> (\<exists>po. ph_experimental_offsets p = Some (Inr po) \<and> offsets_wf (ph_file_mode p) po)
        \<longrightarrow> placeholder_deserialize as_u64 (placeholder_serialize from_u64 p) = p)
    \<and> ((\<exists>e. ph_experimental_offsets p = Some (Inl e)) \<or> (\<exists>po. ph_experimental_offsets p = Some (Inr po) \<and> po_file_mode po \<noteq> ph_file_mode p)
        \<longrightarrow> placeholder_serialize from_u64 p = placeholder_serialize from_u64 (p\<lparr>ph_experimental_offsets := None\<rparr>))"
proof (intro conjI impI allI)
  assume "ph_experimental_offsets p = None \<or> (\<exists>po. ph_experimental_offsets p = Some (Inr po) \<and> offsets_wf (ph_file_mode p) po)"
  then show "placeholder_deserialize as_u64 (placeholder_serialize from_u64 p) = p"
  proof (elim disjE exE conjE)
    fix po assume po: "ph_experimental_offsets p = Some (Inr po)" "offsets_wf (ph_file_mode p) po"
    then have "prefix_offsets_new (ph_file_mode p) (po_groups po) (po_shebang_length po) = Inr po"
      by (simp add: prefix_offsets_new_iff offsets_wf_def)
    moreover have "into_offset_groups (map serialize_group (po_groups po) :: 'j raw_offset_group list) = Inr (po_groups po)"
      by (rule into_offset_groups_serialize) (use po(2) in \<open>simp add: offsets_wf_def\<close>)
    ultimately show ?thesis
      using po assms
      by (simp add: placeholder_deserialize_def placeholder_serialize_def offsets_wf_def raw_shebang_length_round_trip)
  qed (simp add: placeholder_deserialize_def placeholder_serialize_def)
qed (auto simp: placeholder_serialize_def intro: deserialize_wf)

theorem placeholder_round_trip_witness:
  "placeholder_deserialize Some (placeholder_serialize id
      \<lparr>ph_file_mode = FM_Text, ph_placeholder = [47, 112],
       ph_experimental_offsets = Some (Inr \<lparr>po_file_mode = FM_Text,
         po_groups = [\<lparr>og_encoding = OE_Utf8, og_ranges = OR_Text [7, 12]\<rparr>], po_shebang_length = Some 5\<rparr>)\<rparr>)
    = \<lparr>ph_file_mode = FM_Text, ph_placeholder = [47, 112],
       ph_experimental_offsets = Some (Inr \<lparr>po_file_mode = FM_Text,
         po_groups = [\<lparr>og_encoding = OE_Utf8, og_ranges = OR_Text [7, 12]\<rparr>], po_shebang_length = Some 5\<rparr>)\<rparr>"
  using placeholder_round_trip [of Some id undefined "\<lparr>ph_file_mode = FM_Text, ph_placeholder = [47, 112],
       ph_experimental_offsets = Some (Inr \<lparr>po_file_mode = FM_Text,
         po_groups = [\<lparr>og_encoding = OE_Utf8, og_ranges = OR_Text [7, 12]\<rparr>], po_shebang_length = Some 5\<rparr>)\<rparr>"]
  by (simp add: offsets_wf_def prefix_offsets_wf_def)

end
