(* ===== verification/Byte_Search.thy ===== *)
theory Byte_Search
  imports Offset_Encoding
begin

text \<open>
  Searching in sequences: the standard library's \<open>str::match_indices\<close> and \<open>str::replace\<close>, and
  the \<open>memchr\<close> crate. The crate is a parameter, a record of the three functions
  that prefix replacement calls; its documented behaviour is the locale \<open>memchr_laws\<close>, and the
  standard library's search satisfies it.
\<close>

section \<open>All occurrences, from left to right without overlap\<close>

function matches_from :: "'a list \<Rightarrow> 'a list \<Rightarrow> nat \<Rightarrow> nat list" where
  "matches_from h n k =
     (if n = [] then []
      else case str_find (drop k h) n of
          None \<Rightarrow> []
        | Some i \<Rightarrow> (k + i) # matches_from h n (k + i + length n))"
  by pat_completeness auto
termination
proof (relation "measure (\<lambda>(h, n, k). Suc (length h) - k)")
  fix h n :: "'a list" and k i
  assume "n \<noteq> []" and "str_find (drop k h) n = Some i"
  then have "0 < length n" "i + length n \<le> length h - k"
    by (auto simp: str_find_Some_iff dest: occurs_at_bound)
  then show "((h, n, k + i + length n), (h, n, k)) \<in> measure (\<lambda>(h, n, k). Suc (length h) - k)"
    by (simp del: length_greater_0_conv)
qed simp

declare matches_from.simps [simp del]

definition match_indices :: "'a list \<Rightarrow> 'a list \<Rightarrow> nat list" where
  "match_indices h n = matches_from h n 0"

text \<open>\<open>str::replace\<close>; an empty pattern matches at every boundary.\<close>

function str_replace :: "'a list \<Rightarrow> 'a list \<Rightarrow> 'a list \<Rightarrow> 'a list" where
  "str_replace h n t =
     (if n = [] then t @ concat (map (\<lambda>c. c # t) h)
      else case str_find h n of
          None \<Rightarrow> h
        | Some i \<Rightarrow> take i h @ t @ str_replace (drop (i + length n) h) n t)"
  by pat_completeness auto
termination
proof (relation "measure (\<lambda>(h, n, t). length h)")
  fix h n t :: "'a list" and i
  assume "n \<noteq> []" and "str_find h n = Some i"
  then have "0 < length n" "i + length n \<le> length h"
    by (auto simp: str_find_Some_iff dest: occurs_at_bound)
  then show "((drop (i + length n) h, n, t), (h, n, t)) \<in> measure (\<lambda>(h, n, t). length h)"
    by (simp del: length_greater_0_conv)
qed simp

declare str_replace.simps [simp del]

lemma str_replace_absent: "n \<noteq> [] \<Longrightarrow> (\<forall>i. \<not> occurs_at h n i) \<Longrightarrow> str_replace h n t = h"
  by (subst str_replace.simps) (simp add: str_find_None_iff [symmetric])

section \<open>The memchr crate\<close>

record memchr_crate =
  mc_find :: "byte list \<Rightarrow> byte list \<Rightarrow> nat option"
  mc_find_iter :: "byte list \<Rightarrow> byte list \<Rightarrow> nat list"
  mc_memchr :: "byte \<Rightarrow> byte list \<Rightarrow> nat option"

locale memchr_laws =
  fixes mc :: memchr_crate
  assumes find_Some: "n \<noteq> [] \<Longrightarrow> mc_find mc h n = Some i \<longleftrightarrow> occurs_at h n i \<and> (\<forall>j<i. \<not> occurs_at h n j)"
    and find_iter: "n \<noteq> [] \<Longrightarrow> mc_find_iter mc h n = match_indices h n"
    and memchr: "mc_memchr mc b h = Some i \<longleftrightarrow> i < length h \<and> h ! i = b \<and> (\<forall>j<i. h ! j \<noteq> b)"
begin

lemma find_eq_str_find: "n \<noteq> [] \<Longrightarrow> mc_find mc h n = str_find h n"
  by (metis find_Some not_None_eq str_find_Some_iff)

lemma memchr_None: "mc_memchr mc b h = None \<longleftrightarrow> b \<notin> set h"
proof
  assume none: "mc_memchr mc b h = None"
  have "\<not> (i < length h \<and> h ! i = b)" for i
  proof (induction i rule: less_induct)
    case (less i)
    with none show ?case by (metis memchr option.distinct(1) order.strict_trans)
  qed
  then show "b \<notin> set h" by (auto simp: in_set_conv_nth)
qed (metis memchr not_None_eq nth_mem)

end

text \<open>The standard library's search has the documented behaviour of the crate.\<close>

fun position :: "'a \<Rightarrow> 'a list \<Rightarrow> nat option" where
  "position b [] = None"
| "position b (x # xs) = (if x = b then Some 0 else map_option Suc (position b xs))"

lemma position_Some_iff: "position b h = Some i \<longleftrightarrow> i < length h \<and> h ! i = b \<and> (\<forall>j<i. h ! j \<noteq> b)"
  by (induction h arbitrary: i) (auto simp: nth_Cons less_Suc_eq_0_disj split: nat.splits)

definition std_search :: memchr_crate where
  "std_search = \<lparr>mc_find = str_find, mc_find_iter = match_indices, mc_memchr = position\<rparr>"

interpretation std: memchr_laws std_search
  by unfold_locales (auto simp: std_search_def str_find_Some_iff position_Some_iff)

end
