(* ===== verification/Prefix_Binary.thy ===== *)
theory Prefix_Binary
  imports Byte_Search "HOL-Library.Product_Lexorder"
begin

text \<open>
  Prefix replacement in binary files (\<open>rattler/src/install/prefix_replacement/mod.rs\<close> and
  \<open>binary.rs\<close>): the encoded prefixes and the patch types that both kinds of file share, the search for
  the c-strings that hold the placeholder, the validation of recorded offsets and the splice. A function that
  writes takes the bytes already in the destination and returns its result with the bytes then there, so that
  what an error leaves behind is visible; the destination is a \<open>Vec<u8>\<close>, whose writes do not fail.
  An outer \<open>None\<close> means that the code does not return: a slice out of range, a failed assertion or a
  loop that does not end.
\<close>

section \<open>Writing\<close>

type_synonym ('e, 'a) writer = "byte list \<Rightarrow> ('e + 'a) \<times> byte list"

definition done_with :: "'a \<Rightarrow> ('e, 'a) writer" where
  "done_with x = (\<lambda>d. (Inr x, d))"

definition fail_with :: "'e \<Rightarrow> ('e, 'a) writer" where
  "fail_with e = (\<lambda>d. (Inl e, d))"

definition write_all :: "byte list \<Rightarrow> ('e, unit) writer" where
  "write_all bs = (\<lambda>d. (Inr (), d @ bs))"

definition and_then :: "('e, 'a) writer \<Rightarrow> ('a \<Rightarrow> ('e, 'b) writer) \<Rightarrow> ('e, 'b) writer" where
  "and_then m f = (\<lambda>d. case m d of (Inl e, d') \<Rightarrow> (Inl e, d') | (Inr x, d') \<Rightarrow> f x d')"

definition try_result :: "('e + 'a) \<Rightarrow> ('e, 'a) writer" where
  "try_result r = (\<lambda>d. (r, d))"

definition map_err :: "('e \<Rightarrow> 'f) \<Rightarrow> ('e, 'a) writer \<Rightarrow> ('f, 'a) writer" where
  "map_err f m = (\<lambda>d. case m d of (Inl e, d') \<Rightarrow> (Inl (f e), d') | (Inr x, d') \<Rightarrow> (Inr x, d'))"

lemmas writer_defs = done_with_def fail_with_def write_all_def and_then_def try_result_def map_err_def

section \<open>Errors\<close>

datatype io_error =
  GrowingPrefix offset_encoding
| InvalidRange nat nat nat

datatype inconsistent_offsets_error =
  IC_Invalid invalid_offsets_error
| IC_FileModeMismatch file_mode file_mode
| IC_EmptyPlaceholder
| IC_UnexpectedShebangLength
| IC_MissingShebangLength
| IC_ShebangLengthMismatch nat
| IC_OffsetInShebangRegion nat nat
| IC_UnsortedOffset nat
| IC_OffsetOutOfRange nat nat
| IC_OffsetPastTerminator nat nat
| IC_MisalignedOffset nat nat
| IC_PlaceholderNotFound nat
| IC_TerminatorOutOfRange nat nat
| IC_TerminatorNotZero nat

datatype offset_replace_error =
  ORE_InconsistentMetadata inconsistent_offsets_error
| ORE_Io io_error

section \<open>Encoded prefixes\<close>

record encoded_prefix =
  ep_encoding :: offset_encoding
  ep_placeholder :: "byte list"
  ep_target :: "byte list"

definition encoded_prefix_all :: "utext \<Rightarrow> utext \<Rightarrow> encoded_prefix list" where
  "encoded_prefix_all placeholder target =
     List.map_filter (\<lambda>encoding.
       let ph = encode encoding placeholder
       in if ph \<noteq> []
          then Some \<lparr>ep_encoding = encoding, ep_placeholder = ph, ep_target = encode encoding target\<rparr>
          else None) DEFINED"

definition checked_sub :: "nat \<Rightarrow> nat \<Rightarrow> nat option" where
  "checked_sub a b = (if b \<le> a then Some (a - b) else None)"

definition checked_add :: "nat \<Rightarrow> nat \<Rightarrow> nat option" where
  "checked_add a b = (if a + b < 2 ^ 64 then Some (a + b) else None)"

definition shrinks_by :: "encoded_prefix \<Rightarrow> nat option" where
  "shrinks_by p = checked_sub (length (ep_placeholder p)) (length (ep_target p))"

abbreviation ep_unit :: "encoded_prefix \<Rightarrow> nat" where
  "ep_unit p \<equiv> code_unit_size (ep_encoding p)"

definition growing_prefix_error :: "encoded_prefix \<Rightarrow> io_error" where
  "growing_prefix_error p = GrowingPrefix (ep_encoding p)"

definition reject_growing_prefix :: "encoded_prefix list \<Rightarrow> io_error + unit" where
  "reject_growing_prefix eprefixes =
     (case List.find (\<lambda>p. shrinks_by p = None) eprefixes of
        Some p \<Rightarrow> Inl (growing_prefix_error p)
      | None \<Rightarrow> Inr ())"

definition encoded_prefix_for ::
    "encoded_prefix list \<Rightarrow> offset_encoding \<Rightarrow> inconsistent_offsets_error + encoded_prefix" where
  "encoded_prefix_for eprefixes encoding =
     (case List.find (\<lambda>p. ep_encoding p = encoding) eprefixes of
        Some p \<Rightarrow> Inr p
      | None \<Rightarrow> Inl IC_EmptyPlaceholder)"

definition write_replacement_range :: "byte list \<Rightarrow> nat \<Rightarrow> nat \<Rightarrow> (io_error, unit) writer" where
  "write_replacement_range source start stop =
     (if start \<le> stop \<and> stop \<le> length source then write_all (slice source start (stop - start))
      else fail_with (InvalidRange start stop (length source)))"

section \<open>Searching for c-strings\<close>

record cstring_patch =
  cp_offsets :: "nat list"
  cp_nul_pos :: nat
  cp_prefix :: encoded_prefix

definition all_zero :: "byte list \<Rightarrow> bool" where
  "all_zero bs \<longleftrightarrow> list_all (\<lambda>b. b = 0) bs"

partial_function (option) cstring_end :: "byte list \<Rightarrow> nat \<Rightarrow> nat \<Rightarrow> nat option option" where
  "cstring_end source pos unit =
     (if pos + unit \<le> length source
      then if all_zero (slice source pos unit) then Some (Some pos)
           else cstring_end source (pos + unit) unit
      else Some None)"

text \<open>The inner loop: the remaining occurrences in \<open>source[next..end]\<close>.\<close>

partial_function (option) collect_offsets ::
    "memchr_crate \<Rightarrow> byte list \<Rightarrow> byte list \<Rightarrow> nat \<Rightarrow> nat \<Rightarrow> nat list \<Rightarrow> nat list option" where
  "collect_offsets mc source ph stop next offsets =
     (if next \<le> stop \<and> stop \<le> length source
      then case mc_find mc (slice source next (stop - next)) ph of
          None \<Rightarrow> Some offsets
        | Some found \<Rightarrow> collect_offsets mc source ph stop (next + found + length ph) (offsets @ [next + found])
      else None)"

fun candidate_rank :: "offset_encoding \<Rightarrow> bool \<Rightarrow> bool \<Rightarrow> nat" where
  "candidate_rank OE_Utf8 _ _ = 0"
| "candidate_rank _ True True = 1"
| "candidate_rank _ True False = 2"
| "candidate_rank _ False True = 3"
| "candidate_rank _ False False = 4"

text \<open>
  The outer loop for one prefix. \<open>covered\<close> is \<open>covered_until\<close>, one entry per alignment class.
\<close>

partial_function (option) search_cstrings ::
    "memchr_crate \<Rightarrow> byte list \<Rightarrow> encoded_prefix \<Rightarrow> nat \<Rightarrow> nat list \<Rightarrow> (nat \<times> cstring_patch) list
      \<Rightarrow> (nat \<times> cstring_patch) list option" where
  "search_cstrings mc source eprefix search_from covered candidates =
     (if search_from \<le> length source
      then case mc_find mc (drop search_from source) (ep_placeholder eprefix) of
          None \<Rightarrow> Some candidates
        | Some found \<Rightarrow>
            (let first = search_from + found;
                 after_first = first + length (ep_placeholder eprefix);
                 alignment = first mod ep_unit eprefix
             in if first < covered ! alignment
                then search_cstrings mc source eprefix after_first covered candidates
                else case cstring_end source after_first (ep_unit eprefix) of
                    None \<Rightarrow> None
                  | Some nul_pos \<Rightarrow>
                      (let stop = case_option (length source) id nul_pos
                       in case collect_offsets mc source (ep_placeholder eprefix) stop after_first [first] of
                            None \<Rightarrow> None
                          | Some offsets \<Rightarrow>
                              (let rank = candidate_rank (ep_encoding eprefix) (alignment = 0) (nul_pos \<noteq> None)
                               in search_cstrings mc source eprefix after_first (covered[alignment := stop])
                                    (candidates @ [(rank, \<lparr>cp_offsets = offsets, cp_nul_pos = stop, cp_prefix = eprefix\<rparr>)]))))
      else None)"

fun search_prefixes ::
    "memchr_crate \<Rightarrow> byte list \<Rightarrow> encoded_prefix list \<Rightarrow> (nat \<times> cstring_patch) list
      \<Rightarrow> (nat \<times> cstring_patch) list option" where
  "search_prefixes mc source [] candidates = Some candidates"
| "search_prefixes mc source (p # ps) candidates =
     (case search_cstrings mc source p 0 (replicate (ep_unit p) 0) candidates of
        None \<Rightarrow> None
      | Some found \<Rightarrow> search_prefixes mc source ps found)"

abbreviation cp_start :: "cstring_patch \<Rightarrow> nat" where
  "cp_start p \<equiv> hd (cp_offsets p)"

text \<open>\<open>BTreeMap::insert\<close> on the entries in key order.\<close>

fun btree_insert :: "nat \<Rightarrow> 'v \<Rightarrow> (nat \<times> 'v) list \<Rightarrow> (nat \<times> 'v) list" where
  "btree_insert k v [] = [(k, v)]"
| "btree_insert k v ((k', v') # es) =
     (if k < k' then (k, v) # (k', v') # es
      else if k = k' then (k, v) # es
      else (k', v') # btree_insert k v es)"

definition keep_candidate ::
    "nat \<times> cstring_patch \<Rightarrow> (nat \<times> cstring_patch) list \<Rightarrow> (nat \<times> cstring_patch) list" where
  "keep_candidate rc kept =
     (let candidate = snd rc;
          start = cp_start candidate;
          overlaps_earlier = (case filter (\<lambda>e. fst e \<le> start) kept of
              [] \<Rightarrow> False | e # es \<Rightarrow> start < cp_nul_pos (snd (last (e # es))));
          overlaps_later = (case filter (\<lambda>e. start \<le> fst e) kept of
              [] \<Rightarrow> False | e # es \<Rightarrow> fst e < cp_nul_pos candidate)
      in if \<not> overlaps_earlier \<and> \<not> overlaps_later then btree_insert start candidate kept else kept)"

definition find_cstring_patches ::
    "memchr_crate \<Rightarrow> byte list \<Rightarrow> encoded_prefix list \<Rightarrow> cstring_patch list option" where
  "find_cstring_patches mc source eprefixes =
     map_option (\<lambda>candidates.
       map snd (fold keep_candidate (sort_key (\<lambda>(rank, patch). (rank, cp_start patch)) candidates) []))
       (search_prefixes mc source eprefixes [])"

section \<open>Writing the patched c-strings\<close>

fun write_occurrences :: "byte list \<Rightarrow> encoded_prefix \<Rightarrow> nat list \<Rightarrow> nat \<Rightarrow> (io_error, nat) writer" where
  "write_occurrences source eprefix [] last_pos = done_with last_pos"
| "write_occurrences source eprefix (off # offsets) last_pos =
     and_then (write_replacement_range source last_pos off) (\<lambda>_.
     and_then (write_all (ep_target eprefix)) (\<lambda>_.
     write_occurrences source eprefix offsets (off + length (ep_placeholder eprefix))))"

definition write_cstring :: "byte list \<Rightarrow> cstring_patch \<Rightarrow> nat \<Rightarrow> (io_error, nat) writer" where
  "write_cstring source patch last_pos =
     and_then (write_occurrences source (cp_prefix patch) (cp_offsets patch) last_pos) (\<lambda>last_pos.
     and_then (write_replacement_range source last_pos (cp_nul_pos patch)) (\<lambda>_.
     case shrinks_by (cp_prefix patch) of
       None \<Rightarrow> fail_with (growing_prefix_error (cp_prefix patch))
     | Some n \<Rightarrow>
         (let padding = length (cp_offsets patch) * n
          in and_then (if padding > 0 then write_all (replicate padding 0) else done_with ()) (\<lambda>_.
             done_with (cp_nul_pos patch)))))"

fun write_cstrings :: "byte list \<Rightarrow> cstring_patch list \<Rightarrow> nat \<Rightarrow> (io_error, nat) writer" where
  "write_cstrings source [] last_pos = done_with last_pos"
| "write_cstrings source (p # ps) last_pos = and_then (write_cstring source p last_pos) (write_cstrings source ps)"

definition write_patched_cstrings :: "byte list \<Rightarrow> cstring_patch list \<Rightarrow> (io_error, unit) writer" where
  "write_patched_cstrings source patches =
     and_then (write_cstrings source patches 0) (\<lambda>last_pos.
     if last_pos < length source then write_all (drop last_pos source) else done_with ())"

definition copy_and_replace_cstring_placeholder ::
    "memchr_crate \<Rightarrow> byte list \<Rightarrow> utext \<Rightarrow> utext \<Rightarrow> (byte list \<Rightarrow> ((io_error + unit) \<times> byte list) option)" where
  "copy_and_replace_cstring_placeholder mc source placeholder target =
     (\<lambda>d. map_option (\<lambda>patches.
        and_then (try_result (reject_growing_prefix (map cp_prefix patches))) (\<lambda>_.
        write_patched_cstrings source patches) d)
       (find_cstring_patches mc source (encoded_prefix_all placeholder target)))"

section \<open>Recorded offsets\<close>

fun cstrings_from_ranges ::
    "encoded_prefix \<Rightarrow> offset_encoding \<Rightarrow> nat list list \<Rightarrow> inconsistent_offsets_error + cstring_patch list" where
  "cstrings_from_ranges eprefix encoding [] = Inr []"
| "cstrings_from_ranges eprefix encoding (c # cs) =
     (if c = [] \<or> butlast c = [] then Inl (IC_Invalid (IO_ShortCStringRanges encoding))
      else case cstrings_from_ranges eprefix encoding cs of
          Inl e \<Rightarrow> Inl e
        | Inr ps \<Rightarrow> Inr (\<lparr>cp_offsets = butlast c, cp_nul_pos = last c, cp_prefix = eprefix\<rparr> # ps))"

fun cstrings_from_groups ::
    "offset_group list \<Rightarrow> encoded_prefix list \<Rightarrow> inconsistent_offsets_error + cstring_patch list" where
  "cstrings_from_groups [] eprefixes = Inr []"
| "cstrings_from_groups (g # gs) eprefixes =
     (case encoded_prefix_for eprefixes (og_encoding g) of
        Inl e \<Rightarrow> Inl e
      | Inr eprefix \<Rightarrow>
          (case og_ranges g of
             OR_Text _ \<Rightarrow> Inl (IC_Invalid (IO_RangesShapeMismatch (og_encoding g)))
           | OR_Binary cstrings \<Rightarrow>
               (case cstrings_from_ranges eprefix (og_encoding g) cstrings of
                  Inl e \<Rightarrow> Inl e
                | Inr ps \<Rightarrow>
                    (case cstrings_from_groups gs eprefixes of Inl e \<Rightarrow> Inl e | Inr qs \<Rightarrow> Inr (ps @ qs)))))"

definition cstring_patches_from_groups ::
    "offset_group list \<Rightarrow> encoded_prefix list \<Rightarrow> inconsistent_offsets_error + cstring_patch list" where
  "cstring_patches_from_groups groups eprefixes =
     (case cstrings_from_groups groups eprefixes of
        Inl e \<Rightarrow> Inl e
      | Inr patches \<Rightarrow>
          if patches = [] then Inl (IC_Invalid IO_EmptyList)
          else Inr (sort_key cp_start patches))"

fun validate_cstring_offsets ::
    "byte list \<Rightarrow> encoded_prefix \<Rightarrow> nat \<Rightarrow> nat list \<Rightarrow> nat \<Rightarrow> inconsistent_offsets_error + unit" where
  "validate_cstring_offsets source eprefix terminator [] prev_end = Inr ()"
| "validate_cstring_offsets source eprefix terminator (off # offsets) prev_end =
     (if off < prev_end then Inl (IC_UnsortedOffset off)
      else case Option.bind (checked_add off (length (ep_placeholder eprefix)))
                  (\<lambda>stop. if stop \<le> terminator then Some stop else None) of
          None \<Rightarrow> Inl (IC_OffsetPastTerminator off terminator)
        | Some stop \<Rightarrow>
            if (terminator - off) mod ep_unit eprefix \<noteq> 0 then Inl (IC_MisalignedOffset off terminator)
            else if slice source off (stop - off) \<noteq> ep_placeholder eprefix then Inl (IC_PlaceholderNotFound off)
            else validate_cstring_offsets source eprefix terminator offsets stop)"

fun validate_cstring_patches_from ::
    "byte list \<Rightarrow> cstring_patch list \<Rightarrow> nat \<Rightarrow> inconsistent_offsets_error + unit" where
  "validate_cstring_patches_from source [] prev_end = Inr ()"
| "validate_cstring_patches_from source (p # ps) prev_end =
     (let terminator = cp_nul_pos p
      in if length source < terminator then Inl (IC_TerminatorOutOfRange terminator (length source))
         else if drop terminator source \<noteq> []
                 \<and> \<not> (ep_unit (cp_prefix p) \<le> length (drop terminator source)
                      \<and> all_zero (take (ep_unit (cp_prefix p)) (drop terminator source)))
         then Inl (IC_TerminatorNotZero terminator)
         else case validate_cstring_offsets source (cp_prefix p) terminator (cp_offsets p) prev_end of
             Inl e \<Rightarrow> Inl e
           | Inr _ \<Rightarrow> validate_cstring_patches_from source ps terminator)"

definition validate_cstring_patches :: "byte list \<Rightarrow> cstring_patch list \<Rightarrow> inconsistent_offsets_error + unit" where
  "validate_cstring_patches source patches = validate_cstring_patches_from source patches 0"

definition copy_and_replace_cstring_placeholder_offsets ::
    "byte list \<Rightarrow> utext \<Rightarrow> utext \<Rightarrow> offset_group list \<Rightarrow> (offset_replace_error, unit) writer" where
  "copy_and_replace_cstring_placeholder_offsets source placeholder target groups =
     (let eprefixes = encoded_prefix_all placeholder target
      in and_then (map_err ORE_InconsistentMetadata (try_result (cstring_patches_from_groups groups eprefixes)))
         (\<lambda>patches.
         and_then (map_err ORE_InconsistentMetadata (try_result (validate_cstring_patches source patches))) (\<lambda>_.
         and_then (map_err ORE_Io (try_result (reject_growing_prefix (map cp_prefix patches)))) (\<lambda>_.
         map_err ORE_Io (write_patched_cstrings source patches)))))"

declare cstring_end.simps [code] collect_offsets.simps [code] search_cstrings.simps [code]

end
