(* ===== verification/Prefix_Text.thy ===== *)
theory Prefix_Text
  imports Prefix_Binary Subdir
begin

text \<open>
  Prefix replacement in text files (\<open>rattler/src/install/prefix_replacement/text.rs\<close>), the two entry
  points that choose between text and binary files (\<open>mod.rs\<close>) and their caller in
  \<open>rattler/src/install/link.rs\<close>, which falls back to the search when recorded offsets do not match the
  file. The two regular expressions are values of the \<open>regex\<close> crate, a parameter.
\<close>

section \<open>Lossy decoding\<close>

text \<open>
  \<open>String::from_utf8_lossy\<close>: a maximal invalid sequence becomes one replacement character.
\<close>

definition REPLACEMENT :: scalar where
  "REPLACEMENT = 0xFFFD"

abbreviation in_range :: "nat \<Rightarrow> nat \<Rightarrow> nat \<Rightarrow> bool" where
  "in_range lo hi b \<equiv> lo \<le> b \<and> b \<le> hi"

definition second_of_three :: "nat \<Rightarrow> nat \<Rightarrow> bool" where
  "second_of_three b c \<longleftrightarrow>
     b = 0xE0 \<and> in_range 0xA0 0xBF c \<or> in_range 0xE1 0xEC b \<and> in_range 0x80 0xBF c
     \<or> b = 0xED \<and> in_range 0x80 0x9F c \<or> in_range 0xEE 0xEF b \<and> in_range 0x80 0xBF c"

definition second_of_four :: "nat \<Rightarrow> nat \<Rightarrow> bool" where
  "second_of_four b c \<longleftrightarrow>
     b = 0xF0 \<and> in_range 0x90 0xBF c \<or> in_range 0xF1 0xF3 b \<and> in_range 0x80 0xBF c
     \<or> b = 0xF4 \<and> in_range 0x80 0x8F c"

definition decode_char :: "nat \<Rightarrow> nat list \<Rightarrow> scalar \<times> nat" where
  "decode_char b rest =
     (let safe_get = (\<lambda>i. if i < length rest then rest ! i else 0); cont = (\<lambda>i. in_range 0x80 0xBF (safe_get i))
      in if b < 0x80 then (b, 0)
         else if in_range 0xC2 0xDF b then
           if cont 0 then ((b - 0xC0) * 64 + (safe_get 0 - 0x80), 1) else (REPLACEMENT, 0)
         else if in_range 0xE0 0xEF b then
           if \<not> second_of_three b (safe_get 0) then (REPLACEMENT, 0)
           else if \<not> cont 1 then (REPLACEMENT, 1)
           else ((b - 0xE0) * 4096 + (safe_get 0 - 0x80) * 64 + (safe_get 1 - 0x80), 2)
         else if in_range 0xF0 0xF4 b then
           if \<not> second_of_four b (safe_get 0) then (REPLACEMENT, 0)
           else if \<not> cont 1 then (REPLACEMENT, 1)
           else if \<not> cont 2 then (REPLACEMENT, 2)
           else ((b - 0xF0) * 262144 + (safe_get 0 - 0x80) * 4096 + (safe_get 1 - 0x80) * 64 + (safe_get 2 - 0x80), 3)
         else (REPLACEMENT, 0))"

function decode_lossy :: "nat list \<Rightarrow> utext" where
  "decode_lossy [] = []"
| "decode_lossy (b # rest) = fst (decode_char b rest) # decode_lossy (drop (snd (decode_char b rest)) rest)"
  by pat_completeness auto
termination
  by (relation "measure length") auto

definition from_utf8_lossy :: "byte list \<Rightarrow> utext" where
  "from_utf8_lossy bs = decode_lossy (map unat bs)"

section \<open>Shebang lines\<close>

record regex_crate =
  rx_shebang_captures :: "utext \<Rightarrow> (utext \<times> utext) option"
  rx_python_is_match :: "utext \<Rightarrow> bool"

definition is_valid_shebang_length :: "utext \<Rightarrow> subdir \<Rightarrow> bool" where
  "is_valid_shebang_length shebang platform =
     (if is_linux platform \<or> is_android platform then length (as_bytes shebang) \<le> 127
      else if is_osx platform \<or> is_ios platform then length (as_bytes shebang) \<le> 512
      else True)"

definition convert_shebang_to_env :: "regex_crate \<Rightarrow> utext \<Rightarrow> utext" where
  "convert_shebang_to_env rx shebang =
     (case rx_shebang_captures rx shebang of
        Some (path, rest) \<Rightarrow>
          (let exe_name = (case rsplit_once 47 path of None \<Rightarrow> path | Some (_, f) \<Rightarrow> f)
           in if rx_python_is_match rx exe_name
              then ascii ''#!/bin/sh'' @ [10] @ replicate 3 39 @ ascii ''exec'' @ [39, 32, 34] @ path @ [34] @ rest
                   @ [32, 34] @ ascii ''$0'' @ [34, 32, 34] @ ascii ''$@'' @ [34, 32, 35] @ replicate 3 39
              else ascii ''#!/usr/bin/env '' @ exe_name @ rest)
      | None \<Rightarrow> shebang)"

abbreviation starts_with_shebang :: "utext \<Rightarrow> bool" where
  "starts_with_shebang s \<equiv> take 2 s = ascii ''#!''"

definition replace_shebang :: "regex_crate \<Rightarrow> utext \<Rightarrow> utext \<times> utext \<Rightarrow> subdir \<Rightarrow> utext option" where
  "replace_shebang rx shebang old_new platform =
     (if \<not> starts_with_shebang shebang then None
      else if 32 \<in> set (snd old_new) then
        if str_find shebang (fst old_new) = None then Some shebang
        else Some (str_replace (convert_shebang_to_env rx shebang) (fst old_new) (snd old_new))
      else
        (let shebang = str_replace shebang (fst old_new) (snd old_new)
         in if \<not> starts_with_shebang shebang then Some shebang
            else if is_valid_shebang_length shebang platform then Some shebang
            else Some (convert_shebang_to_env rx shebang)))"

section \<open>Searching and writing\<close>

record text_patch =
  tp_offset :: nat
  tp_prefix :: encoded_prefix

abbreviation tp_end :: "text_patch \<Rightarrow> nat" where
  "tp_end p \<equiv> tp_offset p + length (ep_placeholder (tp_prefix p))"

definition text_rank :: "text_patch \<Rightarrow> nat" where
  "text_rank patch =
     (case ep_encoding (tp_prefix patch) of
        OE_Utf8 \<Rightarrow> 0
      | _ \<Rightarrow> if ep_unit (tp_prefix patch) dvd tp_offset patch then 1 else 2)"

definition keep_text :: "text_patch \<Rightarrow> text_patch list \<Rightarrow> text_patch list" where
  "keep_text candidate patches =
     (if patches \<noteq> [] \<and> tp_offset candidate < tp_end (last patches)
      then if text_rank candidate < text_rank (last patches) then butlast patches @ [candidate] else patches
      else patches @ [candidate])"

definition find_text_patches :: "memchr_crate \<Rightarrow> byte list \<Rightarrow> nat \<Rightarrow> encoded_prefix list \<Rightarrow> text_patch list" where
  "find_text_patches mc source start eprefixes =
     (let candidates = concat (map (\<lambda>ep. map (\<lambda>off. \<lparr>tp_offset = off, tp_prefix = ep\<rparr>)
                                          (mc_find_iter mc source (ep_placeholder ep))) eprefixes);
          patches = fold keep_text (sort_key tp_offset candidates) []
      in filter (\<lambda>p. start \<le> tp_offset p) patches)"

fun write_text_patches :: "byte list \<Rightarrow> text_patch list \<Rightarrow> nat \<Rightarrow> (io_error, nat) writer" where
  "write_text_patches source [] last_match = done_with last_match"
| "write_text_patches source (p # ps) last_match =
     and_then (write_replacement_range source last_match (tp_offset p)) (\<lambda>_.
     and_then (write_all (ep_target (tp_prefix p))) (\<lambda>_.
     write_text_patches source ps (tp_end p)))"

definition write_patched_text :: "byte list \<Rightarrow> nat \<Rightarrow> text_patch list \<Rightarrow> (io_error, unit) writer" where
  "write_patched_text source start patches =
     and_then (write_text_patches source patches start) (\<lambda>last_match.
     if last_match < length source then write_all (drop last_match source) else done_with ())"

type_synonym ('e, 'a) partial_writer = "byte list \<Rightarrow> (('e + 'a) \<times> byte list) option"

definition write_shebang_region ::
    "memchr_crate \<Rightarrow> regex_crate \<Rightarrow> byte list \<Rightarrow> nat \<Rightarrow> utext \<Rightarrow> utext \<Rightarrow> subdir \<Rightarrow> encoded_prefix list
      \<Rightarrow> (io_error, unit) partial_writer" where
  "write_shebang_region mc rx source region_end placeholder target platform eprefixes d =
     (if region_end = 0 then Some (Inr (), d)
      else if length source < region_end then None
      else if eprefixes = [] then Some (write_all (take region_end source) d)
      else if is_unix platform then
        (let has_newline = (source ! (region_end - 1) = 10);
             line_end = (if has_newline then region_end - 1 else region_end)
         in case replace_shebang rx (from_utf8_lossy (take line_end source)) (placeholder, target) platform of
              None \<Rightarrow> None
            | Some new_shebang \<Rightarrow>
                Some (and_then (write_all (as_bytes new_shebang)) (\<lambda>_.
                  if has_newline then write_all (slice source line_end (region_end - line_end)) else done_with ()) d))
      else
        (let region = take region_end source
         in Some (write_patched_text region 0 (find_text_patches mc region 0 eprefixes) d)))"

definition partial_then ::
    "('e, 'a) partial_writer \<Rightarrow> ('a \<Rightarrow> ('e, 'b) writer) \<Rightarrow> ('e, 'b) partial_writer" where
  "partial_then m f = (\<lambda>d. map_option (\<lambda>(r, d'). case r of Inl e \<Rightarrow> (Inl e, d') | Inr x \<Rightarrow> f x d') (m d))"

definition shebang_region_end :: "byte list \<Rightarrow> subdir \<Rightarrow> nat" where
  "shebang_region_end source platform =
     (if is_unix platform \<and> take 2 source = ascii_bytes ''#!''
      then case position 10 source of None \<Rightarrow> length source | Some index \<Rightarrow> index + 1
      else 0)"

definition copy_and_replace_textual_placeholder ::
    "memchr_crate \<Rightarrow> regex_crate \<Rightarrow> byte list \<Rightarrow> utext \<Rightarrow> utext \<Rightarrow> subdir \<Rightarrow> (io_error, unit) partial_writer" where
  "copy_and_replace_textual_placeholder mc rx source placeholder target platform =
     (let eprefixes = encoded_prefix_all placeholder target;
          region_end = shebang_region_end source platform
      in partial_then (write_shebang_region mc rx source region_end placeholder target platform eprefixes) (\<lambda>_.
         write_patched_text source region_end (find_text_patches mc source region_end eprefixes)))"

section \<open>Recorded offsets\<close>

definition validated_shebang_region_end ::
    "memchr_crate \<Rightarrow> byte list \<Rightarrow> nat option \<Rightarrow> inconsistent_offsets_error + nat" where
  "validated_shebang_region_end mc source shebang_length =
     (if take 2 source \<noteq> ascii_bytes ''#!'' then
        (case shebang_length of Some _ \<Rightarrow> Inl IC_UnexpectedShebangLength | None \<Rightarrow> Inr 0)
      else case shebang_length of
          None \<Rightarrow> Inl IC_MissingShebangLength
        | Some n \<Rightarrow>
            if length source < n then Inl (IC_ShebangLengthMismatch n)
            else let ends_the_line = (case mc_memchr mc 10 (take n source) of
                       Some index \<Rightarrow> index + 1 = n
                     | None \<Rightarrow> n = length source)
                 in if \<not> ends_the_line then Inl (IC_ShebangLengthMismatch n) else Inr n)"

fun texts_from_groups ::
    "offset_group list \<Rightarrow> encoded_prefix list \<Rightarrow> inconsistent_offsets_error + text_patch list" where
  "texts_from_groups [] eprefixes = Inr []"
| "texts_from_groups (g # gs) eprefixes =
     (case encoded_prefix_for eprefixes (og_encoding g) of
        Inl e \<Rightarrow> Inl e
      | Inr ep \<Rightarrow>
          (case og_ranges g of
             OR_Binary _ \<Rightarrow> Inl (IC_Invalid (IO_RangesShapeMismatch (og_encoding g)))
           | OR_Text offsets \<Rightarrow>
               (case texts_from_groups gs eprefixes of
                  Inl e \<Rightarrow> Inl e
                | Inr ps \<Rightarrow> Inr (map (\<lambda>off. \<lparr>tp_offset = off, tp_prefix = ep\<rparr>) offsets @ ps))))"

definition text_patches_from_groups ::
    "offset_group list \<Rightarrow> encoded_prefix list \<Rightarrow> inconsistent_offsets_error + text_patch list" where
  "text_patches_from_groups groups eprefixes = map_sum id (sort_key tp_offset) (texts_from_groups groups eprefixes)"

fun validate_text_patches_from ::
    "byte list \<Rightarrow> text_patch list \<Rightarrow> nat \<Rightarrow> nat \<Rightarrow> inconsistent_offsets_error + unit" where
  "validate_text_patches_from source [] region_end prev_end = Inr ()"
| "validate_text_patches_from source (p # ps) region_end prev_end =
     (let off = tp_offset p; ph = ep_placeholder (tp_prefix p)
      in if off < region_end then Inl (IC_OffsetInShebangRegion off region_end)
         else if off < prev_end then Inl (IC_UnsortedOffset off)
         else case Option.bind (checked_add off (length ph)) (\<lambda>stop. if stop \<le> length source then Some stop else None) of
             None \<Rightarrow> Inl (IC_OffsetOutOfRange off (length source))
           | Some stop \<Rightarrow>
               if slice source off (stop - off) \<noteq> ph then Inl (IC_PlaceholderNotFound off)
               else validate_text_patches_from source ps region_end stop)"

definition validate_text_patches ::
    "byte list \<Rightarrow> text_patch list \<Rightarrow> nat \<Rightarrow> inconsistent_offsets_error + unit" where
  "validate_text_patches source patches region_end = validate_text_patches_from source patches region_end region_end"

definition copy_and_replace_textual_placeholder_offsets ::
    "memchr_crate \<Rightarrow> regex_crate \<Rightarrow> byte list \<Rightarrow> utext \<Rightarrow> utext \<Rightarrow> subdir \<Rightarrow> offset_group list \<Rightarrow> nat option
      \<Rightarrow> (offset_replace_error, unit) partial_writer" where
  "copy_and_replace_textual_placeholder_offsets mc rx source placeholder target platform groups shebang_length d =
     (let eprefixes = encoded_prefix_all placeholder target
      in case validated_shebang_region_end mc source shebang_length of
           Inl e \<Rightarrow> Some (Inl (ORE_InconsistentMetadata e), d)
         | Inr region_end \<Rightarrow>
             (case text_patches_from_groups groups eprefixes of
                Inl e \<Rightarrow> Some (Inl (ORE_InconsistentMetadata e), d)
              | Inr patches \<Rightarrow>
                  (case validate_text_patches source patches region_end of
                     Inl e \<Rightarrow> Some (Inl (ORE_InconsistentMetadata e), d)
                   | Inr _ \<Rightarrow>
                       map_option (\<lambda>(r, d'). (map_sum ORE_Io id r, d'))
                         (partial_then (write_shebang_region mc rx source region_end placeholder target platform eprefixes)
                           (\<lambda>_. write_patched_text source region_end patches) d))))"

section \<open>Entry points\<close>

definition copy_and_replace_placeholders ::
    "memchr_crate \<Rightarrow> regex_crate \<Rightarrow> byte list \<Rightarrow> utext \<Rightarrow> utext \<Rightarrow> subdir \<Rightarrow> file_mode \<Rightarrow> (io_error, unit) partial_writer" where
  "copy_and_replace_placeholders mc rx source placeholder target platform file_mode d =
     (case file_mode of
        FM_Text \<Rightarrow> copy_and_replace_textual_placeholder mc rx source placeholder target platform d
      | FM_Binary \<Rightarrow>
          if is_windows platform then Some (write_all source d)
          else copy_and_replace_cstring_placeholder mc source placeholder target d)"

definition copy_and_replace_placeholders_with_offsets ::
    "memchr_crate \<Rightarrow> regex_crate \<Rightarrow> byte list \<Rightarrow> utext \<Rightarrow> utext \<Rightarrow> subdir \<Rightarrow> file_mode \<Rightarrow> prefix_offsets
      \<Rightarrow> (offset_replace_error, unit) partial_writer" where
  "copy_and_replace_placeholders_with_offsets mc rx source placeholder target platform file_mode offsets d =
     (if po_file_mode offsets \<noteq> file_mode
      then Some (Inl (ORE_InconsistentMetadata (IC_FileModeMismatch (po_file_mode offsets) file_mode)), d)
      else case file_mode of
          FM_Text \<Rightarrow>
            copy_and_replace_textual_placeholder_offsets mc rx source placeholder target platform
              (po_groups offsets) (po_shebang_length offsets) d
        | FM_Binary \<Rightarrow>
            if is_windows platform then Some (write_all source d)
            else Some (copy_and_replace_cstring_placeholder_offsets source placeholder target (po_groups offsets) d))"

text \<open>
  The part of \<open>link_file\<close> that replaces the placeholder: back-slashes of a windows prefix become slashes, and
  inconsistent offsets fall back to the search on the same destination.
\<close>

definition forward_slashes :: "utext \<Rightarrow> utext" where
  "forward_slashes t = map (\<lambda>c. if c = 92 then 47 else c) t"

definition link_replace_prefix ::
    "memchr_crate \<Rightarrow> regex_crate \<Rightarrow> byte list \<Rightarrow> prefix_placeholder \<Rightarrow> utext \<Rightarrow> subdir \<Rightarrow> (io_error, unit) partial_writer" where
  "link_replace_prefix mc rx source ph target_prefix platform d =
     (let target = (if is_windows platform then forward_slashes target_prefix else target_prefix);
          offsets = (case ph_experimental_offsets ph of Some (Inr offsets) \<Rightarrow> Some offsets | _ \<Rightarrow> None);
          search = copy_and_replace_placeholders mc rx source (ph_placeholder ph) target platform (ph_file_mode ph)
      in case offsets of
           None \<Rightarrow> search d
         | Some offsets \<Rightarrow>
             (case copy_and_replace_placeholders_with_offsets mc rx source (ph_placeholder ph) target platform
                     (ph_file_mode ph) offsets d of
                None \<Rightarrow> None
              | Some (Inr _, d') \<Rightarrow> Some (Inr (), d')
              | Some (Inl (ORE_InconsistentMetadata _), d') \<Rightarrow> search d'
              | Some (Inl (ORE_Io e), d') \<Rightarrow> Some (Inl e, d')))"

end
