(* ===== verification/Prefix_Splice.thy ===== *)
theory Prefix_Splice
  imports Prefix_Binary
begin

text \<open>
  Lemmas on the replacement in binary files: what a well-formed list of patches is, the bytes that
  the splice writes for one (which have the length of the source), that the search ends and finds
  well-formed patches, and that validated offsets are well formed.
\<close>

section \<open>Well-formed patches\<close>

text \<open>Occurrences in order, without overlap, between \<open>lo\<close> and \<open>stop\<close>.\<close>

fun offsets_ok :: "byte list \<Rightarrow> byte list \<Rightarrow> nat \<Rightarrow> nat list \<Rightarrow> nat \<Rightarrow> bool" where
  "offsets_ok source ph stop [] lo \<longleftrightarrow> lo \<le> stop"
| "offsets_ok source ph stop (off # offsets) lo \<longleftrightarrow>
     lo \<le> off \<and> occurs_at source ph off \<and> offsets_ok source ph stop offsets (off + length ph)"

definition patch_ok :: "byte list \<Rightarrow> cstring_patch \<Rightarrow> bool" where
  "patch_ok source p \<longleftrightarrow>
     cp_offsets p \<noteq> [] \<and> cp_nul_pos p \<le> length source
     \<and> offsets_ok source (ep_placeholder (cp_prefix p)) (cp_nul_pos p) (cp_offsets p) (cp_start p)"

definition terminated :: "byte list \<Rightarrow> cstring_patch \<Rightarrow> bool" where
  "terminated source p \<longleftrightarrow>
     cp_nul_pos p = length source
     \<or> cp_nul_pos p + ep_unit (cp_prefix p) \<le> length source \<and> all_zero (slice source (cp_nul_pos p) (ep_unit (cp_prefix p)))"

fun patches_ok :: "byte list \<Rightarrow> cstring_patch list \<Rightarrow> nat \<Rightarrow> bool" where
  "patches_ok source [] lo \<longleftrightarrow> lo \<le> length source"
| "patches_ok source (p # ps) lo \<longleftrightarrow> lo \<le> cp_start p \<and> patch_ok source p \<and> patches_ok source ps (cp_nul_pos p)"

lemma offsets_ok_le: "offsets_ok source ph stop offsets lo \<Longrightarrow> lo \<le> stop"
  by (induction source ph stop offsets lo rule: offsets_ok.induct) auto

lemma offsets_ok_append:
  "offsets_ok source ph stop (xs @ [off]) lo \<Longrightarrow> off + length ph \<le> stop"
  by (induction xs arbitrary: lo) auto

lemma offsets_ok_snoc:
  "offsets_ok source ph k offsets lo \<Longrightarrow> k \<le> off \<Longrightarrow> occurs_at source ph off \<Longrightarrow> off + length ph \<le> stop
     \<Longrightarrow> offsets_ok source ph stop (offsets @ [off]) lo"
  by (induction source ph k offsets lo rule: offsets_ok.induct) auto

lemma offsets_ok_mono: "offsets_ok source ph k offsets lo \<Longrightarrow> k \<le> stop \<Longrightarrow> offsets_ok source ph stop offsets lo"
  by (induction source ph k offsets lo rule: offsets_ok.induct) auto

lemma offsets_ok_lower: "offsets_ok source ph stop offsets lo \<Longrightarrow> lo' \<le> lo \<Longrightarrow> offsets_ok source ph stop offsets lo'"
  by (cases offsets) auto

lemma offsets_ok_nth:
  "offsets_ok source ph stop offsets lo \<Longrightarrow> off \<in> set offsets \<Longrightarrow> lo \<le> off \<and> occurs_at source ph off \<and> off + length ph \<le> stop"
proof (induction source ph stop offsets lo rule: offsets_ok.induct)
  case (2 source ph stop off' offsets lo)
  then show ?case
    using offsets_ok_le [of source ph stop offsets "off' + length ph"] by auto
qed simp

lemma patch_ok_start_end: "patch_ok source p \<Longrightarrow> cp_start p + length (ep_placeholder (cp_prefix p)) \<le> cp_nul_pos p"
  using offsets_ok_nth [of source "ep_placeholder (cp_prefix p)" "cp_nul_pos p" "cp_offsets p" "cp_start p" "cp_start p"]
  by (simp add: patch_ok_def)

lemma patch_ok_start_less: "patch_ok source p \<Longrightarrow> ep_placeholder (cp_prefix p) \<noteq> [] \<Longrightarrow> cp_start p < cp_nul_pos p"
  using patch_ok_start_end [of source p] by (cases "ep_placeholder (cp_prefix p)") auto

lemma patch_ok_start_le: "patch_ok source p \<Longrightarrow> cp_start p \<le> cp_nul_pos p"
  using offsets_ok_le by (auto simp: patch_ok_def)

lemma patches_ok_le: "patches_ok source ps lo \<Longrightarrow> lo \<le> length source"
  by (induction source ps lo rule: patches_ok.induct) (auto dest: patch_ok_start_le)

lemma patches_ok_in:
  "patches_ok source ps lo \<Longrightarrow> p \<in> set ps \<Longrightarrow> lo \<le> cp_start p \<and> patch_ok source p"
  by (induction source ps lo rule: patches_ok.induct) (fastforce dest: patch_ok_start_le)+

section \<open>What the splice writes\<close>

fun occurrences_image :: "byte list \<Rightarrow> encoded_prefix \<Rightarrow> nat list \<Rightarrow> nat \<Rightarrow> nat \<Rightarrow> byte list" where
  "occurrences_image source ep [] pos stop = slice source pos (stop - pos)"
| "occurrences_image source ep (off # offsets) pos stop =
     slice source pos (off - pos) @ ep_target ep
       @ occurrences_image source ep offsets (off + length (ep_placeholder ep)) stop"

definition fits :: "encoded_prefix \<Rightarrow> bool" where
  "fits ep \<longleftrightarrow> length (ep_target ep) \<le> length (ep_placeholder ep)"

definition cstring_image :: "byte list \<Rightarrow> cstring_patch \<Rightarrow> nat \<Rightarrow> byte list" where
  "cstring_image source p pos =
     occurrences_image source (cp_prefix p) (cp_offsets p) pos (cp_nul_pos p)
       @ replicate (length (cp_offsets p)
           * (length (ep_placeholder (cp_prefix p)) - length (ep_target (cp_prefix p)))) 0"

fun cstrings_image :: "byte list \<Rightarrow> cstring_patch list \<Rightarrow> nat \<Rightarrow> byte list" where
  "cstrings_image source [] pos = drop pos source"
| "cstrings_image source (p # ps) pos = cstring_image source p pos @ cstrings_image source ps (cp_nul_pos p)"

lemma shrinks_by_fits: "shrinks_by ep = (if fits ep then Some (length (ep_placeholder ep) - length (ep_target ep)) else None)"
  by (simp add: shrinks_by_def checked_sub_def fits_def)

lemma reject_growing_prefix_iff: "reject_growing_prefix eps = Inr () \<longleftrightarrow> (\<forall>ep \<in> set eps. fits ep)"
  by (auto simp: reject_growing_prefix_def shrinks_by_fits find_None_iff find_Some_iff split: option.splits if_splits)

lemma reject_growing_prefix_Inl:
  "reject_growing_prefix eps = Inl e \<Longrightarrow> \<exists>ep \<in> set eps. \<not> fits ep \<and> e = GrowingPrefix (ep_encoding ep)"
  by (auto simp: reject_growing_prefix_def shrinks_by_fits growing_prefix_error_def find_Some_iff
      split: option.splits if_splits intro: nth_mem)

lemma range_write:
  "start \<le> stop \<Longrightarrow> stop \<le> length source
     \<Longrightarrow> write_replacement_range source start stop d = (Inr (), d @ slice source start (stop - start))"
  by (simp add: write_replacement_range_def writer_defs)

lemma write_occurrences_ok:
  "offsets_ok source (ep_placeholder ep) stop offsets lo \<Longrightarrow> pos \<le> lo \<Longrightarrow> stop \<le> length source \<Longrightarrow>
     \<exists>pos' bytes. write_occurrences source ep offsets pos d = (Inr pos', d @ bytes) \<and> pos' \<le> stop
       \<and> bytes @ slice source pos' (stop - pos') = occurrences_image source ep offsets pos stop"
proof (induction offsets arbitrary: lo pos d)
  case Nil
  then show ?case by (simp add: writer_defs)
next
  case (Cons off offsets)
  let ?d = "(d @ slice source pos (off - pos)) @ ep_target ep" and ?pos = "off + length (ep_placeholder ep)"
  have ok: "offsets_ok source (ep_placeholder ep) stop offsets ?pos" and "lo \<le> off"
    using Cons.prems by simp_all
  then obtain pos' bytes where IH:
    "write_occurrences source ep offsets ?pos ?d = (Inr pos', ?d @ bytes)" "pos' \<le> stop"
    "bytes @ slice source pos' (stop - pos') = occurrences_image source ep offsets ?pos stop"
    using Cons.IH [of ?pos ?pos ?d] Cons.prems(3) by auto
  have "off \<le> length source"
    using offsets_ok_le [OF ok] Cons.prems(3) by simp
  then have "write_occurrences source ep (off # offsets) pos d = (Inr pos', ?d @ bytes)"
    using IH(1) \<open>lo \<le> off\<close> Cons.prems(2) by (simp add: writer_defs range_write [unfolded writer_defs])
  then show ?case
    using IH(2,3) by auto
qed

lemma write_cstring_ok:
  assumes "patch_ok source p" "pos \<le> cp_start p" "fits (cp_prefix p)"
  shows "write_cstring source p pos d = (Inr (cp_nul_pos p), d @ cstring_image source p pos)"
proof -
  have nul: "cp_nul_pos p \<le> length source"
    using assms(1) by (simp add: patch_ok_def)
  obtain pos' bytes where w: "write_occurrences source (cp_prefix p) (cp_offsets p) pos d = (Inr pos', d @ bytes)"
      "pos' \<le> cp_nul_pos p"
      "bytes @ slice source pos' (cp_nul_pos p - pos') = occurrences_image source (cp_prefix p) (cp_offsets p) pos (cp_nul_pos p)"
    using write_occurrences_ok [OF _ assms(2) nul] assms(1) unfolding patch_ok_def by blast
  then show ?thesis
    using assms(3) nul
    by (simp add: write_cstring_def cstring_image_def and_then_def range_write shrinks_by_fits Let_def)
      (simp add: writer_defs flip: w(3))
qed

lemma write_cstrings_ok:
  "patches_ok source ps pos \<Longrightarrow> \<forall>p \<in> set ps. fits (cp_prefix p) \<Longrightarrow>
     \<exists>pos' bytes. write_cstrings source ps pos d = (Inr pos', d @ bytes) \<and> bytes @ drop pos' source = cstrings_image source ps pos"
proof (induction ps arbitrary: pos d)
  case (Cons p ps)
  then show ?case
    using Cons.IH [of "cp_nul_pos p" "d @ cstring_image source p pos"]
    by (fastforce simp: write_cstring_ok and_then_def)
qed (simp add: writer_defs)

lemma write_patched_cstrings_ok:
  assumes "patches_ok source ps 0" "\<forall>p \<in> set ps. fits (cp_prefix p)"
  shows "write_patched_cstrings source ps d = (Inr (), d @ cstrings_image source ps 0)"
proof -
  obtain pos' bytes where "write_cstrings source ps 0 d = (Inr pos', d @ bytes)"
    "bytes @ drop pos' source = cstrings_image source ps 0"
    using write_cstrings_ok [OF assms] by blast
  then show ?thesis
    by (auto simp: write_patched_cstrings_def writer_defs)
qed

section \<open>Length and contents of the patched file\<close>

lemma length_occurrences_image:
  "offsets_ok source (ep_placeholder ep) stop offsets lo \<Longrightarrow> pos \<le> lo \<Longrightarrow> stop \<le> length source \<Longrightarrow>
     length (occurrences_image source ep offsets pos stop) + length offsets * length (ep_placeholder ep)
       = (stop - pos) + length offsets * length (ep_target ep)"
proof (induction offsets arbitrary: lo pos)
  case (Cons off offsets)
  have ok: "offsets_ok source (ep_placeholder ep) stop offsets (off + length (ep_placeholder ep))"
    using Cons.prems by simp
  from Cons.IH [OF ok order.refl Cons.prems(3)] offsets_ok_le [OF ok] Cons.prems show ?case
    by (simp add: length_slice)
qed (simp add: length_slice)

lemma length_cstring_image:
  assumes "patch_ok source p" "pos \<le> cp_start p" "fits (cp_prefix p)"
  shows "length (cstring_image source p pos) = cp_nul_pos p - pos"
proof -
  let ?ep = "cp_prefix p"
  have "length (occurrences_image source ?ep (cp_offsets p) pos (cp_nul_pos p))
      + length (cp_offsets p) * length (ep_placeholder ?ep)
      = (cp_nul_pos p - pos) + length (cp_offsets p) * length (ep_target ?ep)"
    using assms(1) length_occurrences_image [OF _ assms(2)] unfolding patch_ok_def by blast
  moreover have "length (cp_offsets p) * length (ep_target ?ep) \<le> length (cp_offsets p) * length (ep_placeholder ?ep)"
    using assms(3) by (simp add: fits_def)
  ultimately show ?thesis
    by (simp add: cstring_image_def diff_mult_distrib2)
qed

lemma length_cstrings_image:
  "patches_ok source ps pos \<Longrightarrow> \<forall>p \<in> set ps. fits (cp_prefix p) \<Longrightarrow> length (cstrings_image source ps pos) = length source - pos"
proof (induction ps arbitrary: pos)
  case (Cons p ps)
  then have "cp_nul_pos p \<le> length source" "pos \<le> cp_nul_pos p"
    using patch_ok_start_le [of source p] by (auto simp: patch_ok_def)
  with Cons show ?case by (simp add: length_cstring_image)
qed simp

text \<open>The bytes between the end of the previous c-string and the first occurrence are copied.\<close>

lemma cstring_image_start:
  assumes "patch_ok source p" "pos \<le> cp_start p"
  shows "cstring_image source p pos = slice source pos (cp_start p - pos) @ cstring_image source p (cp_start p)"
proof -
  obtain off offsets where "cp_offsets p = off # offsets"
    using assms(1) by (cases "cp_offsets p") (auto simp: patch_ok_def)
  then show ?thesis by (simp add: cstring_image_def)
qed

lemma cstrings_image_outside:
  "patches_ok source ps pos \<Longrightarrow> \<forall>p \<in> set ps. fits (cp_prefix p) \<Longrightarrow> pos \<le> i \<Longrightarrow> i < length source
     \<Longrightarrow> \<forall>p \<in> set ps. i < cp_start p \<or> cp_nul_pos p \<le> i \<Longrightarrow> cstrings_image source ps pos ! (i - pos) = source ! i"
proof (induction ps arbitrary: pos)
  case (Cons p ps)
  have ok: "patch_ok source p" "pos \<le> cp_start p" "fits (cp_prefix p)"
    using Cons.prems by simp_all
  note len = length_cstring_image [OF ok] and le = patch_ok_start_le [OF ok(1)]
  show ?case
  proof (cases "i < cp_start p")
    case True
    then have "i - pos < cp_start p - pos" "i - pos < length source - pos"
      using Cons.prems(3,4) by linarith+
    then show ?thesis
      using Cons.prems(3) by (simp add: nth_append cstring_image_start [OF ok(1,2)] slice_def)
  next
    case False
    then have "cp_nul_pos p \<le> i" using Cons.prems(5) by simp
    moreover from this have "\<not> i - pos < cp_nul_pos p - pos" by linarith
    ultimately show ?thesis
      using Cons.IH [of "cp_nul_pos p"] Cons.prems len le ok(2) by (simp add: nth_append)
  qed
qed simp

lemma slice_append:
  "slice (xs @ ys) i n = (if i + n \<le> length xs then slice xs i n
     else slice xs i n @ slice ys (i - length xs) (n - (length xs - i)))"
  by (simp add: slice_def)

lemma slice_all: "slice xs 0 (length xs) = xs"
  by (simp add: slice_def)

lemma cstrings_image_patch:
  "patches_ok source ps pos \<Longrightarrow> \<forall>p \<in> set ps. fits (cp_prefix p) \<Longrightarrow> p \<in> set ps
     \<Longrightarrow> slice (cstrings_image source ps pos) (cp_start p - pos) (cp_nul_pos p - cp_start p)
         = cstring_image source p (cp_start p)"
proof (induction ps arbitrary: pos)
  case (Cons q ps)
  have ok: "patch_ok source q" "pos \<le> cp_start q" "fits (cp_prefix q)"
    using Cons.prems by simp_all
  note len = length_cstring_image [OF ok] and le = patch_ok_start_le [OF ok(1)]
  have nul: "cp_nul_pos q \<le> length source" using ok(1) by (simp add: patch_ok_def)
  show ?case
  proof (cases "p = q")
    case True
    have "length (cstring_image source p (cp_start p)) = cp_nul_pos p - cp_start p"
      using length_cstring_image [OF ok(1) order.refl ok(3)] True by simp
    then show ?thesis
      using ok le nul unfolding True by (simp add: cstring_image_start [OF ok(1,2)] slice_def)
  next
    case False
    then have p: "p \<in> set ps" using Cons.prems by simp
    then have "cp_nul_pos q \<le> cp_start p" "patch_ok source p"
      using Cons.prems(1) patches_ok_in by auto
    then show ?thesis
      using Cons.IH [of "cp_nul_pos q"] Cons.prems(1,2) p len le ok(2)
      by (simp add: slice_def)
  qed
qed simp

section \<open>The search\<close>

lemma cstring_end_spec:
  assumes "0 < unit"
  shows "cstring_end source pos unit = Some None
    \<or> (\<exists>k. cstring_end source pos unit = Some (Some (pos + k * unit)) \<and> pos + k * unit + unit \<le> length source
         \<and> all_zero (slice source (pos + k * unit) unit)
         \<and> (\<forall>j<k. \<not> all_zero (slice source (pos + j * unit) unit)))"
proof (induction "Suc (length source) - pos" arbitrary: pos rule: less_induct)
  case less
  show ?case
  proof (cases "pos + unit \<le> length source \<and> \<not> all_zero (slice source pos unit)")
    case True
    then have step: "cstring_end source pos unit = cstring_end source (pos + unit) unit"
      by (subst cstring_end.simps) simp
    have "Suc (length source) - (pos + unit) < Suc (length source) - pos"
      using True assms by linarith
    from less(1) [OF this] show ?thesis
    proof
      assume "\<exists>k. cstring_end source (pos + unit) unit = Some (Some (pos + unit + k * unit))
         \<and> pos + unit + k * unit + unit \<le> length source
         \<and> all_zero (slice source (pos + unit + k * unit) unit)
         \<and> (\<forall>j<k. \<not> all_zero (slice source (pos + unit + j * unit) unit))"
      then obtain k where k: "cstring_end source (pos + unit) unit = Some (Some (pos + unit + k * unit))"
         "pos + unit + k * unit + unit \<le> length source" "all_zero (slice source (pos + unit + k * unit) unit)"
         "\<forall>j<k. \<not> all_zero (slice source (pos + unit + j * unit) unit)" by blast
      have "\<forall>j<Suc k. \<not> all_zero (slice source (pos + j * unit) unit)"
        using k(4) True by (auto simp: less_Suc_eq_0_disj add.assoc)
      with k step show ?thesis
        by (intro disjI2 exI [of _ "Suc k"]) (simp add: add.assoc)
    qed (simp add: step)
  next
    case False
    then show ?thesis
      by (subst (1 2) cstring_end.simps) (auto intro: exI [of _ 0])
  qed
qed

context memchr_laws
begin

lemma find_Some_slice:
  assumes "ph \<noteq> []" "a \<le> b" "b \<le> length source" "mc_find mc (slice source a (b - a)) ph = Some i"
  shows "occurs_at source ph (a + i)" "a + i + length ph \<le> b"
    and "a \<le> j \<Longrightarrow> j < a + i \<Longrightarrow> j + length ph \<le> b \<Longrightarrow> \<not> occurs_at source ph j"
proof -
  have "occurs_at (slice source a (b - a)) ph i" "\<forall>j<i. \<not> occurs_at (slice source a (b - a)) ph j"
    using assms(4) find_Some [OF assms(1)] by auto
  then show "occurs_at source ph (a + i)" "a + i + length ph \<le> b"
    and "a \<le> j \<Longrightarrow> j < a + i \<Longrightarrow> j + length ph \<le> b \<Longrightarrow> \<not> occurs_at source ph j"
    using occurs_at_slice [OF assms(2,3)] by (auto dest: spec [of _ "j - a"])
qed

lemma find_None_slice:
  assumes "ph \<noteq> []" "a \<le> b" "b \<le> length source" "mc_find mc (slice source a (b - a)) ph = None"
    "a \<le> j" "j + length ph \<le> b"
  shows "\<not> occurs_at source ph j"
proof -
  have "\<not> occurs_at (slice source a (b - a)) ph (j - a)"
    using assms(4) by (simp add: find_eq_str_find [OF assms(1)] str_find_None_iff)
  then show ?thesis using occurs_at_slice [OF assms(2,3)] assms(5,6) by simp
qed

lemma slice_to_end: "drop k source = slice source k (length source - k)"
  by (simp add: slice_def)

lemma collect_offsets_ok:
  assumes "ph \<noteq> []"
  shows "offsets_ok source ph next offsets lo \<Longrightarrow> next \<le> stop \<Longrightarrow> stop \<le> length source \<Longrightarrow>
    \<exists>more. collect_offsets mc source ph stop next offsets = Some (offsets @ more)
      \<and> offsets_ok source ph stop (offsets @ more) lo
      \<and> (\<forall>i. next \<le> i \<longrightarrow> i + length ph \<le> stop \<longrightarrow> occurs_at source ph i
             \<longrightarrow> (\<exists>off \<in> set more. off \<le> i \<and> i < off + length ph))"
proof (induction "stop - next" arbitrary: "next" offsets rule: less_induct)
  case less
  note in_range = less.prems(2,3)
  show ?case
  proof (cases "mc_find mc (slice source next (stop - next)) ph")
    case None
    then have "collect_offsets mc source ph stop next offsets = Some offsets"
      using in_range by (subst collect_offsets.simps) simp
    then show ?thesis
      using find_None_slice [OF assms in_range None] offsets_ok_mono [OF less.prems(1,2)] by auto
  next
    case (Some i)
    note found = find_Some_slice [OF assms in_range Some]
    let ?off = "next + i" and ?next = "next + i + length ph"
    have step: "collect_offsets mc source ph stop next offsets = collect_offsets mc source ph stop ?next (offsets @ [?off])"
      using in_range Some by (subst collect_offsets.simps) simp
    have "offsets_ok source ph ?next (offsets @ [?off]) lo"
      using offsets_ok_snoc [OF less.prems(1) _ found(1)] by simp
    moreover have "stop - ?next < stop - next"
      using found(2) assms by (cases ph) auto
    ultimately obtain more where more: "collect_offsets mc source ph stop ?next (offsets @ [?off]) = Some ((offsets @ [?off]) @ more)"
      "offsets_ok source ph stop ((offsets @ [?off]) @ more) lo"
      "\<forall>i. ?next \<le> i \<longrightarrow> i + length ph \<le> stop \<longrightarrow> occurs_at source ph i \<longrightarrow> (\<exists>off \<in> set more. off \<le> i \<and> i < off + length ph)"
      using less(1) [of ?next "offsets @ [?off]"] found(2) in_range(2) by blast
    have "\<exists>off \<in> set (?off # more). off \<le> j \<and> j < off + length ph"
      if "next \<le> j" "j + length ph \<le> stop" "occurs_at source ph j" for j
      using more(3) found(3) [of j] that by (cases "j < ?next") (auto simp: not_less)
    then show ?thesis
      using step more by (intro exI [of _ "?off # more"]) simp
  qed
qed

text \<open>One found occurrence that is not covered yet becomes a candidate.\<close>

lemma search_step:
  assumes ph: "ep_placeholder ep \<noteq> []" and inside: "search_from \<le> length source"
    and found: "mc_find mc (drop search_from source) (ep_placeholder ep) = Some i"
    and uncovered: "\<not> search_from + i < covered ! ((search_from + i) mod ep_unit ep)"
  obtains c rank where
    "search_cstrings mc source ep search_from covered candidates
      = search_cstrings mc source ep (search_from + i + length (ep_placeholder ep))
          (covered[(search_from + i) mod ep_unit ep := cp_nul_pos c]) (candidates @ [(rank, c)])"
    "patch_ok source c" "cp_prefix c = ep" "cp_start c = search_from + i" "rank = 0 \<longleftrightarrow> ep_encoding ep = OE_Utf8"
    "terminated source c"
    "\<forall>j. search_from + i \<le> j \<longrightarrow> j + length (ep_placeholder ep) \<le> cp_nul_pos c \<longrightarrow> occurs_at source (ep_placeholder ep) j
       \<longrightarrow> (\<exists>off \<in> set (cp_offsets c). off \<le> j \<and> j < off + length (ep_placeholder ep))"
proof -
  let ?first = "search_from + i"
  let ?after = "?first + length (ep_placeholder ep)"
  note occ = find_Some_slice [OF ph inside order.refl found [unfolded slice_to_end]]
  obtain nul where nul: "cstring_end source ?after (ep_unit ep) = Some nul"
    and stop: "?after \<le> case_option (length source) id nul" "case_option (length source) id nul \<le> length source"
      "case_option (length source) id nul = length source
       \<or> case_option (length source) id nul + ep_unit ep \<le> length source
           \<and> all_zero (slice source (case_option (length source) id nul) (ep_unit ep))"
    using cstring_end_spec [OF code_unit_size_pos, of source ?after "ep_encoding ep"] occ(2)
      code_unit_size_pos [of "ep_encoding ep"] by fastforce
  let ?stop = "case_option (length source) id nul"
  have "offsets_ok source (ep_placeholder ep) ?after [?first] ?first"
    using occ by simp
  then obtain more where more:
    "collect_offsets mc source (ep_placeholder ep) ?stop ?after [?first] = Some (?first # more)"
    "offsets_ok source (ep_placeholder ep) ?stop (?first # more) ?first"
    "\<forall>j. ?after \<le> j \<longrightarrow> j + length (ep_placeholder ep) \<le> ?stop \<longrightarrow> occurs_at source (ep_placeholder ep) j
       \<longrightarrow> (\<exists>off \<in> set more. off \<le> j \<and> j < off + length (ep_placeholder ep))"
    using collect_offsets_ok [OF ph _ stop(1,2)] by fastforce
  let ?rank = "candidate_rank (ep_encoding ep) (?first mod ep_unit ep = 0) (nul \<noteq> None)"
  let ?c = "\<lparr>cp_offsets = ?first # more, cp_nul_pos = ?stop, cp_prefix = ep\<rparr>"
  show thesis
  proof (rule that [of ?c ?rank])
    show "search_cstrings mc source ep search_from covered candidates
      = search_cstrings mc source ep ?after (covered[?first mod ep_unit ep := cp_nul_pos ?c]) (candidates @ [(?rank, ?c)])"
      using inside found uncovered nul more(1) by (subst search_cstrings.simps) (simp add: Let_def)
    show "patch_ok source ?c"
      using more(2) stop(2) by (simp add: patch_ok_def)
    show "?rank = 0 \<longleftrightarrow> ep_encoding ep = OE_Utf8"
      by (cases "ep_encoding ep"; cases "?first mod ep_unit ep = 0"; cases "nul \<noteq> None") simp_all
    show "\<forall>j. ?first \<le> j \<longrightarrow> j + length (ep_placeholder ep) \<le> cp_nul_pos ?c \<longrightarrow> occurs_at source (ep_placeholder ep) j
       \<longrightarrow> (\<exists>off \<in> set (cp_offsets ?c). off \<le> j \<and> j < off + length (ep_placeholder ep))"
      using more(3) by (force simp: not_le)
    show "terminated source ?c"
      using stop(3) by (simp add: terminated_def)
  qed simp_all
qed

lemma search_skip:
  assumes "ep_placeholder ep \<noteq> []" "search_from \<le> length source"
    and found: "mc_find mc (drop search_from source) (ep_placeholder ep) = Some i"
    and "search_from + i < covered ! ((search_from + i) mod ep_unit ep)"
  shows "search_cstrings mc source ep search_from covered candidates
      = search_cstrings mc source ep (search_from + i + length (ep_placeholder ep)) covered candidates"
  using assms by (subst search_cstrings.simps) (simp add: Let_def)

lemma search_none:
  assumes "search_from \<le> length source" "mc_find mc (drop search_from source) (ep_placeholder ep) = None"
  shows "search_cstrings mc source ep search_from covered candidates = Some candidates"
  using assms by (subst search_cstrings.simps) simp

lemma search_progress:
  assumes "ph \<noteq> []" "search_from \<le> length source" "mc_find mc (drop search_from source) ph = Some i"
  shows "search_from + i + length ph \<le> length source"
    and "length source - (search_from + i + length ph) < length source - search_from"
  using find_Some_slice(2) [OF assms(1,2) order.refl assms(3) [unfolded slice_to_end]] assms(1)
  by (cases ph; simp)+

lemma search_cstrings_ok:
  assumes ph: "ep_placeholder ep \<noteq> []"
  shows "search_from \<le> length source \<Longrightarrow>
    \<exists>more. search_cstrings mc source ep search_from covered candidates = Some (candidates @ more)
      \<and> (\<forall>(rank, c) \<in> set more. patch_ok source c \<and> terminated source c \<and> cp_prefix c = ep \<and> (rank = 0 \<longleftrightarrow> ep_encoding ep = OE_Utf8))"
proof (induction "length source - search_from" arbitrary: search_from covered candidates rule: less_induct)
  case less
  show ?case
  proof (cases "mc_find mc (drop search_from source) (ep_placeholder ep)")
    case None
    then show ?thesis by (simp add: search_none less.prems)
  next
    case (Some i)
    note IH = less(1) [OF search_progress(2) [OF ph less.prems Some] search_progress(1) [OF ph less.prems Some]]
    show ?thesis
    proof (cases "search_from + i < covered ! ((search_from + i) mod ep_unit ep)")
      case True
      then show ?thesis using IH by (simp add: search_skip [OF ph less.prems Some])
    next
      case False
      then obtain c rank where "search_cstrings mc source ep search_from covered candidates
        = search_cstrings mc source ep (search_from + i + length (ep_placeholder ep))
            (covered[(search_from + i) mod ep_unit ep := cp_nul_pos c]) (candidates @ [(rank, c)])"
        "patch_ok source c" "terminated source c" "cp_prefix c = ep" "rank = 0 \<longleftrightarrow> ep_encoding ep = OE_Utf8"
        by (rule search_step [OF ph less.prems Some])
      then show ?thesis
        using IH [of "covered[(search_from + i) mod ep_unit ep := cp_nul_pos c]" "candidates @ [(rank, c)]"]
        by fastforce
    qed
  qed
qed

lemma search_prefixes_ok:
  "\<forall>ep \<in> set eps. ep_placeholder ep \<noteq> [] \<Longrightarrow>
    \<exists>more. search_prefixes mc source eps candidates = Some (candidates @ more)
      \<and> (\<forall>(rank, c) \<in> set more. patch_ok source c \<and> terminated source c \<and> cp_prefix c \<in> set eps \<and> (rank = 0 \<longleftrightarrow> ep_encoding (cp_prefix c) = OE_Utf8))"
proof (induction eps arbitrary: candidates)
  case (Cons ep eps)
  obtain more where m: "search_cstrings mc source ep 0 (replicate (ep_unit ep) 0) candidates = Some (candidates @ more)"
    "\<forall>(rank, c) \<in> set more. patch_ok source c \<and> terminated source c \<and> cp_prefix c = ep \<and> (rank = 0 \<longleftrightarrow> ep_encoding ep = OE_Utf8)"
    using search_cstrings_ok [of ep 0 source "replicate (ep_unit ep) 0" candidates] Cons.prems by auto
  obtain rest where r: "search_prefixes mc source eps (candidates @ more) = Some ((candidates @ more) @ rest)"
    "\<forall>(rank, c) \<in> set rest. patch_ok source c \<and> terminated source c \<and> cp_prefix c \<in> set eps \<and> (rank = 0 \<longleftrightarrow> ep_encoding (cp_prefix c) = OE_Utf8)"
    using Cons.IH [of "candidates @ more"] Cons.prems by auto
  from m r show ?case by (intro exI [of _ "more @ rest"]) auto
qed simp

end

end
