(* ===== verification/Prefix_Binary_Properties.thy ===== *)
theory Prefix_Binary_Properties
  imports Prefix_Splice "HOL-Library.Multiset" "HOL-Library.Code_Target_Nat"
begin

text \<open>
  The two ways to replace the prefix in a binary file: the resolution of overlapping candidates, that
  every UTF-8 occurrence is replaced, that the length of the file is kept, that recorded offsets
  that do not match the file are reported before anything is written, and that the offsets a producer
  records with the same search give the bytes of the search.
\<close>

section \<open>Keeping the best candidates\<close>

definition kept_ok :: "byte list \<Rightarrow> (nat \<times> cstring_patch) list \<Rightarrow> nat \<Rightarrow> bool" where
  "kept_ok source kept lo \<longleftrightarrow>
     patches_ok source (map snd kept) lo \<and> (\<forall>(k, p) \<in> set kept. k = cp_start p \<and> cp_start p < cp_nul_pos p)"

lemma kept_ok_Cons:
  "kept_ok source ((k, p) # es) lo \<longleftrightarrow>
     k = cp_start p \<and> lo \<le> k \<and> k < cp_nul_pos p \<and> patch_ok source p \<and> kept_ok source es (cp_nul_pos p)"
  by (auto simp: kept_ok_def)

lemma kept_ok_keys: "kept_ok source es lo \<Longrightarrow> e \<in> set es \<Longrightarrow> lo \<le> fst e"
  using patches_ok_in [of source "map snd es" lo "snd e"] by (auto simp: kept_ok_def)

abbreviation overlaps_earlier :: "(nat \<times> cstring_patch) list \<Rightarrow> nat \<Rightarrow> bool" where
  "overlaps_earlier kept start \<equiv> (case filter (\<lambda>e. fst e \<le> start) kept of
     [] \<Rightarrow> False | e # es \<Rightarrow> start < cp_nul_pos (snd (last (e # es))))"

abbreviation overlaps_later :: "(nat \<times> cstring_patch) list \<Rightarrow> nat \<Rightarrow> nat \<Rightarrow> bool" where
  "overlaps_later kept start stop \<equiv> (case filter (\<lambda>e. start \<le> fst e) kept of [] \<Rightarrow> False | e # es \<Rightarrow> fst e < stop)"

text \<open>The nearest kept c-strings decide: no overlap with them is no overlap at all.\<close>

lemma insert_kept_ok:
  assumes c: "patch_ok source c" "cp_start c < cp_nul_pos c"
  shows "kept_ok source kept lo \<Longrightarrow> lo \<le> cp_start c \<Longrightarrow> \<not> overlaps_earlier kept (cp_start c)
     \<Longrightarrow> \<not> overlaps_later kept (cp_start c) (cp_nul_pos c)
     \<Longrightarrow> kept_ok source (btree_insert (cp_start c) c kept) lo
       \<and> set (btree_insert (cp_start c) c kept) = insert (cp_start c, c) (set kept)"
proof (induction kept arbitrary: lo)
  case Nil
  with c show ?case by (auto simp: kept_ok_def patch_ok_def)
next
  case (Cons e es)
  obtain k p where e: "e = (k, p)" by (cases e)
  note ok = Cons.prems(1) [unfolded e kept_ok_Cons]
  have keys: "e' \<in> set es \<Longrightarrow> cp_nul_pos p \<le> fst e'" for e'
    using ok kept_ok_keys by blast
  show ?case
  proof (cases "cp_start c < k")
    case True
    then have "\<not> k < cp_nul_pos c"
      using Cons.prems(4) by (simp add: e)
    with True c ok Cons.prems(2) show ?thesis by (simp add: e kept_ok_Cons)
  next
    case False
    have "cp_nul_pos p \<le> cp_start c"
    proof (cases "filter (\<lambda>e. fst e \<le> cp_start c) es")
      case Nil
      with Cons.prems(3) False show ?thesis by (simp add: e split: if_splits)
    next
      case (Cons e' es')
      then have "e' \<in> set (filter (\<lambda>e. fst e \<le> cp_start c) es)" by simp
      then have "e' \<in> set es" "fst e' \<le> cp_start c" by simp_all
      with keys show ?thesis by (meson order.trans)
    qed
    moreover from this have "k < cp_start c" "\<not> cp_start c \<le> k" using ok by linarith+
    moreover have "\<not> overlaps_earlier es (cp_start c)" "\<not> overlaps_later es (cp_start c) (cp_nul_pos c)"
      using Cons.prems(3,4) \<open>k < cp_start c\<close> by (auto simp: e split: list.splits if_splits)
    ultimately have "kept_ok source (btree_insert (cp_start c) c es) (cp_nul_pos p)
        \<and> set (btree_insert (cp_start c) c es) = insert (cp_start c, c) (set es)"
      using Cons.IH ok by blast
    with ok \<open>k < cp_start c\<close> show ?thesis by (auto simp: e kept_ok_Cons)
  qed
qed

lemma keep_candidate_ok:
  assumes "patch_ok source c" "cp_start c < cp_nul_pos c" "kept_ok source kept 0"
  shows "kept_ok source (keep_candidate (rank, c) kept) 0"
    and "set kept \<subseteq> set (keep_candidate (rank, c) kept)"
    and "set (keep_candidate (rank, c) kept) \<subseteq> insert (cp_start c, c) (set kept)"
  using insert_kept_ok [OF assms(1,2,3) le0] assms(3) by (simp_all add: keep_candidate_def Let_def) auto

lemma keep_candidates_ok:
  "kept_ok source kept 0 \<Longrightarrow> \<forall>(rank, c) \<in> set cs. patch_ok source c \<and> cp_start c < cp_nul_pos c \<Longrightarrow>
     kept_ok source (fold keep_candidate cs kept) 0 \<and> set kept \<subseteq> set (fold keep_candidate cs kept)
     \<and> snd ` set (fold keep_candidate cs kept) \<subseteq> snd ` set kept \<union> snd ` set cs"
proof (induction cs arbitrary: kept)
  case (Cons rc cs)
  obtain rank c where rc: "rc = (rank, c)" by (cases rc)
  have "patch_ok source c" "cp_start c < cp_nul_pos c" using Cons.prems(2) by (auto simp: rc)
  note keep = keep_candidate_ok [OF this Cons.prems(1), of rank]
  have "kept_ok source (fold keep_candidate (rc # cs) kept) 0"
    "set (keep_candidate rc kept) \<subseteq> set (fold keep_candidate (rc # cs) kept)"
    "snd ` set (fold keep_candidate (rc # cs) kept) \<subseteq> snd ` set (keep_candidate rc kept) \<union> snd ` set cs"
    using Cons.IH [OF keep(1)] Cons.prems(2) by (simp_all add: rc)
  moreover have "snd ` set (keep_candidate rc kept) \<union> snd ` set cs \<subseteq> snd ` set kept \<union> snd ` set (rc # cs)"
    using keep(3) by (auto simp: rc)
  moreover have "set kept \<subseteq> set (keep_candidate rc kept)"
    using keep(2) by (simp add: rc)
  ultimately show ?case
    by (intro conjI) (assumption | erule (1) order.trans)+
qed simp

text \<open>Candidates that are disjoint and in order are all kept.\<close>

lemma keep_in_order:
  "patches_ok source (map snd cs) lo \<Longrightarrow> \<forall>(rank, c) \<in> set cs. cp_start c < cp_nul_pos c \<Longrightarrow>
     \<forall>(k, p) \<in> set kept. k < cp_nul_pos p \<and> cp_nul_pos p \<le> lo \<Longrightarrow>
     fold keep_candidate cs kept = kept @ map (\<lambda>rc. (cp_start (snd rc), snd rc)) cs"
proof (induction cs arbitrary: kept lo)
  case (Cons rc cs)
  obtain rank c where rc: "rc = (rank, c)" by (cases rc)
  have lo: "lo \<le> cp_start c" "cp_start c < cp_nul_pos c"
    using Cons.prems(1,2) by (auto simp: rc)
  have keys: "fst e < cp_start c \<and> cp_nul_pos (snd e) \<le> cp_start c" if "e \<in> set kept" for e
    using Cons.prems(3) that lo by (cases e) fastforce
  have "filter (\<lambda>e. cp_start c \<le> fst e) kept = []"
    using keys by (fastforce simp: filter_empty_conv)
  moreover have "\<not> overlaps_earlier kept (cp_start c)"
  proof (cases "filter (\<lambda>e. fst e \<le> cp_start c) kept")
    case (Cons e es)
    then have "last (e # es) \<in> set kept"
      by (metis filter_is_subset last_in_set list.distinct(1) subsetD)
    with keys Cons show ?thesis by fastforce
  qed simp
  moreover have "btree_insert (cp_start c) c kept = kept @ [(cp_start c, c)]"
    using keys
  proof (induction kept)
    case (Cons e es)
    then show ?case by (cases e) fastforce
  qed simp
  ultimately have "keep_candidate rc kept = kept @ [(cp_start c, c)]"
    by (simp add: keep_candidate_def rc)
  moreover have "\<forall>(k, p) \<in> set (kept @ [(cp_start c, c)]). k < cp_nul_pos p \<and> cp_nul_pos p \<le> cp_nul_pos c"
    using Cons.prems(3) lo by fastforce
  ultimately show ?case
    using Cons.IH [of "cp_nul_pos c" "kept @ [(cp_start c, c)]"] Cons.prems(1,2) by (simp add: rc)
qed simp

section \<open>The patches of a file\<close>

definition encoded_prefix_of :: "utext \<Rightarrow> utext \<Rightarrow> offset_encoding \<Rightarrow> encoded_prefix" where
  "encoded_prefix_of placeholder target e =
     \<lparr>ep_encoding = e, ep_placeholder = encode e placeholder, ep_target = encode e target\<rparr>"

lemma encoded_prefix_of_simps [simp]:
  "ep_encoding (encoded_prefix_of ph t e) = e"
  "ep_placeholder (encoded_prefix_of ph t e) = encode e ph"
  "ep_target (encoded_prefix_of ph t e) = encode e t"
  by (simp_all add: encoded_prefix_of_def)

lemma encoded_prefix_all_eq:
  "encoded_prefix_all placeholder target =
     (if placeholder = [] then [] else map (encoded_prefix_of placeholder target) DEFINED)"
  by (simp add: encoded_prefix_all_def DEFINED_def map_filter_simps encoded_prefix_of_def)

lemma encoded_prefix_all_nonempty: "ep \<in> set (encoded_prefix_all ph t) \<Longrightarrow> ep_placeholder ep \<noteq> []"
  by (auto simp: encoded_prefix_all_eq split: if_splits)

lemma sort_key_below:
  fixes f :: "'a \<Rightarrow> 'b::linorder"
  assumes "sorted (map f u)" "\<forall>x \<in> set u. \<forall>y \<in> set r. f x \<le> f y"
  shows "sort_key f (u @ r) = u @ sort_key f r"
  using assms
proof (induction u)
  case (Cons a u)
  then have "\<forall>x \<in> set (u @ sort_key f r). f a \<le> f x" by auto
  with Cons show ?case by (simp add: insort_is_Cons)
qed simp

lemma sorted_starts: "patches_ok source ps lo \<Longrightarrow> sorted (map cp_start ps)"
proof (induction ps arbitrary: lo)
  case (Cons p ps)
  then have "cp_start p \<le> cp_start q" if "q \<in> set ps" for q
    using that patches_ok_in [of source ps "cp_nul_pos p" q] patch_ok_start_le [of source p] by auto
  with Cons show ?case by auto
qed simp

context memchr_laws
begin

lemma find_cstring_patches_ok:
  assumes "\<forall>ep \<in> set eps. ep_placeholder ep \<noteq> []"
  obtains patches where "find_cstring_patches mc source eps = Some patches" "patches_ok source patches 0"
    "\<forall>p \<in> set patches. terminated source p \<and> cp_prefix p \<in> set eps"
proof -
  obtain cs where cs: "search_prefixes mc source eps [] = Some cs"
    "\<forall>(rank, c) \<in> set cs. patch_ok source c \<and> terminated source c \<and> cp_prefix c \<in> set eps"
    using search_prefixes_ok [OF assms, of source "[]"] by auto
  let ?cs = "sort_key (\<lambda>(rank, patch). (rank, cp_start patch)) cs"
  have "\<forall>(rank, c) \<in> set ?cs. patch_ok source c \<and> cp_start c < cp_nul_pos c"
    using cs(2) assms patch_ok_start_less by fastforce
  then have "kept_ok source (fold keep_candidate ?cs []) 0" "snd ` set (fold keep_candidate ?cs []) \<subseteq> snd ` set ?cs"
    using keep_candidates_ok [of source "[]" ?cs] by (simp_all add: kept_ok_def)
  moreover have "\<forall>c \<in> snd ` set ?cs. terminated source c \<and> cp_prefix c \<in> set eps"
    using cs(2) by auto
  ultimately have "patches_ok source (map snd (fold keep_candidate ?cs [])) 0"
    "\<forall>p \<in> set (map snd (fold keep_candidate ?cs [])). terminated source p \<and> cp_prefix p \<in> set eps"
    unfolding kept_ok_def set_map by blast+
  then show thesis
    using that cs(1) by (simp add: find_cstring_patches_def)
qed

text \<open>
  The candidates of UTF-8 are disjoint, in order, and touch every occurrence, provided the placeholder
  has no zero byte.
\<close>

lemma search_utf8:
  assumes ph: "ep_placeholder ep \<noteq> []" "0 \<notin> set (ep_placeholder ep)" and utf8: "ep_encoding ep = OE_Utf8"
  shows "search_from \<le> length source \<Longrightarrow> cov \<le> length source \<Longrightarrow> cov = 0 \<or> cov = length source \<or> source ! cov = 0 \<Longrightarrow>
    search_cstrings mc source ep search_from [cov] candidates = Some result \<Longrightarrow>
    \<exists>more. result = candidates @ more \<and> patches_ok source (map snd more) cov
      \<and> (\<forall>i. search_from \<le> i \<longrightarrow> cov \<le> i \<longrightarrow> occurs_at source (ep_placeholder ep) i
           \<longrightarrow> (\<exists>c \<in> snd ` set more. \<exists>off \<in> set (cp_offsets c). off \<le> i \<and> i < off + length (ep_placeholder ep)))"
proof (induction "length source - search_from" arbitrary: search_from cov candidates rule: less_induct)
  case less
  let ?ph = "ep_placeholder ep"
  have whole: "i + length ?ph \<le> stop" if "occurs_at source ?ph i" "i < stop" "stop = length source \<or> source ! stop = 0" for i stop
  proof (rule ccontr)
    assume "\<not> i + length ?ph \<le> stop"
    then have "stop - i < length ?ph" using that(2) by linarith
    moreover from this have "source ! stop = ?ph ! (stop - i)"
      using that(1,2) by (auto simp: occurs_at_iff_append nth_append)
    ultimately show False
      using that(3) ph(2) occurs_at_bound [OF that(1)] \<open>\<not> i + length ?ph \<le> stop\<close> by (metis nth_mem)
  qed
  show ?case
  proof (cases "mc_find mc (drop search_from source) ?ph")
    case None
    then have "\<not> occurs_at source ?ph i" if "search_from \<le> i" for i
      using find_None_slice [OF ph(1) less.prems(1) order.refl None [unfolded slice_to_end] that] occurs_at_bound by blast
    with None less.prems show ?thesis by (auto simp: search_none)
  next
    case (Some i)
    let ?first = "search_from + i"
    note progress = search_progress [OF ph(1) less.prems(1) Some]
    note occ = find_Some_slice [OF ph(1) less.prems(1) order.refl Some [unfolded slice_to_end]]
    have ge: "?first \<le> j" if "search_from \<le> j" "occurs_at source ?ph j" for j
      using occ(3) that occurs_at_bound not_le by blast
    show ?thesis
    proof (cases "?first < cov")
      case True
      then have "?first + length ?ph \<le> cov"
        using whole occ(1) less.prems(3) by blast
      moreover have "search_cstrings mc source ep (?first + length ?ph) [cov] candidates = Some result"
        using less.prems(4) search_skip [OF ph(1) less.prems(1) Some, of "[cov]"] True utf8 by simp
      ultimately show ?thesis
        using less(1) [OF progress(2,1) less.prems(2,3)] by (meson order.trans)
    next
      case False
      then have "\<not> ?first < [cov] ! (?first mod ep_unit ep)" by (simp add: utf8)
      then obtain c rank where c: "search_cstrings mc source ep search_from [cov] candidates
        = search_cstrings mc source ep (?first + length ?ph) ([cov][?first mod ep_unit ep := cp_nul_pos c]) (candidates @ [(rank, c)])"
        "patch_ok source c" "cp_start c = ?first"
        "terminated source c"
        "\<forall>j. ?first \<le> j \<longrightarrow> j + length ?ph \<le> cp_nul_pos c \<longrightarrow> occurs_at source ?ph j
           \<longrightarrow> (\<exists>off \<in> set (cp_offsets c). off \<le> j \<and> j < off + length ?ph)"
        "cp_prefix c = ep"
        by (rule search_step [OF ph(1) less.prems(1) Some])
      have stop: "cp_nul_pos c \<le> length source" "cp_nul_pos c = length source \<or> source ! cp_nul_pos c = 0"
        using c(2,4,6) by (auto simp: utf8 terminated_def patch_ok_def all_zero_def slice_def hd_drop_conv_nth take_Suc)
      obtain more where more: "result = (candidates @ [(rank, c)]) @ more" "patches_ok source (map snd more) (cp_nul_pos c)"
        "\<forall>i. ?first + length ?ph \<le> i \<longrightarrow> cp_nul_pos c \<le> i \<longrightarrow> occurs_at source ?ph i
           \<longrightarrow> (\<exists>c \<in> snd ` set more. \<exists>off \<in> set (cp_offsets c). off \<le> i \<and> i < off + length ?ph)"
        using less(1) [OF progress(2,1) stop(1), of "candidates @ [(rank, c)]"] stop(2) less.prems(4) c(1)
        by (auto simp: utf8)
      have "\<exists>c' \<in> snd ` set ((rank, c) # more). \<exists>off \<in> set (cp_offsets c'). off \<le> j \<and> j < off + length ?ph"
        if j: "search_from \<le> j" "occurs_at source ?ph j" for j
      proof (cases "j < cp_nul_pos c")
        case True
        then show ?thesis using c(5) ge [OF j] whole [OF j(2) _ stop(2)] j(2) by auto
      next
        case False
        moreover have "?first + length ?ph \<le> cp_nul_pos c"
          using patch_ok_start_end [OF c(2)] c(3,6) by simp
        ultimately show ?thesis using more(3) j(2) by auto
      qed
      then show ?thesis
        using more(1,2) c(2,3) False by (intro exI [of _ "(rank, c) # more"]) auto
    qed
  qed
qed

lemma utf8_occurrences_patched:
  assumes ph: "placeholder \<noteq> []" "0 \<notin> set (as_bytes placeholder)"
    and found: "find_cstring_patches mc source (encoded_prefix_all placeholder target) = Some patches"
    and occ: "occurs_at source (as_bytes placeholder) i"
  shows "\<exists>p \<in> set patches. ep_encoding (cp_prefix p) = OE_Utf8
    \<and> (\<exists>off \<in> set (cp_offsets p). off \<le> i \<and> i < off + length (as_bytes placeholder))"
proof -
  let ?u = "encoded_prefix_of placeholder target OE_Utf8"
  let ?rest = "map (encoded_prefix_of placeholder target) (tl DEFINED)"
  let ?key = "\<lambda>(rank, patch). (rank, cp_start patch)"
  have eps: "encoded_prefix_all placeholder target = ?u # ?rest"
    using ph(1) by (simp add: encoded_prefix_all_eq DEFINED_def)
  have rest: "ep_placeholder ep \<noteq> [] \<and> ep_encoding ep \<noteq> OE_Utf8" if "ep \<in> set ?rest" for ep
    using that ph(1) by (auto simp: DEFINED_def)
  have nonempty: "ep_placeholder ?u \<noteq> []" using ph(1) by simp
  obtain us where us: "search_cstrings mc source ?u 0 [0] [] = Some us"
    "\<forall>(rank, c) \<in> set us. patch_ok source c \<and> cp_prefix c = ?u \<and> rank = 0"
    using search_cstrings_ok [OF nonempty, of 0 source "[0]" "[]"] by auto
  have us_ok: "patches_ok source (map snd us) 0"
    "\<exists>c \<in> snd ` set us. \<exists>off \<in> set (cp_offsets c). off \<le> i \<and> i < off + length (as_bytes placeholder)"
    using search_utf8 [OF nonempty _ _ le0 le0, of source "[]" us] us(1) ph(2) occ by auto
  obtain more where more: "search_prefixes mc source ?rest us = Some (us @ more)"
    "\<forall>(rank, c) \<in> set more. patch_ok source c \<and> cp_prefix c \<in> set ?rest \<and> rank \<noteq> 0"
    using search_prefixes_ok [of ?rest source us] rest by fastforce
  have start: "cp_start c < cp_nul_pos c" if "(rank, c) \<in> set us \<union> set more" for rank c
    using that us(2) more(2) nonempty rest patch_ok_start_less by fastforce
  have "map ?key us = map (\<lambda>rc. (0, cp_start (snd rc))) us"
    using us(2) by auto
  then have "sorted (map ?key us)"
    using sorted_starts [OF us_ok(1)] by (simp add: sorted_map) (erule sorted_wrt_mono_rel [rotated], simp)
  moreover have "\<forall>x \<in> set us. \<forall>y \<in> set more. ?key x \<le> ?key y"
    using us(2) more(2) by fastforce
  ultimately have "sort_key ?key (us @ more) = us @ sort_key ?key more"
    by (rule sort_key_below)
  moreover have "fold keep_candidate us [] = map (\<lambda>rc. (cp_start (snd rc), snd rc)) us"
    using keep_in_order [OF us_ok(1), of "[]"] start by auto
  ultimately have patches: "patches = map snd (fold keep_candidate (sort_key ?key more) (map (\<lambda>rc. (cp_start (snd rc), snd rc)) us))"
    using found us(1) more(1) by (simp add: eps find_cstring_patches_def)
  let ?kept = "map (\<lambda>rc. (cp_start (snd rc), snd rc)) us"
  have "\<forall>(rank, c) \<in> set (sort_key ?key more). patch_ok source c \<and> cp_start c < cp_nul_pos c"
    using more(2) start by auto
  moreover have "kept_ok source ?kept 0"
    unfolding kept_ok_def using us_ok(1) start [OF UnI1] by (auto simp: comp_def)
  ultimately have "set ?kept \<subseteq> set (fold keep_candidate (sort_key ?key more) ?kept)"
    using keep_candidates_ok by blast
  then have "snd ` set ?kept \<subseteq> set patches"
    unfolding patches set_map by (rule image_mono)
  then have kept: "snd ` set us \<subseteq> set patches" by (simp add: image_image)
  obtain c where c: "c \<in> snd ` set us" "\<exists>off \<in> set (cp_offsets c). off \<le> i \<and> i < off + length (as_bytes placeholder)"
    using us_ok(2) by blast
  then have "cp_prefix c = ?u" using us(2) by auto
  with c kept show ?thesis by (intro bexI [of _ c]) auto
qed

end

section \<open>Validated offsets\<close>

lemma validated_stop:
  "Option.bind (checked_add off n) (\<lambda>stop. if stop \<le> limit then Some stop else None) =
     (if off + n < 2 ^ 64 \<and> off + n \<le> limit then Some (off + n) else None)"
  by (simp add: checked_add_def)

lemma slice_is_occurrence: "off + length ph \<le> length source \<Longrightarrow> slice source off (length ph) = ph \<longleftrightarrow> occurs_at source ph off"
  by (simp add: slice_def occurs_at_def)

lemma validate_cstring_offsets_ok:
  "validate_cstring_offsets source ep stop offsets prev = Inr () \<Longrightarrow> stop \<le> length source \<Longrightarrow> offsets \<noteq> [] \<or> prev \<le> stop
     \<Longrightarrow> offsets_ok source (ep_placeholder ep) stop offsets prev"
proof (induction offsets arbitrary: prev)
  case (Cons off offsets)
  let ?stop = "off + length (ep_placeholder ep)"
  have v: "prev \<le> off" "?stop \<le> stop" "slice source off (length (ep_placeholder ep)) = ep_placeholder ep"
    "validate_cstring_offsets source ep stop offsets ?stop = Inr ()"
    using Cons.prems(1) by (auto simp: validated_stop split: if_splits)
  then show ?case
    using Cons.IH [of ?stop] Cons.prems(2) slice_is_occurrence [of off "ep_placeholder ep" source] by auto
qed simp

lemma validate_cstring_patches_ok:
  "validate_cstring_patches_from source ps prev = Inr () \<Longrightarrow> \<forall>p \<in> set ps. cp_offsets p \<noteq> [] \<Longrightarrow> prev \<le> length source
     \<Longrightarrow> patches_ok source ps prev"
proof (induction ps arbitrary: prev)
  case (Cons p ps)
  have v: "cp_nul_pos p \<le> length source"
    "validate_cstring_offsets source (cp_prefix p) (cp_nul_pos p) (cp_offsets p) prev = Inr ()"
    "validate_cstring_patches_from source ps (cp_nul_pos p) = Inr ()"
    using Cons.prems(1) by (auto simp: Let_def split: if_splits sum.splits)
  obtain off offsets where p: "cp_offsets p = off # offsets"
    using Cons.prems(2) by (cases "cp_offsets p") auto
  have "offsets_ok source (ep_placeholder (cp_prefix p)) (cp_nul_pos p) (cp_offsets p) prev"
    using validate_cstring_offsets_ok [OF v(2,1)] p by simp
  then have "patch_ok source p" "prev \<le> cp_start p"
    using v(1) by (simp_all add: patch_ok_def p)
  then show ?case
    using Cons.IH [OF v(3)] Cons.prems(2) v(1) by simp
qed simp

text \<open>Well-formed, terminated patches pass the validation unless an occurrence is misaligned.\<close>

lemma ok_validate_cstring_offsets:
  "offsets_ok source (ep_placeholder ep) stop offsets prev \<Longrightarrow> stop \<le> length source \<Longrightarrow> length source < 2 ^ 64
     \<Longrightarrow> validate_cstring_offsets source ep stop offsets prev = Inr ()
       \<or> (\<exists>off. validate_cstring_offsets source ep stop offsets prev = Inl (IC_MisalignedOffset off stop))"
proof (induction offsets arbitrary: prev)
  case (Cons off offsets)
  let ?stop = "off + length (ep_placeholder ep)"
  have "prev \<le> off" "occurs_at source (ep_placeholder ep) off" "offsets_ok source (ep_placeholder ep) stop offsets ?stop"
    using Cons.prems(1) by simp_all
  moreover from this have "?stop \<le> stop" by (blast dest: offsets_ok_le)
  ultimately show ?case
    using Cons.IH [of ?stop] Cons.prems(2,3) slice_is_occurrence [of off "ep_placeholder ep" source]
    by (auto simp: validated_stop)
qed simp

lemma ok_validate_cstring_patches:
  "patches_ok source ps prev \<Longrightarrow> \<forall>p \<in> set ps. terminated source p \<Longrightarrow> length source < 2 ^ 64
     \<Longrightarrow> validate_cstring_patches_from source ps prev = Inr ()
       \<or> (\<exists>off stop. validate_cstring_patches_from source ps prev = Inl (IC_MisalignedOffset off stop))"
proof (induction ps arbitrary: prev)
  case (Cons p ps)
  let ?ep = "cp_prefix p"
  have p: "patch_ok source p" "prev \<le> cp_start p" "terminated source p"
    using Cons.prems by simp_all
  obtain off offsets where o: "cp_offsets p = off # offsets"
    using p(1) by (cases "cp_offsets p") (auto simp: patch_ok_def)
  have "offsets_ok source (ep_placeholder ?ep) (cp_nul_pos p) (cp_offsets p) prev" "cp_nul_pos p \<le> length source"
    using p(1,2) by (simp_all add: patch_ok_def o)
  then have "validate_cstring_offsets source ?ep (cp_nul_pos p) (cp_offsets p) prev = Inr ()
       \<or> (\<exists>off. validate_cstring_offsets source ?ep (cp_nul_pos p) (cp_offsets p) prev = Inl (IC_MisalignedOffset off (cp_nul_pos p)))"
    using ok_validate_cstring_offsets Cons.prems(3) by blast
  moreover have "\<not> (drop (cp_nul_pos p) source \<noteq> []
       \<and> \<not> (ep_unit ?ep \<le> length (drop (cp_nul_pos p) source) \<and> all_zero (take (ep_unit ?ep) (drop (cp_nul_pos p) source))))"
    using p(3) by (auto simp: terminated_def slice_def)
  moreover have "\<not> length source < cp_nul_pos p"
    using p(1) by (simp add: patch_ok_def)
  ultimately show ?case
    using Cons.IH [of "cp_nul_pos p"] Cons.prems by (auto simp: Let_def)
qed simp

section \<open>Offsets recorded by the same search\<close>

text \<open>The groups a producer records: per encoding, the patches that were found, in order.\<close>

definition recorded_groups :: "('p \<Rightarrow> offset_encoding) \<Rightarrow> ('p list \<Rightarrow> offset_ranges) \<Rightarrow> 'p list \<Rightarrow> offset_group list" where
  "recorded_groups enc ranges ps =
     List.map_filter (\<lambda>e. let qs = filter (\<lambda>p. enc p = e) ps
                          in if qs = [] then None else Some \<lparr>og_encoding = e, og_ranges = ranges qs\<rparr>) DEFINED"

definition cstring_ranges :: "cstring_patch list \<Rightarrow> offset_ranges" where
  "cstring_ranges ps = OR_Binary (map (\<lambda>p. cp_offsets p @ [cp_nul_pos p]) ps)"

abbreviation recorded_cstrings :: "cstring_patch list \<Rightarrow> offset_group list" where
  "recorded_cstrings ps \<equiv> recorded_groups (\<lambda>p. ep_encoding (cp_prefix p)) cstring_ranges ps"

lemma partition_by_encoding: "mset (concat (map (\<lambda>e. filter (\<lambda>p. enc p = e) ps) DEFINED)) = mset ps"
proof (induction ps)
  case (Cons p ps)
  then show ?case by (cases "enc p") (simp_all add: DEFINED_def)
qed (simp add: DEFINED_def)

lemma encoded_prefix_for_all:
  "placeholder \<noteq> [] \<Longrightarrow> encoded_prefix_for (encoded_prefix_all placeholder target) e = Inr (encoded_prefix_of placeholder target e)"
  by (cases e) (simp_all add: encoded_prefix_for_def encoded_prefix_all_eq DEFINED_def)

lemma in_encoded_prefix_all:
  "ep \<in> set (encoded_prefix_all placeholder target) \<Longrightarrow> placeholder \<noteq> [] \<and> ep = encoded_prefix_of placeholder target (ep_encoding ep)"
  by (auto simp: encoded_prefix_all_eq split: if_splits)

lemma cstrings_from_ranges_recorded:
  "\<forall>p \<in> set ps. cp_offsets p \<noteq> [] \<and> cp_prefix p = ep \<Longrightarrow>
     cstrings_from_ranges ep e (map (\<lambda>p. cp_offsets p @ [cp_nul_pos p]) ps) = Inr ps"
  by (induction ps) auto

lemma cstrings_from_recorded:
  assumes "\<forall>p \<in> set ps. cp_offsets p \<noteq> [] \<and> cp_prefix p \<in> set (encoded_prefix_all placeholder target)"
  shows "cstrings_from_groups
      (List.map_filter (\<lambda>e. let qs = filter (\<lambda>p. ep_encoding (cp_prefix p) = e) ps
         in if qs = [] then None else Some \<lparr>og_encoding = e, og_ranges = cstring_ranges qs\<rparr>) es)
      (encoded_prefix_all placeholder target)
    = Inr (concat (map (\<lambda>e. filter (\<lambda>p. ep_encoding (cp_prefix p) = e) ps) es))"
proof (induction es)
  case (Cons e es)
  let ?qs = "filter (\<lambda>p. ep_encoding (cp_prefix p) = e) ps"
  have "\<forall>p \<in> set ?qs. cp_offsets p \<noteq> [] \<and> cp_prefix p = encoded_prefix_of placeholder target e"
    using assms in_encoded_prefix_all by fastforce
  then have "cstrings_from_ranges (encoded_prefix_of placeholder target e) e (map (\<lambda>p. cp_offsets p @ [cp_nul_pos p]) ?qs) = Inr ?qs"
    by (rule cstrings_from_ranges_recorded)
  moreover have "?qs \<noteq> [] \<Longrightarrow> placeholder \<noteq> []"
    using assms in_encoded_prefix_all by (metis filter_empty_conv)
  ultimately show ?case
    using Cons.IH by (simp add: map_filter_simps Let_def cstring_ranges_def encoded_prefix_for_all)
qed (simp add: map_filter_simps)

lemma sort_partition:
  fixes key :: "'p \<Rightarrow> nat"
  assumes "sorted (map key ps)" "distinct (map key ps)"
  shows "sort_key key (concat (map (\<lambda>e. filter (\<lambda>p. enc p = e) ps) DEFINED)) = ps"
proof (rule sort_key_inj_key_eq)
  show "mset (concat (map (\<lambda>e. filter (\<lambda>p. enc p = e) ps) DEFINED)) = mset ps"
    by (rule partition_by_encoding)
  then have "set (concat (map (\<lambda>e. filter (\<lambda>p. enc p = e) ps) DEFINED)) = set ps"
    by (rule mset_eq_setD)
  then show "inj_on key (set (concat (map (\<lambda>e. filter (\<lambda>p. enc p = e) ps) DEFINED)))"
    using assms(2) by (simp add: distinct_map)
qed (fact assms(1))

lemma distinct_starts:
  "patches_ok source ps lo \<Longrightarrow> \<forall>p \<in> set ps. ep_placeholder (cp_prefix p) \<noteq> [] \<Longrightarrow> distinct (map cp_start ps)"
proof (induction ps arbitrary: lo)
  case (Cons p ps)
  have "cp_start p \<noteq> cp_start q" if "q \<in> set ps" for q
    using that Cons.prems patches_ok_in [of source ps "cp_nul_pos p" q] patch_ok_start_less [of source p] by auto
  with Cons show ?case by auto
qed simp

lemma patches_from_recorded:
  assumes "patches_ok source ps 0" "\<forall>p \<in> set ps. cp_prefix p \<in> set (encoded_prefix_all placeholder target)" "ps \<noteq> []"
  shows "cstring_patches_from_groups (recorded_cstrings ps) (encoded_prefix_all placeholder target) = Inr ps"
proof -
  let ?parts = "concat (map (\<lambda>e. filter (\<lambda>p. ep_encoding (cp_prefix p) = e) ps) DEFINED)"
  have "cstrings_from_groups (recorded_cstrings ps) (encoded_prefix_all placeholder target) = Inr ?parts"
    unfolding recorded_groups_def
    by (rule cstrings_from_recorded) (use assms(1,2) patches_ok_in in \<open>fastforce simp: patch_ok_def\<close>)
  moreover have "sort_key cp_start ?parts = ps"
    by (rule sort_partition [OF sorted_starts [OF assms(1)] distinct_starts [OF assms(1)]])
      (use assms(2) encoded_prefix_all_nonempty in blast)
  moreover from this have "?parts \<noteq> []" using assms(3) by (metis sort_key_simps(1))
  ultimately show ?thesis by (simp add: cstring_patches_from_groups_def)
qed

section \<open>The two replacements\<close>

definition cstring_result :: "byte list \<Rightarrow> cstring_patch list \<Rightarrow> (io_error, unit) writer" where
  "cstring_result source patches d =
     (case reject_growing_prefix (map cp_prefix patches) of
        Inl e \<Rightarrow> (Inl e, d)
      | Inr _ \<Rightarrow> (Inr (), d @ cstrings_image source patches 0))"

lemma reject_then_write:
  assumes "patches_ok source patches 0"
  shows "and_then (try_result (reject_growing_prefix (map cp_prefix patches))) (\<lambda>_. write_patched_cstrings source patches) d
    = cstring_result source patches d"
proof (cases "reject_growing_prefix (map cp_prefix patches)")
  case (Inr u)
  then have "\<forall>p \<in> set patches. fits (cp_prefix p)"
    using reject_growing_prefix_iff [of "map cp_prefix patches"] by simp
  with Inr assms show ?thesis
    by (simp add: cstring_result_def and_then_def try_result_def write_patched_cstrings_ok)
qed (simp add: cstring_result_def and_then_def try_result_def)

lemma cstring_result_cases:
  assumes "patches_ok source patches 0"
  shows "(\<exists>p \<in> set patches. \<not> fits (cp_prefix p) \<and> cstring_result source patches d = (Inl (GrowingPrefix (ep_encoding (cp_prefix p))), d))
    \<or> (\<forall>p \<in> set patches. fits (cp_prefix p)) \<and> cstring_result source patches d = (Inr (), d @ cstrings_image source patches 0)
       \<and> length (cstrings_image source patches 0) = length source"
proof (cases "reject_growing_prefix (map cp_prefix patches)")
  case (Inl e)
  then show ?thesis
    using reject_growing_prefix_Inl [OF Inl] by (auto simp: cstring_result_def)
next
  case (Inr u)
  then have "\<forall>p \<in> set patches. fits (cp_prefix p)"
    using reject_growing_prefix_iff [of "map cp_prefix patches"] by simp
  with Inr assms show ?thesis
    by (simp add: cstring_result_def length_cstrings_image)
qed

lemma cstrings_from_ranges_nonempty:
  "cstrings_from_ranges ep e cs = Inr ps \<Longrightarrow> p \<in> set ps \<Longrightarrow> cp_offsets p \<noteq> []"
  by (induction cs arbitrary: ps) (auto split: if_splits sum.splits)

lemma cstrings_from_groups_nonempty:
  "cstrings_from_groups gs eps = Inr ps \<Longrightarrow> p \<in> set ps \<Longrightarrow> cp_offsets p \<noteq> []"
  by (induction gs arbitrary: ps)
    (auto split: sum.splits offset_ranges.splits dest: cstrings_from_ranges_nonempty)

lemma cstring_patches_from_groups_nonempty:
  "cstring_patches_from_groups gs eps = Inr ps \<Longrightarrow> \<forall>p \<in> set ps. cp_offsets p \<noteq> []"
  by (auto simp: cstring_patches_from_groups_def split: sum.splits if_splits dest: cstrings_from_groups_nonempty)

lemma offsets_result:
  "copy_and_replace_cstring_placeholder_offsets source placeholder target groups d =
     (case cstring_patches_from_groups groups (encoded_prefix_all placeholder target) of
        Inl e \<Rightarrow> (Inl (ORE_InconsistentMetadata e), d)
      | Inr patches \<Rightarrow>
          (case validate_cstring_patches source patches of
             Inl e \<Rightarrow> (Inl (ORE_InconsistentMetadata e), d)
           | Inr _ \<Rightarrow> apfst (map_sum ORE_Io id) (cstring_result source patches d)))"
proof (cases "cstring_patches_from_groups groups (encoded_prefix_all placeholder target)")
  case (Inl e)
  then show ?thesis
    by (simp add: copy_and_replace_cstring_placeholder_offsets_def writer_defs Let_def)
next
  case (Inr patches)
  show ?thesis
  proof (cases "validate_cstring_patches source patches")
    case (Inl e)
    with Inr show ?thesis
      by (simp add: copy_and_replace_cstring_placeholder_offsets_def writer_defs Let_def)
  next
    case valid: (Inr u)
    have "patches_ok source patches 0"
      using validate_cstring_patches_ok [OF _ cstring_patches_from_groups_nonempty [OF Inr]] valid
      by (simp add: validate_cstring_patches_def)
    from reject_then_write [OF this, symmetric] Inr valid show ?thesis
      by (simp add: copy_and_replace_cstring_placeholder_offsets_def map_err_def and_then_def try_result_def Let_def
          split: sum.splits prod.splits)
  qed
qed

lemma offsets_outcomes:
  "(\<exists>e. copy_and_replace_cstring_placeholder_offsets source placeholder target groups d = (Inl (ORE_InconsistentMetadata e), d))
   \<or> (\<exists>e. copy_and_replace_cstring_placeholder_offsets source placeholder target groups d = (Inl (ORE_Io (GrowingPrefix e)), d))
   \<or> (\<exists>out. copy_and_replace_cstring_placeholder_offsets source placeholder target groups d = (Inr (), d @ out)
        \<and> length out = length source)"
proof (cases "cstring_patches_from_groups groups (encoded_prefix_all placeholder target)")
  case (Inr patches)
  show ?thesis
  proof (cases "validate_cstring_patches source patches")
    case valid: (Inr u)
    then have "patches_ok source patches 0"
      using validate_cstring_patches_ok [OF _ cstring_patches_from_groups_nonempty [OF Inr]]
      by (simp add: validate_cstring_patches_def)
    from cstring_result_cases [OF this, of d] Inr valid show ?thesis
      by (auto simp: offsets_result)
  qed (simp add: offsets_result Inr)
qed (simp add: offsets_result)

context memchr_laws
begin

lemma search_result:
  obtains patches where
    "find_cstring_patches mc source (encoded_prefix_all placeholder target) = Some patches"
    "patches_ok source patches 0" "\<forall>p \<in> set patches. terminated source p \<and> cp_prefix p \<in> set (encoded_prefix_all placeholder target)"
    "\<And>d. copy_and_replace_cstring_placeholder mc source placeholder target d = Some (cstring_result source patches d)"
proof -
  obtain patches where p: "find_cstring_patches mc source (encoded_prefix_all placeholder target) = Some patches"
    "patches_ok source patches 0" "\<forall>p \<in> set patches. terminated source p \<and> cp_prefix p \<in> set (encoded_prefix_all placeholder target)"
    using find_cstring_patches_ok encoded_prefix_all_nonempty by metis
  then show thesis
    using that by (simp add: copy_and_replace_cstring_placeholder_def reject_then_write)
qed

text \<open>
  The groups that the search records are applied with the same result, unless an occurrence is not a whole
  number of code units before its terminator.
\<close>

lemma recorded_cstrings_agree:
  assumes found: "find_cstring_patches mc source (encoded_prefix_all placeholder target) = Some patches"
    and "patches \<noteq> []" "length source < 2 ^ 64"
  shows "(\<exists>off stop. copy_and_replace_cstring_placeholder_offsets source placeholder target (recorded_cstrings patches) d
        = (Inl (ORE_InconsistentMetadata (IC_MisalignedOffset off stop)), d))
    \<or> (\<exists>r. copy_and_replace_cstring_placeholder mc source placeholder target d = Some r
        \<and> copy_and_replace_cstring_placeholder_offsets source placeholder target (recorded_cstrings patches) d
          = apfst (map_sum ORE_Io id) r)"
proof (rule search_result [of source placeholder target])
  fix patches'
  assume p: "find_cstring_patches mc source (encoded_prefix_all placeholder target) = Some patches'"
    "patches_ok source patches' 0" "\<forall>p \<in> set patches'. terminated source p \<and> cp_prefix p \<in> set (encoded_prefix_all placeholder target)"
    "\<And>d. copy_and_replace_cstring_placeholder mc source placeholder target d = Some (cstring_result source patches' d)"
  then have eq: "patches' = patches" using found by simp
  then have "cstring_patches_from_groups (recorded_cstrings patches) (encoded_prefix_all placeholder target) = Inr patches"
    using patches_from_recorded p(2,3) assms(2) by blast
  moreover have "validate_cstring_patches source patches = Inr ()
      \<or> (\<exists>off stop. validate_cstring_patches source patches = Inl (IC_MisalignedOffset off stop))"
    unfolding validate_cstring_patches_def using ok_validate_cstring_patches p(2,3) eq assms(3) by blast
  ultimately show ?thesis
    using p(4) eq by (auto simp: offsets_result)
qed

end

section \<open>Properties\<close>

definition sample_binary :: "byte list" where
  "sample_binary = ascii_bytes ''x/pfx/lib'' @ [0] @ ascii_bytes ''y''"

lemma sample_binary_replaced:
  "copy_and_replace_cstring_placeholder std_search sample_binary (ascii ''/pfx'') (ascii ''/np'') []
     = Some (Inr (), ascii_bytes ''x/np/lib'' @ [0, 0] @ ascii_bytes ''y'')"
  by code_simp

text \<open>
  C25. The search-based replacement in a binary file always returns. The c-strings it patches are disjoint, in
  order and inside the file. When the target prefix fits under every encoding that occurs, the output has
  the length of the input, every byte outside the patched c-strings is unchanged, and each patched c-string is the
  old one with its occurrences replaced, followed by zeros up to the old end. Otherwise the error names an
  encoding that occurs, and nothing has been written.
\<close>

theorem binary_replacement_contract:
  assumes "memchr_laws mc"
  shows "\<exists>patches. find_cstring_patches mc source (encoded_prefix_all placeholder target) = Some patches
    \<and> patches_ok source patches 0
    \<and> (if \<forall>p \<in> set patches. fits (cp_prefix p)
        then \<exists>out. copy_and_replace_cstring_placeholder mc source placeholder target d = Some (Inr (), d @ out)
          \<and> length out = length source
          \<and> (\<forall>i < length source. (\<forall>p \<in> set patches. i < cp_start p \<or> cp_nul_pos p \<le> i) \<longrightarrow> out ! i = source ! i)
          \<and> (\<forall>p \<in> set patches. slice out (cp_start p) (cp_nul_pos p - cp_start p) = cstring_image source p (cp_start p))
        else \<exists>p \<in> set patches. \<not> fits (cp_prefix p)
          \<and> copy_and_replace_cstring_placeholder mc source placeholder target d
              = Some (Inl (GrowingPrefix (ep_encoding (cp_prefix p))), d))"
proof (rule memchr_laws.search_result [OF assms, of source placeholder target])
  fix patches
  assume p: "find_cstring_patches mc source (encoded_prefix_all placeholder target) = Some patches"
    "patches_ok source patches 0"
    "\<And>d. copy_and_replace_cstring_placeholder mc source placeholder target d = Some (cstring_result source patches d)"
  show ?thesis
  proof (intro exI [of _ patches] conjI p(1,2))
    show "if \<forall>p \<in> set patches. fits (cp_prefix p)
        then \<exists>out. copy_and_replace_cstring_placeholder mc source placeholder target d = Some (Inr (), d @ out)
          \<and> length out = length source
          \<and> (\<forall>i < length source. (\<forall>p \<in> set patches. i < cp_start p \<or> cp_nul_pos p \<le> i) \<longrightarrow> out ! i = source ! i)
          \<and> (\<forall>p \<in> set patches. slice out (cp_start p) (cp_nul_pos p - cp_start p) = cstring_image source p (cp_start p))
        else \<exists>p \<in> set patches. \<not> fits (cp_prefix p)
          \<and> copy_and_replace_cstring_placeholder mc source placeholder target d
              = Some (Inl (GrowingPrefix (ep_encoding (cp_prefix p))), d)"
      using cstring_result_cases [OF p(2), of d] p(3) cstrings_image_outside [OF p(2)]
        cstrings_image_patch [OF p(2)]
      by auto
  qed
qed

theorem binary_replacement_contract_witness:
  "\<exists>patches. find_cstring_patches std_search sample_binary (encoded_prefix_all (ascii ''/pfx'') (ascii ''/np'')) = Some patches
    \<and> patches_ok sample_binary patches 0 \<and> (\<forall>p \<in> set patches. fits (cp_prefix p))
    \<and> length (ascii_bytes ''x/np/lib'' @ [0, 0] @ ascii_bytes ''y'') = length sample_binary"
  using binary_replacement_contract [OF std.memchr_laws_axioms, of sample_binary "ascii ''/pfx''" "ascii ''/np''" "[]"]
  by (auto simp: sample_binary_replaced split: if_splits)

text \<open>
  C27. Every occurrence of the placeholder as UTF-8 text is replaced: when the placeholder is not empty and has no
  NUL, each of its occurrences in the file is, or overlaps, an occurrence that a patch lists, under UTF-8. The
  candidates of the wide encodings never displace it.
\<close>

theorem utf8_occurrences_replaced:
  assumes "memchr_laws mc" "placeholder \<noteq> []" "0 \<notin> set (as_bytes placeholder)"
    and "find_cstring_patches mc source (encoded_prefix_all placeholder target) = Some patches"
    and "occurs_at source (as_bytes placeholder) i"
  shows "\<exists>p \<in> set patches. ep_encoding (cp_prefix p) = OE_Utf8
    \<and> (\<exists>off \<in> set (cp_offsets p). off \<le> i \<and> i < off + length (as_bytes placeholder))"
  using memchr_laws.utf8_occurrences_patched [OF assms] .

theorem utf8_occurrences_replaced_witness:
  "\<exists>patches. find_cstring_patches std_search sample_binary (encoded_prefix_all (ascii ''/pfx'') (ascii ''/np'')) = Some patches
    \<and> (\<exists>p \<in> set patches. ep_encoding (cp_prefix p) = OE_Utf8
        \<and> (\<exists>off \<in> set (cp_offsets p). off \<le> 1 \<and> 1 < off + length (as_bytes (ascii ''/pfx''))))"
proof -
  have "ascii ''/pfx'' \<noteq> []" "0 \<notin> set (as_bytes (ascii ''/pfx''))" "occurs_at sample_binary (as_bytes (ascii ''/pfx'')) 1"
    by code_simp+
  moreover obtain patches where
    "find_cstring_patches std_search sample_binary (encoded_prefix_all (ascii ''/pfx'') (ascii ''/np'')) = Some patches"
    using std.search_result .
  ultimately show ?thesis
    using utf8_occurrences_replaced [OF std.memchr_laws_axioms] by blast
qed

end
