(* ===== verification/Prefix_Text_Properties.thy ===== *)
theory Prefix_Text_Properties
  imports Prefix_Text Prefix_Binary_Properties
begin

text \<open>
  Prefix replacement in text files and its caller: lossy decoding inverts the encoding, the patches
  found are disjoint and in order, the splice agrees with \<open>replace\<close> when only UTF-8 occurs, the
  code never panics, and the offsets that the search records give the bytes of the search.
\<close>

section \<open>Decoding\<close>

lemma unat_to_byte [simp]: "n < 256 \<Longrightarrow> unat (to_byte n) = n"
  by (simp add: to_byte_def unat_of_nat take_bit_eq_mod)

lemma base64_digits:
  fixes c :: nat
  shows "c = c div 4096 * 4096 + c div 64 mod 64 * 64 + c mod 64"
    and "c div 4096 = c div 262144 * 64 + c div 4096 mod 64"
proof -
  have "c div 4096 = c div 64 div 64" "c div 262144 = c div 4096 div 64" by (simp_all flip: div_mult2_eq)
  then show "c = c div 4096 * 4096 + c div 64 mod 64 * 64 + c mod 64" "c div 4096 = c div 262144 * 64 + c div 4096 mod 64"
    using div_mult_mod_eq [of c 64] div_mult_mod_eq [of "c div 64" 64] div_mult_mod_eq [of "c div 4096" 64] by linarith+
qed

lemma decode_three:
  assumes "second_of_three (0xE0 + a) (0x80 + b)" "a < 16" "b < 64" "d < 64"
  shows "decode_lossy ((0xE0 + a) # (0x80 + b) # (0x80 + d) # rest) = (a * 4096 + b * 64 + d) # decode_lossy rest"
  using assms by (simp add: decode_char_def Let_def numeral_2_eq_2)

lemma decode_four:
  assumes "second_of_four (0xF0 + e) (0x80 + a)" "e < 5" "a < 64" "b < 64" "d < 64"
  shows "decode_lossy ((0xF0 + e) # (0x80 + a) # (0x80 + b) # (0x80 + d) # rest)
    = (e * 262144 + a * 4096 + b * 64 + d) # decode_lossy rest"
  using assms by (simp add: decode_char_def Let_def numeral_2_eq_2 numeral_3_eq_3)

lemma utf8_three: "0x800 \<le> c \<Longrightarrow> c < 0x10000 \<Longrightarrow> is_scalar c \<Longrightarrow> decode_lossy (map unat (utf8_char c) @ rest) = c # decode_lossy rest"
proof -
  assume c: "0x800 \<le> c" "c < 0x10000" "is_scalar c"
  define a b d where abd: "a = c div 4096" "b = c div 64 mod 64" "d = c mod 64"
  have eq: "c = a * 4096 + b * 64 + d" unfolding abd by (rule base64_digits)
  have lt: "d < 64" "b < 64" "a < 16" using c(2) by (auto simp: abd)
  have "a = 0 \<Longrightarrow> 32 \<le> b" "a = 13 \<Longrightarrow> b < 32" using c eq lt unfolding is_scalar_def by linarith+
  then have "second_of_three (0xE0 + a) (0x80 + b)" using lt(2,3) unfolding second_of_three_def by linarith
  moreover have "map unat (utf8_char c) = [0xE0 + a, 0x80 + b, 0x80 + d]"
    using c lt by (simp add: utf8_char_def flip: abd)
  ultimately show ?thesis using lt decode_three [of a b d rest] by (simp flip: eq)
qed

lemma utf8_four: "0x10000 \<le> c \<Longrightarrow> c < 0x110000 \<Longrightarrow> decode_lossy (map unat (utf8_char c) @ rest) = c # decode_lossy rest"
proof -
  assume c: "0x10000 \<le> c" "c < 0x110000"
  define e a b d where abd: "e = c div 262144" "a = c div 4096 mod 64" "b = c div 64 mod 64" "d = c mod 64"
  have eq: "c = e * 262144 + a * 4096 + b * 64 + d" unfolding abd using base64_digits [of c] by linarith
  have lt: "d < 64" "b < 64" "a < 64" "e < 5" using c by (auto simp: abd)
  have "e = 0 \<Longrightarrow> 16 \<le> a" "e = 4 \<Longrightarrow> a < 16" using c eq lt by linarith+
  then have "second_of_four (0xF0 + e) (0x80 + a)" using lt(3,4) unfolding second_of_four_def by linarith
  moreover have "map unat (utf8_char c) = [0xF0 + e, 0x80 + a, 0x80 + b, 0x80 + d]"
    using c lt by (simp add: utf8_char_def flip: abd)
  ultimately show ?thesis using lt decode_four [of e a b d rest] by (simp flip: eq)
qed
lemma utf8_one: "c < 0x80 \<Longrightarrow> decode_lossy (map unat (utf8_char c) @ rest) = c # decode_lossy rest"
  by (simp add: utf8_char_def decode_char_def)

lemma utf8_two:
  assumes "0x80 \<le> c" "c < 0x800"
  shows "decode_lossy (map unat (utf8_char c) @ rest) = c # decode_lossy rest"
proof -
  define a b where "a = c div 64" and "b = c mod 64"
  have "c = a * 64 + b" "b < 64" "2 \<le> a" "a < 32"
    using assms by (auto simp: a_def b_def)
  then show ?thesis
    using assms unfolding utf8_char_def decode_lossy.simps by (simp add: decode_char_def flip: a_def b_def)
qed

lemma decode_lossy_utf8_char:
  assumes "is_scalar c"
  shows "decode_lossy (map unat (utf8_char c) @ rest) = c # decode_lossy rest"
proof -
  have "c < 0x110000" using assms by (auto simp: is_scalar_def)
  then consider "c < 0x80" | "0x80 \<le> c" "c < 0x800" | "0x800 \<le> c" "c < 0x10000" | "0x10000 \<le> c" "c < 0x110000"
    by linarith
  then show ?thesis
    using assms by cases (simp_all only: utf8_one utf8_two utf8_three utf8_four)
qed

lemma from_utf8_lossy_append: "is_text t \<Longrightarrow> from_utf8_lossy (as_bytes t @ bs) = t @ from_utf8_lossy bs"
  by (induction t) (simp_all add: from_utf8_lossy_def as_bytes_def decode_lossy_utf8_char)

lemma from_utf8_lossy_as_bytes: "is_text t \<Longrightarrow> from_utf8_lossy (as_bytes t) = t"
  using from_utf8_lossy_append [of t "[]"] by (simp add: from_utf8_lossy_def)

lemma from_utf8_lossy_shebang:
  assumes "take 2 bs = ascii_bytes ''#!''"
  shows "starts_with_shebang (from_utf8_lossy bs)"
proof -
  have "as_bytes (ascii ''#!'') = ascii_bytes ''#!''" "is_text (ascii ''#!'')" "length (ascii ''#!'') = 2"
    by code_simp+
  then have "from_utf8_lossy bs = ascii ''#!'' @ from_utf8_lossy (drop 2 bs)"
    using from_utf8_lossy_append [of "ascii ''#!''" "drop 2 bs"] assms append_take_drop_id [of 2 bs] by simp
  then show ?thesis by (simp add: \<open>length (ascii ''#!'') = 2\<close>)
qed

section \<open>Text patches\<close>

fun texts_ok :: "byte list \<Rightarrow> text_patch list \<Rightarrow> nat \<Rightarrow> bool" where
  "texts_ok source [] lo \<longleftrightarrow> lo \<le> length source"
| "texts_ok source (p # ps) lo \<longleftrightarrow>
     lo \<le> tp_offset p \<and> occurs_at source (ep_placeholder (tp_prefix p)) (tp_offset p) \<and> texts_ok source ps (tp_end p)"

fun text_image :: "byte list \<Rightarrow> text_patch list \<Rightarrow> nat \<Rightarrow> byte list" where
  "text_image source [] pos = drop pos source"
| "text_image source (p # ps) pos =
     slice source pos (tp_offset p - pos) @ ep_target (tp_prefix p) @ text_image source ps (tp_end p)"

lemma texts_ok_le: "texts_ok source ps lo \<Longrightarrow> lo \<le> length source"
  by (cases ps) (auto dest: occurs_at_bound)

lemma write_text_patches_ok:
  "texts_ok source ps pos \<Longrightarrow> \<exists>pos' bytes. write_text_patches source ps pos d = (Inr pos', d @ bytes)
     \<and> bytes @ drop pos' source = text_image source ps pos"
proof (induction ps arbitrary: pos d)
  case (Cons p ps)
  let ?d = "(d @ slice source pos (tp_offset p - pos)) @ ep_target (tp_prefix p)"
  have "tp_offset p \<le> length source" "pos \<le> tp_offset p"
    using Cons.prems by (auto dest: occurs_at_bound)
  then have "write_text_patches source (p # ps) pos d = write_text_patches source ps (tp_end p) ?d"
    by (simp add: and_then_def range_write write_all_def)
  with Cons.IH [of "tp_end p" ?d] Cons.prems show ?case by auto
qed (simp add: writer_defs)

lemma write_patched_text_ok:
  assumes "texts_ok source ps pos"
  shows "write_patched_text source pos ps d = (Inr (), d @ text_image source ps pos)"
proof -
  obtain pos' bytes where "write_text_patches source ps pos d = (Inr pos', d @ bytes)"
    "bytes @ drop pos' source = text_image source ps pos"
    using write_text_patches_ok [OF assms] by blast
  then show ?thesis
    by (auto simp: write_patched_text_def writer_defs)
qed

subsection \<open>The search\<close>

definition texts_end :: "text_patch list \<Rightarrow> nat \<Rightarrow> nat" where
  "texts_end ps lo = (if ps = [] then lo else tp_end (last ps))"

lemma texts_ok_snoc:
  "texts_ok source (ps @ [p]) lo \<longleftrightarrow>
     texts_ok source ps lo \<and> texts_end ps lo \<le> tp_offset p \<and> occurs_at source (ep_placeholder (tp_prefix p)) (tp_offset p)"
  by (induction ps arbitrary: lo) (auto simp: texts_end_def dest: occurs_at_bound)

lemma keep_text_ok:
  assumes "texts_ok source ps 0" "occurs_at source (ep_placeholder (tp_prefix c)) (tp_offset c)"
    and "ps \<noteq> [] \<Longrightarrow> tp_offset (last ps) \<le> tp_offset c"
  shows "texts_ok source (keep_text c ps) 0" "keep_text c ps \<noteq> []" "tp_offset (last (keep_text c ps)) \<le> tp_offset c"
    "set (keep_text c ps) \<subseteq> insert c (set ps)"
proof -
  show "texts_ok source (keep_text c ps) 0"
  proof (cases "ps \<noteq> [] \<and> tp_offset c < tp_end (last ps)")
    case True
    then obtain qs p where ps: "ps = qs @ [p]" by (cases ps rule: rev_cases) auto
    with assms(1,3) have "texts_ok source qs 0" "texts_end qs 0 \<le> tp_offset c"
      by (auto simp: texts_ok_snoc)
    then show ?thesis
      using assms(1,2) True by (simp add: keep_text_def ps texts_ok_snoc)
  next
    case False
    then show ?thesis
      using assms(1,2) by (auto simp: keep_text_def texts_ok_snoc texts_end_def)
  qed
  show "set (keep_text c ps) \<subseteq> insert c (set ps)"
    by (auto simp: keep_text_def dest: in_set_butlastD)
qed (use assms(3) in \<open>auto simp: keep_text_def\<close>)

lemma keep_texts_ok:
  "sorted (map tp_offset cs) \<Longrightarrow> \<forall>c \<in> set cs. occurs_at source (ep_placeholder (tp_prefix c)) (tp_offset c)
     \<Longrightarrow> texts_ok source ps 0 \<Longrightarrow> ps \<noteq> [] \<longrightarrow> (\<forall>c \<in> set cs. tp_offset (last ps) \<le> tp_offset c)
     \<Longrightarrow> texts_ok source (fold keep_text cs ps) 0 \<and> set (fold keep_text cs ps) \<subseteq> set cs \<union> set ps"
proof (induction cs arbitrary: ps)
  case (Cons c cs)
  have c: "occurs_at source (ep_placeholder (tp_prefix c)) (tp_offset c)" "ps \<noteq> [] \<Longrightarrow> tp_offset (last ps) \<le> tp_offset c"
    using Cons.prems(2,4) by auto
  note keep = keep_text_ok [OF Cons.prems(3) c]
  have "\<forall>c' \<in> set cs. tp_offset (last (keep_text c ps)) \<le> tp_offset c'"
    using Cons.prems(1) keep(3) by (auto intro: order.trans)
  with Cons.IH [of "keep_text c ps"] Cons.prems(1,2) keep show ?case by fastforce
qed simp

lemma texts_ok_weaken: "texts_ok source ps lo \<Longrightarrow> lo' \<le> lo \<Longrightarrow> texts_ok source ps lo'"
  by (cases ps) auto

lemma texts_ok_filter: "texts_ok source ps lo \<Longrightarrow> texts_ok source (filter P ps) lo"
proof (induction ps arbitrary: lo)
  case (Cons p ps)
  then have "texts_ok source (filter P ps) (tp_end p)" by simp
  with Cons.prems show ?case by (auto intro: texts_ok_weaken)
qed simp

lemma texts_ok_from: "texts_ok source ps lo \<Longrightarrow> \<forall>p \<in> set ps. start \<le> tp_offset p \<Longrightarrow> start \<le> length source \<Longrightarrow> texts_ok source ps start"
  by (cases ps) auto

lemma matches_from_occur: "off \<in> set (matches_from h n k) \<Longrightarrow> k \<le> length h \<Longrightarrow> k \<le> off \<and> occurs_at h n off"
proof (induction h n k rule: matches_from.induct)
  case (1 h n k)
  show ?case
  proof (cases "n = [] \<or> str_find (drop k h) n = None")
    case True
    then show ?thesis using 1(2) by (subst (asm) matches_from.simps) (auto split: if_splits)
  next
    case False
    then obtain i where i: "n \<noteq> []" "str_find (drop k h) n = Some i" by auto
    then have occ: "occurs_at h n (k + i)" using 1(3) by (simp add: str_find_Some_iff occurs_at_drop)
    have "matches_from h n k = (k + i) # matches_from h n (k + i + length n)"
      using i by (subst matches_from.simps) simp
    then show ?thesis
      using 1(1) [OF i(1) i(2)] 1(2) occ occurs_at_bound [OF occ] by auto
  qed
qed

context memchr_laws
begin

lemma find_text_patches_ok:
  assumes "\<forall>ep \<in> set eps. ep_placeholder ep \<noteq> []" "start \<le> length source"
  shows "texts_ok source (find_text_patches mc source start eps) start"
    and "\<forall>p \<in> set (find_text_patches mc source start eps). start \<le> tp_offset p \<and> tp_prefix p \<in> set eps"
proof -
  let ?cs = "concat (map (\<lambda>ep. map (\<lambda>off. \<lparr>tp_offset = off, tp_prefix = ep\<rparr>) (mc_find_iter mc source (ep_placeholder ep))) eps)"
  let ?ps = "fold keep_text (sort_key tp_offset ?cs) []"
  have "tp_prefix c \<in> set eps \<and> occurs_at source (ep_placeholder (tp_prefix c)) (tp_offset c)" if c_in: "c \<in> set ?cs" for c
  proof -
    obtain ep off where c: "ep \<in> set eps" "off \<in> set (mc_find_iter mc source (ep_placeholder ep))"
      "c = \<lparr>tp_offset = off, tp_prefix = ep\<rparr>"
      using c_in by auto
    then have "off \<in> set (matches_from source (ep_placeholder ep) 0)"
      using assms(1) by (simp add: find_iter match_indices_def)
    with c show ?thesis using matches_from_occur by auto
  qed
  moreover have "set (sort_key tp_offset ?cs) = set ?cs" by simp
  ultimately have "texts_ok source ?ps 0" "\<forall>p \<in> set ?ps. tp_prefix p \<in> set eps"
    using keep_texts_ok [of "sort_key tp_offset ?cs" source "[]"] sorted_sort_key [of tp_offset ?cs] by auto
  then show "texts_ok source (find_text_patches mc source start eps) start"
    "\<forall>p \<in> set (find_text_patches mc source start eps). start \<le> tp_offset p \<and> tp_prefix p \<in> set eps"
    unfolding find_text_patches_def Let_def using assms(2)
    by (simp_all add: texts_ok_from [OF texts_ok_filter])
qed

end

subsection \<open>Agreement with replace\<close>

abbreviation text_patches_at :: "encoded_prefix \<Rightarrow> nat list \<Rightarrow> text_patch list" where
  "text_patches_at ep offs \<equiv> map (\<lambda>off. \<lparr>tp_offset = off, tp_prefix = ep\<rparr>) offs"

lemma matches_from_step:
  assumes "n \<noteq> []" "k \<le> length h"
  obtains "str_find (drop k h) n = None" "matches_from h n k = []"
  | i where "str_find (drop k h) n = Some i" "matches_from h n k = (k + i) # matches_from h n (k + i + length n)"
      "k + i + length n \<le> length h"
proof (cases "str_find (drop k h) n")
  case None
  moreover have "matches_from h n k = []"
    using None by (subst matches_from.simps) simp
  ultimately show thesis by (rule that(1))
next
  case (Some i)
  then have "k + i + length n \<le> length h"
    using occurs_at_bound [of "drop k h" n i] assms(2) by (simp add: str_find_Some_iff)
  moreover have "matches_from h n k = (k + i) # matches_from h n (k + i + length n)"
    using Some assms(1) by (subst matches_from.simps) simp
  ultimately show thesis using that(2) Some by blast
qed

lemma text_image_replace:
  "n \<noteq> [] \<Longrightarrow> ep_placeholder ep = n \<Longrightarrow> k \<le> length h
     \<Longrightarrow> text_image h (text_patches_at ep (matches_from h n k)) k = str_replace (drop k h) n (ep_target ep)"
proof (induction "length h - k" arbitrary: k rule: less_induct)
  case less
  from less.prems(1,3) show ?case
  proof (cases rule: matches_from_step)
    case 1
    then show ?thesis using less.prems(1) by (subst str_replace.simps) simp
  next
    case (2 i)
    then have "length h - (k + i + length n) < length h - k"
      using less.prems(1,3) by (cases n) auto
    from less(1) [OF this less.prems(1,2) 2(3)] show ?thesis
      using 2 less.prems(1,2)
      by (subst str_replace.simps) (simp add: slice_def add.commute add.left_commute)
  qed
qed

lemma texts_ok_appendD: "texts_ok source (ps @ cs) lo \<Longrightarrow> texts_ok source ps lo"
  by (induction ps arbitrary: lo) (auto dest: texts_ok_le)

lemma keep_text_in_order:
  "texts_ok source (ps @ cs) 0 \<Longrightarrow> fold keep_text cs ps = ps @ cs"
proof (induction cs arbitrary: ps)
  case (Cons c cs)
  have "texts_ok source ((ps @ [c]) @ cs) 0" using Cons.prems by simp
  moreover from this have "texts_ok source (ps @ [c]) 0"
    by (rule texts_ok_appendD)
  ultimately show ?case
    using Cons.IH [of "ps @ [c]"] by (auto simp: keep_text_def texts_ok_snoc texts_end_def)
qed simp

lemma texts_ok_matches:
  "n \<noteq> [] \<Longrightarrow> ep_placeholder ep = n \<Longrightarrow> k \<le> length h \<Longrightarrow> texts_ok h (text_patches_at ep (matches_from h n k)) k"
proof (induction "length h - k" arbitrary: k rule: less_induct)
  case less
  from less.prems(1,3) show ?case
  proof (cases rule: matches_from_step)
    case (2 i)
    then have "length h - (k + i + length n) < length h - k"
      using less.prems(1,3) by (cases n) auto
    from less(1) [OF this less.prems(1,2) 2(3)] show ?thesis
      using 2 less.prems by (simp add: str_find_Some_iff occurs_at_drop)
  qed (use less.prems in simp)
qed

lemma sorted_offsets: "texts_ok source ps lo \<Longrightarrow> sorted (map tp_offset ps) \<and> (\<forall>p \<in> set ps. lo \<le> tp_offset p)"
proof (induction ps arbitrary: lo)
  case (Cons p ps)
  have "sorted (map tp_offset ps)" "\<forall>q \<in> set ps. tp_end p \<le> tp_offset q"
    using Cons.IH [of "tp_end p"] Cons.prems by simp_all
  with Cons.prems show ?case by fastforce
qed simp

lemma distinct_offsets:
  "texts_ok source ps lo \<Longrightarrow> \<forall>p \<in> set ps. ep_placeholder (tp_prefix p) \<noteq> [] \<Longrightarrow> distinct (map tp_offset ps)"
proof (induction ps arbitrary: lo)
  case (Cons p ps)
  have "tp_offset p < tp_end p" using Cons.prems(2) by simp
  then have "tp_offset p \<noteq> tp_offset q" if "q \<in> set ps" for q
    using that Cons.prems(1) sorted_offsets [of source ps "tp_end p"] by fastforce
  with Cons show ?case by auto
qed simp

context memchr_laws
begin

lemma find_text_patches_utf8:
  assumes "placeholder \<noteq> []" "\<forall>e i. e \<noteq> OE_Utf8 \<longrightarrow> \<not> occurs_at source (encode e placeholder) i"
  shows "find_text_patches mc source 0 (encoded_prefix_all placeholder target)
    = text_patches_at (encoded_prefix_of placeholder target OE_Utf8) (match_indices source (as_bytes placeholder))"
proof -
  let ?u = "encoded_prefix_of placeholder target OE_Utf8"
  have none: "match_indices source (encode e placeholder) = []" if "e \<noteq> OE_Utf8" for e
    using assms that unfolding match_indices_def
    by (subst matches_from.simps) (simp add: str_find_None_iff [symmetric])
  have ok: "texts_ok source (text_patches_at ?u (match_indices source (as_bytes placeholder))) 0"
    unfolding match_indices_def using texts_ok_matches [of "as_bytes placeholder" ?u 0 source] assms(1) by simp
  have "concat (map (\<lambda>ep. text_patches_at ep (mc_find_iter mc source (ep_placeholder ep))) (encoded_prefix_all placeholder target))
    = text_patches_at ?u (match_indices source (as_bytes placeholder))"
    using assms(1) by (simp add: encoded_prefix_all_eq DEFINED_def find_iter none)
  then show ?thesis
    using sorted_offsets [OF ok] keep_text_in_order [of source "[]"] ok
    by (simp add: find_text_patches_def Let_def sort_key_id_if_sorted)
qed

end

section \<open>Recorded offsets\<close>

lemma validate_texts_ok:
  "validate_text_patches_from source ps region prev = Inr () \<Longrightarrow> prev \<le> length source \<Longrightarrow> texts_ok source ps prev"
proof (induction ps arbitrary: prev)
  case (Cons p ps)
  let ?ph = "ep_placeholder (tp_prefix p)"
  have "prev \<le> tp_offset p" "tp_end p \<le> length source" "slice source (tp_offset p) (length ?ph) = ?ph"
    "validate_text_patches_from source ps region (tp_end p) = Inr ()"
    using Cons.prems(1) by (auto simp: Let_def validated_stop split: if_splits)
  then show ?case
    using Cons.IH slice_is_occurrence [of "tp_offset p" ?ph source] by simp
qed simp

lemma ok_validate_texts:
  "texts_ok source ps prev \<Longrightarrow> \<forall>p \<in> set ps. region \<le> tp_offset p \<Longrightarrow> length source < 2 ^ 64
     \<Longrightarrow> validate_text_patches_from source ps region prev = Inr ()"
proof (induction ps arbitrary: prev)
  case (Cons p ps)
  let ?ph = "ep_placeholder (tp_prefix p)"
  have "tp_end p \<le> length source" using Cons.prems(1) by (simp add: occurs_at_bound)
  then have "slice source (tp_offset p) (length ?ph) = ?ph" "tp_end p < 2 ^ 64" "prev \<le> tp_offset p"
    using Cons.prems slice_is_occurrence [of "tp_offset p" ?ph source] by simp_all
  then show ?case
    using Cons \<open>tp_end p \<le> length source\<close> by (simp add: Let_def validated_stop not_less)
qed simp

definition text_ranges :: "text_patch list \<Rightarrow> offset_ranges" where
  "text_ranges ps = OR_Text (map tp_offset ps)"

abbreviation recorded_texts :: "text_patch list \<Rightarrow> offset_group list" where
  "recorded_texts ps \<equiv> recorded_groups (\<lambda>p. ep_encoding (tp_prefix p)) text_ranges ps"

lemma texts_from_recorded:
  assumes "\<forall>p \<in> set ps. tp_prefix p \<in> set (encoded_prefix_all placeholder target)"
  shows "texts_from_groups
      (List.map_filter (\<lambda>e. let qs = filter (\<lambda>p. ep_encoding (tp_prefix p) = e) ps
         in if qs = [] then None else Some \<lparr>og_encoding = e, og_ranges = text_ranges qs\<rparr>) es)
      (encoded_prefix_all placeholder target)
    = Inr (concat (map (\<lambda>e. filter (\<lambda>p. ep_encoding (tp_prefix p) = e) ps) es))"
proof (induction es)
  case (Cons e es)
  let ?qs = "filter (\<lambda>p. ep_encoding (tp_prefix p) = e) ps"
  have prefix: "\<forall>p \<in> set ?qs. tp_prefix p = encoded_prefix_of placeholder target e"
    using assms in_encoded_prefix_all by fastforce
  then have "map (\<lambda>p. \<lparr>tp_offset = tp_offset p, tp_prefix = encoded_prefix_of placeholder target e\<rparr>) ?qs = ?qs"
    by (intro map_idI) (metis text_patch.surjective old.unit.exhaust)
  moreover have "?qs \<noteq> [] \<Longrightarrow> placeholder \<noteq> []"
    using assms in_encoded_prefix_all by (metis filter_empty_conv)
  ultimately show ?case
    using Cons.IH by (simp add: map_filter_simps Let_def text_ranges_def encoded_prefix_for_all comp_def)
qed (simp add: map_filter_simps)

lemma text_patches_from_recorded:
  assumes "texts_ok source ps lo" "\<forall>p \<in> set ps. tp_prefix p \<in> set (encoded_prefix_all placeholder target)"
  shows "text_patches_from_groups (recorded_texts ps) (encoded_prefix_all placeholder target) = Inr ps"
proof -
  have "\<forall>p \<in> set ps. ep_placeholder (tp_prefix p) \<noteq> []"
    using assms(2) encoded_prefix_all_nonempty by blast
  with sort_partition [of tp_offset ps] sorted_offsets [OF assms(1)] distinct_offsets [OF assms(1)]
  show ?thesis
    by (simp add: text_patches_from_groups_def recorded_groups_def texts_from_recorded [OF assms(2)])
qed

section \<open>The shebang region\<close>

text \<open>A region is empty, or a first line that starts with \<open>#!\<close>.\<close>

definition region_ok :: "byte list \<Rightarrow> nat \<Rightarrow> bool" where
  "region_ok source n \<longleftrightarrow> n = 0
     \<or> n \<le> length source \<and> take 2 source = ascii_bytes ''#!'' \<and> (if source ! (n - 1) = 10 then 3 \<le> n else 2 \<le> n)"

lemma shebang_bytes: "ascii_bytes ''#!'' = [35, 33]"
  by (simp add: ascii_bytes_def to_byte_def)

lemma shebang_first:
  assumes "take 2 source = ascii_bytes ''#!''"
  shows "2 \<le> length source" "i < 2 \<Longrightarrow> source ! i \<noteq> (10 :: byte)"
proof -
  obtain rest where "source = [35, 33] @ rest"
    using assms by (metis append_take_drop_id shebang_bytes)
  then show "2 \<le> length source" "i < 2 \<Longrightarrow> source ! i \<noteq> (10 :: byte)"
    by (auto simp: less_2_cases_iff)
qed

lemma region_ok_first_line:
  assumes "take 2 source = ascii_bytes ''#!''"
    and "(\<exists>i. n = i + 1 \<and> i < length source \<and> source ! i = 10) \<or> n = length source \<and> 10 \<notin> set source"
  shows "region_ok source n \<and> n \<noteq> 0"
  using assms(2)
proof (elim disjE exE conjE)
  fix i assume "n = i + 1" "i < length source" "source ! i = 10"
  moreover from this have "2 \<le> i" using shebang_first(2) [OF assms(1), of i] by force
  ultimately show "region_ok source n \<and> n \<noteq> 0" using assms(1) by (simp add: region_ok_def)
next
  assume n: "n = length source" "10 \<notin> set source"
  moreover have "source ! (n - 1) \<noteq> 10" using n shebang_first(1) [OF assms(1)] by (auto simp: in_set_conv_nth)
  ultimately show "region_ok source n \<and> n \<noteq> 0"
    using assms(1) shebang_first(1) [OF assms(1)] by (auto simp: region_ok_def)
qed

lemma position_None_iff: "position b h = None \<longleftrightarrow> b \<notin> set h"
  by (induction h) auto

lemma shebang_region_end_ok: "region_ok source (shebang_region_end source platform)"
proof (cases "is_unix platform \<and> take 2 source = ascii_bytes ''#!''")
  case True
  then show ?thesis
    using region_ok_first_line [of source "shebang_region_end source platform"]
    by (auto simp: shebang_region_end_def position_None_iff position_Some_iff split: option.splits)
next
  case False
  then show ?thesis by (auto simp: shebang_region_end_def region_ok_def)
qed

lemma replace_shebang_returns: "starts_with_shebang s \<Longrightarrow> \<exists>r. replace_shebang rx s old_new platform = Some r"
  by (simp add: replace_shebang_def Let_def)

context memchr_laws
begin

lemma validated_region_ok:
  assumes "validated_shebang_region_end mc source sl = Inr n"
  shows "region_ok source n"
proof (cases "take 2 source = ascii_bytes ''#!''")
  case False
  with assms show ?thesis by (simp add: validated_shebang_region_end_def region_ok_def split: option.splits)
next
  case True
  then have n: "n \<le> length source" "case mc_memchr mc 10 (take n source) of Some i \<Rightarrow> i + 1 = n | None \<Rightarrow> n = length source"
    using assms by (auto simp: validated_shebang_region_end_def Let_def split: option.splits if_splits)
  then have "(\<exists>i. n = i + 1 \<and> i < length source \<and> source ! i = 10) \<or> n = length source \<and> 10 \<notin> set source"
    by (auto simp: memchr memchr_None split: option.splits)
  with True show ?thesis using region_ok_first_line by blast
qed

lemma write_shebang_region_returns:
  assumes "region_ok source n"
  shows "\<exists>bytes. \<forall>d. write_shebang_region mc rx source n placeholder target platform (encoded_prefix_all placeholder target) d
    = Some (Inr (), d @ bytes)"
proof (cases "n = 0 \<or> encoded_prefix_all placeholder target = []")
  case True
  with assms show ?thesis
    by (intro exI [of _ "take n source"]) (auto simp: write_shebang_region_def region_ok_def write_all_def)
next
  case False
  then have r: "n \<le> length source" "take 2 source = ascii_bytes ''#!''" "if source ! (n - 1) = 10 then 3 \<le> n else 2 \<le> n"
    using assms by (auto simp: region_ok_def)
  show ?thesis
  proof (cases "is_unix platform")
    case True
    let ?line = "if source ! (n - 1) = 10 then n - 1 else n"
    have "take 2 (take ?line source) = ascii_bytes ''#!''"
      using r by (auto simp: min_def split: if_splits)
    then obtain s where "replace_shebang rx (from_utf8_lossy (take ?line source)) (placeholder, target) platform = Some s"
      using replace_shebang_returns from_utf8_lossy_shebang by blast
    then show ?thesis
      using False True r(1) by (auto simp: write_shebang_region_def Let_def writer_defs)
  next
    case False': False
    have "texts_ok (take n source) (find_text_patches mc (take n source) 0 (encoded_prefix_all placeholder target)) 0"
      using find_text_patches_ok(1) encoded_prefix_all_nonempty by blast
    from write_patched_text_ok [OF this] show ?thesis
      using False False' r(1) by (auto simp: write_shebang_region_def Let_def)
  qed
qed

end

section \<open>The two replacements\<close>

text \<open>What the two entry points return.\<close>

definition replaced_ok :: "byte list \<Rightarrow> file_mode \<Rightarrow> byte list \<Rightarrow> ((io_error + unit) \<times> byte list) option \<Rightarrow> bool" where
  "replaced_ok source file_mode d r \<longleftrightarrow>
     (\<exists>out. r = Some (Inr (), d @ out) \<and> (file_mode = FM_Binary \<longrightarrow> length out = length source))
     \<or> file_mode = FM_Binary \<and> (\<exists>e. r = Some (Inl (GrowingPrefix e), d))"

context memchr_laws
begin

lemma textual_body_ok:
  assumes "region_ok source n"
  shows "texts_ok source (find_text_patches mc source n (encoded_prefix_all placeholder target)) n"
    and "\<forall>p \<in> set (find_text_patches mc source n (encoded_prefix_all placeholder target)).
      n \<le> tp_offset p \<and> tp_prefix p \<in> set (encoded_prefix_all placeholder target)"
proof -
  have "n \<le> length source" using assms by (auto simp: region_ok_def)
  then show "texts_ok source (find_text_patches mc source n (encoded_prefix_all placeholder target)) n"
    "\<forall>p \<in> set (find_text_patches mc source n (encoded_prefix_all placeholder target)).
      n \<le> tp_offset p \<and> tp_prefix p \<in> set (encoded_prefix_all placeholder target)"
    using find_text_patches_ok encoded_prefix_all_nonempty by blast+
qed

lemma region_then_body:
  assumes "region_ok source n" "texts_ok source ps n"
  shows "\<exists>region. \<forall>d. partial_then
      (write_shebang_region mc rx source n placeholder target platform (encoded_prefix_all placeholder target))
      (\<lambda>_. write_patched_text source n ps) d = Some (Inr (), d @ region @ text_image source ps n)"
  using write_shebang_region_returns [OF assms(1), of rx placeholder target platform]
  by (auto simp: partial_then_def write_patched_text_ok [OF assms(2)])

lemma textual_search_returns:
  "\<exists>out. \<forall>d. copy_and_replace_textual_placeholder mc rx source placeholder target platform d = Some (Inr (), d @ out)"
  using region_then_body [OF shebang_region_end_ok [of source platform]
      textual_body_ok(1) [OF shebang_region_end_ok [of source platform], of placeholder target],
      of rx placeholder target platform]
  by (auto simp: copy_and_replace_textual_placeholder_def Let_def)

lemma textual_offsets_returns:
  "(\<exists>e. copy_and_replace_textual_placeholder_offsets mc rx source placeholder target platform groups sl d
      = Some (Inl (ORE_InconsistentMetadata e), d))
   \<or> (\<exists>out. copy_and_replace_textual_placeholder_offsets mc rx source placeholder target platform groups sl d
      = Some (Inr (), d @ out))"
proof (cases "validated_shebang_region_end mc source sl")
  case region: (Inr n)
  then have n: "region_ok source n" by (rule validated_region_ok)
  show ?thesis
  proof (cases "text_patches_from_groups groups (encoded_prefix_all placeholder target)")
    case groups: (Inr ps)
    show ?thesis
    proof (cases "validate_text_patches source ps n")
      case (Inr u)
      then have "texts_ok source ps n"
        using validate_texts_ok [of source ps n n] n by (auto simp: validate_text_patches_def region_ok_def)
      from region_then_body [OF n this, of rx placeholder target platform] show ?thesis
        using region groups Inr by (auto simp: copy_and_replace_textual_placeholder_offsets_def)
    qed (simp add: copy_and_replace_textual_placeholder_offsets_def region groups)
  qed (simp add: copy_and_replace_textual_placeholder_offsets_def region)
qed (simp add: copy_and_replace_textual_placeholder_offsets_def)

lemma placeholders_search_returns:
  "replaced_ok source file_mode d (copy_and_replace_placeholders mc rx source placeholder target platform file_mode d)"
proof (cases file_mode)
  case FM_Text
  then show ?thesis
    using textual_search_returns [of rx source placeholder target platform]
    by (auto simp: copy_and_replace_placeholders_def replaced_ok_def)
next
  case FM_Binary
  show ?thesis
  proof (rule search_result [of source placeholder target])
    fix patches
    assume "patches_ok source patches 0"
      "\<And>d. copy_and_replace_cstring_placeholder mc source placeholder target d = Some (cstring_result source patches d)"
    with FM_Binary cstring_result_cases [of source patches d] show ?thesis
      by (auto simp: copy_and_replace_placeholders_def replaced_ok_def write_all_def)
  qed
qed

lemma placeholders_offsets_returns:
  "(\<exists>e. copy_and_replace_placeholders_with_offsets mc rx source placeholder target platform file_mode offsets d
      = Some (Inl (ORE_InconsistentMetadata e), d))
   \<or> (\<exists>r. copy_and_replace_placeholders_with_offsets mc rx source placeholder target platform file_mode offsets d
        = map_option (apfst (map_sum ORE_Io id)) r \<and> replaced_ok source file_mode d r)"
proof (cases "po_file_mode offsets = file_mode")
  case True
  show ?thesis
  proof (cases file_mode)
    case FM_Text
    consider e where "copy_and_replace_textual_placeholder_offsets mc rx source placeholder target platform
          (po_groups offsets) (po_shebang_length offsets) d = Some (Inl (ORE_InconsistentMetadata e), d)"
      | out where "copy_and_replace_textual_placeholder_offsets mc rx source placeholder target platform
          (po_groups offsets) (po_shebang_length offsets) d = Some (Inr (), d @ out)"
      using textual_offsets_returns by blast
    then show ?thesis
    proof cases
      case (2 out)
      with True FM_Text show ?thesis
        by (intro disjI2 exI [of _ "Some (Inr (), d @ out)"])
          (simp add: copy_and_replace_placeholders_with_offsets_def replaced_ok_def)
    qed (simp add: copy_and_replace_placeholders_with_offsets_def True FM_Text)
  next
    case FM_Binary
    show ?thesis
    proof (cases "is_windows platform")
      case windows: True
      with True FM_Binary show ?thesis
        by (intro disjI2 exI [of _ "Some (Inr (), d @ source)"])
          (simp add: copy_and_replace_placeholders_with_offsets_def replaced_ok_def write_all_def)
    next
      case False
      consider e where "copy_and_replace_cstring_placeholder_offsets source placeholder target (po_groups offsets) d
            = (Inl (ORE_InconsistentMetadata e), d)"
        | e where "copy_and_replace_cstring_placeholder_offsets source placeholder target (po_groups offsets) d
            = (Inl (ORE_Io (GrowingPrefix e)), d)"
        | out where "copy_and_replace_cstring_placeholder_offsets source placeholder target (po_groups offsets) d = (Inr (), d @ out)"
            "length out = length source"
        using offsets_outcomes by blast
      then show ?thesis
      proof cases
        case (2 e)
        with True FM_Binary False show ?thesis
          by (intro disjI2 exI [of _ "Some (Inl (GrowingPrefix e), d)"])
            (simp add: copy_and_replace_placeholders_with_offsets_def replaced_ok_def)
      next
        case (3 out)
        with True FM_Binary False show ?thesis
          by (intro disjI2 exI [of _ "Some (Inr (), d @ out)"])
            (simp add: copy_and_replace_placeholders_with_offsets_def replaced_ok_def)
      qed (simp add: copy_and_replace_placeholders_with_offsets_def True FM_Binary False)
    qed
  qed
qed (simp add: copy_and_replace_placeholders_with_offsets_def)

end

end
