(* ===== verification/Prefix_Replacement.thy ===== *)
theory Prefix_Replacement
  imports Prefix_Text_Properties
begin

text \<open>
  The properties of prefix replacement as its caller \<open>link_file\<close> sees it: whatever offsets a package
  records, the file is patched or the one possible error is reported with an untouched destination;
  recorded offsets give the bytes of the search; and on plain text the result is that of \<open>replace\<close>.
\<close>

section \<open>Offsets recorded by the search\<close>

definition recorded_offsets ::
    "memchr_crate \<Rightarrow> byte list \<Rightarrow> subdir \<Rightarrow> file_mode \<Rightarrow> utext \<Rightarrow> utext \<Rightarrow> invalid_offsets_error + prefix_offsets" where
  "recorded_offsets mc source platform fm placeholder target =
     (let eps = encoded_prefix_all placeholder target; n = shebang_region_end source platform
      in case fm of
           FM_Text \<Rightarrow> prefix_offsets_new FM_Text (recorded_texts (find_text_patches mc source n eps))
                        (if take 2 source = ascii_bytes ''#!'' then Some n else None)
         | FM_Binary \<Rightarrow>
             (case find_cstring_patches mc source eps of
                None \<Rightarrow> Inl IO_EmptyList
              | Some patches \<Rightarrow> prefix_offsets_new FM_Binary (recorded_cstrings patches) None))"

lemma recorded_groups_Nil [simp]: "recorded_groups enc ranges [] = []"
  by (simp add: recorded_groups_def DEFINED_def map_filter_simps)

context memchr_laws
begin

lemma validated_recorded_region:
  assumes "is_unix platform"
  shows "validated_shebang_region_end mc source (if take 2 source = ascii_bytes ''#!'' then Some (shebang_region_end source platform) else None)
    = Inr (shebang_region_end source platform)"
proof (cases "take 2 source = ascii_bytes ''#!''")
  case True
  show ?thesis
  proof (cases "position 10 source")
    case None
    then have "mc_memchr mc 10 source = None" by (simp add: memchr_None position_None_iff)
    with None True assms show ?thesis
      by (simp add: validated_shebang_region_end_def shebang_region_end_def)
  next
    case (Some i)
    then have "mc_memchr mc 10 (take (Suc i) source) = Some i" "i < length source"
      by (auto simp: memchr position_Some_iff)
    with Some True assms show ?thesis
      by (simp add: validated_shebang_region_end_def shebang_region_end_def)
  qed
next
  case False
  then show ?thesis by (simp add: validated_shebang_region_end_def shebang_region_end_def)
qed

lemma recorded_texts_agree:
  assumes "is_unix platform" "length source < 2 ^ 64"
  shows "copy_and_replace_textual_placeholder_offsets mc rx source placeholder target platform
      (recorded_texts (find_text_patches mc source (shebang_region_end source platform) (encoded_prefix_all placeholder target)))
      (if take 2 source = ascii_bytes ''#!'' then Some (shebang_region_end source platform) else None) d
    = map_option (apfst (map_sum ORE_Io id)) (copy_and_replace_textual_placeholder mc rx source placeholder target platform d)"
proof -
  let ?n = "shebang_region_end source platform"
  let ?ps = "find_text_patches mc source ?n (encoded_prefix_all placeholder target)"
  note body = textual_body_ok [OF shebang_region_end_ok [of source platform], of placeholder target]
  have "validate_text_patches source ?ps ?n = Inr ()"
    unfolding validate_text_patches_def using ok_validate_texts [OF body(1)] body(2) assms(2) by blast
  moreover have "text_patches_from_groups (recorded_texts ?ps) (encoded_prefix_all placeholder target) = Inr ?ps"
    using text_patches_from_recorded [OF body(1)] body(2) by blast
  ultimately show ?thesis
    using validated_recorded_region [OF assms(1), of source]
    by (simp add: copy_and_replace_textual_placeholder_offsets_def copy_and_replace_textual_placeholder_def
        apfst_def map_prod_def Let_def)
qed

lemma recorded_offsets_agree:
  assumes "is_unix platform" "length source < 2 ^ 64" "recorded_offsets mc source platform fm placeholder target = Inr offsets"
  shows "fm = FM_Binary \<and> (\<exists>off stop. copy_and_replace_placeholders_with_offsets mc rx source placeholder target platform fm offsets d
        = Some (Inl (ORE_InconsistentMetadata (IC_MisalignedOffset off stop)), d))
    \<or> copy_and_replace_placeholders_with_offsets mc rx source placeholder target platform fm offsets d
        = map_option (apfst (map_sum ORE_Io id)) (copy_and_replace_placeholders mc rx source placeholder target platform fm d)"
proof (cases fm)
  case FM_Text
  then show ?thesis
    using assms(3) recorded_texts_agree [OF assms(1,2)]
    by (auto simp: recorded_offsets_def Let_def prefix_offsets_new_iff copy_and_replace_placeholders_with_offsets_def
        copy_and_replace_placeholders_def)
next
  case FM_Binary
  then obtain patches where p: "find_cstring_patches mc source (encoded_prefix_all placeholder target) = Some patches"
    "prefix_offsets_new FM_Binary (recorded_cstrings patches) None = Inr offsets"
    using assms(3) by (auto simp: recorded_offsets_def Let_def split: option.splits)
  then have "patches \<noteq> []" by (auto simp: prefix_offsets_new_def)
  note agree = recorded_cstrings_agree [OF p(1) this assms(2), of d]
  have "\<not> is_windows platform" using assms(1) windows_not_unix by blast
  with agree p(2) FM_Binary show ?thesis
    by (auto simp: prefix_offsets_new_iff copy_and_replace_placeholders_with_offsets_def copy_and_replace_placeholders_def)
qed

end

section \<open>Properties\<close>

text \<open>A concrete file and a concrete value of the parameters.\<close>

definition sample_regex :: regex_crate where
  "sample_regex = \<lparr>rx_shebang_captures = (\<lambda>_. None), rx_python_is_match = (\<lambda>_. False)\<rparr>"

definition sample_offsets :: prefix_offsets where
  "sample_offsets = \<lparr>po_file_mode = FM_Binary, po_groups = [\<lparr>og_encoding = OE_Utf8, og_ranges = OR_Binary [[1, 9]]\<rparr>],
     po_shebang_length = None\<rparr>"

definition sample_placeholder :: prefix_placeholder where
  "sample_placeholder = \<lparr>ph_file_mode = FM_Binary, ph_placeholder = ascii ''/pfx'', ph_experimental_offsets = Some (Inr sample_offsets)\<rparr>"

text \<open>
  C24. Linking a file with a placeholder never panics and never diverges, whatever offsets the package
  records: either the file is written, with its length kept when it is a binary file, or the target prefix
  does not fit in a binary file and the destination is left as it was.
\<close>

theorem link_replace_prefix_safe:
  assumes "memchr_laws mc"
  shows "(\<exists>out. link_replace_prefix mc rx source ph target platform d = Some (Inr (), d @ out)
        \<and> (ph_file_mode ph = FM_Binary \<longrightarrow> length out = length source))
    \<or> ph_file_mode ph = FM_Binary \<and> (\<exists>e. link_replace_prefix mc rx source ph target platform d = Some (Inl (GrowingPrefix e), d))"
proof -
  let ?t = "if is_windows platform then forward_slashes target else target"
  let ?search = "copy_and_replace_placeholders mc rx source (ph_placeholder ph) ?t platform (ph_file_mode ph) d"
  note search = memchr_laws.placeholders_search_returns [OF assms, of source "ph_file_mode ph" d rx "ph_placeholder ph" ?t platform]
  have "replaced_ok source (ph_file_mode ph) d (link_replace_prefix mc rx source ph target platform d)"
  proof (cases "\<exists>offsets. ph_experimental_offsets ph = Some (Inr offsets)")
    case False
    then have "link_replace_prefix mc rx source ph target platform d = ?search"
      by (auto simp: link_replace_prefix_def Let_def split: option.splits sum.splits)
    with search show ?thesis by simp
  next
    case True
    then obtain offsets where o: "ph_experimental_offsets ph = Some (Inr offsets)" by blast
    let ?offs = "copy_and_replace_placeholders_with_offsets mc rx source (ph_placeholder ph) ?t platform (ph_file_mode ph) offsets d"
    consider e where "?offs = Some (Inl (ORE_InconsistentMetadata e), d)"
      | r where "?offs = map_option (apfst (map_sum ORE_Io id)) r" "replaced_ok source (ph_file_mode ph) d r"
      using memchr_laws.placeholders_offsets_returns [OF assms] by blast
    then show ?thesis
    proof cases
      case (1 e)
      then have "link_replace_prefix mc rx source ph target platform d = ?search"
        by (simp add: link_replace_prefix_def o Let_def)
      with search show ?thesis by simp
    next
      case (2 r)
      then have "link_replace_prefix mc rx source ph target platform d = r"
        by (auto simp: link_replace_prefix_def o Let_def replaced_ok_def)
      with 2 show ?thesis by simp
    qed
  qed
  then show ?thesis by (simp add: replaced_ok_def)
qed

theorem link_replace_prefix_safe_witness:
  "\<exists>out. link_replace_prefix std_search sample_regex sample_binary sample_placeholder (ascii ''/np'') Linux64 [] = Some (Inr (), out)
    \<and> length out = length sample_binary"
proof -
  have "link_replace_prefix std_search sample_regex sample_binary sample_placeholder (ascii ''/np'') Linux64 []
      = Some (Inr (), ascii_bytes ''x/np/lib'' @ [0, 0] @ ascii_bytes ''y'')"
    by code_simp
  then show ?thesis
    using link_replace_prefix_safe [OF std.memchr_laws_axioms, of sample_regex sample_binary sample_placeholder "ascii ''/np''" Linux64 "[]"]
    by (auto simp: sample_placeholder_def)
qed



text \<open>
  C28. On text without a shebang line to rewrite, where the placeholder does not occur under a wide encoding, the
  replacement is the standard library's \<open>replace\<close> on the bytes of the file.
\<close>

theorem textual_replacement_is_replace:
  assumes "memchr_laws mc" "placeholder \<noteq> []"
    and "\<forall>e i. e \<noteq> OE_Utf8 \<longrightarrow> \<not> occurs_at source (encode e placeholder) i"
    and "take 2 source \<noteq> ascii_bytes ''#!'' \<or> \<not> is_unix platform"
  shows "copy_and_replace_textual_placeholder mc rx source placeholder target platform d
    = Some (Inr (), d @ str_replace source (as_bytes placeholder) (as_bytes target))"
proof -
  let ?u = "encoded_prefix_of placeholder target OE_Utf8"
  have "shebang_region_end source platform = 0"
    using assms(4) by (auto simp: shebang_region_end_def)
  moreover have "texts_ok source (text_patches_at ?u (match_indices source (as_bytes placeholder))) 0"
    "text_image source (text_patches_at ?u (match_indices source (as_bytes placeholder))) 0
      = str_replace source (as_bytes placeholder) (as_bytes target)"
    unfolding match_indices_def
    using texts_ok_matches [of "as_bytes placeholder" ?u 0 source] text_image_replace [of "as_bytes placeholder" ?u 0 source] assms(2)
    by simp_all
  ultimately show ?thesis
    using memchr_laws.find_text_patches_utf8 [OF assms(1-3), of target]
    by (simp add: copy_and_replace_textual_placeholder_def write_shebang_region_def partial_then_def write_patched_text_ok)
qed

theorem textual_replacement_is_replace_witness:
  "copy_and_replace_textual_placeholder std_search sample_regex (ascii_bytes ''a=/pfx/b'') (ascii ''/pfx'') (ascii ''/new/prefix'') Linux64 []
    = Some (Inr (), str_replace (ascii_bytes ''a=/pfx/b'') (as_bytes (ascii ''/pfx'')) (as_bytes (ascii ''/new/prefix'')))"
proof -
  have "str_find (ascii_bytes ''a=/pfx/b'') (encode OE_Utf16Le (ascii ''/pfx'')) = None"
    "str_find (ascii_bytes ''a=/pfx/b'') (encode OE_Utf16Be (ascii ''/pfx'')) = None"
    "str_find (ascii_bytes ''a=/pfx/b'') (encode OE_Utf32Le (ascii ''/pfx'')) = None"
    "str_find (ascii_bytes ''a=/pfx/b'') (encode OE_Utf32Be (ascii ''/pfx'')) = None"
    by code_simp+
  then have "\<not> occurs_at (ascii_bytes ''a=/pfx/b'') (encode e (ascii ''/pfx'')) i" if "e \<noteq> OE_Utf8" for e i
    using that by (cases e) (simp_all add: str_find_None_iff)
  moreover have "ascii ''/pfx'' \<noteq> []" "take 2 (ascii_bytes ''a=/pfx/b'') \<noteq> ascii_bytes ''#!''"
    by code_simp+
  ultimately show ?thesis
    using textual_replacement_is_replace [OF std.memchr_laws_axioms,
        of "ascii ''/pfx''" "ascii_bytes ''a=/pfx/b''" Linux64 sample_regex "ascii ''/new/prefix''" "[]"]
    by simp
qed

end
