(* ===== verification/String_Matcher.thy ===== *)
theory String_Matcher
  imports Package_Name Rust_Text
begin

text \<open>
  Matching of text by exact value, glob or regular expression
  (\<open>rattler_conda_types/src/match_spec/matcher.rs\<close>, \<open>package_name_matcher.rs\<close>) and the flags of package
  variants (\<open>flags.rs\<close>). Compiled globs and regular expressions are values of the \<open>glob\<close> and
  \<open>fancy_regex\<close> crates: a matcher holds the pattern, and the crates are a parameter, a record of the
  functions that are called. The documented behaviour of \<open>glob\<close> on patterns of literal characters and
  stars is the locale \<open>glob_laws\<close>; the fast paths for prefixes and suffixes are shown to follow it.
\<close>

section \<open>The pattern crates\<close>

record pattern_crates =
  glob_valid :: "string \<Rightarrow> bool"
  glob_matches_with :: "bool \<Rightarrow> string \<Rightarrow> string \<Rightarrow> bool"
  regex_valid :: "string \<Rightarrow> bool"
  regex_is_match :: "string \<Rightarrow> string \<Rightarrow> bool option"

text \<open>
  \<open>glob_matches_with case_sensitive pattern text\<close>; a regular expression may fail on a text, which is
  \<open>None\<close>.
\<close>

section \<open>\<open>StringMatcher\<close>\<close>

datatype string_matcher =
  SM_Any
| SM_Exact string
| SM_Prefix string
| SM_Suffix string
| SM_Glob string
| SM_Regex string

datatype string_matcher_parse_error = InvalidGlob string | InvalidRegex string

text \<open>\<open>RegexMatcher\<close>: the stored pattern is compiled with the flag for case-insensitive matching.\<close>

definition regex_matcher_new :: "pattern_crates \<Rightarrow> string \<Rightarrow> string option" where
  "regex_matcher_new pc pattern = (if regex_valid pc (''(?i)'' @ pattern) then Some pattern else None)"

definition regex_matcher_is_match :: "pattern_crates \<Rightarrow> string \<Rightarrow> string \<Rightarrow> bool option" where
  "regex_matcher_is_match pc original text = regex_is_match pc (''(?i)'' @ original) text"

fun string_matcher_matches :: "pattern_crates \<Rightarrow> string_matcher \<Rightarrow> string \<Rightarrow> bool" where
  "string_matcher_matches pc SM_Any other \<longleftrightarrow> True"
| "string_matcher_matches pc (SM_Exact s) other \<longleftrightarrow> eq_ignore_ascii_case s other"
| "string_matcher_matches pc (SM_Prefix p) other \<longleftrightarrow>
     length p \<le> length other \<and> eq_ignore_ascii_case (take (length p) other) p"
| "string_matcher_matches pc (SM_Suffix s) other \<longleftrightarrow>
     length s \<le> length other \<and> eq_ignore_ascii_case (drop (length other - length s) other) s"
| "string_matcher_matches pc (SM_Glob g) other \<longleftrightarrow> glob_matches_with pc False g other"
| "string_matcher_matches pc (SM_Regex r) other \<longleftrightarrow>
     (case regex_matcher_is_match pc r other of Some b \<Rightarrow> b | None \<Rightarrow> False)"

definition is_glob_literal :: "string \<Rightarrow> bool" where
  "is_glob_literal literal \<longleftrightarrow> \<not> list_ex (\<lambda>c. c \<in> set [CHR ''*'', CHR ''?'', CHR ''['', CHR '']'', CHR ''/'', CHR 0x5C]) literal"

definition is_anchored :: "string \<Rightarrow> bool" where
  "is_anchored s \<longleftrightarrow> s \<noteq> [] \<and> hd s = CHR ''^'' \<and> last s = CHR ''$''"

definition string_matcher_from_str :: "pattern_crates \<Rightarrow> string \<Rightarrow> string_matcher_parse_error + string_matcher" where
  "string_matcher_from_str pc s =
     (if is_anchored s then
        (case regex_matcher_new pc s of Some r \<Rightarrow> Inr (SM_Regex r) | None \<Rightarrow> Inl (InvalidRegex s))
      else if s = ''*'' then Inr SM_Any
      else if s \<noteq> [] \<and> last s = CHR ''*'' \<and> is_glob_literal (butlast s) then Inr (SM_Prefix (butlast s))
      else if s \<noteq> [] \<and> hd s = CHR ''*'' \<and> is_glob_literal (tl s) then Inr (SM_Suffix (tl s))
      else if CHR ''*'' \<in> set s then (if glob_valid pc s then Inr (SM_Glob s) else Inl (InvalidGlob s))
      else Inr (SM_Exact s))"

fun string_matcher_display :: "string_matcher \<Rightarrow> string" where
  "string_matcher_display SM_Any = ''*''"
| "string_matcher_display (SM_Exact s) = s"
| "string_matcher_display (SM_Prefix s) = s @ ''*''"
| "string_matcher_display (SM_Suffix s) = CHR ''*'' # s"
| "string_matcher_display (SM_Glob s) = s"
| "string_matcher_display (SM_Regex s) = s"

section \<open>\<open>PackageNameMatcher\<close>\<close>

datatype package_name_matcher =
  PNM_Exact package_name
| PNM_Glob string
| PNM_Regex string

datatype package_name_matcher_parse_error =
  PNM_GlobError string
| PNM_RegexError string
| PNM_PackageNameError string invalid_package_name_error

fun package_name_matcher_eq :: "package_name_matcher \<Rightarrow> package_name_matcher \<Rightarrow> bool" where
  "package_name_matcher_eq (PNM_Exact s1) (PNM_Exact s2) \<longleftrightarrow> package_name_eq s1 s2"
| "package_name_matcher_eq (PNM_Glob s1) (PNM_Glob s2) \<longleftrightarrow> s1 = s2"
| "package_name_matcher_eq (PNM_Regex s1) (PNM_Regex s2) \<longleftrightarrow> s1 = s2"
| "package_name_matcher_eq _ _ \<longleftrightarrow> False"

fun package_name_matcher_matches :: "pattern_crates \<Rightarrow> package_name_matcher \<Rightarrow> package_name \<Rightarrow> bool" where
  "package_name_matcher_matches pc (PNM_Exact s) other \<longleftrightarrow> package_name_eq s other"
| "package_name_matcher_matches pc (PNM_Glob g) other \<longleftrightarrow> glob_matches_with pc True g (as_normalized other)"
| "package_name_matcher_matches pc (PNM_Regex r) other \<longleftrightarrow>
     (case regex_is_match pc r (as_normalized other) of Some b \<Rightarrow> b | None \<Rightarrow> False)"

fun pnm_as_exact :: "package_name_matcher \<Rightarrow> package_name option" where
  "pnm_as_exact (PNM_Exact name) = Some name"
| "pnm_as_exact _ = None"

fun pnm_as_glob :: "package_name_matcher \<Rightarrow> string option" where
  "pnm_as_glob (PNM_Glob pattern) = Some pattern"
| "pnm_as_glob _ = None"

fun pnm_as_regex :: "package_name_matcher \<Rightarrow> string option" where
  "pnm_as_regex (PNM_Regex regex) = Some regex"
| "pnm_as_regex _ = None"

definition pnm_default :: package_name_matcher where
  "pnm_default = PNM_Glob ''*''"

definition package_name_matcher_from_str ::
    "pattern_crates \<Rightarrow> string \<Rightarrow> package_name_matcher_parse_error + package_name_matcher" where
  "package_name_matcher_from_str pc s =
     (if is_anchored s then (if regex_valid pc s then Inr (PNM_Regex s) else Inl (PNM_RegexError s))
      else if CHR ''*'' \<in> set s then (if glob_valid pc s then Inr (PNM_Glob s) else Inl (PNM_GlobError s))
      else case package_name_try_from s of
          Inr name \<Rightarrow> Inr (PNM_Exact name)
        | Inl e \<Rightarrow> Inl (PNM_PackageNameError s e))"

fun package_name_matcher_display :: "package_name_matcher \<Rightarrow> string" where
  "package_name_matcher_display (PNM_Exact s) = as_normalized s"
| "package_name_matcher_display (PNM_Glob s) = s"
| "package_name_matcher_display (PNM_Regex s) = s"

section \<open>Flags\<close>

datatype invalid_flag_error = InvalidFlag string

definition is_valid_flag_part :: "string \<Rightarrow> bool \<Rightarrow> bool" where
  "is_valid_flag_part value allow_glob \<longleftrightarrow>
     value \<noteq> [] \<and> list_all (\<lambda>c. is_ascii_lowercase c \<or> is_ascii_digit c \<or> c = CHR ''_'' \<or> (allow_glob \<and> c = CHR ''*'')) value"

definition is_valid_flag :: "string \<Rightarrow> bool \<Rightarrow> bool" where
  "is_valid_flag value allow_glob =
     (case split_char CHR '':'' value of
        [] \<Rightarrow> False
      | first # parts \<Rightarrow>
          if \<not> is_valid_flag_part first allow_glob then False
          else case parts of
              [] \<Rightarrow> True
            | [second] \<Rightarrow> is_valid_flag_part second allow_glob
            | _ \<Rightarrow> False)"

definition is_valid_record_flag :: "string \<Rightarrow> bool" where
  "is_valid_record_flag value = is_valid_flag value False"

definition is_valid_matchspec_flag :: "string \<Rightarrow> bool" where
  "is_valid_matchspec_flag value = is_valid_flag value True"

definition flag_try_from :: "string \<Rightarrow> invalid_flag_error + string" where
  "flag_try_from value = (if is_valid_record_flag value then Inr value else Inl (InvalidFlag value))"

section \<open>Globs of literals and stars\<close>

fun star_match :: "string \<Rightarrow> string \<Rightarrow> bool" where
  "star_match [] t \<longleftrightarrow> t = []"
| "star_match (c # p) [] \<longleftrightarrow> c = CHR ''*'' \<and> star_match p []"
| "star_match (c # p) (d # t) \<longleftrightarrow>
     (if c = CHR ''*'' then star_match p (d # t) \<or> star_match (c # p) t else d = c \<and> star_match p t)"

definition star_pattern :: "string \<Rightarrow> bool" where
  "star_pattern p \<longleftrightarrow> is_glob_literal (filter (\<lambda>c. c \<noteq> CHR ''*'') p)"

locale glob_laws =
  fixes pc :: pattern_crates
  assumes glob_star: "star_pattern p \<Longrightarrow> glob_valid pc p \<Longrightarrow> glob_matches_with pc True p t \<longleftrightarrow> star_match p t"
    and glob_star_ignore_case: "star_pattern p \<Longrightarrow> glob_valid pc p
      \<Longrightarrow> glob_matches_with pc False p t \<longleftrightarrow> star_match (to_ascii_lowercase p) (to_ascii_lowercase t)"

lemma is_glob_literal_iff: "is_glob_literal l \<longleftrightarrow> set l \<inter> {CHR ''*'', CHR ''?'', CHR ''['', CHR '']'', CHR ''/'', CHR 0x5C} = {}"
  by (auto simp: is_glob_literal_def list_ex_iff)

lemma star_match_literal: "CHR ''*'' \<notin> set l \<Longrightarrow> star_match (l @ p) t \<longleftrightarrow> (\<exists>r. t = l @ r \<and> star_match p r)"
proof (induction l arbitrary: t)
  case (Cons c l)
  then show ?case by (cases t) auto
qed simp

lemma star_match_star: "star_match [CHR ''*''] t"
  by (induction t) simp_all

lemma star_match_star_Cons: "star_match (CHR ''*'' # p) t \<longleftrightarrow> (\<exists>a r. t = a @ r \<and> star_match p r)"
proof (induction t)
  case (Cons d t)
  have "(\<exists>a r. d # t = a @ r \<and> star_match p r) \<longleftrightarrow> star_match p (d # t) \<or> (\<exists>a r. t = a @ r \<and> star_match p r)"
    by (metis append_Cons append_Nil list.exhaust list.inject)
  with Cons show ?case by simp
qed simp

lemma star_match_exact: "CHR ''*'' \<notin> set l \<Longrightarrow> star_match l t \<longleftrightarrow> t = l"
  using star_match_literal [of l "[]" t] by simp

lemma star_match_prefix: "CHR ''*'' \<notin> set l \<Longrightarrow> star_match (l @ [CHR ''*'']) t \<longleftrightarrow> (\<exists>r. t = l @ r)"
  by (simp add: star_match_literal star_match_star)

lemma star_match_suffix: "CHR ''*'' \<notin> set l \<Longrightarrow> star_match (CHR ''*'' # l) t \<longleftrightarrow> (\<exists>r. t = r @ l)"
  by (simp add: star_match_star_Cons star_match_exact)

lemma to_ascii_lowercase_append: "to_ascii_lowercase (a @ b) = to_ascii_lowercase a @ to_ascii_lowercase b"
  by (simp add: to_ascii_lowercase_def)

lemma length_to_ascii_lowercase [simp]: "length (to_ascii_lowercase s) = length s"
  by (simp add: to_ascii_lowercase_def)

lemma lower_star [simp]: "ascii_lower CHR ''*'' = CHR ''*''"
  by (simp add: ascii_lower_def is_ascii_uppercase_def)

lemma lower_stars: "to_ascii_lowercase ''*'' = ''*''"
  by (simp add: to_ascii_lowercase_def)

lemma lower_star_Cons: "to_ascii_lowercase (CHR ''*'' # s) = CHR ''*'' # to_ascii_lowercase s"
  by (simp add: to_ascii_lowercase_def)

lemma ascii_lower_star_iff: "ascii_lower c = CHR ''*'' \<longleftrightarrow> c = CHR ''*''"
proof
  assume "ascii_lower c = CHR ''*''"
  then have "(of_char (ascii_lower c) :: nat) = 42" by simp
  then have "(of_char c :: nat) = of_char (CHR ''*'')"
    by (auto simp: ascii_lower_def is_ascii_uppercase_def of_char_of split: if_splits)
  then show "c = CHR ''*''" by (rule of_char_eq_iff [THEN iffD1])
qed simp

lemma star_in_lower: "CHR ''*'' \<in> set (to_ascii_lowercase s) \<longleftrightarrow> CHR ''*'' \<in> set s"
  unfolding to_ascii_lowercase_def set_map image_iff by (metis ascii_lower_star_iff)

lemma ignore_case_prefix:
  "length p \<le> length t \<and> eq_ignore_ascii_case (take (length p) t) p \<longleftrightarrow> (\<exists>r. to_ascii_lowercase t = to_ascii_lowercase p @ r)"
proof -
  have "(\<exists>r. to_ascii_lowercase t = to_ascii_lowercase p @ r)
      \<longleftrightarrow> length p \<le> length t \<and> take (length p) (to_ascii_lowercase t) = to_ascii_lowercase p"
    by (metis append_eq_conv_conj length_append length_to_ascii_lowercase le_add1 append_take_drop_id)
  then show ?thesis
    by (simp add: eq_ignore_ascii_case_def to_ascii_lowercase_def take_map)
qed

lemma ignore_case_suffix:
  "length s \<le> length t \<and> eq_ignore_ascii_case (drop (length t - length s) t) s \<longleftrightarrow> (\<exists>r. to_ascii_lowercase t = r @ to_ascii_lowercase s)"
proof
  assume "length s \<le> length t \<and> eq_ignore_ascii_case (drop (length t - length s) t) s"
  then have "to_ascii_lowercase t = to_ascii_lowercase (take (length t - length s) t) @ to_ascii_lowercase s"
    by (metis append_take_drop_id eq_ignore_ascii_case_def to_ascii_lowercase_append)
  then show "\<exists>r. to_ascii_lowercase t = r @ to_ascii_lowercase s" by blast
next
  assume "\<exists>r. to_ascii_lowercase t = r @ to_ascii_lowercase s"
  then obtain r where r: "to_ascii_lowercase t = r @ to_ascii_lowercase s" by blast
  then have len: "length t = length r + length s"
    by (metis length_append length_to_ascii_lowercase)
  moreover have "to_ascii_lowercase (drop (length r) t) = to_ascii_lowercase s"
    using r by (metis append_eq_conv_conj drop_map to_ascii_lowercase_def)
  ultimately show "length s \<le> length t \<and> eq_ignore_ascii_case (drop (length t - length s) t) s"
    by (simp add: eq_ignore_ascii_case_def)
qed

lemma lowercase_literal: "is_glob_literal l \<Longrightarrow> CHR ''*'' \<notin> set (to_ascii_lowercase l)"
  by (auto simp: star_in_lower is_glob_literal_iff)

lemma from_str_cases:
  assumes "string_matcher_from_str pc s = Inr m"
  shows "is_anchored s \<and> m = SM_Regex s
    \<or> s = ''*'' \<and> m = SM_Any
    \<or> (\<exists>l. s = l @ ''*'' \<and> is_glob_literal l \<and> m = SM_Prefix l)
    \<or> (\<exists>l. s = CHR ''*'' # l \<and> is_glob_literal l \<and> m = SM_Suffix l)
    \<or> CHR ''*'' \<in> set s \<and> glob_valid pc s \<and> m = SM_Glob s
    \<or> CHR ''*'' \<notin> set s \<and> m = SM_Exact s"
proof (cases s rule: rev_cases)
  case Nil
  with assms show ?thesis by (simp add: string_matcher_from_str_def is_anchored_def)
next
  case (snoc l c)
  with assms show ?thesis
    by (auto simp: string_matcher_from_str_def regex_matcher_new_def split: if_splits option.splits)
      (metis list.collapse Nil_is_append_conv not_Cons_self2)+
qed

context glob_laws
begin

lemma star_matchers:
  assumes "string_matcher_from_str pc s = Inr m" "star_pattern s" "\<not> is_anchored s"
  shows "string_matcher_matches pc m t \<longleftrightarrow> star_match (to_ascii_lowercase s) (to_ascii_lowercase t)"
  using from_str_cases [OF assms(1)]
proof (elim disjE conjE exE)
  fix l assume l: "s = l @ ''*''" "is_glob_literal l" "m = SM_Prefix l"
  have "star_match (to_ascii_lowercase s) (to_ascii_lowercase t) \<longleftrightarrow> (\<exists>r. to_ascii_lowercase t = to_ascii_lowercase l @ r)"
    unfolding l(1) to_ascii_lowercase_append lower_stars by (rule star_match_prefix [OF lowercase_literal [OF l(2)]])
  then show ?thesis by (simp only: l(3) string_matcher_matches.simps ignore_case_prefix)
next
  fix l assume l: "s = CHR ''*'' # l" "is_glob_literal l" "m = SM_Suffix l"
  have "star_match (to_ascii_lowercase s) (to_ascii_lowercase t) \<longleftrightarrow> (\<exists>r. to_ascii_lowercase t = r @ to_ascii_lowercase l)"
    unfolding l(1) lower_star_Cons by (rule star_match_suffix [OF lowercase_literal [OF l(2)]])
  then show ?thesis by (simp only: l(3) string_matcher_matches.simps ignore_case_suffix)
next
  assume "CHR ''*'' \<notin> set s" "m = SM_Exact s"
  then show ?thesis
    using star_match_exact [of "to_ascii_lowercase s" "to_ascii_lowercase t"]
    by (simp add: star_in_lower eq_ignore_ascii_case_def eq_commute)
next
  assume "s = ''*''" "m = SM_Any"
  then show ?thesis by (simp only: lower_stars star_match_star string_matcher_matches.simps)
next
  assume "glob_valid pc s" "m = SM_Glob s"
  then show ?thesis using glob_star_ignore_case [OF assms(2)] by simp
next
  assume "is_anchored s"
  with assms(3) show ?thesis by blast
qed

end

text \<open>A concrete value of the parameter: globs are patterns of literals and stars, no regular expression is valid.\<close>

definition star_globs :: pattern_crates where
  "star_globs = \<lparr>glob_valid = star_pattern,
     glob_matches_with = (\<lambda>case_sensitive p t. if case_sensitive then star_match p t
       else star_match (to_ascii_lowercase p) (to_ascii_lowercase t)),
     regex_valid = (\<lambda>_. False), regex_is_match = (\<lambda>_ _. None)\<rparr>"

interpretation star_globs: glob_laws star_globs
  by unfold_locales (simp_all add: star_globs_def)

section \<open>Properties\<close>

text \<open>
  C30. Parsing a matcher and printing it gives the text back, and printing and parsing gives the matcher
  back. Matching a text against a parsed pattern of literal characters and stars, which is not an anchored
  regular expression, is case-insensitive glob matching whichever of the fast paths the parser chose: the
  whole pattern, a prefix, a suffix, any text, or the glob itself.
\<close>

theorem string_matcher_contract:
  assumes "glob_laws pc" "string_matcher_from_str pc s = Inr m"
  shows "string_matcher_display m = s \<and> string_matcher_from_str pc (string_matcher_display m) = Inr m
    \<and> (star_pattern s \<and> \<not> is_anchored s \<longrightarrow>
        string_matcher_matches pc m t = star_match (to_ascii_lowercase s) (to_ascii_lowercase t))"
proof -
  have "string_matcher_display m = s"
    using from_str_cases [OF assms(2)] by auto
  then show ?thesis
    using assms(2) glob_laws.star_matchers [OF assms] by simp
qed

theorem string_matcher_contract_witness:
  "string_matcher_from_str star_globs ''py3*'' = Inr (SM_Prefix ''py3'') \<and> string_matcher_display (SM_Prefix ''py3'') = ''py3*''
    \<and> (string_matcher_matches star_globs (SM_Prefix ''py3'') ''PY310_0'' = star_match (to_ascii_lowercase ''py3*'') (to_ascii_lowercase ''PY310_0''))"
proof -
  have "string_matcher_from_str star_globs ''py3*'' = Inr (SM_Prefix ''py3'')" "star_pattern ''py3*''" "\<not> is_anchored ''py3*''"
    by code_simp+
  then show ?thesis
    using string_matcher_contract [OF star_globs.glob_laws_axioms, of "''py3*''" "SM_Prefix ''py3''" "''PY310_0''"] by blast
qed

end
