(* ===== verification/Url_Redaction.thy ===== *)
theory Url_Redaction
  imports Package_Name Rust_Text
begin

text \<open>
  Removal of credentials from urls (\<open>rattler_redaction/src/lib.rs\<close>) and urls with a trailing slash
  (\<open>rattler_conda_types/src/utils/url_with_trailing_slash.rs\<close>, \<open>channel/channel_url.rs\<close>). A \<open>Url\<close> is
  a value of the \<open>url\<close> crate, given by its text. The crate is a parameter, a record of the functions that
  are called; what they do to the parts of a url is the locale \<open>url_laws\<close>.
\<close>

section \<open>The \<open>url\<close> crate\<close>

type_synonym url = string

record url_crate =
  url_parse :: "string \<Rightarrow> string + url"
  url_scheme :: "url \<Rightarrow> string"
  url_username :: "url \<Rightarrow> string"
  url_password :: "url \<Rightarrow> string option"
  url_host :: "url \<Rightarrow> string option"
  url_path :: "url \<Rightarrow> string"
  url_path_segments :: "url \<Rightarrow> string list option"
  url_query :: "url \<Rightarrow> string option"
  url_fragment :: "url \<Rightarrow> string option"
  url_set_username :: "url \<Rightarrow> string \<Rightarrow> url option"
  url_set_password :: "url \<Rightarrow> string option \<Rightarrow> url option"
  url_set_path :: "url \<Rightarrow> string \<Rightarrow> url"
  url_set_query :: "url \<Rightarrow> string option \<Rightarrow> url"
  url_set_fragment :: "url \<Rightarrow> string option \<Rightarrow> url"
  url_push_segment :: "url \<Rightarrow> string \<Rightarrow> url"
  url_join :: "url \<Rightarrow> string \<Rightarrow> url option"

text \<open>
  A failure to parse is the message of the error, a setter that refuses is \<open>None\<close>; \<open>path_segments\<close> is
  \<open>None\<close> for a url that cannot be a base.
\<close>

section \<open>Masking signatures in text\<close>

definition DEFAULT_REDACTION_STR :: string where
  "DEFAULT_REDACTION_STR = ''********''"

definition SIGNATURE_PARAM :: string where
  "SIGNATURE_PARAM = ''sig''"

definition ends_signature :: "string \<Rightarrow> bool" where
  "ends_signature s \<longleftrightarrow> starts_with_space s \<or> s \<noteq> [] \<and> hd s \<in> set [CHR ''&'', CHR 0x22, CHR 0x27, CHR '','', CHR '')'', CHR '']'', CHR ''}'']"

fun signature_length :: "string \<Rightarrow> nat" where
  "signature_length [] = 0"
| "signature_length (c # s) = (if ends_signature (c # s) then 0 else Suc (signature_length s))"

definition signature_value_span :: "string \<Rightarrow> nat \<Rightarrow> nat \<Rightarrow> (nat \<times> nat) option" where
  "signature_value_span s separator equals =
     (let start = separator + 1 + equals + 1;
          stop = start + signature_length (drop start s)
      in if stop = start then None else Some (start, stop))"

definition mask_at :: "string \<Rightarrow> string \<Rightarrow> nat \<Rightarrow> string \<times> nat \<Rightarrow> string \<times> nat" where
  "mask_at s redaction separator = (\<lambda>(out, written).
     let pair = drop (separator + 1) s
     in case str_find pair ''='' of
          None \<Rightarrow> (out, written)
        | Some equals \<Rightarrow>
            if \<not> eq_ignore_ascii_case (take equals pair) SIGNATURE_PARAM then (out, written)
            else case signature_value_span s separator equals of
                None \<Rightarrow> (out, written)
              | Some (start, stop) \<Rightarrow>
                  if start < written then (out, written)
                  else (out @ drop written (take start s) @ redaction, stop))"

text \<open>\<open>None\<close> is the borrowed text, returned unchanged.\<close>

definition redact_signatures_in_text :: "string \<Rightarrow> string \<Rightarrow> string option" where
  "redact_signatures_in_text s redaction =
     (let (out, written) = fold (mask_at s redaction) (filter (\<lambda>i. s ! i = CHR ''?'' \<or> s ! i = CHR ''&'') [0..<length s]) ([], 0)
      in if written = 0 then None else Some (out @ drop written s))"

section \<open>Masking for display\<close>

definition token_prefixed :: "string list option \<Rightarrow> bool" where
  "token_prefixed segments \<longleftrightarrow> (case segments of Some (t # _ # _) \<Rightarrow> t = ''t'' | _ \<Rightarrow> False)"

definition redact_url_for_display :: "url_crate \<Rightarrow> url \<Rightarrow> string \<Rightarrow> url option" where
  "redact_url_for_display uc url redaction =
     (case (if url_password uc url \<noteq> None then url_set_password uc url (Some redaction) else Some url) of
        None \<Rightarrow> None
      | Some url \<Rightarrow>
          let url = (case url_query uc url of
                None \<Rightarrow> url
              | Some query \<Rightarrow> (case redact_signatures_in_text (''?'' @ query) redaction of
                    None \<Rightarrow> url
                  | Some masked \<Rightarrow> url_set_query uc url (Some (tl masked))))
          in Some (if token_prefixed (url_path_segments uc url) then
                let remainder = drop 2 (the (url_path_segments uc url))
                in url_set_path uc url (''t/'' @ redaction @ (if remainder = [] then [] else ''/'') @ join_with ''/'' remainder)
              else url))"

definition url_redact :: "url_crate \<Rightarrow> url \<Rightarrow> url" where
  "url_redact uc url = (case redact_url_for_display uc url DEFAULT_REDACTION_STR of Some u \<Rightarrow> u | None \<Rightarrow> url)"

section \<open>Stripping for durable output\<close>

definition is_ascii_hexdigit :: "char \<Rightarrow> bool" where
  "is_ascii_hexdigit c \<longleftrightarrow> is_ascii_digit c \<or> c \<in> set ''abcdefABCDEF''"

definition is_artifact_digest :: "string \<Rightarrow> bool" where
  "is_artifact_digest fragment = (case split_once CHR '':'' fragment of
     None \<Rightarrow> False
   | Some (algorithm, digest) \<Rightarrow>
       (algorithm = ''md5'' \<or> algorithm = ''sha256'') \<and> digest \<noteq> [] \<and> list_all is_ascii_hexdigit digest)"

definition path_without_token :: "string list option \<Rightarrow> string option" where
  "path_without_token segments = (case segments of
     Some (t # token # rest) \<Rightarrow> if t = ''t'' \<and> token \<noteq> [] then Some (''/'' @ join_with ''/'' rest) else None
   | _ \<Rightarrow> None)"

definition strip_url_for_serialization :: "url_crate \<Rightarrow> url \<Rightarrow> url" where
  "strip_url_for_serialization uc url0 =
     (let url1 = (if url_username uc url0 \<noteq> [] \<or> url_password uc url0 \<noteq> None then
                    let u = (case url_set_username uc url0 [] of Some u \<Rightarrow> u | None \<Rightarrow> url0)
                    in (case url_set_password uc u None of Some v \<Rightarrow> v | None \<Rightarrow> u)
                  else url0);
          url2 = (case path_without_token (url_path_segments uc url1) of
                    Some p \<Rightarrow> url_set_path uc url1 p | None \<Rightarrow> url1);
          url3 = url_set_query uc url2 None
      in case url_fragment uc url3 of
           Some fragment \<Rightarrow> if \<not> is_artifact_digest fragment then url_set_fragment uc url3 None else url3
         | None \<Rightarrow> url3)"

section \<open>Urls with a trailing slash\<close>

definition url_with_trailing_slash :: "url_crate \<Rightarrow> url \<Rightarrow> url" where
  "url_with_trailing_slash uc url =
     (let path = url_path uc url
      in if path \<noteq> [] \<and> last path = CHR ''/'' then url else url_set_path uc url (path @ ''/''))"

text \<open>A \<open>ChannelUrl\<close> wraps such a url; \<open>into\<close> converts a url.\<close>

definition channel_url_serialize :: "url \<Rightarrow> string" where
  "channel_url_serialize url = trim_end_matches CHR ''/'' url"

end
