(* ===== verification/File_Url.thy ===== *)
theory File_Url
  imports Url_Laws
begin

text \<open>
  Conversion between paths and \<open>file://\<close> urls (\<open>crates/file_url/src/lib.rs\<close>). The crates
  \<open>percent_encoding\<close> and \<open>typed_path\<close> and the host parser of \<open>url\<close> are parameters, a record of the functions that
  are called. A path is its text, with its components as \<open>typed_path\<close> gives them.
\<close>

section \<open>The crates\<close>

datatype windows_prefix = WP_Disk char | WP_VerbatimDisk char | WP_UNC string string | WP_VerbatimUNC string string | WP_Other

datatype typed_component =
  TC_WindowsPrefix windows_prefix
| TC_WindowsRootDir
| TC_UnixRootDir
| TC_Part string

record file_crates =
  percent_encode :: "(char \<Rightarrow> bool) \<Rightarrow> string \<Rightarrow> string"
  percent_decode :: "string \<Rightarrow> string"
  typed_components :: "string \<Rightarrow> typed_component list"
  host_parse :: "string \<Rightarrow> string option"

text \<open>\<open>TC_Part\<close> is a normal component, the current or the parent directory, by its text.\<close>

section \<open>From a url to a path\<close>

definition is_windows_drive_letter_segment :: "string \<Rightarrow> string option" where
  "is_windows_drive_letter_segment segment = (case segment of
     [drive_letter, c] \<Rightarrow>
       if c = CHR '':'' \<and> is_ascii_alphabetic drive_letter then Some [drive_letter, CHR '':'', CHR 0x5C] else None
   | [drive_letter, c1, c2, c3] \<Rightarrow>
       if c1 = CHR ''%'' \<and> c2 = CHR ''3'' \<and> (c3 = CHR ''a'' \<or> c3 = CHR ''A'') \<and> is_ascii_alphabetic drive_letter
       then Some [drive_letter, CHR '':'', CHR 0x5C] else None
   | _ \<Rightarrow> None)"

definition starts_with_windows_drive_letter :: "string \<Rightarrow> bool" where
  "starts_with_windows_drive_letter s = (case s of
     a # b # rest \<Rightarrow> is_ascii_alphabetic a \<and> (b = CHR '':'' \<or> b = CHR ''|'')
       \<and> (rest = [] \<or> hd rest \<in> set [CHR ''/'', CHR 0x5C, CHR ''?'', CHR ''#''])
   | _ \<Rightarrow> False)"

definition is_windows_drive_letter :: "string \<Rightarrow> bool" where
  "is_windows_drive_letter segment \<longleftrightarrow> length segment = 2 \<and> starts_with_windows_drive_letter segment"

text \<open>The loop over the remaining segments: separated, percent-decoded, \<open>None\<close> if one is not UTF-8.\<close>

fun push_segments :: "file_crates \<Rightarrow> string \<Rightarrow> bool \<Rightarrow> string \<Rightarrow> string list \<Rightarrow> string option" where
  "push_segments fc separator first path [] = Some path"
| "push_segments fc separator first path (segment # segments) =
     (let path = (if first then path else path @ separator)
      in case from_utf8 (percent_decode fc segment) of
           Some s \<Rightarrow> push_segments fc separator False (path @ s) segments
         | None \<Rightarrow> None)"

definition url_to_path_inner :: "url_crate \<Rightarrow> file_crates \<Rightarrow> url \<Rightarrow> string option" where
  "url_to_path_inner uc fc url =
     (if url_scheme uc url \<noteq> ''file'' then None
      else case url_path_segments uc url of
          None \<Rightarrow> None
        | Some segments \<Rightarrow>
            let host = (if url_host uc url = Some ''localhost'' then None else url_host uc url)
            in case host of
                Some host \<Rightarrow> push_segments fc [CHR 0x5C] True ([CHR 0x5C, CHR 0x5C] @ host @ [CHR 0x5C]) segments
              | None \<Rightarrow>
                  (case segments of
                     [] \<Rightarrow> None
                   | first # rest \<Rightarrow>
                       if first \<noteq> [] \<and> hd first = CHR ''.'' then None
                       else case is_windows_drive_letter_segment first of
                           Some drive_letter \<Rightarrow> push_segments fc [CHR 0x5C] True drive_letter rest
                         | None \<Rightarrow>
                             (case from_utf8 (percent_decode fc first) of
                                None \<Rightarrow> None
                              | Some decoded \<Rightarrow>
                                  if starts_with_windows_drive_letter decoded \<and> CHR 0x5C \<in> set decoded then Some decoded
                                  else push_segments fc ''/'' True (''/'' @ first @ ''/'') rest)))"

section \<open>From a path to a url\<close>

text \<open>The characters that are percent-encoded, besides everything beyond ASCII.\<close>

definition CONTROLS :: "char \<Rightarrow> bool" where
  "CONTROLS c \<longleftrightarrow> of_char c < (32 :: nat) \<or> of_char c = (127 :: nat)"

definition FRAGMENT :: "char \<Rightarrow> bool" where
  "FRAGMENT c \<longleftrightarrow> CONTROLS c \<or> c \<in> set [CHR '' '', CHR 0x22, CHR ''<'', CHR ''>'', CHR 0x60]"

definition PATH :: "char \<Rightarrow> bool" where
  "PATH c \<longleftrightarrow> FRAGMENT c \<or> c \<in> set ''#?{}''"

definition PATH_SEGMENT :: "char \<Rightarrow> bool" where
  "PATH_SEGMENT c \<longleftrightarrow> PATH c \<or> c \<in> set ''/%''"

datatype file_url_parse_error = NotAnAbsolutePath | InvalidUrl string

definition root_text :: "file_crates \<Rightarrow> typed_component list \<Rightarrow> file_url_parse_error + string" where
  "root_text fc components = (case components of
     TC_WindowsPrefix p # _ \<Rightarrow> (case p of
         WP_Disk letter \<Rightarrow> Inr (''file://'' @ ''/'' @ [letter] @ '':'')
       | WP_VerbatimDisk letter \<Rightarrow> Inr (''file://'' @ ''/'' @ [letter] @ '':'')
       | WP_UNC server share \<Rightarrow> (case host_parse fc server of
             None \<Rightarrow> Inl NotAnAbsolutePath
           | Some host \<Rightarrow> Inr (''file://'' @ host @ ''/'' @ percent_encode fc PATH_SEGMENT share))
       | WP_VerbatimUNC server share \<Rightarrow> (case host_parse fc server of
             None \<Rightarrow> Inl NotAnAbsolutePath
           | Some host \<Rightarrow> Inr (''file://'' @ host @ ''/'' @ percent_encode fc PATH_SEGMENT share))
       | WP_Other \<Rightarrow> Inl NotAnAbsolutePath)
   | TC_UnixRootDir # _ \<Rightarrow> Inr ''file://''
   | _ \<Rightarrow> Inl NotAnAbsolutePath)"

fun part_texts :: "typed_component list \<Rightarrow> string list" where
  "part_texts [] = []"
| "part_texts (TC_Part s # cs) = s # part_texts cs"
| "part_texts (_ # cs) = part_texts cs"

definition path_to_url :: "file_crates \<Rightarrow> string \<Rightarrow> file_url_parse_error + string" where
  "path_to_url fc path =
     (let components = typed_components fc path
      in case root_text fc components of
           Inl e \<Rightarrow> Inl e
         | Inr root \<Rightarrow>
             let parts = part_texts (drop 1 components);
                 result = root @ concat (map (\<lambda>component. ''/'' @ percent_encode fc PATH_SEGMENT component) parts);
                 host_start = length ''file://'' + 1
             in if length result > host_start \<and> is_windows_drive_letter (drop host_start result) \<and> parts = []
                then Inr (result @ ''/'') else Inr result)"

definition file_path_to_url :: "url_crate \<Rightarrow> file_crates \<Rightarrow> string \<Rightarrow> file_url_parse_error + url" where
  "file_path_to_url uc fc path = (case path_to_url fc path of
     Inl e \<Rightarrow> Inl e
   | Inr text \<Rightarrow> (case url_parse uc text of Inl e \<Rightarrow> Inl (InvalidUrl e) | Inr u \<Rightarrow> Inr u))"

text \<open>The url text of a directory ends with a slash; the \<open>expect\<close> on parsing it is a panic.\<close>

definition directory_path_to_url :: "url_crate \<Rightarrow> file_crates \<Rightarrow> string \<Rightarrow> (file_url_parse_error + url) rust" where
  "directory_path_to_url uc fc path = (case path_to_url fc path of
     Inl e \<Rightarrow> Done (Inl e)
   | Inr text \<Rightarrow>
       let text = (if text \<noteq> [] \<and> last text = CHR ''/'' then text else text @ ''/'')
       in case url_parse uc text of Inl _ \<Rightarrow> Panic | Inr u \<Rightarrow> Done (Inr u))"

section \<open>Round trip of absolute Unix paths\<close>

text \<open>
  A component survives the url parser unchanged when it is encoded: it is not empty, names no directory
  relative to another, and has no backslash, which the parser of \<open>file\<close> urls reads as a slash.
\<close>

definition url_safe_part :: "string \<Rightarrow> bool" where
  "url_safe_part c \<longleftrightarrow> c \<noteq> [] \<and> c \<noteq> ''.'' \<and> c \<noteq> ''..'' \<and> CHR 0x5C \<notin> set c \<and> utf8_valid c"

locale file_url_laws =
  fixes uc :: url_crate and fc :: file_crates
  assumes decode_encode: "percent_decode fc (percent_encode fc PATH_SEGMENT c) = c"
    and encode_plain: "list_all (\<lambda>x. of_char x < (128 :: nat) \<and> \<not> PATH_SEGMENT x) c \<Longrightarrow> percent_encode fc PATH_SEGMENT c = c"
    and encode_hd: "c \<noteq> [] \<Longrightarrow> \<not> PATH_SEGMENT (hd c) \<Longrightarrow> of_char (hd c) < (128 :: nat)
      \<Longrightarrow> percent_encode fc PATH_SEGMENT c \<noteq> [] \<and> hd (percent_encode fc PATH_SEGMENT c) = hd c"
    and encode_dot: "percent_encode fc PATH_SEGMENT c \<noteq> [] \<Longrightarrow> hd (percent_encode fc PATH_SEGMENT c) = CHR ''.'' \<Longrightarrow> c \<noteq> [] \<and> hd c = CHR ''.''"
    and file_url_parse: "parts \<noteq> [] \<Longrightarrow> list_all url_safe_part parts \<Longrightarrow> \<not> starts_with_windows_drive_letter (hd parts) \<Longrightarrow>
      \<exists>u. url_parse uc (''file://'' @ concat (map (\<lambda>c. ''/'' @ percent_encode fc PATH_SEGMENT c) parts)) = Inr u
        \<and> url_scheme uc u = ''file'' \<and> url_host uc u = None
        \<and> url_path_segments uc u = Some (map (percent_encode fc PATH_SEGMENT) parts)"

lemma drive_letter_length: "is_windows_drive_letter (drop 8 (''file:///'' @ s)) \<longleftrightarrow> is_windows_drive_letter s"
  by simp

lemma part_texts_parts: "part_texts (map TC_Part parts) = parts"
  by (induction parts) auto

context file_url_laws
begin

lemma push_encoded:
  "list_all url_safe_part parts \<Longrightarrow> push_segments fc sep False path (map (percent_encode fc PATH_SEGMENT) parts)
     = Some (path @ concat (map (\<lambda>c. sep @ c) parts))"
  by (induction parts arbitrary: path) (simp_all add: decode_encode from_utf8_def url_safe_part_def)

lemma push_encoded_first:
  assumes "list_all url_safe_part (c # parts)"
  shows "push_segments fc sep True path (map (percent_encode fc PATH_SEGMENT) (c # parts))
     = Some (path @ c @ concat (map (\<lambda>c. sep @ c) parts))"
  using assms push_encoded [of parts sep "path @ c"] by (simp add: decode_encode from_utf8_def url_safe_part_def)

lemma unix_path_to_url:
  assumes "typed_components fc path = TC_UnixRootDir # map TC_Part parts" "parts \<noteq> []"
  shows "path_to_url fc path = Inr (''file://'' @ concat (map (\<lambda>c. ''/'' @ percent_encode fc PATH_SEGMENT c) parts))"
  using assms by (simp add: path_to_url_def root_text_def part_texts_parts)

lemma unix_path_round_trip:
  assumes path: "typed_components fc path = TC_UnixRootDir # map TC_Part (c # d # parts)"
    and safe: "list_all url_safe_part (c # d # parts)"
    and drive: "\<not> starts_with_windows_drive_letter c" "is_windows_drive_letter_segment (percent_encode fc PATH_SEGMENT c) = None"
  shows "\<exists>u. file_path_to_url uc fc path = Inr u
    \<and> url_to_path_inner uc fc u = (if hd c = CHR ''.'' then None
        else Some (''/'' @ percent_encode fc PATH_SEGMENT c @ ''/'' @ d @ concat (map (\<lambda>x. CHR ''/'' # x) parts)))"
proof -
  obtain u where u: "url_parse uc (''file://'' @ concat (map (\<lambda>c. ''/'' @ percent_encode fc PATH_SEGMENT c) (c # d # parts))) = Inr u"
    "url_scheme uc u = ''file''" "url_host uc u = None"
    "url_path_segments uc u = Some (map (percent_encode fc PATH_SEGMENT) (c # d # parts))"
    using file_url_parse [of "c # d # parts"] safe drive(1) by (metis list.distinct(1) list.sel(1))
  have to_url: "file_path_to_url uc fc path = Inr u"
    by (simp only: file_path_to_url_def unix_path_to_url [OF path list.distinct(2)] u(1) sum.case)
  have c: "c \<noteq> []" "utf8_valid c" using safe by (simp_all add: url_safe_part_def)
  let ?e = "percent_encode fc PATH_SEGMENT c"
  have dot: "?e \<noteq> [] \<and> hd ?e = CHR ''.'' \<longleftrightarrow> hd c = CHR ''.''"
  proof
    assume "hd c = CHR ''.''"
    then show "?e \<noteq> [] \<and> hd ?e = CHR ''.''"
      using encode_hd [OF c(1)] by (simp add: PATH_SEGMENT_def PATH_def FRAGMENT_def CONTROLS_def)
  qed (use encode_dot in blast)
  have push: "push_segments fc ''/'' True (''/'' @ ?e @ ''/'') (map (percent_encode fc PATH_SEGMENT) (d # parts))
      = Some ((''/'' @ ?e @ ''/'') @ d @ concat (map (\<lambda>x. CHR ''/'' # x) parts))"
    using push_encoded_first [of d parts "''/''"] safe by simp
  have "url_to_path_inner uc fc u = (if hd c = CHR ''.'' then None
      else Some ((''/'' @ ?e @ ''/'') @ d @ concat (map (\<lambda>x. CHR ''/'' # x) parts)))"
    unfolding url_to_path_inner_def u(2-4) using dot drive c push
    by (simp add: decode_encode from_utf8_def)
  with to_url show ?thesis by simp
qed

end

section \<open>An instance\<close>

definition hex_digit :: "nat \<Rightarrow> char" where
  "hex_digit n = (if n < 10 then char_of (48 + n) else char_of (55 + n))"

definition hex_value :: "char \<Rightarrow> nat" where
  "hex_value c = (if (of_char c :: nat) < 58 then of_char c - 48 else of_char c - 55)"

definition encode_char :: "(char \<Rightarrow> bool) \<Rightarrow> char \<Rightarrow> string" where
  "encode_char P c = (if of_char c \<ge> (128 :: nat) \<or> P c
     then [CHR ''%'', hex_digit (of_char c div 16), hex_digit (of_char c mod 16)] else [c])"

definition encode_text :: "(char \<Rightarrow> bool) \<Rightarrow> string \<Rightarrow> string" where
  "encode_text P s = concat (map (encode_char P) s)"

fun decode_text :: "string \<Rightarrow> string" where
  "decode_text (c # a # b # s) =
     (if c = CHR ''%'' then char_of (16 * hex_value a + hex_value b) # decode_text s else c # decode_text (a # b # s))"
| "decode_text (c # s) = c # decode_text s"
| "decode_text [] = []"

definition unix_components :: "string \<Rightarrow> typed_component list" where
  "unix_components s =
     (let parts = map TC_Part (filter (\<lambda>p. p \<noteq> []) (split_char CHR ''/'' s))
      in if s \<noteq> [] \<and> hd s = CHR ''/'' then TC_UnixRootDir # parts else parts)"

definition plain_files :: file_crates where
  "plain_files = \<lparr>percent_encode = encode_text, percent_decode = decode_text, typed_components = unix_components,
     host_parse = (\<lambda>s. Some s)\<rparr>"

lemma of_char_below: "of_char c < (256 :: nat)"
  by (cases c) (auto simp: of_char_def split: if_splits)

lemma hex_value_digit: "n < 16 \<Longrightarrow> hex_value (hex_digit n) = n"
  by (simp add: hex_value_def hex_digit_def of_char_of)

lemma decode_char: "c \<noteq> CHR ''%'' \<Longrightarrow> decode_text (c # s) = c # decode_text s"
  by (cases s rule: remdups_adj.cases) auto

lemma decode_encode_text: "P CHR ''%'' \<Longrightarrow> decode_text (encode_text P s) = s"
proof (induction s)
  case (Cons c s)
  have c: "of_char c < (256 :: nat)" by (rule of_char_below)
  have "16 * (of_char c div 16) + of_char c mod 16 = (of_char c :: nat)" by simp
  then have esc: "char_of (16 * hex_value (hex_digit (of_char c div 16)) + hex_value (hex_digit (of_char c mod 16))) = c"
    using c by (simp add: hex_value_digit div_less_iff_less_mult)
  show ?case
  proof (cases "of_char c \<ge> (128 :: nat) \<or> P c")
    case True
    then show ?thesis using Cons esc by (simp add: encode_text_def encode_char_def)
  next
    case False
    then have "c \<noteq> CHR ''%''" using Cons.prems by auto
    then show ?thesis using False Cons by (simp add: encode_text_def encode_char_def decode_char)
  qed
qed (simp add: encode_text_def)

lemma of_hex_digit: "n < 16 \<Longrightarrow> of_char (hex_digit n) = (if n < 10 then 48 + n else 55 + n)"
  by (simp add: hex_digit_def of_char_of)

lemma hex_digit_avoids: "n < 16 \<Longrightarrow> hex_digit n \<notin> set ''#?/''"
  using of_hex_digit [of n] by (auto split: if_splits)

lemma encode_char_avoids:
  assumes "P CHR ''#''" "P CHR ''?''" "P CHR ''/''"
  shows "set (encode_char P c) \<inter> set ''#?/'' = {}"
proof (cases "of_char c \<ge> (128 :: nat) \<or> P c")
  case True
  have "of_char c div 16 < (16 :: nat)" "of_char c mod 16 < (16 :: nat)"
    using of_char_below [of c] by (simp_all add: div_less_iff_less_mult)
  then show ?thesis using True hex_digit_avoids by (simp add: encode_char_def)
next
  case False
  then show ?thesis using assms by (auto simp: encode_char_def)
qed

lemma encode_text_avoids: "P CHR ''#'' \<Longrightarrow> P CHR ''?'' \<Longrightarrow> P CHR ''/'' \<Longrightarrow> text_avoids ''#?/'' (encode_text P s)"
  using encode_char_avoids [of P] by (fastforce simp: encode_text_def text_avoids_iff)

lemma slashes_join: "cs \<noteq> [] \<Longrightarrow> concat (map (\<lambda>c. ''/'' @ f c) cs) = CHR ''/'' # join_with ''/'' (map f cs)"
proof (induction cs)
  case (Cons c cs)
  then show ?case by (cases cs) simp_all
qed simp

interpretation plain_files: file_url_laws plain_urls plain_files
proof
  fix c :: string and parts :: "string list"
  have seg: "PATH_SEGMENT CHR ''%''" "PATH_SEGMENT CHR ''#''" "PATH_SEGMENT CHR ''?''" "PATH_SEGMENT CHR ''/''"
    by (simp_all add: PATH_SEGMENT_def PATH_def)
  show "percent_decode plain_files (percent_encode plain_files PATH_SEGMENT c) = c"
    using seg by (simp add: plain_files_def decode_encode_text)
  show "percent_encode plain_files PATH_SEGMENT c = c" if "list_all (\<lambda>x. of_char x < (128 :: nat) \<and> \<not> PATH_SEGMENT x) c"
    using that by (induction c) (auto simp: plain_files_def encode_text_def encode_char_def)
  show "percent_encode plain_files PATH_SEGMENT c \<noteq> [] \<and> hd (percent_encode plain_files PATH_SEGMENT c) = hd c"
    if "c \<noteq> []" "\<not> PATH_SEGMENT (hd c)" "of_char (hd c) < (128 :: nat)"
    using that by (cases c) (simp_all add: plain_files_def encode_text_def encode_char_def)
  show "c \<noteq> [] \<and> hd c = CHR ''.''"
    if "percent_encode plain_files PATH_SEGMENT c \<noteq> []" "hd (percent_encode plain_files PATH_SEGMENT c) = CHR ''.''"
    using that by (cases c) (auto simp: plain_files_def encode_text_def encode_char_def split: if_splits)
  assume "parts \<noteq> []"
  let ?segs = "map (encode_text PATH_SEGMENT) parts"
  let ?p = "\<lparr>up_scheme = ''file'', up_username = [], up_password = None, up_host = [], up_segments = ?segs,
    up_query = None, up_fragment = None\<rparr>"
  have "parts_ok ?p"
    using encode_text_avoids [OF seg(2-4)] \<open>parts \<noteq> []\<close>
    by (simp add: parts_ok_def list_all_iff) (simp add: text_avoids_def)
  moreover have "unparse_url ?p = ''file://'' @ concat (map (\<lambda>c. ''/'' @ encode_text PATH_SEGMENT c) parts)"
    unfolding slashes_join [OF \<open>parts \<noteq> []\<close>] by (simp add: unparse_url_def userinfo_text_def join_opt_def)
  ultimately have "plain_url (''file://'' @ concat (map (\<lambda>c. ''/'' @ encode_text PATH_SEGMENT c) parts))"
    "parse_url (''file://'' @ concat (map (\<lambda>c. ''/'' @ encode_text PATH_SEGMENT c) parts)) = ?p"
    using plain_url_unparse [of ?p] by simp_all
  then show "\<exists>u. url_parse plain_urls (''file://'' @ concat (map (\<lambda>c. ''/'' @ percent_encode plain_files PATH_SEGMENT c) parts)) = Inr u
        \<and> url_scheme plain_urls u = ''file'' \<and> url_host plain_urls u = None
        \<and> url_path_segments plain_urls u = Some (map (percent_encode plain_files PATH_SEGMENT) parts)"
    by (simp add: plain_files_def plain_urls_def)
qed

section \<open>Properties\<close>

text \<open>
  C33. Take an absolute Unix path of two or more components, each valid UTF-8 without a backslash and none of them
  \<open>.\<close> or \<open>..\<close>, whose first component neither starts like a Windows drive letter
  (\<open>c:\<close> or \<open>c|\<close> at its end or in front of \<open>?\<close> or \<open>#\<close>) nor is one
  after percent-encoding. Under the laws of the url and percent-encoding crates, converting it to a url and back
  gives the path with its first component still percent-encoded, and gives nothing when the first component starts
  with a dot. So the path comes back exactly when its first component needs no encoding and does not start with a
  dot.
\<close>

theorem file_url_round_trip:
  assumes "file_url_laws uc fc"
    and "typed_components fc path = TC_UnixRootDir # map TC_Part (c # d # parts)" "list_all url_safe_part (c # d # parts)"
    and "\<not> starts_with_windows_drive_letter c" "is_windows_drive_letter_segment (percent_encode fc PATH_SEGMENT c) = None"
  shows "\<exists>u. file_path_to_url uc fc path = Inr u
    \<and> url_to_path_inner uc fc u = (if hd c = CHR ''.'' then None
        else Some (''/'' @ percent_encode fc PATH_SEGMENT c @ ''/'' @ d @ concat (map (\<lambda>x. CHR ''/'' # x) parts)))
    \<and> (url_to_path_inner uc fc u = Some (concat (map (\<lambda>x. CHR ''/'' # x) (c # d # parts)))
        \<longleftrightarrow> hd c \<noteq> CHR ''.'' \<and> percent_encode fc PATH_SEGMENT c = c)"
  using file_url_laws.unix_path_round_trip [OF assms] by auto

theorem file_url_round_trip_witness:
  "\<exists>u. file_path_to_url plain_urls plain_files ''/a b/c d'' = Inr u \<and> url_to_path_inner plain_urls plain_files u = Some ''/a%20b/c d''"
proof -
  have "typed_components plain_files ''/a b/c d'' = TC_UnixRootDir # map TC_Part [''a b'', ''c d'']"
    "list_all url_safe_part [''a b'', ''c d'']" "\<not> starts_with_windows_drive_letter ''a b''"
    "is_windows_drive_letter_segment (percent_encode plain_files PATH_SEGMENT ''a b'') = None"
    "percent_encode plain_files PATH_SEGMENT ''a b'' = ''a%20b''"
    by code_simp+
  then show ?thesis
    using file_url_round_trip [OF plain_files.file_url_laws_axioms, of "''/a b/c d''" "''a b''" "''c d''" "[]"] by auto
qed

end
