(* ===== verification/Channel.thy ===== *)
theory Channel
  imports File_Url Subdir
begin

text \<open>
  Channels and the resolution of channel names (\<open>rattler_conda_types/src/channel/mod.rs\<close>,
  \<open>channel/channel_url.rs\<close>, \<open>utils/path.rs\<close>, \<open>utils/url.rs\<close>). Besides the \<open>url\<close> crate and the crates of file
  urls, the parameters are the operations of \<open>typed_path\<close>, the home directory, the file system's
  \<open>canonicalize\<close> and the Unicode tables of letters and numbers.
\<close>

section \<open>Schemes and paths\<close>

definition parse_scheme :: "unicode_tables \<Rightarrow> string \<Rightarrow> string option" where
  "parse_scheme ut channel = (case str_find channel ''://'' of
     None \<Rightarrow> None
   | Some scheme_end \<Rightarrow>
       if scheme_end > 11 then None
       else let scheme_part = take scheme_end channel
            in case chars scheme_part of
                 [] \<Rightarrow> None
               | c # cs \<Rightarrow> if is_alphabetic ut c \<and> list_all (is_alphanumeric ut) cs then Some scheme_part else None)"

definition is_path :: "unicode_tables \<Rightarrow> string \<Rightarrow> bool" where
  "is_path ut path \<longleftrightarrow>
     (if contains_str path ''://'' then False
      else if list_ex (\<lambda>p. strip_prefix p path \<noteq> None) [''./'', ''..'', ''~/'', ''/'', [CHR 0x5C, CHR 0x5C], ''//''] then True
      else case take 3 (chars path) of
          [letter, colon, slash] \<Rightarrow> colon = '':'' \<and> (slash = ''/'' \<or> slash = [CHR 0x5C]) \<and> is_alphabetic ut letter
        | _ \<Rightarrow> False)"

definition is_absolute_path :: "unicode_tables \<Rightarrow> string \<Rightarrow> bool" where
  "is_absolute_path ut path \<longleftrightarrow>
     (if contains_str path ''://'' then False
      else if list_ex (\<lambda>p. strip_prefix p path \<noteq> None) [''/'', [CHR 0x5C, CHR 0x5C]] then True
      else case take 3 (chars path) of
          [letter, colon, slash] \<Rightarrow> colon = '':'' \<and> (slash = ''/'' \<or> slash = [CHR 0x5C]) \<and> is_alphabetic ut letter
        | _ \<Rightarrow> False)"

section \<open>The surroundings\<close>

record channel_env =
  ce_url :: url_crate
  ce_file :: file_crates
  ce_unicode :: unicode_tables
  tp_is_absolute :: "string \<Rightarrow> bool"
  tp_normalize :: "string \<Rightarrow> string"
  tp_strip_prefix :: "string \<Rightarrow> string \<Rightarrow> string option"
  tp_join :: "string \<Rightarrow> string \<Rightarrow> string"
  home_dir :: "string option"
  canonicalize :: "string \<Rightarrow> string + string"
  url_from_directory_path :: "string \<Rightarrow> url option"

record channel_config =
  channel_alias :: url
  root_dir :: string

definition DEFAULT_CHANNEL_ALIAS :: string where
  "DEFAULT_CHANNEL_ALIAS = ''https://conda.anaconda.org''"

definition default_with_root_dir :: "url_crate \<Rightarrow> string \<Rightarrow> channel_config rust" where
  "default_with_root_dir uc root = (case url_parse uc DEFAULT_CHANNEL_ALIAS of
     Inr u \<Rightarrow> Done \<lparr>channel_alias = u, root_dir = root\<rparr> | Inl _ \<Rightarrow> Panic)"

definition strip_channel_alias :: "channel_config \<Rightarrow> url \<Rightarrow> string option" where
  "strip_channel_alias config base_url = (case strip_prefix (channel_alias config) base_url of
     None \<Rightarrow> None
   | Some s \<Rightarrow> let name = trim_matches CHR ''/'' s in if name \<noteq> [] then Some name else None)"

definition config_canonical_name :: "url_crate \<Rightarrow> channel_config \<Rightarrow> url \<Rightarrow> string" where
  "config_canonical_name uc config base_url = (case strip_channel_alias config base_url of
     Some stripped \<Rightarrow> stripped | None \<Rightarrow> url_redact uc base_url)"

datatype parse_channel_error =
  ParseSubdirError parse_subdir_error
| ParseUrlError string
| InvalidPath string
| InvalidChannelName string
| NonAbsoluteRootDir string
| NotUtf8RootDir string

definition absolute_path :: "channel_env \<Rightarrow> string \<Rightarrow> string \<Rightarrow> parse_channel_error + string" where
  "absolute_path env path root =
     (if tp_is_absolute env path then Inr (tp_normalize env path)
      else case tp_strip_prefix env path ''~/'' of
          Some user_path \<Rightarrow>
            (case home_dir env of
               None \<Rightarrow> Inl (InvalidPath path)
             | Some home \<Rightarrow> (case from_utf8 home of
                 None \<Rightarrow> Inl (NotUtf8RootDir path)
               | Some h \<Rightarrow> Inr (tp_normalize env (tp_join env h user_path))))
        | None \<Rightarrow>
            (case from_utf8 root of
               None \<Rightarrow> Inl (NotUtf8RootDir root)
             | Some r \<Rightarrow> if \<not> tp_is_absolute env r then Inl (NonAbsoluteRootDir root)
                         else Inr (tp_normalize env (tp_join env r path))))"

section \<open>Channels\<close>

record channel =
  ch_platforms :: "subdir list option"
  ch_base_url :: url
  ch_name :: "string option"

definition some_name :: "string \<Rightarrow> string option" where
  "some_name name = (if name \<noteq> [] then Some name else None)"

definition channel_from_url :: "url_crate \<Rightarrow> url \<Rightarrow> channel" where
  "channel_from_url uc u =
     (let url = url_with_trailing_slash uc u;
          path = trim_end_matches CHR ''/'' (url_path uc url);
          name = (if url_host uc url \<noteq> None then trim_start_matches CHR ''/'' path
                  else case rsplit_once CHR ''/'' path of None \<Rightarrow> path | Some (_, path_part) \<Rightarrow> path_part)
      in \<lparr>ch_platforms = None, ch_base_url = url, ch_name = some_name name\<rparr>)"

definition try_from_name :: "url_crate \<Rightarrow> string \<Rightarrow> channel_config \<Rightarrow> channel option" where
  "try_from_name uc name config =
     (let dir_name = (if name \<noteq> [] \<and> last name = CHR ''/'' then name else name @ ''/'');
          name = trim_end_matches CHR ''/'' name
      in case url_join uc (channel_alias config) dir_name of
           None \<Rightarrow> None
         | Some u \<Rightarrow> Some \<lparr>ch_platforms = None, ch_base_url = url_with_trailing_slash uc u, ch_name = some_name name\<rparr>)"

definition from_name :: "url_crate \<Rightarrow> string \<Rightarrow> channel_config \<Rightarrow> channel rust" where
  "from_name uc name config = expect (try_from_name uc name config)"

fun parse_subdirs :: "string list \<Rightarrow> parse_subdir_error + subdir list" where
  "parse_subdirs [] = Inr []"
| "parse_subdirs (s # ss) = (case subdir_from_str s of
     Inl e \<Rightarrow> Inl e
   | Inr p \<Rightarrow> (case parse_subdirs ss of Inl e \<Rightarrow> Inl e | Inr ps \<Rightarrow> Inr (p # ps)))"

definition parse_platforms :: "string \<Rightarrow> parse_subdir_error + (subdir list option \<times> string)" where
  "parse_platforms channel =
     (case strip_suffix '']'' channel of
        None \<Rightarrow> Inr (None, channel)
      | Some channel_without_suffix \<Rightarrow>
          (case rsplit_once CHR ''['' channel_without_suffix of
             None \<Rightarrow> Inr (None, channel)
           | Some (before, platform_part) \<Rightarrow>
               (case parse_subdirs (filter (\<lambda>s. s \<noteq> []) (map trim (split_char CHR '','' platform_part))) of
                  Inl e \<Rightarrow> Inl e
                | Inr platforms \<Rightarrow> Inr (if platforms = [] then None else Some platforms, before))))"

definition channel_from_str :: "channel_env \<Rightarrow> string \<Rightarrow> channel_config \<Rightarrow> (parse_channel_error + channel) rust" where
  "channel_from_str env s config =
     (case parse_platforms s of
        Inl e \<Rightarrow> Done (Inl (ParseSubdirError e))
      | Inr (platforms, channel) \<Rightarrow>
          if parse_scheme (ce_unicode env) channel \<noteq> None then
            (case url_parse (ce_url env) channel of
               Inl e \<Rightarrow> Done (Inl (ParseUrlError e))
             | Inr url \<Rightarrow>
                 let name = strip_channel_alias config url;
                     base_channel = channel_from_url (ce_url env) url
                 in Done (Inr \<lparr>ch_platforms = platforms, ch_base_url = ch_base_url base_channel,
                      ch_name = (case name of Some n \<Rightarrow> Some n | None \<Rightarrow> ch_name base_channel)\<rparr>))
          else if is_path (ce_unicode env) channel then
            (case absolute_path env channel (root_dir config) of
               Inl e \<Rightarrow> Done (Inl e)
             | Inr p \<Rightarrow> (case directory_path_to_url (ce_url env) (ce_file env) p of
                   Panic \<Rightarrow> Panic
                 | Done (Inl _) \<Rightarrow> Done (Inl (InvalidPath channel))
                 | Done (Inr url) \<Rightarrow> Done (Inr \<lparr>ch_platforms = platforms,
                     ch_base_url = url_with_trailing_slash (ce_url env) url, ch_name = Some channel\<rparr>)))
          else if list_ex (\<lambda>c. c \<in> set [CHR '':'', CHR 0x5C, CHR ''['', CHR '']'']) channel then Done (Inl (InvalidChannelName channel))
          else (case try_from_name (ce_url env) channel config of
                  None \<Rightarrow> Done (Inl (InvalidChannelName channel))
                | Some base \<Rightarrow> Done (Inr (base\<lparr>ch_platforms := platforms\<rparr>))))"

definition with_explicit_platforms :: "channel \<Rightarrow> subdir list \<Rightarrow> channel" where
  "with_explicit_platforms c platforms = c\<lparr>ch_platforms := Some platforms\<rparr>"

text \<open>A path is absolute on Unix when it starts with a slash.\<close>

definition try_from_directory :: "channel_env \<Rightarrow> string \<Rightarrow> parse_channel_error + channel" where
  "try_from_directory env path =
     (case (if path \<noteq> [] \<and> hd path = CHR ''/'' then Inr path else canonicalize env path) of
        Inl err \<Rightarrow> Inl (InvalidPath (path @ '': '' @ err))
      | Inr p \<Rightarrow> (case url_from_directory_path env p of
          None \<Rightarrow> Inl (InvalidPath p)
        | Some url \<Rightarrow> Inr \<lparr>ch_platforms = None, ch_base_url = url_with_trailing_slash (ce_url env) url, ch_name = None\<rparr>))"

definition from_directory :: "channel_env \<Rightarrow> string \<Rightarrow> channel rust" where
  "from_directory env path = (case try_from_directory env path of Inr c \<Rightarrow> Done c | Inl _ \<Rightarrow> Panic)"

definition channel_display_name :: "url_crate \<Rightarrow> channel \<Rightarrow> string" where
  "channel_display_name uc c =
     (if url_scheme uc (ch_base_url c) = ''https'' \<or> url_scheme uc (ch_base_url c) = ''http''
      then (case ch_name c of Some n \<Rightarrow> n | None \<Rightarrow> ch_base_url c)
      else ch_base_url c)"

definition channel_platform_url :: "url_crate \<Rightarrow> channel \<Rightarrow> subdir \<Rightarrow> url rust" where
  "channel_platform_url uc c platform = expect (url_join uc (ch_base_url c) (subdir_as_str platform @ ''/''))"

definition default_platforms :: "build_target \<Rightarrow> subdir list compiled" where
  "default_platforms bt = (case subdir_current bt of
     Compile_Error \<Rightarrow> Compile_Error
   | Compiled (Some current) \<Rightarrow> Compiled [current, NoArch]
   | Compiled None \<Rightarrow> Compiled [NoArch])"

definition platforms_or_default :: "build_target \<Rightarrow> channel \<Rightarrow> subdir list compiled" where
  "platforms_or_default bt c = (case ch_platforms c of Some platforms \<Rightarrow> Compiled platforms | None \<Rightarrow> default_platforms bt)"

fun platform_urls :: "url_crate \<Rightarrow> channel \<Rightarrow> subdir list \<Rightarrow> (subdir \<times> url) list rust" where
  "platform_urls uc c [] = Done []"
| "platform_urls uc c (p # ps) = rust_bind (channel_platform_url uc c p) (\<lambda>u.
     rust_bind (platform_urls uc c ps) (\<lambda>rest. Done ((p, u) # rest)))"

definition platforms_url :: "build_target \<Rightarrow> url_crate \<Rightarrow> channel \<Rightarrow> (subdir \<times> url) list rust compiled" where
  "platforms_url bt uc c = (case platforms_or_default bt c of
     Compile_Error \<Rightarrow> Compile_Error | Compiled platforms \<Rightarrow> Compiled (platform_urls uc c platforms))"

definition channel_canonical_name :: "url_crate \<Rightarrow> channel \<Rightarrow> string" where
  "channel_canonical_name uc c = url_redact uc (ch_base_url c)"

section \<open>\<open>NamedChannelOrUrl\<close>\<close>

datatype named_channel_or_url = NC_Name string | NC_Url url | NC_Path string

fun named_as_str :: "named_channel_or_url \<Rightarrow> string" where
  "named_as_str (NC_Name name) = name"
| "named_as_str (NC_Url url) = trim_end_matches CHR ''/'' url"
| "named_as_str (NC_Path path) = path"

definition named_from_str :: "channel_env \<Rightarrow> string \<Rightarrow> string + named_channel_or_url" where
  "named_from_str env s =
     (if parse_scheme (ce_unicode env) s \<noteq> None then
        (case url_parse (ce_url env) s of Inl e \<Rightarrow> Inl e | Inr u \<Rightarrow> Inr (NC_Url u))
      else if is_path (ce_unicode env) s then Inr (NC_Path s)
      else Inr (NC_Name s))"

fun push_all :: "url_crate \<Rightarrow> string list \<Rightarrow> url \<Rightarrow> url" where
  "push_all uc [] u = u"
| "push_all uc (s # ss) u = push_all uc ss (url_push_segment uc u s)"

definition into_base_url :: "channel_env \<Rightarrow> named_channel_or_url \<Rightarrow> channel_config \<Rightarrow> (parse_channel_error + url) rust" where
  "into_base_url env n config = (case n of
     NC_Name name \<Rightarrow>
       let alias = channel_alias config;
           base_url = (if url_path_segments (ce_url env) alias \<noteq> None
             then push_all (ce_url env) (concat (map (split_char CHR 0x5C) (split_char CHR ''/'' name))) alias else alias)
       in Done (Inr (url_with_trailing_slash (ce_url env) base_url))
   | NC_Url url \<Rightarrow> Done (Inr (url_with_trailing_slash (ce_url env) url))
   | NC_Path path \<Rightarrow>
       (case absolute_path env path (root_dir config) of
          Inl e \<Rightarrow> Done (Inl e)
        | Inr p \<Rightarrow> (case directory_path_to_url (ce_url env) (ce_file env) p of
              Panic \<Rightarrow> Panic
            | Done (Inl _) \<Rightarrow> Done (Inl (InvalidPath path))
            | Done (Inr url) \<Rightarrow> Done (Inr (url_with_trailing_slash (ce_url env) url)))))"

definition into_channel :: "channel_env \<Rightarrow> named_channel_or_url \<Rightarrow> channel_config \<Rightarrow> (parse_channel_error + channel) rust" where
  "into_channel env n config =
     (let name = (case n of
            NC_Name name \<Rightarrow> Some name
          | NC_Url base_url \<Rightarrow> strip_channel_alias config base_url
          | NC_Path _ \<Rightarrow> None)
      in case into_base_url env n config of
           Panic \<Rightarrow> Panic
         | Done (Inl e) \<Rightarrow> Done (Inl e)
         | Done (Inr base_url) \<Rightarrow> Done (Inr \<lparr>ch_platforms = None, ch_base_url = base_url, ch_name = name\<rparr>))"

end
