(* ===== verification/Channel_Properties.thy ===== *)
theory Channel_Properties
  imports Channel
begin

text \<open>
  Properties of channels: platform selectors round-trip, base urls end with a slash whatever a channel is
  made from, and the name of a channel, its url and the two ways to resolve a name agree. The locales
  \<open>channel_laws\<close> and \<open>channel_name_laws\<close> state what is used of the \<open>url\<close> crate.
\<close>

section \<open>Platform selectors\<close>

definition selector_text :: "subdir list \<Rightarrow> string" where
  "selector_text platforms = ''['' @ join_with '','' (map subdir_as_str platforms) @ '']''"

lemma subdir_text_plain:
  "subdir_as_str p \<noteq> [] \<and> \<not> contains_space (subdir_as_str p) \<and> text_avoids ''[],'' (subdir_as_str p)"
proof -
  have "list_all (\<lambda>p. subdir_as_str p \<noteq> [] \<and> \<not> contains_space (subdir_as_str p) \<and> text_avoids ''[],'' (subdir_as_str p)) subdir_all"
    by code_simp
  moreover have "p \<in> set subdir_all" by (cases p) (simp_all add: subdir_all_def)
  ultimately show ?thesis by (simp add: list_all_iff)
qed

lemma parse_subdirs_texts: "parse_subdirs (map subdir_as_str ps) = Inr ps"
  by (induction ps) (simp_all add: subdir_from_str_iff [THEN iffD2, OF refl])

lemma trim_subdir: "trim (subdir_as_str p) = subdir_as_str p"
  using subdir_text_plain [of p] no_space_ends by (simp add: trim_id)

lemma selected_platforms:
  assumes "ps \<noteq> []"
  shows "filter (\<lambda>s. s \<noteq> []) (map trim (split_char CHR '','' (join_with '','' (map subdir_as_str ps)))) = map subdir_as_str ps"
proof -
  have "split_char CHR '','' (join_with '','' (map subdir_as_str ps)) = map subdir_as_str ps"
    using assms subdir_text_plain by (intro split_char_join) (auto simp: text_avoids_iff)
  then show ?thesis using subdir_text_plain by (simp add: trim_subdir comp_def)
qed

lemma parse_selector: "ps \<noteq> [] \<Longrightarrow> parse_platforms (s @ selector_text ps) = Inr (Some ps, s)"
proof -
  assume ps: "ps \<noteq> []"
  let ?t = "join_with '','' (map subdir_as_str ps)"
  have "CHR ''['' \<notin> set ?t"
    using set_join_with [of "'',''" "map subdir_as_str ps"] subdir_text_plain by (fastforce simp: text_avoids_iff)
  then have "rsplit_once CHR ''['' (s @ ''['' @ ?t) = Some (s, ?t)" by (simp add: rsplit_once_Some_iff)
  moreover have "strip_suffix '']'' (s @ selector_text ps) = Some (s @ ''['' @ ?t)"
    by (simp add: selector_text_def)
  ultimately show ?thesis
    by (simp only: parse_platforms_def option.case prod.case selected_platforms [OF ps] parse_subdirs_texts sum.case) (simp add: ps)
qed

lemma parse_no_selector: "s = [] \<or> last s \<noteq> CHR '']'' \<Longrightarrow> parse_platforms s = Inr (None, s)"
  by (cases "strip_suffix '']'' s") (auto simp: parse_platforms_def)

section \<open>Base urls\<close>

definition ends_with_slash :: "url_crate \<Rightarrow> url \<Rightarrow> bool" where
  "ends_with_slash uc u \<longleftrightarrow> url_path uc u \<noteq> [] \<and> last (url_path uc u) = CHR ''/''"

locale channel_laws =
  fixes uc :: url_crate and is_url :: "url \<Rightarrow> bool"
  assumes parse_is_url: "url_parse uc s = Inr u \<Longrightarrow> is_url u"
    and join_is_url: "is_url u \<Longrightarrow> url_join uc u r = Some v \<Longrightarrow> is_url v"
    and push_is_url: "is_url u \<Longrightarrow> is_url (url_push_segment uc u segment)"
    and add_slash: "is_url u \<Longrightarrow> ends_with_slash uc (url_set_path uc u (url_path uc u @ ''/''))"

text \<open>
  A segment that stands for itself in a url, as no character of it is reserved or encoded and it is no dot
  segment; and what the crate does with such segments below a base url, one whose text ends with the slash of
  its path: a url parses to itself, and joining, pushing and setting the path append the text. Pushing a segment onto a
  path that ends with a slash and is not the root keeps the empty segment behind that slash.
\<close>

definition plain_segment_char :: "char \<Rightarrow> bool" where
  "plain_segment_char c \<longleftrightarrow> is_ascii_alphabetic c \<or> is_ascii_digit c \<or> c \<in> set ''-_.''"

definition plain_segment :: "string \<Rightarrow> bool" where
  "plain_segment s \<longleftrightarrow> s \<noteq> [] \<and> hd s \<noteq> CHR ''.'' \<and> list_all plain_segment_char s"

locale channel_name_laws = channel_laws +
  fixes is_base :: "url \<Rightarrow> bool"
  assumes parse_self: "is_url u \<Longrightarrow> url_parse uc u = Inr u"
    and below_is_url: "is_base u \<Longrightarrow> list_all plain_segment ss \<Longrightarrow> ss \<noteq> [] \<Longrightarrow> is_url (u @ join_with ''/'' ss @ ''/'')"
    and below_path: "is_base u \<Longrightarrow> list_all plain_segment ss \<Longrightarrow> ss \<noteq> [] \<Longrightarrow> t = [] \<or> t = ''/''
      \<Longrightarrow> url_path uc (u @ join_with ''/'' ss @ t) = url_path uc u @ join_with ''/'' ss @ t"
    and base_segments: "is_base u \<Longrightarrow> url_path_segments uc u \<noteq> None"
    and join_below: "is_base u \<Longrightarrow> list_all plain_segment ss \<Longrightarrow> ss \<noteq> []
      \<Longrightarrow> url_join uc u (join_with ''/'' ss @ ''/'') = Some (u @ join_with ''/'' ss @ ''/'')"
    and push_root: "is_base u \<Longrightarrow> url_path uc u = ''/'' \<Longrightarrow> plain_segment s \<Longrightarrow> url_push_segment uc u s = u @ s"
    and push_directory: "is_base u \<Longrightarrow> url_path uc u \<noteq> ''/'' \<Longrightarrow> plain_segment s
      \<Longrightarrow> is_base (u @ ''/'') \<and> url_push_segment uc u s = u @ ''/'' @ s"
    and push_below: "is_base u \<Longrightarrow> list_all plain_segment (ss @ [s]) \<Longrightarrow> ss \<noteq> []
      \<Longrightarrow> url_push_segment uc (u @ join_with ''/'' ss) s = u @ join_with ''/'' (ss @ [s])"
    and set_path_below: "is_base u \<Longrightarrow> list_all plain_segment ss \<Longrightarrow> ss \<noteq> []
      \<Longrightarrow> url_set_path uc (u @ join_with ''/'' ss) (url_path uc u @ join_with ''/'' ss @ ''/'') = u @ join_with ''/'' ss @ ''/''"

section \<open>Names\<close>

lemma plain_segment_char_not [simp]:
  "\<not> plain_segment_char CHR '':''" "\<not> plain_segment_char CHR 0x5C" "\<not> plain_segment_char CHR ''[''"
  "\<not> plain_segment_char CHR '']''" "\<not> plain_segment_char CHR ''/''" "\<not> plain_segment_char CHR ''~''"
  "\<not> plain_segment_char CHR ''#''" "\<not> plain_segment_char CHR ''?''"
  by code_simp+

lemma plain_segmentD:
  assumes "plain_segment s"
  shows "s \<noteq> []" "hd s \<noteq> CHR ''.''" "plain_segment_char (hd s)" "plain_segment_char (last s)" "\<not> plain_segment_char c \<Longrightarrow> c \<notin> set s"
  using assms by (auto simp: plain_segment_def list_all_iff)

lemma plain_name_shape:
  assumes "list_all plain_segment ss" "ss \<noteq> []"
  shows "join_with ''/'' ss \<noteq> []" "hd (join_with ''/'' ss) \<noteq> CHR ''.''" "plain_segment_char (hd (join_with ''/'' ss))"
    "plain_segment_char (last (join_with ''/'' ss))"
proof -
  have "join_with ''/'' ss \<noteq> [] \<and> hd (join_with ''/'' ss) \<noteq> CHR ''.'' \<and> plain_segment_char (hd (join_with ''/'' ss))
      \<and> plain_segment_char (last (join_with ''/'' ss))"
    using assms
  proof (induction ss)
    case (Cons s ss)
    then show ?case using plain_segmentD [of s] by (cases ss) auto
  qed simp
  then show "join_with ''/'' ss \<noteq> []" "hd (join_with ''/'' ss) \<noteq> CHR ''.''" "plain_segment_char (hd (join_with ''/'' ss))"
    "plain_segment_char (last (join_with ''/'' ss))" by blast+
qed

lemma plain_name_chars:
  assumes "list_all plain_segment ss" "c \<in> set (join_with ''/'' ss)"
  shows "plain_segment_char c \<or> c = CHR ''/''"
  using assms set_join_with [of "''/''" ss] by (fastforce simp: plain_segment_def list_all_iff)

lemma str_find_append: "str_find a n = Some i \<Longrightarrow> str_find (a @ b) n = Some i"
  by (auto simp: str_find_Some_iff occurs_at_def)

lemma parse_scheme_append:
  assumes "parse_scheme ut a \<noteq> None"
  shows "parse_scheme ut (a @ b) \<noteq> None"
proof (cases "str_find a ''://''")
  case (Some i)
  then have "take i (a @ b) = take i a" by (auto simp: str_find_Some_iff occurs_at_def)
  then have "parse_scheme ut (a @ b) = parse_scheme ut a"
    by (simp only: parse_scheme_def Some str_find_append [OF Some] option.case)
  with assms show ?thesis by simp
qed (use assms in \<open>simp add: parse_scheme_def\<close>)

lemma plain_ascii: "plain_segment_char c \<or> c = CHR ''/'' \<Longrightarrow> of_char c < (128 :: nat)"
  by (auto simp: plain_segment_char_def is_ascii_alphabetic_def is_ascii_lowercase_def is_ascii_uppercase_def is_ascii_digit_def)

lemma chars_of_ascii: "list_all (\<lambda>c. of_char c < (128 :: nat)) s \<Longrightarrow> chars s = map (\<lambda>c. [c]) s"
  by (induction s) (simp_all add: chars_ascii del: chars.simps(2))

text \<open>A plain name is neither a url nor a path and has no character that a name may not have.\<close>

lemma plain_name_is_name:
  assumes "list_all plain_segment ss" "ss \<noteq> []"
  shows "parse_scheme ut (join_with ''/'' ss) = None" "\<not> is_path ut (join_with ''/'' ss)"
    "\<not> list_ex (\<lambda>c. c \<in> set [CHR '':'', CHR 0x5C, CHR ''['', CHR '']'']) (join_with ''/'' ss)"
proof -
  let ?n = "join_with ''/'' ss"
  note chars = plain_name_chars [OF assms(1)] and shape = plain_name_shape [OF assms]
  have colon: "CHR '':'' \<notin> set ?n" using chars by fastforce
  have none: "str_find ?n ''://'' = None"
  proof (cases "str_find ?n ''://''")
    case (Some i)
    then have "take 3 (drop i ?n) = ''://''" by (simp add: str_find_Some_iff occurs_at_def numeral_eq_Suc)
    then have "CHR '':'' \<in> set ?n" by (metis in_set_dropD in_set_takeD list.set_intros(1))
    with colon show ?thesis by blast
  qed
  then show "parse_scheme ut ?n = None" by (simp add: parse_scheme_def)
  obtain c r where n: "?n = c # r" "c \<noteq> CHR ''.''" "plain_segment_char c" using shape by (cases ?n) auto
  have "chars ?n = map (\<lambda>c. [c]) ?n"
    using chars plain_ascii by (intro chars_of_ascii) (auto simp: list_all_iff)
  then have "'':'' \<notin> set (take 3 (chars ?n))" using colon by (auto dest: in_set_takeD)
  moreover have "\<not> list_ex (\<lambda>p. strip_prefix p ?n \<noteq> None) [''./'', ''..'', ''~/'', ''/'', [CHR 0x5C, CHR 0x5C], ''//'']"
    using n(2,3) by (auto simp: n(1))
  ultimately show "\<not> is_path ut ?n" by (auto simp: is_path_def contains_str_def none split: list.splits)
  show "\<not> list_ex (\<lambda>c. c \<in> set [CHR '':'', CHR 0x5C, CHR ''['', CHR '']'']) ?n"
    using chars by (fastforce simp: list_ex_iff)
qed

lemma trim_matches_plain:
  assumes "name \<noteq> []" "hd name \<noteq> c" "last name \<noteq> c"
  shows "trim_matches c (name @ [c]) = name" "trim_end_matches c name = name"
proof -
  have "dropWhile (\<lambda>x. x = c) (rev name) = rev name" using assms by (cases name rule: rev_cases) simp_all
  then show end': "trim_end_matches c name = name" by (simp add: trim_end_matches_def)
  have "trim_start_matches c (name @ [c]) = name @ [c]" using assms by (cases name) (simp_all add: trim_start_matches_def)
  then show "trim_matches c (name @ [c]) = name"
    using end' by (simp add: trim_matches_def trim_end_matches_def)
qed

context channel_laws
begin

lemma with_slash: "is_url u \<Longrightarrow> ends_with_slash uc (url_with_trailing_slash uc u)"
  using add_slash [of u] by (auto simp: ends_with_slash_def url_with_trailing_slash_def Let_def)

lemma from_url_slash: "is_url u \<Longrightarrow> ends_with_slash uc (ch_base_url (channel_from_url uc u))"
  using with_slash by (simp add: channel_from_url_def Let_def)

lemma try_from_name_slash:
  assumes "is_url (channel_alias config)" "try_from_name uc name config = Some c"
  shows "ends_with_slash uc (ch_base_url c)"
proof -
  obtain r u where "url_join uc (channel_alias config) r = Some u" "ch_base_url c = url_with_trailing_slash uc u"
    using assms(2) by (auto simp: try_from_name_def Let_def split: option.splits)
  then show ?thesis using with_slash join_is_url [OF assms(1)] by simp
qed

lemma directory_slash: "directory_path_to_url uc fc p = Done (Inr u) \<Longrightarrow> is_url u"
  unfolding directory_path_to_url_def Let_def using parse_is_url by (fastforce split: sum.splits)

lemma push_all_is_url: "is_url u \<Longrightarrow> is_url (push_all uc ss u)"
  by (induction ss arbitrary: u) (auto intro: push_is_url)

lemma from_str_slash:
  assumes "ce_url env = uc" "is_url (channel_alias config)" "channel_from_str env s config = Done (Inr c)"
  shows "ends_with_slash uc (ch_base_url c)"
proof -
  obtain platforms rest where pp: "parse_platforms s = Inr (platforms, rest)"
    using assms(3) by (auto simp: channel_from_str_def split: sum.splits)
  note step = assms(3) [unfolded channel_from_str_def pp sum.case prod.case assms(1)]
  consider (url) "parse_scheme (ce_unicode env) rest \<noteq> None" | (path) "parse_scheme (ce_unicode env) rest = None" "is_path (ce_unicode env) rest"
    | (name) "parse_scheme (ce_unicode env) rest = None" "\<not> is_path (ce_unicode env) rest" by blast
  then show ?thesis
  proof cases
    case url
    then show ?thesis using step by (auto simp: Let_def split: sum.splits intro!: from_url_slash intro: parse_is_url)
  next
    case path
    then show ?thesis
      using step by (auto split: sum.splits rust.splits intro!: with_slash dest: directory_slash)
  next
    case name
    then obtain base where "try_from_name uc rest config = Some base" "c = base\<lparr>ch_platforms := platforms\<rparr>"
      using step by (auto split: if_splits option.splits)
    then show ?thesis using try_from_name_slash [OF assms(2)] by simp
  qed
qed

lemma into_base_url_slash:
  assumes "ce_url env = uc" "is_url (channel_alias config)" "case n of NC_Url u \<Rightarrow> is_url u | _ \<Rightarrow> True"
    and "into_base_url env n config = Done (Inr u)"
  shows "ends_with_slash uc u"
proof -
  note step = assms(4) [unfolded into_base_url_def assms(1)]
  have "\<exists>v. is_url v \<and> u = url_with_trailing_slash uc v"
  proof (cases n)
    case (NC_Name name)
    define v where "v = (if url_path_segments uc (channel_alias config) \<noteq> None
      then push_all uc (concat (map (split_char CHR 0x5C) (split_char CHR ''/'' name))) (channel_alias config) else channel_alias config)"
    have "is_url v" using push_all_is_url [OF assms(2)] assms(2) by (simp add: v_def)
    moreover have "u = url_with_trailing_slash uc v" using step by (simp add: NC_Name v_def Let_def)
    ultimately show ?thesis by blast
  next
    case (NC_Url v)
    then show ?thesis using step assms(3) by auto
  next
    case (NC_Path p)
    then show ?thesis using step by (auto split: sum.splits rust.splits dest: directory_slash)
  qed
  then show ?thesis using with_slash by blast
qed

end

text \<open>Where the pushed segments end up: below the alias if it is a root, below an empty segment otherwise.\<close>

definition push_base :: "url_crate \<Rightarrow> url \<Rightarrow> url" where
  "push_base uc u = (if url_path uc u = ''/'' then u else u @ ''/'')"

context channel_name_laws
begin

text \<open>The channel of a name, its url as the text of a url, and the ways that lead to it.\<close>

lemma below_slash:
  assumes "is_base u" "list_all plain_segment ss" "ss \<noteq> []"
  shows "url_with_trailing_slash uc (u @ join_with ''/'' ss @ ''/'') = u @ join_with ''/'' ss @ ''/''"
    and "url_with_trailing_slash uc (u @ join_with ''/'' ss) = u @ join_with ''/'' ss @ ''/''"
proof -
  note path = below_path [OF assms]
  show "url_with_trailing_slash uc (u @ join_with ''/'' ss @ ''/'') = u @ join_with ''/'' ss @ ''/''"
    using path [of "''/''"] by (simp add: url_with_trailing_slash_def)
  have p: "url_path uc (u @ join_with ''/'' ss) = url_path uc u @ join_with ''/'' ss" using path [of "[]"] by simp
  have "last (join_with ''/'' ss) \<noteq> CHR ''/''" using plain_name_shape(4) [OF assms(2,3)] by auto
  then have "last (url_path uc (u @ join_with ''/'' ss)) \<noteq> CHR ''/''"
    unfolding p using plain_name_shape(1) [OF assms(2,3)] by simp
  then show "url_with_trailing_slash uc (u @ join_with ''/'' ss) = u @ join_with ''/'' ss @ ''/''"
    using set_path_below [OF assms] by (simp add: url_with_trailing_slash_def p)
qed

lemma push_all_below:
  "is_base u \<Longrightarrow> list_all plain_segment (ss @ ts) \<Longrightarrow> ss \<noteq> []
    \<Longrightarrow> push_all uc ts (u @ join_with ''/'' ss) = u @ join_with ''/'' (ss @ ts)"
  using push_below by (induction ts arbitrary: ss) simp_all

lemma push_all_alias:
  assumes "is_base u" "list_all plain_segment ss" "ss \<noteq> []"
  shows "is_base (push_base uc u)" "push_all uc ss u = push_base uc u @ join_with ''/'' ss"
proof -
  obtain s ts where ss: "ss = s # ts" using assms(3) by (cases ss) auto
  then have s: "plain_segment s" "list_all plain_segment ([s] @ ts)" using assms(2) by simp_all
  show base: "is_base (push_base uc u)" using assms(1) push_directory [OF assms(1) _ s(1)] by (simp add: push_base_def)
  have "url_push_segment uc u s = push_base uc u @ join_with ''/'' [s]"
    using push_root [OF assms(1) _ s(1)] push_directory [OF assms(1) _ s(1)] by (simp add: push_base_def)
  then show "push_all uc ss u = push_base uc u @ join_with ''/'' ss"
    using push_all_below [OF base s(2)] by (simp add: ss)
qed

lemma strip_alias_below:
  assumes "list_all plain_segment ss" "ss \<noteq> []"
  shows "strip_channel_alias config (channel_alias config @ join_with ''/'' ss @ ''/'') = Some (join_with ''/'' ss)"
proof -
  note shape = plain_name_shape [OF assms]
  have "hd (join_with ''/'' ss) \<noteq> CHR ''/''" "last (join_with ''/'' ss) \<noteq> CHR ''/''" using shape(3,4) by auto
  from trim_matches_plain(1) [OF shape(1) this] show ?thesis
    using shape(1) by (simp add: strip_channel_alias_def strip_prefix_iff [THEN iffD2, OF refl])
qed

lemma name_resolves:
  assumes "is_base (channel_alias config)" "list_all plain_segment ss" "ss \<noteq> []"
  shows "try_from_name uc (join_with ''/'' ss) config = Some \<lparr>ch_platforms = None,
    ch_base_url = channel_alias config @ join_with ''/'' ss @ ''/'', ch_name = Some (join_with ''/'' ss)\<rparr>"
proof -
  note shape = plain_name_shape [OF assms(2,3)]
  have ends: "hd (join_with ''/'' ss) \<noteq> CHR ''/''" "last (join_with ''/'' ss) \<noteq> CHR ''/''" using shape(3,4) by auto
  show ?thesis
    using shape(1) ends join_below [OF assms] below_slash(1) [OF assms] trim_matches_plain(2) [OF shape(1) ends]
    by (simp add: try_from_name_def some_name_def)
qed

lemma named_resolves:
  assumes "ce_url env = uc" "is_base (channel_alias config)" "list_all plain_segment ss" "ss \<noteq> []"
  shows "into_base_url env (NC_Name (join_with ''/'' ss)) config = Done (Inr (push_base uc (channel_alias config) @ join_with ''/'' ss @ ''/''))"
proof -
  have segs: "split_char CHR ''/'' (join_with ''/'' ss) = ss"
    using assms(3,4) by (intro split_char_join) (auto simp: list_all_iff plain_segmentD)
  have "split_char CHR 0x5C s = [s]" if "s \<in> set ss" for s
    using assms(3) that by (intro split_char_whole) (auto simp: list_all_iff plain_segmentD)
  then have "concat (map (split_char CHR 0x5C) ss) = ss" by (induction ss) simp_all
  then show ?thesis
    using push_all_alias [OF assms(2-4)] base_segments [OF assms(2)] below_slash(2) [OF push_all_alias(1) [OF assms(2-4)] assms(3,4)] assms(1)
    by (simp add: into_base_url_def segs)
qed

lemma url_text_resolves:
  assumes "ce_url env = uc" "is_base (channel_alias config)" "list_all plain_segment ss" "ss \<noteq> []"
    and "parse_scheme (ce_unicode env) (channel_alias config) \<noteq> None"
    and pp: "parse_platforms s = Inr (platforms, channel_alias config @ join_with ''/'' ss @ ''/'')"
  shows "channel_from_str env s config = Done (Inr \<lparr>ch_platforms = platforms,
    ch_base_url = channel_alias config @ join_with ''/'' ss @ ''/'', ch_name = Some (join_with ''/'' ss)\<rparr>)"
  using parse_scheme_append [OF assms(5)] parse_self [OF below_is_url [OF assms(2-4)]] strip_alias_below [OF assms(3,4)]
    below_slash(1) [OF assms(2-4)]
  by (simp add: channel_from_str_def pp assms(1) channel_from_url_def Let_def)

lemma name_text_resolves:
  assumes "ce_url env = uc" "is_base (channel_alias config)" "list_all plain_segment ss" "ss \<noteq> []"
    and pp: "parse_platforms s = Inr (platforms, join_with ''/'' ss)"
  shows "channel_from_str env s config = Done (Inr \<lparr>ch_platforms = platforms,
    ch_base_url = channel_alias config @ join_with ''/'' ss @ ''/'', ch_name = Some (join_with ''/'' ss)\<rparr>)"
  using name_resolves [OF assms(2-4)] plain_name_is_name [OF assms(3,4)]
  by (simp add: channel_from_str_def pp assms(1))

end

section \<open>The instance\<close>

definition plain_base :: "url \<Rightarrow> bool" where
  "plain_base u \<longleftrightarrow> plain_url u \<and> last (up_segments (parse_url u)) = [] \<and> up_query (parse_url u) = None \<and> up_fragment (parse_url u) = None"

lemma join_snoc_empty:
  "ts \<noteq> [] \<Longrightarrow> join_with sep (xs @ [[]]) @ join_with sep ts = join_with sep (xs @ ts)"
proof (induction xs)
  case (Cons x xs)
  then show ?case by (cases xs) (auto simp: neq_Nil_conv)
qed simp

lemma split_char_not_Nil [simp]: "split_char c s \<noteq> []"
  by (cases s) (auto split: list.splits)

lemma join_split: "join_with [c] (split_char c s) = s"
proof (induction s)
  case (Cons x s)
  obtain p ps where "split_char c s = p # ps" by (cases "split_char c s") auto
  with Cons show ?case by (cases ps) auto
qed simp

lemma split_char_avoids: "text_avoids cs s \<Longrightarrow> list_all (text_avoids (c # cs)) (split_char c s)"
proof (induction s)
  case (Cons x s)
  then show ?case by (cases "split_char c s") (auto simp: text_avoids_def)
qed (simp add: text_avoids_def)


lemma split_char_snoc: "split_char c (s @ [c]) = split_char c s @ [[]]"
proof (induction s)
  case (Cons x s)
  then show ?case by (cases "split_char c s") auto
qed simp

lemma join_last_empty: "xs \<noteq> [] \<Longrightarrow> last xs = [] \<Longrightarrow> CHR ''/'' # join_with ''/'' xs \<noteq> [] \<and> last (CHR ''/'' # join_with ''/'' xs) = CHR ''/''"
proof (induction xs)
  case (Cons x xs)
  then show ?case by (cases xs) (auto split: if_splits)
qed simp

lemma plain_path: "url_path plain_urls u = CHR ''/'' # join_with ''/'' (up_segments (parse_url u))"
  by (simp add: plain_urls_def)

lemma plain_ends_with_slash: "parts_ok (parse_url u) \<Longrightarrow> last (up_segments (parse_url u)) = [] \<Longrightarrow> ends_with_slash plain_urls u"
  unfolding ends_with_slash_def plain_path by (rule join_last_empty) (simp_all add: parts_ok_def)

text \<open>The text below a base url, with its segments.\<close>

lemma plain_below:
  assumes "plain_base u" "list_all (text_avoids ''#?/'') ts" "ts \<noteq> []"
  defines "p \<equiv> (parse_url u)\<lparr>up_segments := butlast (up_segments (parse_url u)) @ ts\<rparr>"
  shows "unparse_url p = u @ join_with ''/'' ts" "plain_url (u @ join_with ''/'' ts)" "parse_url (u @ join_with ''/'' ts) = p"
proof -
  let ?segs = "up_segments (parse_url u)"
  have u: "parts_ok (parse_url u)" "unparse_url (parse_url u) = u" "last ?segs = []" "up_query (parse_url u) = None" "up_fragment (parse_url u) = None"
    using assms(1) by (simp_all add: plain_base_def plain_url_def)
  then have segs: "?segs = butlast ?segs @ [[]]" by (metis append_butlast_last_id parts_ok_def)
  have ok: "parts_ok p" using u(1) assms(2,3) by (auto simp: p_def parts_ok_def list_all_iff dest: in_set_butlastD)
  have "join_with ''/'' (butlast ?segs @ ts) = join_with ''/'' ?segs @ join_with ''/'' ts"
    using join_snoc_empty [of ts "''/''" "butlast ?segs"] segs assms(3) by simp
  then show whole: "unparse_url p = u @ join_with ''/'' ts"
    using u(2,4,5) by (simp add: p_def unparse_url_def join_opt_def)
  show "plain_url (u @ join_with ''/'' ts)" "parse_url (u @ join_with ''/'' ts) = p"
    using plain_url_unparse [OF ok] whole by simp_all
qed

lemma join_dir: "ss \<noteq> [] \<Longrightarrow> join_with ''/'' (ss @ [[]]) = join_with ''/'' ss @ ''/''"
proof (induction ss)
  case (Cons s ss)
  then show ?case by (cases ss) auto
qed simp

lemma plain_segments_avoid: "list_all plain_segment ss \<Longrightarrow> list_all (text_avoids ''#?/'') ss"
  by (simp add: list_all_iff text_avoids_iff plain_segmentD(5))

interpretation plain_channel: channel_laws plain_urls plain_url
proof
  fix u v :: url and s :: string
  show "url_parse plain_urls s = Inr u \<Longrightarrow> plain_url u" by (auto simp: plain_urls_def split: if_splits)
  show "url_join plain_urls u s = Some v \<Longrightarrow> plain_url v" by (auto simp: plain_urls_def Let_def split: if_splits)
  show "plain_url u \<Longrightarrow> plain_url (url_push_segment plain_urls u s)" by (simp add: plain_urls_def Let_def)
  assume "plain_url u"
  then have ok: "parts_ok (parse_url u)" by (simp add: plain_url_def)
  let ?segs = "up_segments (parse_url u)"
  define p where "p = (parse_url u)\<lparr>up_segments := ?segs @ [[]]\<rparr>"
  have "path_parts (url_path plain_urls u @ ''/'') = split_char CHR ''/'' (join_with ''/'' ?segs @ [CHR ''/''])"
    by (simp add: plain_path path_parts_def)
  also have "\<dots> = ?segs @ [[]]"
    unfolding split_char_snoc using ok by (subst split_char_join) (auto simp: parts_ok_def list_all_iff text_avoids_iff)
  finally have "url_set_path plain_urls u (url_path plain_urls u @ ''/'') = unparse_url p" by (simp add: p_def)
  moreover have "parts_ok p" using ok by (simp add: p_def parts_ok_def text_avoids_def)
  ultimately show "ends_with_slash plain_urls (url_set_path plain_urls u (url_path plain_urls u @ ''/''))"
    using plain_url_unparse [of p] plain_ends_with_slash [of "unparse_url p"] by (simp add: p_def)
qed

text \<open>The text that a plain name adds to a base url, as a file and as a directory.\<close>

lemma plain_below_path:
  assumes "plain_base u" "list_all (text_avoids ''#?/'') ts" "ts \<noteq> []"
  shows "url_path plain_urls (u @ join_with ''/'' ts) = url_path plain_urls u @ join_with ''/'' ts"
    and "url_path plain_urls u @ join_with ''/'' ts = ''/'' @ join_with ''/'' (butlast (up_segments (parse_url u)) @ ts)"
proof -
  let ?segs = "up_segments (parse_url u)"
  have "?segs = butlast ?segs @ [[]]"
    using assms(1) by (metis append_butlast_last_id parts_ok_def plain_base_def plain_url_def)
  then have "join_with ''/'' ?segs @ join_with ''/'' ts = join_with ''/'' (butlast ?segs @ ts)"
    using join_snoc_empty [of ts "''/''" "butlast ?segs"] assms(3) by metis
  then show "url_path plain_urls (u @ join_with ''/'' ts) = url_path plain_urls u @ join_with ''/'' ts"
    "url_path plain_urls u @ join_with ''/'' ts = ''/'' @ join_with ''/'' (butlast ?segs @ ts)"
    by (simp_all add: plain_path plain_below(3) [OF assms])
qed

lemma plain_directory:
  assumes "list_all plain_segment ss" "ss \<noteq> []"
  shows "list_all (text_avoids ''#?/'') (ss @ [[]])" "join_with ''/'' (ss @ [[]]) = join_with ''/'' ss @ ''/''"
    "split_char CHR ''/'' (join_with ''/'' ss @ ''/'') = ss @ [[]]"
proof -
  show avoid: "list_all (text_avoids ''#?/'') (ss @ [[]])"
    using plain_segments_avoid [OF assms(1)] by (simp add: text_avoids_def)
  show join: "join_with ''/'' (ss @ [[]]) = join_with ''/'' ss @ ''/''" by (rule join_dir [OF assms(2)])
  show "split_char CHR ''/'' (join_with ''/'' ss @ ''/'') = ss @ [[]]"
    unfolding join [symmetric] using avoid by (intro split_char_join) (auto simp: list_all_iff text_avoids_iff)
qed

lemma plain_push_first:
  assumes "plain_base u" "plain_segment s"
  shows "url_path plain_urls u = ''/'' \<Longrightarrow> url_push_segment plain_urls u s = u @ s"
    and "url_path plain_urls u \<noteq> ''/'' \<Longrightarrow> plain_base (u @ ''/'') \<and> url_push_segment plain_urls u s = u @ ''/'' @ s"
proof -
  let ?segs = "up_segments (parse_url u)"
  have u: "parts_ok (parse_url u)" "last ?segs = []" using assms(1) by (simp_all add: plain_base_def plain_url_def)
  have segs: "?segs = butlast ?segs @ [[]]" using u by (metis append_butlast_last_id parts_ok_def)
  have s: "text_avoids ''#?/'' s" using plain_segments_avoid [of "[s]"] assms(2) by simp
  have path: "url_path plain_urls u = ''/'' \<longleftrightarrow> ?segs = [[]]"
  proof
    assume "url_path plain_urls u = ''/''"
    then have "join_with ''/'' ?segs = []" by (simp add: plain_path)
    moreover have "split_char CHR ''/'' (join_with ''/'' ?segs) = ?segs"
      using u(1) by (intro split_char_join) (auto simp: parts_ok_def list_all_iff text_avoids_iff)
    ultimately show "?segs = [[]]" by simp
  qed (simp add: plain_path)
  show "url_push_segment plain_urls u s = u @ s" if "url_path plain_urls u = ''/''"
    using that plain_below(1,2) [OF assms(1), of "[s]"] s unfolding path by (simp add: plain_urls_def Let_def)
  show "plain_base (u @ ''/'') \<and> url_push_segment plain_urls u s = u @ ''/'' @ s" if "url_path plain_urls u \<noteq> ''/''"
  proof -
    have "plain_base (u @ ''/'')"
      using plain_below(2,3) [OF assms(1), of "[[], []]"] assms(1) by (simp add: plain_base_def text_avoids_def)
    moreover have "url_push_segment plain_urls u s = u @ ''/'' @ s"
      using that plain_below(1,2) [OF assms(1), of "[[], s]"] s segs unfolding path
      by (simp add: plain_urls_def Let_def text_avoids_def) (metis append.assoc append_Cons append_Nil)
    ultimately show ?thesis by blast
  qed
qed

lemma plain_push:
  assumes "plain_base u" "list_all plain_segment (ss @ [s])" "ss \<noteq> []"
  shows "url_push_segment plain_urls (u @ join_with ''/'' ss) s = u @ join_with ''/'' (ss @ [s])"
proof -
  let ?segs = "up_segments (parse_url u)"
  have s: "list_all (text_avoids ''#?/'') (ss @ [s])" "list_all (text_avoids ''#?/'') ss" "last ss \<noteq> []"
    using assms(2,3) plain_segmentD(1) plain_segments_avoid [OF assms(2)] by (auto simp: list_all_iff)
  then have "up_segments (parse_url (u @ join_with ''/'' ss)) \<noteq> [[]]"
    using plain_below(3) [OF assms(1) s(2) assms(3)] assms(3) by (cases ss) (auto simp: append_eq_Cons_conv)
  then show ?thesis
    using plain_below(1,2) [OF assms(1) s(1)] plain_below(3) [OF assms(1) s(2) assms(3)] by (simp add: plain_urls_def Let_def)
qed

interpretation plain_names: channel_name_laws plain_urls plain_url plain_base
proof
  fix u :: url and ss :: "string list" and s t :: string
  show "plain_url u \<Longrightarrow> url_parse plain_urls u = Inr u" by (simp add: plain_urls_def)
  assume u: "plain_base u"
  show "url_path_segments plain_urls u \<noteq> None" by simp
  show "url_path plain_urls u = ''/'' \<Longrightarrow> plain_segment s \<Longrightarrow> url_push_segment plain_urls u s = u @ s"
    using plain_push_first(1) [OF u] .
  show "url_path plain_urls u \<noteq> ''/'' \<Longrightarrow> plain_segment s \<Longrightarrow> plain_base (u @ ''/'') \<and> url_push_segment plain_urls u s = u @ ''/'' @ s"
    using plain_push_first(2) [OF u] by blast
  show "list_all plain_segment (ss @ [s]) \<Longrightarrow> ss \<noteq> [] \<Longrightarrow> url_push_segment plain_urls (u @ join_with ''/'' ss) s = u @ join_with ''/'' (ss @ [s])"
    by (rule plain_push [OF u])
  assume ss: "list_all plain_segment ss" "ss \<noteq> []"
  note dir = plain_directory [OF ss] and leaf = plain_segments_avoid [OF ss(1)]
  note below = plain_below [OF u dir(1), simplified, unfolded dir(2)] and path = plain_below_path [OF u dir(1), simplified, unfolded dir(2)]
  show "plain_url (u @ join_with ''/'' ss @ ''/'')" by (rule below(2))
  show "t = [] \<or> t = ''/'' \<Longrightarrow> url_path plain_urls (u @ join_with ''/'' ss @ t) = url_path plain_urls u @ join_with ''/'' ss @ t"
    using path(1) plain_below_path(1) [OF u leaf ss(2)] by auto
  show "url_join plain_urls u (join_with ''/'' ss @ ''/'') = Some (u @ join_with ''/'' ss @ ''/'')"
    using below(1,2) dir(3) by (simp add: plain_urls_def)
  have "path_parts (url_path plain_urls u @ join_with ''/'' ss @ ''/'') = butlast (up_segments (parse_url u)) @ ss @ [[]]"
    unfolding path(2) using dir(1) u path_parts_cut [of "butlast (up_segments (parse_url u)) @ ss @ [[]]"]
    by (auto simp: plain_base_def plain_url_def parts_ok_def list_all_iff dest: in_set_butlastD)
  then show "url_set_path plain_urls (u @ join_with ''/'' ss) (url_path plain_urls u @ join_with ''/'' ss @ ''/'') = u @ join_with ''/'' ss @ ''/''"
    using below(1) plain_below(3) [OF u leaf ss(2)] by simp
qed

section \<open>Properties\<close>

text \<open>
  C34. A platform selector behind the text of a channel is parsed back: the platforms are recovered in their
  order and the text in front of the selector is unchanged, whatever it contains. A text that does not end in a
  bracket has no selector.
\<close>

theorem platform_selector_round_trip:
  shows "(ps \<noteq> [] \<longrightarrow> parse_platforms (s @ selector_text ps) = Inr (Some ps, s))
    \<and> parse_platforms (s @ ''[]'') = Inr (None, s)
    \<and> (s = [] \<or> last s \<noteq> CHR '']'' \<longrightarrow> parse_platforms s = Inr (None, s))"
proof -
  have "rsplit_once CHR ''['' (s @ ''['') = Some (s, [])" by (simp add: rsplit_once_Some_iff)
  moreover have "strip_suffix '']'' (s @ ''[]'') = Some (s @ ''['')" by simp
  moreover have "filter (\<lambda>s. s \<noteq> []) (map trim (split_char CHR '','' [])) = []"
    using trim_id [of "[]"] white_space_nonempty by (simp add: starts_with_space_iff ends_with_space_iff)
  ultimately have "parse_platforms (s @ ''[]'') = Inr (None, s)"
    by (simp only: parse_platforms_def option.case prod.case) simp
  then show ?thesis using parse_selector parse_no_selector by blast
qed

theorem platform_selector_round_trip_witness:
  "parse_platforms ''https://[::1]/x[linux-64,noarch]'' = Inr (Some [Linux64, NoArch], ''https://[::1]/x'')"
proof -
  have "''https://[::1]/x[linux-64,noarch]'' = ''https://[::1]/x'' @ selector_text [Linux64, NoArch]" by code_simp
  then show ?thesis using platform_selector_round_trip [of "[Linux64, NoArch]" "''https://[::1]/x''"] by simp
qed

text \<open>
  C35. The base url of a channel ends with a slash, whether the channel is parsed from text (a url, a path or a
  name, with or without platforms), made from a url or a name, or converted from a named channel.
\<close>

theorem channel_base_url_ends_with_slash:
  assumes "channel_laws uc is_url" "ce_url env = uc" "is_url (channel_alias config)"
  shows "(\<forall>c. channel_from_str env s config = Done (Inr c) \<longrightarrow> ends_with_slash uc (ch_base_url c))
    \<and> (is_url u \<longrightarrow> ends_with_slash uc (ch_base_url (channel_from_url uc u)))
    \<and> (\<forall>c. try_from_name uc s config = Some c \<longrightarrow> ends_with_slash uc (ch_base_url c))
    \<and> (\<forall>c. named_from_str env s = Inr n \<and> into_channel env n config = Done (Inr c) \<longrightarrow> ends_with_slash uc (ch_base_url c))"
proof (intro conjI allI impI)
  fix c
  note laws = channel_laws.from_str_slash [OF assms(1)] channel_laws.into_base_url_slash [OF assms(1)]
  show "channel_from_str env s config = Done (Inr c) \<Longrightarrow> ends_with_slash uc (ch_base_url c)"
    by (rule laws(1) [OF assms(2,3)])
  show "try_from_name uc s config = Some c \<Longrightarrow> ends_with_slash uc (ch_base_url c)"
    by (rule channel_laws.try_from_name_slash [OF assms(1,3)])
  assume n: "named_from_str env s = Inr n \<and> into_channel env n config = Done (Inr c)"
  then have "case n of NC_Url u \<Rightarrow> is_url u | _ \<Rightarrow> True"
    using channel_laws.parse_is_url [OF assms(1)] assms(2)
    by (auto simp: named_from_str_def split: if_splits sum.splits)
  moreover have "into_base_url env n config = Done (Inr (ch_base_url c))"
    using n by (auto simp: into_channel_def Let_def split: rust.splits sum.splits)
  ultimately show "ends_with_slash uc (ch_base_url c)" by (rule laws(2) [OF assms(2,3)])
qed (rule channel_laws.from_url_slash [OF assms(1)])

definition sample_unicode :: unicode_tables where
  "sample_unicode = \<lparr>is_alphabetic = (\<lambda>s. case s of [c] \<Rightarrow> is_ascii_alphabetic c | _ \<Rightarrow> False),
     is_alphanumeric = (\<lambda>s. case s of [c] \<Rightarrow> is_ascii_alphabetic c \<or> is_ascii_digit c | _ \<Rightarrow> False)\<rparr>"

definition sample_env :: channel_env where
  "sample_env = \<lparr>ce_url = plain_urls, ce_file = plain_files, ce_unicode = sample_unicode,
     tp_is_absolute = (\<lambda>s. s \<noteq> [] \<and> hd s = CHR ''/''), tp_normalize = (\<lambda>s. s), tp_strip_prefix = (\<lambda>s p. strip_prefix p s),
     tp_join = (\<lambda>a b. a @ ''/'' @ b), home_dir = Some ''/home/me'', canonicalize = (\<lambda>s. Inr s),
     url_from_directory_path = (\<lambda>s. None)\<rparr>"

definition sample_config :: channel_config where
  "sample_config = \<lparr>channel_alias = ''https://h/'', root_dir = ''/work''\<rparr>"

lemma sample_env_url: "ce_url sample_env = plain_urls"
  by (simp add: sample_env_def)

lemma sample_alias: "plain_base (channel_alias sample_config)"
  by code_simp

theorem channel_base_url_ends_with_slash_witness:
  "try_from_name plain_urls ''main'' sample_config = Some \<lparr>ch_platforms = None, ch_base_url = ''https://h/main/'', ch_name = Some ''main''\<rparr>
    \<and> ends_with_slash plain_urls ''https://h/main/''"
proof -
  have c: "try_from_name plain_urls ''main'' sample_config = Some \<lparr>ch_platforms = None, ch_base_url = ''https://h/main/'', ch_name = Some ''main''\<rparr>"
    by code_simp
  have "plain_url (channel_alias sample_config)" using sample_alias by (simp add: plain_base_def)
  from channel_base_url_ends_with_slash [OF plain_channel.channel_laws_axioms sample_env_url this, of "''main''"] c
  have "ends_with_slash plain_urls (ch_base_url \<lparr>ch_platforms = None, ch_base_url = ''https://h/main/'', ch_name = Some ''main''\<rparr>)"
    by blast
  with c show ?thesis by simp
qed

text \<open>
  C36. A channel has one name and one url, whichever way it is written. Take an alias whose text ends with the slash
  of its path and starts with a scheme that the channel parser recognises (a letter and at most ten letters or
  digits), and a name of one or more segments of ASCII letters, digits, \<open>-\<close>, \<open>_\<close> and
  \<open>.\<close> that do not start with a dot. Under the laws of the url crate, the text of the name and the text
  of the url below the alias, each with or without a platform selector, parse to the same channel with that name;
  the canonical name of the url is the name. The named channel, which pushes the segments one by one, converts to
  the same channel without platforms when the path of the alias is the root; otherwise its url has an empty segment
  behind the alias.
\<close>

theorem channel_name_round_trip:
  assumes "channel_name_laws uc is_url is_base" "ce_url env = uc" "is_base (channel_alias config)"
    and "parse_scheme (ce_unicode env) (channel_alias config) \<noteq> None"
    and "ss \<noteq> []" "list_all plain_segment ss" "ps \<noteq> Some []"
  shows "let name = join_with ''/'' ss; base = channel_alias config @ name @ ''/'';
      selector = (case ps of None \<Rightarrow> [] | Some platforms \<Rightarrow> selector_text platforms)
    in channel_from_str env (name @ selector) config = Done (Inr \<lparr>ch_platforms = ps, ch_base_url = base, ch_name = Some name\<rparr>)
      \<and> channel_from_str env (base @ selector) config = Done (Inr \<lparr>ch_platforms = ps, ch_base_url = base, ch_name = Some name\<rparr>)
      \<and> named_from_str env name = Inr (NC_Name name)
      \<and> into_channel env (NC_Name name) config = Done (Inr \<lparr>ch_platforms = None,
            ch_base_url = (if url_path uc (channel_alias config) = ''/'' then base else channel_alias config @ ''/'' @ name @ ''/''),
            ch_name = Some name\<rparr>)
      \<and> config_canonical_name uc config base = name"
proof -
  let ?name = "join_with ''/'' ss" and ?sel = "case ps of None \<Rightarrow> [] | Some platforms \<Rightarrow> selector_text platforms"
  let ?base = "channel_alias config @ ?name @ ''/''"
  note below = assms(3,6,5) and shape = plain_name_shape [OF assms(6,5)] and is_name = plain_name_is_name [OF assms(6,5)]
  have sel: "parse_platforms (s @ ?sel) = Inr (ps, s)" if "s \<noteq> []" "last s \<noteq> CHR '']''" for s
    using parse_selector parse_no_selector that assms(7) by (cases ps) auto
  have "last ?name \<noteq> CHR '']''" using shape(4) by auto
  from channel_name_laws.name_text_resolves [OF assms(1,2) below sel [OF shape(1) this]]
  have "channel_from_str env (?name @ ?sel) config = Done (Inr \<lparr>ch_platforms = ps, ch_base_url = ?base, ch_name = Some ?name\<rparr>)" .
  moreover have "channel_from_str env (?base @ ?sel) config = Done (Inr \<lparr>ch_platforms = ps, ch_base_url = ?base, ch_name = Some ?name\<rparr>)"
    by (rule channel_name_laws.url_text_resolves [OF assms(1,2) below assms(4) sel]) simp_all
  moreover have "named_from_str env ?name = Inr (NC_Name ?name)" using is_name(1,2) by (simp add: named_from_str_def)
  moreover have "into_channel env (NC_Name ?name) config = Done (Inr \<lparr>ch_platforms = None,
      ch_base_url = (if url_path uc (channel_alias config) = ''/'' then ?base else channel_alias config @ ''/'' @ ?name @ ''/''),
      ch_name = Some ?name\<rparr>)"
    using channel_name_laws.named_resolves [OF assms(1,2) below] by (simp add: into_channel_def push_base_def)
  moreover have "config_canonical_name uc config ?base = ?name"
    using channel_name_laws.strip_alias_below [OF assms(1,6,5)] by (simp add: config_canonical_name_def)
  ultimately show ?thesis unfolding Let_def by blast
qed

theorem channel_name_round_trip_witness:
  "channel_from_str sample_env ''conda-forge/label/dev[noarch]'' sample_config = Done (Inr \<lparr>ch_platforms = Some [NoArch],
      ch_base_url = ''https://h/conda-forge/label/dev/'', ch_name = Some ''conda-forge/label/dev''\<rparr>)
    \<and> channel_from_str sample_env ''https://h/conda-forge/label/dev/[noarch]'' sample_config = Done (Inr \<lparr>ch_platforms = Some [NoArch],
      ch_base_url = ''https://h/conda-forge/label/dev/'', ch_name = Some ''conda-forge/label/dev''\<rparr>)
    \<and> into_channel sample_env (NC_Name ''conda-forge/label/dev'') sample_config = Done (Inr \<lparr>ch_platforms = None,
      ch_base_url = ''https://h/conda-forge/label/dev/'', ch_name = Some ''conda-forge/label/dev''\<rparr>)"
proof -
  let ?ss = "[''conda-forge'', ''label'', ''dev'']"
  have "?ss \<noteq> []" "list_all plain_segment ?ss" "Some [NoArch] \<noteq> Some []" by code_simp+
  moreover have "parse_scheme (ce_unicode sample_env) (channel_alias sample_config) \<noteq> None"
    by code_simp
  moreover have "join_with ''/'' ?ss = ''conda-forge/label/dev''" "selector_text [NoArch] = ''[noarch]''" "channel_alias sample_config = ''https://h/''"
    "url_path plain_urls ''https://h/'' = ''/''"
    by code_simp+
  ultimately show ?thesis
    using channel_name_round_trip [OF plain_names.channel_name_laws_axioms sample_env_url sample_alias, of ?ss "Some [NoArch]"]
    by (simp add: Let_def)
qed

text \<open>
  An alias with a path does not work in both ways. Without a trailing slash it loses its last segment when a name
  is resolved by joining, but not when the name is pushed onto the alias as \<open>NamedChannelOrUrl\<close> does; with one,
  joining keeps the segment and pushing doubles the slash.
\<close>

theorem alias_with_path:
  "map_option ch_base_url (try_from_name plain_urls ''x'' \<lparr>channel_alias = ''https://h/conda'', root_dir = []\<rparr>) = Some ''https://h/x/''"
  "into_base_url sample_env (NC_Name ''x'') \<lparr>channel_alias = ''https://h/conda'', root_dir = []\<rparr> = Done (Inr ''https://h/conda/x/'')"
  "map_option ch_base_url (try_from_name plain_urls ''x'' \<lparr>channel_alias = ''https://h/conda/'', root_dir = []\<rparr>) = Some ''https://h/conda/x/''"
  "into_base_url sample_env (NC_Name ''x'') \<lparr>channel_alias = ''https://h/conda/'', root_dir = []\<rparr> = Done (Inr ''https://h/conda//x/'')"
  by code_simp+

end
