(* ===== verification/Match_Spec.thy ===== *)
theory Match_Spec
  imports String_Matcher Channel_Properties Version_Spec Build_Spec Prefix_Record
begin

text \<open>
  Match specs, the query language for packages (\<open>rattler_conda_types/src/match_spec/mod.rs\<close>), with their
  conditions (\<open>match_spec/condition.rs\<close>), generic virtual packages (\<open>generic_virtual_package.rs\<close>) and the
  revision of the repodata (\<open>repo_data/mod.rs\<close>). A spec may hold a condition over specs, so the two are
  mutually recursive datatypes; a spec without a name is a record. The \<open>glob\<close>, \<open>fancy_regex\<close>, \<open>url\<close> and \<open>hex\<close>
  crates are parameters.
\<close>

section \<open>Specs\<close>

datatype match_spec = MatchSpec
  (ms_name: package_name_matcher)
  (ms_version: "version_spec option")
  (ms_build: "string_matcher option")
  (ms_build_number: "build_number_spec option")
  (ms_file_name: "string option")
  (ms_extras: "string list option")
  (ms_flags: "string_matcher list option")
  (ms_channel: "channel option")
  (ms_subdir: "string option")
  (ms_namespace: "string option")
  (ms_md5: "u8 list option")
  (ms_sha256: "u8 list option")
  (ms_url: "url option")
  (ms_license: "string option")
  (ms_license_family: "string option")
  (ms_condition: "match_spec_condition option")
  (ms_track_features: "string list option")
and match_spec_condition =
    MSC_MatchSpec match_spec
  | MSC_And match_spec_condition match_spec_condition
  | MSC_Or match_spec_condition match_spec_condition

record nameless_match_spec =
  nm_version :: "version_spec option"
  nm_build :: "string_matcher option"
  nm_build_number :: "build_number_spec option"
  nm_file_name :: "string option"
  nm_extras :: "string list option"
  nm_flags :: "string_matcher list option"
  nm_channel :: "channel option"
  nm_subdir :: "string option"
  nm_namespace :: "string option"
  nm_md5 :: "u8 list option"
  nm_sha256 :: "u8 list option"
  nm_url :: "url option"
  nm_license :: "string option"
  nm_license_family :: "string option"
  nm_condition :: "match_spec_condition option"
  nm_track_features :: "string list option"

definition match_spec_default :: match_spec where
  "match_spec_default = MatchSpec pnm_default None None None None None None None None None None None None None None None None"

definition match_spec_from_name :: "package_name \<Rightarrow> match_spec" where
  "match_spec_from_name n = MatchSpec (PNM_Exact n) None None None None None None None None None None None None None None None None"

definition nameless_from :: "match_spec \<Rightarrow> nameless_match_spec" where
  "nameless_from s = \<lparr>nm_version = ms_version s, nm_build = ms_build s, nm_build_number = ms_build_number s,
     nm_file_name = ms_file_name s, nm_extras = ms_extras s, nm_flags = ms_flags s, nm_channel = ms_channel s,
     nm_subdir = ms_subdir s, nm_namespace = ms_namespace s, nm_md5 = ms_md5 s, nm_sha256 = ms_sha256 s,
     nm_url = ms_url s, nm_license = ms_license s, nm_license_family = ms_license_family s,
     nm_condition = ms_condition s, nm_track_features = ms_track_features s\<rparr>"

definition into_nameless :: "match_spec \<Rightarrow> package_name_matcher \<times> nameless_match_spec" where
  "into_nameless s = (ms_name s, \<lparr>nm_version = ms_version s, nm_build = ms_build s, nm_build_number = ms_build_number s,
     nm_file_name = ms_file_name s, nm_extras = ms_extras s, nm_flags = ms_flags s, nm_channel = ms_channel s,
     nm_subdir = ms_subdir s, nm_namespace = ms_namespace s, nm_md5 = ms_md5 s, nm_sha256 = ms_sha256 s,
     nm_url = ms_url s, nm_license = ms_license s, nm_license_family = ms_license_family s,
     nm_condition = ms_condition s, nm_track_features = ms_track_features s\<rparr>)"

definition from_nameless :: "nameless_match_spec \<Rightarrow> package_name_matcher \<Rightarrow> match_spec" where
  "from_nameless s name = MatchSpec name (nm_version s) (nm_build s) (nm_build_number s) (nm_file_name s) (nm_extras s)
     (nm_flags s) (nm_channel s) (nm_subdir s) (nm_namespace s) (nm_md5 s) (nm_sha256 s) (nm_url s) (nm_license s)
     (nm_license_family s) (nm_condition s) (nm_track_features s)"

datatype repodata_revision = Legacy | V3 | Unknown u64

fun revision_as_u64 :: "repodata_revision \<Rightarrow> u64" where
  "revision_as_u64 Legacy = 0"
| "revision_as_u64 V3 = 3"
| "revision_as_u64 (Unknown value) = value"

definition uses_legacy_package_layout :: "repodata_revision \<Rightarrow> bool" where
  "uses_legacy_package_layout r \<longleftrightarrow> r = Legacy"

definition revision_from_u64 :: "u64 \<Rightarrow> repodata_revision" where
  "revision_from_u64 value = (if value = 0 then Legacy else if value = 3 then V3 else Unknown value)"

definition required_repodata_revision :: "match_spec \<Rightarrow> repodata_revision" where
  "required_repodata_revision s =
     (if ms_extras s \<noteq> None \<or> ms_condition s \<noteq> None \<or> ms_flags s \<noteq> None then V3 else Legacy)"

definition spec_is_virtual :: "match_spec \<Rightarrow> bool" where
  "spec_is_virtual s = (case ms_name s of
     PNM_Exact name \<Rightarrow> strip_prefix ''__'' (as_normalized name) \<noteq> None
   | PNM_Glob pattern \<Rightarrow> strip_prefix ''__'' pattern \<noteq> None
   | PNM_Regex regex \<Rightarrow> strip_prefix ''^__'' regex \<noteq> None)"

section \<open>Matching\<close>

text \<open>The checks of a field that is set: the early returns of \<open>Matches\<close>.\<close>

definition unset_or :: "'a option \<Rightarrow> ('a \<Rightarrow> bool) \<Rightarrow> bool" where
  "unset_or field check \<longleftrightarrow> (case field of None \<Rightarrow> True | Some x \<Rightarrow> check x)"

definition nameless_matches_record :: "pattern_crates \<Rightarrow> nameless_match_spec \<Rightarrow> package_record \<Rightarrow> bool" where
  "nameless_matches_record pc s r \<longleftrightarrow>
     unset_or (nm_version s) (\<lambda>spec. spec_matches spec (vws_version (pr_version r)))
   \<and> unset_or (nm_build s) (\<lambda>m. string_matcher_matches pc m (build_str (pr_build r)))
   \<and> unset_or (nm_build_number s) (\<lambda>b. build_number_spec_matches b (pr_build_number r))
   \<and> unset_or (nm_md5 s) (\<lambda>h. Some h = pr_md5 r)
   \<and> unset_or (nm_sha256 s) (\<lambda>h. Some h = pr_sha256 r)
   \<and> unset_or (nm_license s) (\<lambda>l. Some l = pr_license r)
   \<and> unset_or (nm_license_family s) (\<lambda>l. Some l = pr_license_family r)
   \<and> unset_or (nm_track_features s) (\<lambda>fs. list_all (\<lambda>f. f \<in> set (pr_track_features r)) fs)
   \<and> unset_or (nm_flags s) (\<lambda>fs. list_all (\<lambda>f. list_ex (\<lambda>record_flag. string_matcher_matches pc f record_flag) (pr_flags r)) fs)"

definition spec_matches_record :: "pattern_crates \<Rightarrow> match_spec \<Rightarrow> package_record \<Rightarrow> bool" where
  "spec_matches_record pc s r \<longleftrightarrow>
     package_name_matcher_matches pc (ms_name s) (pr_name r)
   \<and> unset_or (ms_version s) (\<lambda>spec. spec_matches spec (vws_version (pr_version r)))
   \<and> unset_or (ms_build s) (\<lambda>m. string_matcher_matches pc m (build_str (pr_build r)))
   \<and> unset_or (ms_build_number s) (\<lambda>b. build_number_spec_matches b (pr_build_number r))
   \<and> unset_or (ms_md5 s) (\<lambda>h. Some h = pr_md5 r)
   \<and> unset_or (ms_sha256 s) (\<lambda>h. Some h = pr_sha256 r)
   \<and> unset_or (ms_license s) (\<lambda>l. Some l = pr_license r)
   \<and> unset_or (ms_license_family s) (\<lambda>l. Some l = pr_license_family r)
   \<and> unset_or (ms_track_features s) (\<lambda>fs. list_all (\<lambda>f. f \<in> set (pr_track_features r)) fs)
   \<and> unset_or (ms_flags s) (\<lambda>fs. list_all (\<lambda>f. list_ex (\<lambda>record_flag. string_matcher_matches pc f record_flag) (pr_flags r)) fs)"

definition spec_matches_repodata :: "pattern_crates \<Rightarrow> match_spec \<Rightarrow> repo_data_record \<Rightarrow> bool" where
  "spec_matches_repodata pc s r \<longleftrightarrow>
     unset_or (ms_url s) (\<lambda>u. u = rd_url r) \<and> spec_matches_record pc s (rd_package_record r)"

definition nameless_matches_repodata :: "pattern_crates \<Rightarrow> nameless_match_spec \<Rightarrow> repo_data_record \<Rightarrow> bool" where
  "nameless_matches_repodata pc s r \<longleftrightarrow>
     unset_or (nm_url s) (\<lambda>u. u = rd_url r) \<and> nameless_matches_record pc s (rd_package_record r)"

record generic_virtual_package =
  gv_name :: package_name
  gv_version :: version
  gv_build_string :: build_string

definition spec_matches_virtual :: "pattern_crates \<Rightarrow> match_spec \<Rightarrow> generic_virtual_package \<Rightarrow> bool" where
  "spec_matches_virtual pc s v \<longleftrightarrow>
     package_name_matcher_matches pc (ms_name s) (gv_name v)
   \<and> unset_or (ms_version s) (\<lambda>spec. spec_matches spec (gv_version v))
   \<and> unset_or (ms_build s) (\<lambda>m. string_matcher_matches pc m (build_str (gv_build_string v)))"

section \<open>A spec from a url\<close>

datatype match_spec_url_error =
  MissingFilename
| InvalidSha256 string
| InvalidMd5 string
| InvalidFilename string
| InvalidPackageName package_name_matcher_parse_error

text \<open>\<open>parse_digest_from_hex\<close>: the \<open>hex\<close> crate decodes into a buffer of the length of the digest.\<close>

type_synonym hex_crate = "nat \<Rightarrow> string \<Rightarrow> u8 list option"

definition parse_digest_from_hex :: "hex_crate \<Rightarrow> nat \<Rightarrow> string \<Rightarrow> u8 list option" where
  "parse_digest_from_hex hex n s = hex n s"

definition fragment_digests ::
    "hex_crate \<Rightarrow> string option \<Rightarrow> match_spec_url_error + (u8 list option \<times> u8 list option)" where
  "fragment_digests hex fragment = (case fragment of
     None \<Rightarrow> Inr (None, None)
   | Some f \<Rightarrow>
       if strip_prefix ''sha256:'' f \<noteq> None then
         (case parse_digest_from_hex hex 32 (trim_start_str ''sha256:'' f) of
            Some h \<Rightarrow> Inr (None, Some h) | None \<Rightarrow> Inl (InvalidSha256 f))
       else if f \<noteq> [] then
         (case parse_digest_from_hex hex 16 f of Some h \<Rightarrow> Inr (Some h, None) | None \<Rightarrow> Inl (InvalidMd5 f))
       else Inr (None, None))"

definition match_spec_try_from_url ::
    "url_crate \<Rightarrow> pattern_crates \<Rightarrow> hex_crate \<Rightarrow> url \<Rightarrow> match_spec_url_error + match_spec" where
  "match_spec_try_from_url uc pc hex value =
     (let spec_url = url_set_fragment uc value None
      in case fragment_digests hex (url_fragment uc value) of
           Inl e \<Rightarrow> Inl e
         | Inr (md5, sha256) \<Rightarrow>
             (case url_path_segments uc value of
                None \<Rightarrow> Inl MissingFilename
              | Some [] \<Rightarrow> Inl MissingFilename
              | Some segments \<Rightarrow>
                  let filename = last segments
                  in case conda_try_from_filename filename of
                       None \<Rightarrow> Inl (InvalidFilename filename)
                     | Some archive_identifier \<Rightarrow>
                         (case package_name_matcher_from_str pc (ai_name (ci_identifier archive_identifier)) of
                            Inl e \<Rightarrow> Inl (InvalidPackageName e)
                          | Inr name \<Rightarrow> Inr (MatchSpec name None None None None None None None None None
                              md5 sha256 (Some spec_url) None None None None))))"

end
