(* ===== verification/Match_Spec_Format.thy ===== *)
theory Match_Spec_Format
  imports Match_Spec
begin

text \<open>
  The renderer behind every textual form of a match spec (\<open>rattler_conda_types/src/match_spec/format.rs\<close>,
  with two helpers of \<open>match_spec/parse.rs\<close>). Text is returned instead of written: writing to a \<open>String\<close> does
  not fail, so the errors are those of the canonical dialect. The environment holds the \<open>url\<close> crate, \<open>hex::encode\<close>
  and the default channel configuration, which the code builds again at every use.
\<close>

section \<open>Styles, fields and their order\<close>

record format_env =
  fe_url :: url_crate
  fe_hex_encode :: "u8 list \<Rightarrow> string"
  fe_config :: channel_config

datatype display_style = DS_Legacy | DS_Canonical

datatype spec_position = TopLevel | ConditionLeaf

record display_context =
  dc_style :: display_style
  dc_position :: spec_position

definition LEGACY :: display_context where
  "LEGACY = \<lparr>dc_style = DS_Legacy, dc_position = TopLevel\<rparr>"

definition CANONICAL :: display_context where
  "CANONICAL = \<lparr>dc_style = DS_Canonical, dc_position = TopLevel\<rparr>"

definition condition_leaf :: "display_style \<Rightarrow> display_context" where
  "condition_leaf style = \<lparr>dc_style = style, dc_position = ConditionLeaf\<rparr>"

definition field_separator :: "display_context \<Rightarrow> string" where
  "field_separator ctx = (case dc_style ctx of DS_Legacy \<Rightarrow> '', '' | DS_Canonical \<Rightarrow> '','')"

definition list_separator :: "display_context \<Rightarrow> string" where
  "list_separator ctx = field_separator ctx"

datatype canonical_match_spec_error =
  NestedWhen
| UnrepresentableExtra string
| UnrepresentableFlag string
| UnrepresentableTrackFeature string
| UnrepresentableName string
| UnrepresentableScalar string
| UnrepresentableBuild string
| EmptyChannelPlatforms
| UnrepresentableConditionLeaf string

type_synonym rendered = "canonical_match_spec_error + string"

datatype field =
  F_Version | F_Build | F_BuildNumber | F_FileName | F_Extras | F_Flags | F_Channel | F_Subdir | F_Namespace
| F_Md5 | F_Sha256 | F_Url | F_License | F_LicenseFamily | F_When | F_TrackFeatures

definition LEGACY_BRACKET_FIELDS :: "field list" where
  "LEGACY_BRACKET_FIELDS = [F_Extras, F_Flags, F_Md5, F_Sha256, F_BuildNumber, F_Version, F_Build, F_FileName, F_Url,
     F_License, F_LicenseFamily, F_TrackFeatures, F_Channel, F_Subdir, F_Namespace, F_When]"

definition LEGACY_CONDITION_LEAF_FIELDS :: "field list" where
  "LEGACY_CONDITION_LEAF_FIELDS = [F_Version, F_Build, F_BuildNumber, F_Channel, F_Subdir, F_Namespace, F_Extras, F_Flags,
     F_Md5, F_Sha256, F_FileName, F_Url, F_License, F_LicenseFamily, F_TrackFeatures, F_When]"

definition CANONICAL_BRACKET_FIELDS :: "field list" where
  "CANONICAL_BRACKET_FIELDS = [F_Version, F_Build, F_BuildNumber, F_FileName, F_Extras, F_Flags, F_Channel, F_Subdir,
     F_Namespace, F_Md5, F_Sha256, F_Url, F_License, F_LicenseFamily, F_When, F_TrackFeatures]"

record legacy_placement =
  lp_channel :: bool
  lp_subdir :: bool
  lp_namespace :: bool
  lp_version :: bool
  lp_build :: bool

definition placement_default :: legacy_placement where
  "placement_default = \<lparr>lp_channel = False, lp_subdir = False, lp_namespace = False, lp_version = False, lp_build = False\<rparr>"

fun is_positional :: "legacy_placement \<Rightarrow> field \<Rightarrow> bool" where
  "is_positional p F_Channel = lp_channel p"
| "is_positional p F_Subdir = lp_subdir p"
| "is_positional p F_Namespace = lp_namespace p"
| "is_positional p F_Version = lp_version p"
| "is_positional p F_Build = lp_build p"
| "is_positional p _ = False"

section \<open>Values that survive tokenization\<close>

definition contains_any :: "string \<Rightarrow> string \<Rightarrow> bool" where
  "contains_any s cs \<longleftrightarrow> list_ex (\<lambda>c. c \<in> set cs) s"

definition is_safe_positional_value :: "string \<Rightarrow> bool" where
  "is_safe_positional_value s \<longleftrightarrow> \<not> contains_space s \<and> \<not> contains_any s '':#;[]''"

definition is_safe_positional_build :: "string \<Rightarrow> bool" where
  "is_safe_positional_build s \<longleftrightarrow> is_safe_positional_value s \<and> \<not> contains_any s '',|''"

definition classifies_as_regex :: "string \<Rightarrow> bool" where
  "classifies_as_regex s \<longleftrightarrow> length s \<ge> 2 \<and> hd s = CHR ''^'' \<and> last s = CHR ''$''"

definition string_matcher_is_canonical :: "string_matcher \<Rightarrow> bool" where
  "string_matcher_is_canonical matcher =
     (let shown = string_matcher_display matcher;
          regex = classifies_as_regex shown;
          glob = (\<not> regex \<and> CHR ''*'' \<in> set shown)
      in case matcher of
           SM_Any \<Rightarrow> True
         | SM_Exact _ \<Rightarrow> \<not> regex \<and> \<not> glob
         | SM_Prefix s \<Rightarrow> s \<noteq> [] \<and> is_glob_literal s \<and> \<not> regex
         | SM_Suffix s \<Rightarrow> s \<noteq> [] \<and> is_glob_literal s \<and> \<not> regex
         | SM_Glob _ \<Rightarrow> glob \<and> shown \<noteq> ''*''
             \<and> \<not> (case strip_suffix ''*'' shown of Some s \<Rightarrow> is_glob_literal s | None \<Rightarrow> False)
             \<and> \<not> (case strip_prefix ''*'' shown of Some s \<Rightarrow> is_glob_literal s | None \<Rightarrow> False)
         | SM_Regex _ \<Rightarrow> regex)"

definition name_matcher_is_canonical :: "package_name_matcher \<Rightarrow> bool" where
  "name_matcher_is_canonical name = (case name of
     PNM_Exact _ \<Rightarrow> True
   | PNM_Glob glob \<Rightarrow> CHR ''*'' \<in> set glob \<and> \<not> classifies_as_regex glob \<and> is_safe_positional_value glob
   | PNM_Regex regex \<Rightarrow> classifies_as_regex regex \<and> \<not> contains_any regex '':#;[]'' \<and> CHR ''$'' \<notin> set (butlast regex))"

definition fmt_canonical_name :: "package_name_matcher \<Rightarrow> rendered" where
  "fmt_canonical_name name =
     (if \<not> name_matcher_is_canonical name then Inl (UnrepresentableName (package_name_matcher_display name))
      else Inr (package_name_matcher_display name))"

text \<open>The search for a word visits all its occurrences.\<close>

definition name_is_condition_safe :: "string \<Rightarrow> bool \<Rightarrow> bool" where
  "name_is_condition_safe s terminal =
     (if contains_any s ''()'' then False
      else \<not> list_ex (\<lambda>word. list_ex (\<lambda>position.
             occurs_at s word position
             \<and> (position = 0 \<or> ends_with_space (take position s))
             \<and> (let after = drop (position + length word) s
                in if after = [] then terminal else starts_with_space after)) [0..<length s]) [''and'', ''or''])"

definition is_safe_positional_token :: "string \<Rightarrow> bool" where
  "is_safe_positional_token value \<longleftrightarrow> value \<noteq> [] \<and> \<not> contains_space value
     \<and> \<not> contains_any value ([CHR ''#'', CHR '';'', CHR '':'', CHR ''['', CHR '']'', CHR 0x22, CHR 0x27, CHR 0x5C] @ ''()=<>!~,'')"

definition channel_name_for_url :: "format_env \<Rightarrow> url \<Rightarrow> string option" where
  "channel_name_for_url env u = (case strip_channel_alias (fe_config env) u of
     None \<Rightarrow> None
   | Some name \<Rightarrow>
       if \<not> is_safe_positional_token name then None
       else if (case rsplit_once CHR ''/'' name of Some (_, l) \<Rightarrow> \<not> isl (subdir_from_str l) | None \<Rightarrow> False) then None
       else case try_from_name (fe_url env) name (fe_config env) of
           Some derived \<Rightarrow> if ch_base_url derived = u then Some name else None
         | None \<Rightarrow> None)"

definition channel_renders_by_name :: "format_env \<Rightarrow> channel \<Rightarrow> bool" where
  "channel_renders_by_name env c \<longleftrightarrow> ch_platforms c = None \<and> ch_name c \<noteq> None
     \<and> channel_name_for_url env (ch_base_url c) = ch_name c"

definition with_platform_selector :: "string \<Rightarrow> channel \<Rightarrow> string" where
  "with_platform_selector value c = (case ch_platforms c of
     Some platforms \<Rightarrow> value @ ''['' @ join_with '','' (map subdir_as_str platforms) @ '']''
   | None \<Rightarrow> value)"

definition channel_url_value :: "channel \<Rightarrow> string" where
  "channel_url_value c = with_platform_selector (ch_base_url c) c"

section \<open>Quoting\<close>

fun contains_unescaped_from :: "bool \<Rightarrow> string \<Rightarrow> char \<Rightarrow> bool" where
  "contains_unescaped_from escaped [] d = False"
| "contains_unescaped_from escaped (c # s) d =
     (if escaped then contains_unescaped_from False s d
      else if c = CHR 0x5C then contains_unescaped_from True s d
      else if c = d then True
      else contains_unescaped_from False s d)"

definition contains_unescaped :: "string \<Rightarrow> char \<Rightarrow> bool" where
  "contains_unescaped value delimiter = contains_unescaped_from False value delimiter"

definition pick_quote_delimiter :: "string \<Rightarrow> char option" where
  "pick_quote_delimiter value =
     (let trailing_backslashes = length (takeWhile (\<lambda>c. c = CHR 0x5C) (rev value));
          delimiter_is_safe = (\<lambda>d. \<not> contains_unescaped value d)
      in if trailing_backslashes mod 2 = 1 then None
         else if contains_str value [CHR 0x5C, CHR 0x27] \<and> delimiter_is_safe CHR 0x22 then Some CHR 0x22
         else if delimiter_is_safe CHR 0x27 \<and> contains_any value [CHR 0x5C, CHR 0x22] then Some CHR 0x27
         else if delimiter_is_safe CHR 0x22 then Some CHR 0x22
         else if delimiter_is_safe CHR 0x27 then Some CHR 0x27
         else None)"

definition canonical_bracket_value :: "string \<Rightarrow> rendered" where
  "canonical_bracket_value value = (case pick_quote_delimiter value of
     Some delimiter \<Rightarrow> Inr ([delimiter] @ value @ [delimiter])
   | None \<Rightarrow> Inl (UnrepresentableScalar value))"

definition escape_bracket_value :: "string \<Rightarrow> string" where
  "escape_bracket_value s = concat (map (\<lambda>c.
     if c = CHR 0x22 then [CHR 0x5C, CHR 0x22] else if c = CHR 0x5C then [CHR 0x5C, CHR 0x5C] else [c]) s)"

definition is_valid_extra_group_name :: "string \<Rightarrow> bool" where
  "is_valid_extra_group_name name \<longleftrightarrow>
     list_all (\<lambda>c. is_ascii_lowercase c \<or> is_ascii_digit c \<or> c \<in> set ''_-.+'') name \<and> 1 \<le> length name \<and> length name \<le> 64"

definition list_element :: "(string \<Rightarrow> bool) \<Rightarrow> string \<Rightarrow> string" where
  "list_element is_valid_bare s =
     (if is_valid_bare s then s
      else case pick_quote_delimiter s of
          Some delimiter \<Rightarrow> [delimiter] @ s @ [delimiter]
        | None \<Rightarrow> [CHR 0x22] @ s @ [CHR 0x22])"

definition write_list :: "display_context \<Rightarrow> string \<Rightarrow> string list \<Rightarrow> (string \<Rightarrow> bool) \<Rightarrow> rendered" where
  "write_list ctx key elements is_valid_bare =
     Inr (key @ ''=['' @ join_with (list_separator ctx) (map (list_element is_valid_bare) elements) @ '']'')"

definition write_scalar :: "display_context \<Rightarrow> string \<Rightarrow> string \<Rightarrow> rendered" where
  "write_scalar ctx key value = (case dc_style ctx of
     DS_Legacy \<Rightarrow> (case pick_quote_delimiter value of
         Some delimiter \<Rightarrow> Inr (key @ ''='' @ [delimiter] @ value @ [delimiter])
       | None \<Rightarrow> Inr (''unrepresentable-'' @ key @ ''='' @ [CHR 0x22] @ escape_bracket_value value @ [CHR 0x22]))
   | DS_Canonical \<Rightarrow> (case canonical_bracket_value value of
         Inl e \<Rightarrow> Inl e | Inr quoted \<Rightarrow> Inr (key @ ''='' @ quoted)))"

definition canonical_channel_value :: "format_env \<Rightarrow> channel \<Rightarrow> rendered" where
  "canonical_channel_value env c =
     (if ch_platforms c = Some [] then Inl EmptyChannelPlatforms
      else let stripped = strip_url_for_serialization (fe_url env) (ch_base_url c);
               location = (case channel_name_for_url env stripped of Some name \<Rightarrow> name | None \<Rightarrow> stripped)
           in Inr (with_platform_selector location c))"

section \<open>The renderer\<close>

record spec_view =
  sv_name :: "package_name_matcher option"
  sv_version :: "version_spec option"
  sv_build :: "string_matcher option"
  sv_build_number :: "build_number_spec option"
  sv_file_name :: "string option"
  sv_extras :: "string list option"
  sv_flags :: "string_matcher list option"
  sv_channel :: "channel option"
  sv_subdir :: "string option"
  sv_namespace :: "string option"
  sv_md5 :: "u8 list option"
  sv_sha256 :: "u8 list option"
  sv_url :: "url option"
  sv_license :: "string option"
  sv_license_family :: "string option"
  sv_condition :: "match_spec_condition option"
  sv_track_features :: "string list option"

definition view_of_nameless :: "nameless_match_spec \<Rightarrow> spec_view" where
  "view_of_nameless s = \<lparr>sv_name = None, sv_version = nm_version s, sv_build = nm_build s, sv_build_number = nm_build_number s,
     sv_file_name = nm_file_name s, sv_extras = nm_extras s, sv_flags = nm_flags s, sv_channel = nm_channel s,
     sv_subdir = nm_subdir s, sv_namespace = nm_namespace s, sv_md5 = nm_md5 s, sv_sha256 = nm_sha256 s,
     sv_url = nm_url s, sv_license = nm_license s, sv_license_family = nm_license_family s,
     sv_condition = nm_condition s, sv_track_features = nm_track_features s\<rparr>"

definition view_of_spec :: "match_spec \<Rightarrow> spec_view" where
  "view_of_spec s = \<lparr>sv_name = Some (ms_name s), sv_version = ms_version s, sv_build = ms_build s, sv_build_number = ms_build_number s,
     sv_file_name = ms_file_name s, sv_extras = ms_extras s, sv_flags = ms_flags s, sv_channel = ms_channel s,
     sv_subdir = ms_subdir s, sv_namespace = ms_namespace s, sv_md5 = ms_md5 s, sv_sha256 = ms_sha256 s,
     sv_url = ms_url s, sv_license = ms_license s, sv_license_family = ms_license_family s,
     sv_condition = ms_condition s, sv_track_features = ms_track_features s\<rparr>"

fun view_has :: "spec_view \<Rightarrow> field \<Rightarrow> bool" where
  "view_has v F_Version = (sv_version v \<noteq> None)"
| "view_has v F_Build = (sv_build v \<noteq> None)"
| "view_has v F_BuildNumber = (sv_build_number v \<noteq> None)"
| "view_has v F_FileName = (sv_file_name v \<noteq> None)"
| "view_has v F_Extras = (sv_extras v \<noteq> None)"
| "view_has v F_Flags = (sv_flags v \<noteq> None)"
| "view_has v F_Channel = (sv_channel v \<noteq> None)"
| "view_has v F_Subdir = (sv_subdir v \<noteq> None)"
| "view_has v F_Namespace = (sv_namespace v \<noteq> None)"
| "view_has v F_Md5 = (sv_md5 v \<noteq> None)"
| "view_has v F_Sha256 = (sv_sha256 v \<noteq> None)"
| "view_has v F_Url = (sv_url v \<noteq> None)"
| "view_has v F_License = (sv_license v \<noteq> None)"
| "view_has v F_LicenseFamily = (sv_license_family v \<noteq> None)"
| "view_has v F_When = (sv_condition v \<noteq> None)"
| "view_has v F_TrackFeatures = (sv_track_features v \<noteq> None)"

definition view_placement :: "format_env \<Rightarrow> display_context \<Rightarrow> spec_view \<Rightarrow> legacy_placement" where
  "view_placement env ctx v =
     (if dc_style ctx \<noteq> DS_Legacy \<or> dc_position ctx \<noteq> TopLevel then placement_default
      else let ch = (sv_name v \<noteq> None \<and> (case sv_channel v of Some c \<Rightarrow> channel_renders_by_name env c | None \<Rightarrow> False));
               ver = (case sv_version v of Some version \<Rightarrow> is_safe_positional_value (spec_display version) | None \<Rightarrow> False)
           in \<lparr>lp_channel = ch,
               lp_subdir = (ch \<and> (case sv_subdir v of Some subdir \<Rightarrow> \<not> isl (subdir_from_str subdir) | None \<Rightarrow> False)),
               lp_namespace = (ch \<and> (case sv_namespace v of Some namespace \<Rightarrow> is_safe_positional_token namespace | None \<Rightarrow> False)),
               lp_version = ver,
               lp_build = (ver \<and> (case sv_build v of Some build \<Rightarrow> is_safe_positional_build (string_matcher_display build) | None \<Rightarrow> False))\<rparr>)"

definition fmt_legacy_prefix :: "format_env \<Rightarrow> spec_view \<Rightarrow> legacy_placement \<Rightarrow> bool \<Rightarrow> string" where
  "fmt_legacy_prefix env v placement renders_brackets = (case sv_name v of
     None \<Rightarrow>
       (case sv_version v of
          Some version \<Rightarrow> if lp_version placement then spec_display version else []
        | None \<Rightarrow> if \<not> renders_brackets then ''*'' else [])
       @ (case sv_build v of Some build \<Rightarrow> if lp_build placement then '' '' @ string_matcher_display build else [] | None \<Rightarrow> [])
   | Some name \<Rightarrow>
       (if lp_channel placement then
          channel_display_name (fe_url env) (the (sv_channel v))
          @ (if lp_subdir placement then ''/'' @ the (sv_subdir v) else [])
        else [])
       @ (if lp_namespace placement then '':'' @ the (sv_namespace v) @ '':''
          else if lp_channel placement then ''::'' else [])
       @ package_name_matcher_display name
       @ (case sv_version v of Some version \<Rightarrow> if lp_version placement then '' '' @ spec_display version else [] | None \<Rightarrow> [])
       @ (case sv_build v of Some build \<Rightarrow> if lp_build placement then '' '' @ string_matcher_display build else [] | None \<Rightarrow> []))"

definition is_simple_condition_leaf :: "spec_view \<Rightarrow> bool" where
  "is_simple_condition_leaf v =
     (if \<not> (case sv_name v of Some (PNM_Exact _) \<Rightarrow> True | _ \<Rightarrow> False) then False
      else if sv_condition v \<noteq> None \<or> sv_build v \<noteq> None \<or> sv_build_number v \<noteq> None \<or> sv_file_name v \<noteq> None
        \<or> sv_extras v \<noteq> None \<or> sv_flags v \<noteq> None \<or> sv_channel v \<noteq> None \<or> sv_subdir v \<noteq> None \<or> sv_namespace v \<noteq> None
        \<or> sv_md5 v \<noteq> None \<or> sv_sha256 v \<noteq> None \<or> sv_url v \<noteq> None \<or> sv_license v \<noteq> None
        \<or> sv_license_family v \<noteq> None \<or> sv_track_features v \<noteq> None then False
      else case sv_version v of
          None \<Rightarrow> True
        | Some version \<Rightarrow>
            let shown = spec_display version
            in shown \<noteq> [] \<and> hd shown \<in> set ''><=!~'' \<and> is_safe_positional_value shown \<and> \<not> contains_any shown ''()'')"

definition invalid_or_empty :: "('a \<Rightarrow> bool) \<Rightarrow> ('a \<Rightarrow> string) \<Rightarrow> 'a list \<Rightarrow> string option" where
  "invalid_or_empty bad show xs = (case find bad xs of
     Some x \<Rightarrow> Some (show x) | None \<Rightarrow> if xs = [] then Some [] else None)"

text \<open>
  One bracket field that is present; \<open>when_text\<close> is the rendering of the condition.
\<close>

fun fmt_field :: "format_env \<Rightarrow> display_context \<Rightarrow> rendered \<Rightarrow> spec_view \<Rightarrow> field \<Rightarrow> rendered" where
  "fmt_field env ctx when_text v F_Version = write_scalar ctx ''version'' (spec_display (the (sv_version v)))"
| "fmt_field env ctx when_text v F_Build =
     (let build = the (sv_build v)
      in if dc_style ctx = DS_Canonical \<and> \<not> string_matcher_is_canonical build
         then Inl (UnrepresentableBuild (string_matcher_display build))
         else write_scalar ctx ''build'' (string_matcher_display build))"
| "fmt_field env ctx when_text v F_BuildNumber =
     write_scalar ctx ''build_number'' (build_number_spec_display (the (sv_build_number v)))"
| "fmt_field env ctx when_text v F_FileName = write_scalar ctx ''fn'' (the (sv_file_name v))"
| "fmt_field env ctx when_text v F_Extras =
     (let extras = the (sv_extras v)
      in case (if dc_style ctx = DS_Canonical then invalid_or_empty (\<lambda>e. \<not> is_valid_extra_group_name e) (\<lambda>e. e) extras else None) of
           Some e \<Rightarrow> Inl (UnrepresentableExtra e)
         | None \<Rightarrow> write_list ctx ''extras'' extras is_valid_extra_group_name)"
| "fmt_field env ctx when_text v F_Flags =
     (let flags = the (sv_flags v)
      in case (if dc_style ctx = DS_Canonical
                then invalid_or_empty (\<lambda>f. \<not> is_valid_matchspec_flag (string_matcher_display f) \<or> \<not> string_matcher_is_canonical f)
                       string_matcher_display flags
                else None) of
           Some f \<Rightarrow> Inl (UnrepresentableFlag f)
         | None \<Rightarrow> write_list ctx ''flags'' (map string_matcher_display flags) is_valid_matchspec_flag)"
| "fmt_field env ctx when_text v F_Channel =
     (let c = the (sv_channel v)
      in case dc_style ctx of
           DS_Legacy \<Rightarrow>
             if ch_platforms c = Some [] then
               Inr (''unrepresentable-channel='' @ [CHR 0x22] @ escape_bracket_value (channel_url_value c) @ [CHR 0x22])
             else if channel_renders_by_name env c then write_scalar ctx ''channel'' (channel_display_name (fe_url env) c)
             else write_scalar ctx ''channel'' (channel_url_value c)
         | DS_Canonical \<Rightarrow> (case canonical_channel_value env c of
             Inl e \<Rightarrow> Inl e
           | Inr value \<Rightarrow> (case canonical_bracket_value value of Inl e \<Rightarrow> Inl e | Inr quoted \<Rightarrow> Inr (''channel='' @ quoted))))"
| "fmt_field env ctx when_text v F_Subdir = write_scalar ctx ''subdir'' (the (sv_subdir v))"
| "fmt_field env ctx when_text v F_Namespace = write_scalar ctx ''namespace'' (the (sv_namespace v))"
| "fmt_field env ctx when_text v F_Md5 = write_scalar ctx ''md5'' (fe_hex_encode env (the (sv_md5 v)))"
| "fmt_field env ctx when_text v F_Sha256 = write_scalar ctx ''sha256'' (fe_hex_encode env (the (sv_sha256 v)))"
| "fmt_field env ctx when_text v F_Url =
     (let u = the (sv_url v)
      in case dc_style ctx of
           DS_Legacy \<Rightarrow> write_scalar ctx ''url'' u
         | DS_Canonical \<Rightarrow> write_scalar ctx ''url'' (strip_url_for_serialization (fe_url env) u))"
| "fmt_field env ctx when_text v F_License = write_scalar ctx ''license'' (the (sv_license v))"
| "fmt_field env ctx when_text v F_LicenseFamily = write_scalar ctx ''license_family'' (the (sv_license_family v))"
| "fmt_field env ctx when_text v F_When = (case when_text of
     Inl e \<Rightarrow> Inl e | Inr r \<Rightarrow> Inr (''when='' @ [CHR 0x22] @ escape_bracket_value r @ [CHR 0x22]))"
| "fmt_field env ctx when_text v F_TrackFeatures =
     (let track_features = the (sv_track_features v)
      in case (if dc_style ctx = DS_Canonical
                then invalid_or_empty (\<lambda>f. f = [] \<or> contains_any f '', '') (\<lambda>f. f) track_features else None) of
           Some f \<Rightarrow> Inl (UnrepresentableTrackFeature f)
         | None \<Rightarrow> write_scalar ctx ''track_features'' (join_with '' '' track_features))"

fun collect_fields :: "('a \<Rightarrow> rendered) \<Rightarrow> 'a list \<Rightarrow> canonical_match_spec_error + string list" where
  "collect_fields f [] = Inr []"
| "collect_fields f (x # xs) = (case f x of
     Inl e \<Rightarrow> Inl e
   | Inr s \<Rightarrow> (case collect_fields f xs of Inl e \<Rightarrow> Inl e | Inr ss \<Rightarrow> Inr (s # ss)))"

definition bracket_fields :: "display_context \<Rightarrow> field list" where
  "bracket_fields ctx = (case dc_style ctx of
     DS_Legacy \<Rightarrow> (case dc_position ctx of TopLevel \<Rightarrow> LEGACY_BRACKET_FIELDS | ConditionLeaf \<Rightarrow> LEGACY_CONDITION_LEAF_FIELDS)
   | DS_Canonical \<Rightarrow> CANONICAL_BRACKET_FIELDS)"

text \<open>The part in front of the brackets, and whether the rendering ends there.\<close>

definition fmt_head :: "format_env \<Rightarrow> display_context \<Rightarrow> spec_view \<Rightarrow> legacy_placement \<Rightarrow> bool \<Rightarrow> canonical_match_spec_error + (string \<times> bool)" where
  "fmt_head env ctx v placement renders_brackets = (case dc_position ctx of
     TopLevel \<Rightarrow> (case dc_style ctx of
         DS_Legacy \<Rightarrow> Inr (fmt_legacy_prefix env v placement renders_brackets, False)
       | DS_Canonical \<Rightarrow> (case sv_name v of
             None \<Rightarrow> Inr ([], False)
           | Some name \<Rightarrow> (case fmt_canonical_name name of Inl e \<Rightarrow> Inl e | Inr s \<Rightarrow> Inr (s, False))))
   | ConditionLeaf \<Rightarrow>
       if dc_style ctx = DS_Canonical \<and> sv_condition v \<noteq> None then Inl NestedWhen
       else case (case sv_name v of
           None \<Rightarrow> Inr []
         | Some name \<Rightarrow>
             if dc_style ctx = DS_Canonical then
               let terminal = (if is_simple_condition_leaf v then sv_version v = None else \<not> renders_brackets)
               in if \<not> name_is_condition_safe (package_name_matcher_display name) terminal
                  then Inl (UnrepresentableConditionLeaf (package_name_matcher_display name))
                  else fmt_canonical_name name
             else Inr (package_name_matcher_display name)) of
           Inl e \<Rightarrow> Inl e
         | Inr name_text \<Rightarrow>
             if is_simple_condition_leaf v
             then Inr (name_text @ (case sv_version v of Some version \<Rightarrow> spec_display version | None \<Rightarrow> []), True)
             else Inr (name_text, False))"

definition view_fmt :: "format_env \<Rightarrow> display_context \<Rightarrow> rendered \<Rightarrow> spec_view \<Rightarrow> rendered" where
  "view_fmt env ctx when_text v =
     (let placement = view_placement env ctx v;
          fields = filter (\<lambda>field. view_has v field \<and> \<not> is_positional placement field) (bracket_fields ctx)
      in case fmt_head env ctx v placement (fields \<noteq> []) of
           Inl e \<Rightarrow> Inl e
         | Inr (head, finished) \<Rightarrow>
             if finished then Inr head
             else case collect_fields (fmt_field env ctx when_text v) fields of
                 Inl e \<Rightarrow> Inl e
               | Inr texts \<Rightarrow> Inr (head @ (if texts = [] then [] else ''['' @ join_with (field_separator ctx) texts @ '']'')))"

definition cond_precedence :: "match_spec_condition \<Rightarrow> nat" where
  "cond_precedence c = (case c of MSC_MatchSpec _ \<Rightarrow> 3 | MSC_And _ _ \<Rightarrow> 2 | MSC_Or _ _ \<Rightarrow> 1)"

definition needs_parentheses :: "match_spec_condition \<Rightarrow> nat \<Rightarrow> bool \<Rightarrow> bool" where
  "needs_parentheses c parent is_right_child \<longleftrightarrow>
     cond_precedence c < parent \<or> (is_right_child \<and> cond_precedence c = parent \<and> cond_precedence c < 3)"

definition parenthesize :: "bool \<Rightarrow> rendered \<Rightarrow> rendered" where
  "parenthesize b r = (case r of Inl e \<Rightarrow> Inl e | Inr s \<Rightarrow> Inr (if b then ''('' @ s @ '')'' else s))"

definition join_rendered :: "string \<Rightarrow> rendered \<Rightarrow> rendered \<Rightarrow> rendered" where
  "join_rendered op l r = (case l of Inl e \<Rightarrow> Inl e | Inr a \<Rightarrow> (case r of Inl e \<Rightarrow> Inl e | Inr b \<Rightarrow> Inr (a @ op @ b)))"

fun spec_fmt :: "format_env \<Rightarrow> display_context \<Rightarrow> match_spec \<Rightarrow> rendered"
and cond_fmt :: "format_env \<Rightarrow> display_style \<Rightarrow> nat \<Rightarrow> bool \<Rightarrow> match_spec_condition \<Rightarrow> rendered" where
  "spec_fmt env ctx (MatchSpec n ve b bn fn ex fl ch sd ns md sh u li lf con tf) =
     view_fmt env ctx (case con of None \<Rightarrow> Inr [] | Some c \<Rightarrow> cond_fmt env (dc_style ctx) 0 False c)
       (view_of_spec (MatchSpec n ve b bn fn ex fl ch sd ns md sh u li lf con tf))"
| "cond_fmt env style parent right (MSC_MatchSpec s) =
     parenthesize (needs_parentheses (MSC_MatchSpec s) parent right) (spec_fmt env (condition_leaf style) s)"
| "cond_fmt env style parent right (MSC_And l r) =
     parenthesize (needs_parentheses (MSC_And l r) parent right)
       (join_rendered '' and '' (cond_fmt env style 2 False l) (cond_fmt env style 2 True r))"
| "cond_fmt env style parent right (MSC_Or l r) =
     parenthesize (needs_parentheses (MSC_Or l r) parent right)
       (join_rendered '' or '' (cond_fmt env style 1 False l) (cond_fmt env style 1 True r))"

definition to_canonical_string :: "format_env \<Rightarrow> match_spec \<Rightarrow> rendered" where
  "to_canonical_string env s = spec_fmt env CANONICAL s"

text \<open>\<open>Display\<close>: an error of the canonical dialect would be a failure to write, which is \<open>None\<close>.\<close>

definition match_spec_display :: "format_env \<Rightarrow> match_spec \<Rightarrow> string option" where
  "match_spec_display env s = (case spec_fmt env LEGACY s of Inr t \<Rightarrow> Some t | Inl _ \<Rightarrow> None)"

definition condition_display :: "format_env \<Rightarrow> match_spec_condition \<Rightarrow> string option" where
  "condition_display env c = (case cond_fmt env DS_Legacy 0 False c of Inr t \<Rightarrow> Some t | Inl _ \<Rightarrow> None)"

definition nameless_display :: "format_env \<Rightarrow> nameless_match_spec \<Rightarrow> string option" where
  "nameless_display env s =
     (case view_fmt env LEGACY (case nm_condition s of None \<Rightarrow> Inr [] | Some c \<Rightarrow> cond_fmt env DS_Legacy 0 False c) (view_of_nameless s) of
        Inr t \<Rightarrow> Some t | Inl _ \<Rightarrow> None)"

end
