(* ===== verification/Match_Spec_Properties.thy ===== *)
theory Match_Spec_Properties
  imports Match_Spec_Format
begin

text \<open>
  Properties of match specs: decomposition into a name and a nameless spec, specs made from urls, the
  totality of the legacy rendering, and that the canonical rendering depends on urls only through what
  stripping leaves of them.
\<close>

section \<open>Decomposition and matching\<close>

lemma from_into_nameless: "from_nameless (snd (into_nameless s)) (fst (into_nameless s)) = s"
  by (cases s) (simp add: from_nameless_def into_nameless_def)

lemma into_from_nameless: "into_nameless (from_nameless n m) = (m, n)"
  by (cases n) (simp add: from_nameless_def into_nameless_def)

lemma nameless_from_into: "nameless_from s = snd (into_nameless s)"
  by (simp add: nameless_from_def into_nameless_def)

lemma matches_record_split:
  "spec_matches_record pc s r \<longleftrightarrow>
     package_name_matcher_matches pc (ms_name s) (pr_name r) \<and> nameless_matches_record pc (nameless_from s) r"
  by (simp add: spec_matches_record_def nameless_matches_record_def nameless_from_def)

text \<open>
  A spec is its name and its nameless spec: decomposing and composing are inverse, and a record matches a spec
  exactly when its name matches and the rest matches the nameless spec.
\<close>

theorem match_spec_decomposition:
  "from_nameless (snd (into_nameless s)) (fst (into_nameless s)) = s
   \<and> into_nameless (from_nameless n m) = (m, n)
   \<and> nameless_from s = snd (into_nameless s)
   \<and> (spec_matches_repodata pc s r \<longleftrightarrow> package_name_matcher_matches pc (ms_name s) (pr_name (rd_package_record r))
        \<and> nameless_matches_repodata pc (nameless_from s) r)"
proof (intro conjI)
  show "spec_matches_repodata pc s r \<longleftrightarrow> package_name_matcher_matches pc (ms_name s) (pr_name (rd_package_record r))
        \<and> nameless_matches_repodata pc (nameless_from s) r"
    unfolding spec_matches_repodata_def nameless_matches_repodata_def matches_record_split
    by (auto simp: nameless_from_def)
qed (rule from_into_nameless into_from_nameless nameless_from_into)+

text \<open>
  Matching reads none of the file name, channel, subdir, namespace, extras and condition of a spec.
\<close>

theorem matching_ignores_location:
  "spec_matches_repodata pc (MatchSpec n ve b bn fn ex fl ch sd ns md sh u li lf con tf) r
     = spec_matches_repodata pc (MatchSpec n ve b bn fn' ex' fl ch' sd' ns' md sh u li lf con' tf) r"
  by (simp add: spec_matches_repodata_def spec_matches_record_def)

section \<open>Specs from urls\<close>

text \<open>
  The digest that a fragment names, read off its text: the hexadecimal digits behind one or more \<open>sha256:\<close>, or, when
  there is no such prefix, the whole fragment as an MD5 digest, unless it is empty.
\<close>

definition names_sha256 :: "string option \<Rightarrow> string \<Rightarrow> bool" where
  "names_sha256 fragment d \<longleftrightarrow> (\<exists>n. fragment = Some (concat (replicate (Suc n) ''sha256:'') @ d)) \<and> \<not> prefix ''sha256:'' d"

definition names_md5 :: "string option \<Rightarrow> string \<Rightarrow> bool" where
  "names_md5 fragment d \<longleftrightarrow> fragment = Some d \<and> d \<noteq> [] \<and> \<not> prefix ''sha256:'' d"

definition has_digest :: "hex_crate \<Rightarrow> string option \<Rightarrow> package_record \<Rightarrow> bool" where
  "has_digest hex fragment r \<longleftrightarrow> (\<forall>d. names_sha256 fragment d \<longrightarrow> pr_sha256 r = hex 32 d)
     \<and> (\<forall>d. names_md5 fragment d \<longrightarrow> pr_md5 r = hex 16 d)"

definition valid_digest :: "hex_crate \<Rightarrow> string option \<Rightarrow> bool" where
  "valid_digest hex fragment \<longleftrightarrow> (\<forall>d. names_sha256 fragment d \<longrightarrow> hex 32 d \<noteq> None)
     \<and> (\<forall>d. names_md5 fragment d \<longrightarrow> hex 16 d \<noteq> None)"

lemma strip_prefix_None_iff: "strip_prefix p s = None \<longleftrightarrow> \<not> prefix p s"
  by (metis not_None_eq prefix_def strip_prefix_iff)

lemma trim_start_str_append: "p \<noteq> [] \<Longrightarrow> trim_start_str p (p @ s) = trim_start_str p s"
  by (subst trim_start_str.simps) (simp add: strip_prefix_iff [THEN iffD2, OF refl])

lemma trim_start_str_repeat:
  assumes "p \<noteq> []" "\<not> prefix p d"
  shows "trim_start_str p (concat (replicate n p) @ d) = d"
proof (induction n)
  case 0
  show ?case using assms(2) by (subst trim_start_str.simps) (simp add: strip_prefix_None_iff [THEN iffD2])
qed (simp add: trim_start_str_append [OF assms(1)])

lemma trim_start_str_ends:
  assumes "p \<noteq> []"
  shows "\<exists>n. s = concat (replicate n p) @ trim_start_str p s" "\<not> prefix p (trim_start_str p s)"
proof -
  have "(\<exists>n. s = concat (replicate n p) @ trim_start_str p s) \<and> \<not> prefix p (trim_start_str p s)"
  proof (induction s rule: length_induct)
    case (1 s)
    show ?case
    proof (cases "prefix p s")
      case True
      then obtain r where s: "s = p @ r" by (auto simp: prefix_def)
      then have "length r < length s" using assms by simp
      with 1 obtain n where "r = concat (replicate n p) @ trim_start_str p r" "\<not> prefix p (trim_start_str p r)" by blast
      then show ?thesis using s assms by (intro conjI exI [of _ "Suc n"]) (simp_all add: trim_start_str_append)
    next
      case False
      then have "trim_start_str p s = s" using trim_start_str_repeat [OF assms False, of 0] by simp
      with False show ?thesis by (auto intro: exI [of _ 0])
    qed
  qed
  then show "\<exists>n. s = concat (replicate n p) @ trim_start_str p s" "\<not> prefix p (trim_start_str p s)" by blast+
qed

lemma names_sha256_iff: "names_sha256 fragment d \<longleftrightarrow> (\<exists>f. fragment = Some f \<and> prefix ''sha256:'' f \<and> d = trim_start_str ''sha256:'' f)"
proof
  assume "names_sha256 fragment d"
  then obtain n where n: "fragment = Some (concat (replicate (Suc n) ''sha256:'') @ d)" "\<not> prefix ''sha256:'' d"
    by (auto simp: names_sha256_def)
  show "\<exists>f. fragment = Some f \<and> prefix ''sha256:'' f \<and> d = trim_start_str ''sha256:'' f"
    using n(1) trim_start_str_repeat [OF _ n(2), of "Suc n"] by auto
next
  assume "\<exists>f. fragment = Some f \<and> prefix ''sha256:'' f \<and> d = trim_start_str ''sha256:'' f"
  then obtain f where f: "fragment = Some f" "prefix ''sha256:'' f" "d = trim_start_str ''sha256:'' f" by blast
  obtain n where n: "f = concat (replicate n ''sha256:'') @ d" "\<not> prefix ''sha256:'' d"
    using trim_start_str_ends [of "''sha256:''" f] f(3) by auto
  then have "n \<noteq> 0" using f(2) by (auto intro: ccontr)
  then show "names_sha256 fragment d" using n f(1) by (cases n) (auto simp: names_sha256_def)
qed

lemma fragment_digests_names:
  "fragment_digests hex fragment = Inr (md5, sha256)
     \<Longrightarrow> has_digest hex fragment r \<longleftrightarrow> (md5 = None \<or> md5 = pr_md5 r) \<and> (sha256 = None \<or> sha256 = pr_sha256 r)"
  by (auto simp: fragment_digests_def has_digest_def names_sha256_iff names_md5_def strip_prefix_None_iff parse_digest_from_hex_def
      split: option.splits if_splits)

lemma fragment_digests_valid: "(\<exists>ds. fragment_digests hex fragment = Inr ds) \<longleftrightarrow> valid_digest hex fragment"
  by (auto simp: fragment_digests_def valid_digest_def names_sha256_iff names_md5_def strip_prefix_None_iff parse_digest_from_hex_def
      split: option.splits if_splits)

lemma try_from_url_iff:
  "match_spec_try_from_url uc pc hex u = Inr s \<longleftrightarrow> (\<exists>md5 sha256 segments ident name.
     fragment_digests hex (url_fragment uc u) = Inr (md5, sha256) \<and> url_path_segments uc u = Some segments \<and> segments \<noteq> []
     \<and> conda_try_from_filename (last segments) = Some ident
     \<and> package_name_matcher_from_str pc (ai_name (ci_identifier ident)) = Inr name
     \<and> s = MatchSpec name None None None None None None None None None md5 sha256 (Some (url_set_fragment uc u None)) None None None None)"
  by (auto simp: match_spec_try_from_url_def Let_def split: sum.splits option.splits list.splits prod.splits)

text \<open>
  C37. A url becomes a spec exactly when the digest its fragment names is valid, it has a path whose last segment is
  the file name of a conda package, and the name in it is a valid name or pattern. The spec matches exactly the
  records that have this url without its fragment, a name that matches, and, when the fragment names a digest, that
  digest.
\<close>

theorem url_spec_pins_package:
  "((\<exists>s. match_spec_try_from_url uc pc hex u = Inr s) \<longleftrightarrow> valid_digest hex (url_fragment uc u)
      \<and> (\<exists>segments ident name. url_path_segments uc u = Some segments \<and> segments \<noteq> []
          \<and> conda_try_from_filename (last segments) = Some ident
          \<and> package_name_matcher_from_str pc (ai_name (ci_identifier ident)) = Inr name))
   \<and> (\<forall>s. match_spec_try_from_url uc pc hex u = Inr s \<longrightarrow>
      (\<exists>segments ident. url_path_segments uc u = Some segments \<and> conda_try_from_filename (last segments) = Some ident
        \<and> package_name_matcher_from_str pc (ai_name (ci_identifier ident)) = Inr (ms_name s)
        \<and> (\<forall>r. spec_matches_repodata pc s r \<longleftrightarrow> rd_url r = url_set_fragment uc u None
             \<and> package_name_matcher_matches pc (ms_name s) (pr_name (rd_package_record r))
             \<and> has_digest hex (url_fragment uc u) (rd_package_record r))))"
proof (intro conjI allI impI)
  show "(\<exists>s. match_spec_try_from_url uc pc hex u = Inr s) \<longleftrightarrow> valid_digest hex (url_fragment uc u)
      \<and> (\<exists>segments ident name. url_path_segments uc u = Some segments \<and> segments \<noteq> []
          \<and> conda_try_from_filename (last segments) = Some ident
          \<and> package_name_matcher_from_str pc (ai_name (ci_identifier ident)) = Inr name)"
    unfolding try_from_url_iff fragment_digests_valid [symmetric] by auto
  fix s assume "match_spec_try_from_url uc pc hex u = Inr s"
  then obtain md5 sha256 segments ident name where a: "fragment_digests hex (url_fragment uc u) = Inr (md5, sha256)"
    "url_path_segments uc u = Some segments" "conda_try_from_filename (last segments) = Some ident"
    "package_name_matcher_from_str pc (ai_name (ci_identifier ident)) = Inr name"
    and s: "s = MatchSpec name None None None None None None None None None md5 sha256 (Some (url_set_fragment uc u None)) None None None None"
    unfolding try_from_url_iff by blast
  have "spec_matches_repodata pc s r \<longleftrightarrow> rd_url r = url_set_fragment uc u None
         \<and> package_name_matcher_matches pc (ms_name s) (pr_name (rd_package_record r))
         \<and> has_digest hex (url_fragment uc u) (rd_package_record r)" for r
    unfolding fragment_digests_names [OF a(1)]
    by (cases md5; cases sha256) (auto simp: s spec_matches_repodata_def spec_matches_record_def unset_or_def)
  then show "\<exists>segments ident. url_path_segments uc u = Some segments \<and> conda_try_from_filename (last segments) = Some ident
        \<and> package_name_matcher_from_str pc (ai_name (ci_identifier ident)) = Inr (ms_name s)
        \<and> (\<forall>r. spec_matches_repodata pc s r \<longleftrightarrow> rd_url r = url_set_fragment uc u None
             \<and> package_name_matcher_matches pc (ms_name s) (pr_name (rd_package_record r))
             \<and> has_digest hex (url_fragment uc u) (rd_package_record r))"
    using a(2-4) by (auto simp: s)
qed

definition nibble :: "char \<Rightarrow> nat" where
  "nibble c = (if is_ascii_digit c then of_char c - 48 else of_char (ascii_lower c) - 87)"

fun hex_bytes :: "string \<Rightarrow> u8 list" where
  "hex_bytes (a # b # s) = of_nat (16 * nibble a + nibble b) # hex_bytes s"
| "hex_bytes _ = []"

definition sample_hex :: hex_crate where
  "sample_hex n s = (if length s = 2 * n \<and> list_all is_ascii_hexdigit s then Some (hex_bytes s) else None)"

theorem url_spec_pins_package_witness:
  "\<exists>s. match_spec_try_from_url plain_urls star_globs sample_hex (''https://h/c/noarch/foo-1.0-0.conda#sha256:'' @ concat (replicate 32 ''0F'')) = Inr s
    \<and> (\<forall>r. spec_matches_repodata star_globs s r \<longleftrightarrow> rd_url r = ''https://h/c/noarch/foo-1.0-0.conda''
         \<and> package_name_matcher_matches star_globs (PNM_Exact (new_unchecked ''foo'')) (pr_name (rd_package_record r))
         \<and> pr_sha256 (rd_package_record r) = Some (replicate 32 15))"
proof -
  let ?d = "concat (replicate 32 ''0F'')" and ?base = "''https://h/c/noarch/foo-1.0-0.conda''"
  let ?u = "''https://h/c/noarch/foo-1.0-0.conda#sha256:'' @ ?d"
  have u: "url_set_fragment plain_urls ?u None = ?base" "url_fragment plain_urls ?u = Some (''sha256:'' @ ?d)"
    "trim_start_str ''sha256:'' (''sha256:'' @ ?d) = ?d" "sample_hex 32 ?d = Some (replicate 32 15)"
    by code_simp+
  obtain s where s: "match_spec_try_from_url plain_urls star_globs sample_hex ?u = Inr s" "ms_name s = PNM_Exact (new_unchecked ''foo'')"
  proof
    show "match_spec_try_from_url plain_urls star_globs sample_hex ?u = Inr (MatchSpec (PNM_Exact (new_unchecked ''foo''))
        None None None None None None None None None None (Some (replicate 32 15)) (Some ?base) None None None None)"
      by code_simp
  qed simp
  have "has_digest sample_hex (url_fragment plain_urls ?u) r \<longleftrightarrow> pr_sha256 r = Some (replicate 32 15)" for r
    unfolding has_digest_def names_sha256_iff names_md5_def u(2) using u(3,4) by auto
  moreover have "\<forall>r. spec_matches_repodata star_globs s r \<longleftrightarrow> rd_url r = url_set_fragment plain_urls ?u None
      \<and> package_name_matcher_matches star_globs (ms_name s) (pr_name (rd_package_record r))
      \<and> has_digest sample_hex (url_fragment plain_urls ?u) (rd_package_record r)"
    using url_spec_pins_package [of plain_urls star_globs sample_hex ?u] s(1) by blast
  ultimately show ?thesis using s unfolding u(1) by auto
qed

section \<open>The legacy rendering is total\<close>

lemma write_scalar_legacy: "dc_style ctx = DS_Legacy \<Longrightarrow> \<exists>t. write_scalar ctx key value = Inr t"
  by (auto simp: write_scalar_def split: option.splits)

lemma fmt_field_legacy:
  assumes "dc_style ctx = DS_Legacy" "\<exists>t. when_text = Inr t"
  shows "\<exists>t. fmt_field env ctx when_text v field = Inr t"
  using assms write_scalar_legacy [OF assms(1)]
  by (cases field) (auto simp: Let_def write_list_def)

lemma collect_fields_total: "\<forall>x \<in> set xs. \<exists>t. f x = Inr t \<Longrightarrow> \<exists>ts. collect_fields f xs = Inr ts \<and> length ts = length xs"
proof (induction xs)
  case (Cons x xs)
  then obtain t ts where "f x = Inr t" "collect_fields f xs = Inr ts" "length ts = length xs" by auto
  then show ?case by simp
qed simp

lemma fmt_head_legacy: "dc_style ctx = DS_Legacy \<Longrightarrow> \<exists>h. fmt_head env ctx v placement b = Inr h"
  by (auto simp: fmt_head_def split: spec_position.splits option.splits)

lemma view_fmt_legacy:
  assumes "dc_style ctx = DS_Legacy" "\<exists>t. when_text = Inr t"
  shows "\<exists>t. view_fmt env ctx when_text v = Inr t"
proof -
  define fields where "fields = filter (\<lambda>field. view_has v field \<and> \<not> is_positional (view_placement env ctx v) field) (bracket_fields ctx)"
  obtain head finished where h: "fmt_head env ctx v (view_placement env ctx v) (fields \<noteq> []) = Inr (head, finished)"
    using fmt_head_legacy [OF assms(1)] by (metis surj_pair)
  obtain ts where "collect_fields (fmt_field env ctx when_text v) fields = Inr ts"
    using collect_fields_total [of fields "fmt_field env ctx when_text v"] fmt_field_legacy [OF assms] by auto
  then show ?thesis using h by (simp add: view_fmt_def fields_def [symmetric])
qed

lemma legacy_total:
  "dc_style ctx = DS_Legacy \<Longrightarrow> \<exists>t. spec_fmt env ctx s = Inr t"
  "style = DS_Legacy \<Longrightarrow> \<exists>t. cond_fmt env style parent right c = Inr t"
proof (induction env ctx s and env style parent right c rule: spec_fmt_cond_fmt.induct)
  case (1 env ctx n ve b bn fn ex fl ch sd ns md sh u li lf con tf)
  then have "\<exists>t. (case con of None \<Rightarrow> Inr [] | Some c \<Rightarrow> cond_fmt env (dc_style ctx) 0 False c) = Inr t"
    by (cases con) auto
  from view_fmt_legacy [OF 1(2) this] show ?case by simp
next
  case (2 env style parent right s)
  then show ?case by (auto simp: condition_leaf_def parenthesize_def split: sum.splits)
qed (auto simp: parenthesize_def join_rendered_def)

text \<open>
  C38. Displaying a spec, a nameless spec or a condition never fails: the errors of the canonical dialect do not
  occur in the legacy one, whatever the nesting.
\<close>

theorem legacy_display_total:
  "(\<exists>t. match_spec_display env s = Some t) \<and> (\<exists>t. condition_display env c = Some t) \<and> (\<exists>t. nameless_display env n = Some t)"
proof (intro conjI)
  show "\<exists>t. match_spec_display env s = Some t"
    using legacy_total(1) [of LEGACY env s] by (auto simp: match_spec_display_def LEGACY_def)
  show "\<exists>t. condition_display env c = Some t"
    using legacy_total(2) [of DS_Legacy env 0 False c] by (auto simp: condition_display_def)
  have "\<exists>t. (case nm_condition n of None \<Rightarrow> Inr [] | Some c \<Rightarrow> cond_fmt env DS_Legacy 0 False c) = Inr t"
    using legacy_total(2) [OF refl, of env 0 False] by (cases "nm_condition n") auto
  then obtain t where "view_fmt env LEGACY (case nm_condition n of None \<Rightarrow> Inr [] | Some c \<Rightarrow> cond_fmt env DS_Legacy 0 False c) (view_of_nameless n) = Inr t"
    using view_fmt_legacy [of LEGACY _ env "view_of_nameless n"] by (auto simp: LEGACY_def)
  then show "\<exists>t. nameless_display env n = Some t" by (simp add: nameless_display_def)
qed

section \<open>The canonical rendering depends on public parts of urls only\<close>

text \<open>The channel and the spec with their urls stripped; the name a channel carries is dropped as well.\<close>

definition public_channel :: "url_crate \<Rightarrow> channel \<Rightarrow> channel" where
  "public_channel uc c = \<lparr>ch_platforms = ch_platforms c, ch_base_url = strip_url_for_serialization uc (ch_base_url c), ch_name = None\<rparr>"

fun public_spec :: "url_crate \<Rightarrow> match_spec \<Rightarrow> match_spec" and public_condition :: "url_crate \<Rightarrow> match_spec_condition \<Rightarrow> match_spec_condition" where
  "public_spec uc (MatchSpec n ve b bn fn ex fl ch sd ns md sh u li lf con tf) =
     MatchSpec n ve b bn fn ex fl (map_option (public_channel uc) ch) sd ns md sh (map_option (strip_url_for_serialization uc) u) li lf
       (case con of None \<Rightarrow> None | Some c \<Rightarrow> Some (public_condition uc c)) tf"
| "public_condition uc (MSC_MatchSpec s) = MSC_MatchSpec (public_spec uc s)"
| "public_condition uc (MSC_And l r) = MSC_And (public_condition uc l) (public_condition uc r)"
| "public_condition uc (MSC_Or l r) = MSC_Or (public_condition uc l) (public_condition uc r)"

lemma canonical_channel_public:
  assumes "public_channel (fe_url env) c = public_channel (fe_url env) d"
  shows "canonical_channel_value env c = canonical_channel_value env d"
proof -
  have "ch_platforms c = ch_platforms d" "strip_url_for_serialization (fe_url env) (ch_base_url c) = strip_url_for_serialization (fe_url env) (ch_base_url d)"
    using assms by (simp_all add: public_channel_def)
  then show ?thesis by (simp add: canonical_channel_value_def with_platform_selector_def)
qed

text \<open>Views that differ in private parts of urls only.\<close>

definition public_view_eq :: "url_crate \<Rightarrow> spec_view \<Rightarrow> spec_view \<Rightarrow> bool" where
  "public_view_eq uc v w \<longleftrightarrow>
     v\<lparr>sv_channel := None, sv_url := None, sv_condition := None\<rparr> = w\<lparr>sv_channel := None, sv_url := None, sv_condition := None\<rparr>
     \<and> map_option (public_channel uc) (sv_channel v) = map_option (public_channel uc) (sv_channel w)
     \<and> map_option (strip_url_for_serialization uc) (sv_url v) = map_option (strip_url_for_serialization uc) (sv_url w)
     \<and> (sv_condition v = None \<longleftrightarrow> sv_condition w = None)"

lemma public_view_eqD:
  assumes "public_view_eq uc v w"
  shows "sv_name v = sv_name w" "sv_version v = sv_version w" "sv_build v = sv_build w" "sv_build_number v = sv_build_number w"
    "sv_file_name v = sv_file_name w" "sv_extras v = sv_extras w" "sv_flags v = sv_flags w" "sv_subdir v = sv_subdir w"
    "sv_namespace v = sv_namespace w" "sv_md5 v = sv_md5 w" "sv_sha256 v = sv_sha256 w" "sv_license v = sv_license w"
    "sv_license_family v = sv_license_family w" "sv_track_features v = sv_track_features w"
    "sv_channel v = None \<longleftrightarrow> sv_channel w = None" "sv_url v = None \<longleftrightarrow> sv_url w = None" "sv_condition v = None \<longleftrightarrow> sv_condition w = None"
  using assms by (cases v; cases w; auto simp: public_view_eq_def)+

lemma view_has_public: "public_view_eq uc v w \<Longrightarrow> view_has v field = view_has w field"
  using public_view_eqD [of uc v w] by (cases field) simp_all

lemma simple_leaf_public: "public_view_eq uc v w \<Longrightarrow> is_simple_condition_leaf v = is_simple_condition_leaf w"
  using public_view_eqD [of uc v w] by (simp add: is_simple_condition_leaf_def)

lemma map_option_eqD: "map_option f a = map_option f b \<Longrightarrow> a = Some x \<Longrightarrow> \<exists>y. b = Some y \<and> f x = f y"
  by (cases b) auto

lemma fmt_field_public:
  assumes eq: "public_view_eq (fe_url env) v w" and style: "dc_style ctx = DS_Canonical" and has: "view_has v field"
  shows "fmt_field env ctx when_text v field = fmt_field env ctx when_text w field"
proof (cases field)
  case F_Channel
  then obtain c where c: "sv_channel v = Some c" using has by auto
  then obtain d where cd: "sv_channel v = Some c" "sv_channel w = Some d" "public_channel (fe_url env) c = public_channel (fe_url env) d"
    using eq map_option_eqD [of _ "sv_channel v" "sv_channel w" c] unfolding public_view_eq_def by blast
  then show ?thesis using canonical_channel_public [OF cd(3)] by (simp add: F_Channel style)
next
  case F_Url
  then obtain c where c: "sv_url v = Some c" using has by auto
  then obtain d where "sv_url v = Some c" "sv_url w = Some d" "strip_url_for_serialization (fe_url env) c = strip_url_for_serialization (fe_url env) d"
    using eq map_option_eqD [of _ "sv_url v" "sv_url w" c] unfolding public_view_eq_def by blast
  then show ?thesis by (simp add: F_Url style)
qed (use public_view_eqD [OF eq] in simp_all)

lemma collect_fields_cong: "\<forall>x \<in> set xs. f x = g x \<Longrightarrow> collect_fields f xs = collect_fields g xs"
  by (induction xs) (auto split: sum.splits)

lemma fmt_head_public:
  assumes "public_view_eq uc v w" "dc_style ctx = DS_Canonical"
  shows "fmt_head env ctx v placement b = fmt_head env ctx w placement b"
  unfolding fmt_head_def public_view_eqD(1,2,17) [OF assms(1)] simple_leaf_public [OF assms(1)] assms(2) display_style.case
  by (rule refl)

lemma view_fmt_public:
  assumes "public_view_eq (fe_url env) v w" "dc_style ctx = DS_Canonical"
  shows "view_fmt env ctx when_text v = view_fmt env ctx when_text w"
proof -
  have p: "view_placement env ctx v = placement_default" "view_placement env ctx w = placement_default"
    using assms(2) by (simp_all add: view_placement_def)
  let ?fields = "filter (\<lambda>field. view_has w field \<and> \<not> is_positional placement_default field) (bracket_fields ctx)"
  have "collect_fields (fmt_field env ctx when_text v) ?fields = collect_fields (fmt_field env ctx when_text w) ?fields"
    by (rule collect_fields_cong) (auto intro: fmt_field_public [OF assms] simp: view_has_public [OF assms(1)])
  then show ?thesis
    unfolding view_fmt_def p Let_def fmt_head_public [OF assms] view_has_public [OF assms(1)] by (simp only:)
qed

lemma canonical_public:
  "dc_style ctx = DS_Canonical \<Longrightarrow> public_spec (fe_url env) s = public_spec (fe_url env) s' \<Longrightarrow> spec_fmt env ctx s = spec_fmt env ctx s'"
  "style = DS_Canonical \<Longrightarrow> public_condition (fe_url env) c = public_condition (fe_url env) c'
     \<Longrightarrow> cond_fmt env style parent right c = cond_fmt env style parent right c'"
proof (induction env ctx s and env style parent right c arbitrary: s' and c' rule: spec_fmt_cond_fmt.induct)
  case (1 env ctx n ve b bn fn ex fl ch sd ns md sh u li lf con tf)
  obtain ch' u' con' where s': "s' = MatchSpec n ve b bn fn ex fl ch' sd ns md sh u' li lf con' tf"
    and ch: "map_option (public_channel (fe_url env)) ch = map_option (public_channel (fe_url env)) ch'"
    and u: "map_option (strip_url_for_serialization (fe_url env)) u = map_option (strip_url_for_serialization (fe_url env)) u'"
    and con: "map_option (public_condition (fe_url env)) con = map_option (public_condition (fe_url env)) con'"
    using 1(3) by (cases s') (auto split: option.splits)
  have "(case con of None \<Rightarrow> Inr [] | Some c \<Rightarrow> cond_fmt env (dc_style ctx) 0 False c)
      = (case con' of None \<Rightarrow> Inr [] | Some c \<Rightarrow> cond_fmt env (dc_style ctx) 0 False c)"
  proof (cases con)
    case (Some c)
    then obtain c' where c': "con' = Some c'" "public_condition (fe_url env) c = public_condition (fe_url env) c'"
      using map_option_eqD [OF con Some] by blast
    then show ?thesis using 1(1) [OF Some 1(2) c'(2)] Some by simp
  qed (use con in simp)
  moreover have "public_view_eq (fe_url env) (view_of_spec (MatchSpec n ve b bn fn ex fl ch sd ns md sh u li lf con tf)) (view_of_spec s')"
    using ch u con by (auto simp: public_view_eq_def view_of_spec_def s' map_option_case split: option.splits)
  from view_fmt_public [OF this 1(2)]
  have "view_fmt env ctx w (view_of_spec (MatchSpec n ve b bn fn ex fl ch sd ns md sh u li lf con tf)) = view_fmt env ctx w (view_of_spec s')" for w .
  ultimately show ?case by (simp add: s')
next
  case (2 env style parent right s)
  then obtain t where t: "c' = MSC_MatchSpec t" "public_spec (fe_url env) s = public_spec (fe_url env) t" by (cases c') auto
  then have "spec_fmt env (condition_leaf style) s = spec_fmt env (condition_leaf style) t" using 2 by (simp add: condition_leaf_def)
  then show ?case by (simp add: t needs_parentheses_def cond_precedence_def)
next
  case (3 env style parent right l r)
  then obtain l' r' where c': "c' = MSC_And l' r'" "public_condition (fe_url env) l = public_condition (fe_url env) l'"
    "public_condition (fe_url env) r = public_condition (fe_url env) r'" by (cases c') auto
  show ?case using 3(1) [OF 3(3) c'(2)] 3(2) [OF 3(3) c'(3)] by (simp add: c'(1) needs_parentheses_def cond_precedence_def)
next
  case (4 env style parent right l r)
  then obtain l' r' where c': "c' = MSC_Or l' r'" "public_condition (fe_url env) l = public_condition (fe_url env) l'"
    "public_condition (fe_url env) r = public_condition (fe_url env) r'" by (cases c') auto
  show ?case using 4(1) [OF 4(3) c'(2)] 4(2) [OF 4(3) c'(3)] by (simp add: c'(1) needs_parentheses_def cond_precedence_def)
qed

text \<open>
  C39. The canonical form of a spec does not depend on the credentials in its urls: two specs that agree once
  the package url and the channel url are stripped, here and in all nested conditions, have the same canonical
  string, or the same error. The display name of a channel plays no part.
\<close>

theorem canonical_string_hides_credentials:
  assumes "public_spec (fe_url env) s = public_spec (fe_url env) s'"
  shows "to_canonical_string env s = to_canonical_string env s'"
  using canonical_public(1) [OF _ assms] by (simp add: to_canonical_string_def CANONICAL_def)

definition sample_format :: format_env where
  "sample_format = \<lparr>fe_url = plain_urls, fe_hex_encode = (\<lambda>_. []), fe_config = sample_config\<rparr>"

definition sample_url_spec :: "url \<Rightarrow> match_spec" where
  "sample_url_spec u = MatchSpec (PNM_Exact (new_unchecked ''foo'')) None None None None None None None None None None None (Some u) None None None None"

theorem canonical_string_hides_credentials_witness:
  "to_canonical_string sample_format (sample_url_spec ''https://me:pw@h/t/tk/c/x'') = to_canonical_string sample_format (sample_url_spec ''https://h/c/x'')
    \<and> to_canonical_string sample_format (sample_url_spec ''https://h/c/x'') = Inr (''foo[url='' @ [CHR 0x22] @ ''https://h/c/x'' @ [CHR 0x22] @ '']'')"
proof -
  have "strip_url_for_serialization plain_urls ''https://me:pw@h/t/tk/c/x'' = strip_url_for_serialization plain_urls ''https://h/c/x''"
    by code_simp
  then have "public_spec (fe_url sample_format) (sample_url_spec ''https://me:pw@h/t/tk/c/x'') = public_spec (fe_url sample_format) (sample_url_spec ''https://h/c/x'')"
    by (simp add: sample_url_spec_def sample_format_def)
  from canonical_string_hides_credentials [OF this]
  have "to_canonical_string sample_format (sample_url_spec ''https://me:pw@h/t/tk/c/x'') = to_canonical_string sample_format (sample_url_spec ''https://h/c/x'')" .
  moreover have "to_canonical_string sample_format (sample_url_spec ''https://h/c/x'') = Inr (''foo[url='' @ [CHR 0x22] @ ''https://h/c/x'' @ [CHR 0x22] @ '']'')"
    by code_simp
  ultimately show ?thesis by blast
qed

end
