(* ===== verification/Match_Spec_Parse.thy ===== *)
theory Match_Spec_Parse
  imports Match_Spec_Properties Text_Scanners
begin

text \<open>
  The stages of the match spec parser that work on text before a field is interpreted
  (\<open>rattler_conda_types/src/match_spec/parse.rs\<close>): comments, semicolons, the bracket section and its quoted
  values, escapes. Of \<open>nom\<close>, the combinators for sequence, choice and repetition are written out as
  recursion, and \<open>multispace0\<close> is a parameter that returns the rest of its input. A scan over characters is a
  scan over bytes: every character it compares is ASCII.
\<close>

section \<open>Quoted strings and escapes\<close>

text \<open>The position of the closing quote, skipping escaped characters.\<close>

fun closing_quote :: "char \<Rightarrow> nat \<Rightarrow> string \<Rightarrow> nat option" where
  "closing_quote q i [] = None"
| "closing_quote q i (c # s) =
     (if c = CHR 0x5C then (case s of [] \<Rightarrow> None | _ # s' \<Rightarrow> closing_quote q (i + 2) s')
      else if c = q then Some i
      else closing_quote q (i + 1) s)"

definition parse_quoted_string_with_escapes :: "char \<Rightarrow> string \<Rightarrow> (string \<times> string) option" where
  "parse_quoted_string_with_escapes quote_char input0 = (case input0 of
     [] \<Rightarrow> None
   | c # input \<Rightarrow>
       if c \<noteq> quote_char then None
       else if CHR 0x5C \<notin> set input then
         (case str_find input [quote_char] of
            Some pos \<Rightarrow> Some (drop (pos + 1) input, take pos input)
          | None \<Rightarrow> None)
       else (case closing_quote quote_char 0 input of
            Some pos \<Rightarrow> Some (drop (pos + 1) input, take pos input)
          | None \<Rightarrow> None))"

fun unescape_loop :: "string \<Rightarrow> string" where
  "unescape_loop [] = []"
| "unescape_loop (c # s) =
     (if c = CHR 0x5C then
        (case s of
           [] \<Rightarrow> [c]
         | n # s' \<Rightarrow> if n = CHR 0x22 \<or> n = CHR 0x27 \<or> n = CHR 0x5C then n # unescape_loop s' else c # unescape_loop s)
      else c # unescape_loop s)"

definition unescape_string :: "string \<Rightarrow> string" where
  "unescape_string input = (if CHR 0x5C \<notin> set input then input else unescape_loop input)"

section \<open>Comments and semicolons\<close>

definition is_key_char :: "unicode_tables \<Rightarrow> string \<Rightarrow> bool" where
  "is_key_char ut c \<longleftrightarrow> is_alphanumeric ut c \<or> c = ''_'' \<or> c = ''-''"

definition starts_bracket_fields :: "unicode_tables \<Rightarrow> string \<Rightarrow> bool" where
  "starts_bracket_fields ut input = (case strip_prefix ''['' input of
     None \<Rightarrow> False
   | Some contents0 \<Rightarrow>
       let contents = trim_start contents0;
           key = concat (takeWhile (is_key_char ut) (chars contents));
           rest = trim_start (drop (length key) contents)
       in key \<noteq> [] \<and> rest \<noteq> [] \<and> hd rest = CHR ''='')"

definition opens_quote :: "string \<Rightarrow> nat \<Rightarrow> bool" where
  "opens_quote input position =
     (let before = trim_end (take position input) in before \<noteq> [] \<and> last before \<in> set ''=[,'')"

text \<open>The scan: the text read so far is the first \<open>position\<close> bytes of the input; \<open>limit\<close> is what may still be found.\<close>

fun unquoted_scan :: "unicode_tables \<Rightarrow> string \<Rightarrow> char \<Rightarrow> nat \<Rightarrow> nat \<Rightarrow> nat \<Rightarrow> char option \<Rightarrow> string \<Rightarrow> nat list" where
  "unquoted_scan ut input needle limit position depth quote [] = []"
| "unquoted_scan ut input needle limit position depth (Some q) (c # s) =
     (if c = CHR 0x5C then (case s of [] \<Rightarrow> [] | _ # s' \<Rightarrow> unquoted_scan ut input needle limit (position + 2) depth (Some q) s')
      else if c = q then unquoted_scan ut input needle limit (position + 1) depth None s
      else unquoted_scan ut input needle limit (position + 1) depth (Some q) s)"
| "unquoted_scan ut input needle limit position depth None (c # s) =
     (if c = CHR ''['' \<and> depth > 0 then unquoted_scan ut input needle limit (position + 1) (depth + 1) None s
      else if c = CHR ''['' \<and> starts_bracket_fields ut (drop position input)
        then unquoted_scan ut input needle limit (position + 1) 1 None s
      else if c = CHR '']'' \<and> depth > 0 then unquoted_scan ut input needle limit (position + 1) (depth - 1) None s
      else if (c = CHR 0x27 \<or> c = CHR 0x22) \<and> depth > 0 \<and> opens_quote input position
        then unquoted_scan ut input needle limit (position + 1) depth (Some c) s
      else if c = needle then
        position # (if limit = 1 then [] else unquoted_scan ut input needle (limit - 1) (position + 1) depth None s)
      else unquoted_scan ut input needle limit (position + 1) depth None s)"

definition unquoted_positions :: "unicode_tables \<Rightarrow> string \<Rightarrow> char \<Rightarrow> nat \<Rightarrow> nat list" where
  "unquoted_positions ut input needle limit = unquoted_scan ut input needle limit 0 0 None input"

definition strip_comment :: "unicode_tables \<Rightarrow> string \<Rightarrow> string \<times> string option" where
  "strip_comment ut input = (case unquoted_positions ut input CHR ''#'' 1 of
     [] \<Rightarrow> (input, None) | position # _ \<Rightarrow> (take position input, Some (drop (position + 1) input)))"

text \<open>The variants of \<open>ParseMatchSpecError\<close> that these stages return; the others belong to later stages.\<close>

datatype parse_match_spec_error = InvalidBracket | MoreThanOneSemicolon | DeprecatedIfSyntax

definition reject_deprecated_if_syntax :: "unicode_tables \<Rightarrow> string \<Rightarrow> parse_match_spec_error + string" where
  "reject_deprecated_if_syntax ut input = (case unquoted_positions ut input CHR '';'' 2 of
     [] \<Rightarrow> Inr (trim input)
   | first # others \<Rightarrow>
       let after = trim_start (drop (first + 1) input)
       in if (case strip_prefix ''if'' after of Some remainder \<Rightarrow> starts_with_space remainder | None \<Rightarrow> False)
          then Inl DeprecatedIfSyntax
          else if others \<noteq> [] then Inl MoreThanOneSemicolon
          else Inr (trim input))"

section \<open>The bracket section\<close>

definition parse_key :: "multispace \<Rightarrow> unicode_tables \<Rightarrow> string \<Rightarrow> string \<times> string" where
  "parse_key ws ut input =
     (let input = ws input; key = concat (takeWhile (is_key_char ut) (chars input)) in (ws (drop (length key) input), key))"

definition parse_bracketed_value :: "string \<Rightarrow> (string \<times> string) option" where
  "parse_bracketed_value input = (case strip_prefix ''['' input of
     None \<Rightarrow> None
   | Some rest \<Rightarrow> (case str_find rest '']'' of None \<Rightarrow> None | Some i \<Rightarrow> Some (drop (i + 1) rest, take i rest)))"

definition parse_bare_value :: "string \<Rightarrow> (string \<times> string) option" where
  "parse_bare_value input =
     (let value = takeWhile (\<lambda>c. c \<notin> set [CHR '','', CHR '']'', CHR 0x27, CHR 0x22]) input
      in if value = [] then None else Some (drop (length value) input, value))"

definition parse_value :: "multispace \<Rightarrow> string \<Rightarrow> (string \<times> string) option" where
  "parse_value ws input0 =
     (let input = ws input0
      in case (case parse_quoted_string_with_escapes CHR 0x22 input of Some r \<Rightarrow> Some r
          | None \<Rightarrow> (case parse_quoted_string_with_escapes CHR 0x27 input of Some r \<Rightarrow> Some r
          | None \<Rightarrow> (case parse_bracketed_value input of Some r \<Rightarrow> Some r
          | None \<Rightarrow> parse_bare_value input))) of
           None \<Rightarrow> None | Some (rest, value) \<Rightarrow> Some (ws rest, value))"

definition parse_key_value :: "multispace \<Rightarrow> unicode_tables \<Rightarrow> string \<Rightarrow> (string \<times> (string \<times> string)) option" where
  "parse_key_value ws ut input =
     (case parse_key ws ut input of (rest, key) \<Rightarrow>
        (case strip_prefix ''='' rest of
           None \<Rightarrow> None
         | Some rest \<Rightarrow> (case parse_value ws rest of None \<Rightarrow> None | Some (rest, value) \<Rightarrow> Some (rest, (key, value)))))"

text \<open>
  \<open>separated_list0\<close>: pairs behind commas until the comma or the pair behind it fails; \<open>None\<close> is a loop that has
  not ended within the fuel.
\<close>

fun key_values_rest :: "nat \<Rightarrow> multispace \<Rightarrow> unicode_tables \<Rightarrow> string \<Rightarrow> (string \<times> (string \<times> string) list) option" where
  "key_values_rest 0 ws ut input = None"
| "key_values_rest (Suc n) ws ut input = (case strip_prefix '','' (ws input) of
     None \<Rightarrow> Some (input, [])
   | Some rest \<Rightarrow> (case parse_key_value ws ut (ws rest) of
         None \<Rightarrow> Some (input, [])
       | Some (rest, kv) \<Rightarrow> (case key_values_rest n ws ut rest of
             None \<Rightarrow> None | Some (rest, kvs) \<Rightarrow> Some (rest, kv # kvs))))"

definition parse_key_value_list :: "multispace \<Rightarrow> unicode_tables \<Rightarrow> string \<Rightarrow> (string \<times> (string \<times> string) list) option" where
  "parse_key_value_list ws ut input = (case parse_key_value ws ut input of
     None \<Rightarrow> Some (input, [])
   | Some (rest, kv) \<Rightarrow> (case key_values_rest (Suc (length rest)) ws ut rest of
         None \<Rightarrow> None | Some (rest, kvs) \<Rightarrow> Some (rest, kv # kvs)))"

definition parse_bracket_list :: "multispace \<Rightarrow> unicode_tables \<Rightarrow> string \<Rightarrow> (parse_match_spec_error + (string \<times> string) list) option" where
  "parse_bracket_list ws ut input = (case strip_prefix ''['' input of
     None \<Rightarrow> Some (Inl InvalidBracket)
   | Some rest \<Rightarrow> (case parse_key_value_list ws ut rest of
         None \<Rightarrow> None
       | Some (rest, kvs) \<Rightarrow> Some (if strip_prefix '']'' rest = None then Inl InvalidBracket else Inr kvs)))"

text \<open>The scan of \<open>strip_brackets\<close>: depth, start of the last group at depth zero, and the open quote.\<close>

fun bracket_scan :: "nat \<Rightarrow> nat \<Rightarrow> nat \<Rightarrow> nat option \<Rightarrow> char option \<Rightarrow> string \<Rightarrow> nat \<times> nat option \<times> char option" where
  "bracket_scan n idx depth opened quote [] = (depth, opened, quote)"
| "bracket_scan n idx depth opened (Some q) (c # s) =
     (if c = CHR 0x5C then (case s of [] \<Rightarrow> (depth, opened, Some q) | _ # s' \<Rightarrow> bracket_scan n (idx + 2) depth opened (Some q) s')
      else if c = q then bracket_scan n (idx + 1) depth opened None s
      else bracket_scan n (idx + 1) depth opened (Some q) s)"
| "bracket_scan n idx depth opened None (c # s) =
     (if (c = CHR 0x27 \<or> c = CHR 0x22) \<and> depth > 0 then bracket_scan n (idx + 1) depth opened (Some c) s
      else if c = CHR ''['' then bracket_scan n (idx + 1) (depth + 1) (if depth = 0 then Some idx else opened) None s
      else if c = CHR '']'' then
        bracket_scan n (idx + 1) (depth - 1) (if depth - 1 = 0 \<and> idx \<noteq> n - 1 then None else opened) None s
      else bracket_scan n (idx + 1) depth opened None s)"

definition strip_brackets :: "multispace \<Rightarrow> unicode_tables \<Rightarrow> string \<Rightarrow> (parse_match_spec_error + (string \<times> (string \<times> string) list)) option" where
  "strip_brackets ws ut input =
     (if input = [] \<or> last input \<noteq> CHR '']'' then Some (Inr (input, []))
      else case bracket_scan (length input) 0 0 None None input of
          (depth, opened, quote) \<Rightarrow>
            if opened \<noteq> None \<and> depth = 0 \<and> quote = None then
              (case parse_bracket_list ws ut (drop (the opened) input) of
                 None \<Rightarrow> None
               | Some (Inl e) \<Rightarrow> Some (Inl e)
               | Some (Inr kvs) \<Rightarrow> Some (Inr (take (the opened) input, kvs)))
            else Some (Inl InvalidBracket))"

text \<open>The first two steps of \<open>matchspec_parser\<close>: the text in front of the brackets and the pairs in them.\<close>

definition match_spec_sections ::
    "multispace \<Rightarrow> unicode_tables \<Rightarrow> string \<Rightarrow> (parse_match_spec_error + (string \<times> (string \<times> string) list)) option" where
  "match_spec_sections ws ut input0 =
     (case strip_comment ut input0 of (input, comment) \<Rightarrow>
        (case reject_deprecated_if_syntax ut input of
           Inl e \<Rightarrow> Some (Inl e)
         | Inr input \<Rightarrow> strip_brackets ws ut (trim input)))"

end
