(* ===== verification/Match_Spec_Round_Trip.thy ===== *)
theory Match_Spec_Round_Trip
  imports Match_Spec_Parse
begin

text \<open>
  The canonical rendering and the first stages of the parser are inverse: values in quotes, the pairs of a
  bracket section, and the section behind a name are read back as they were written.
\<close>

section \<open>Quotes\<close>

text \<open>Whether a scan that skips escaped characters is behind a backslash at the end of a text.\<close>

fun ends_escaped :: "bool \<Rightarrow> string \<Rightarrow> bool" where
  "ends_escaped e [] = e"
| "ends_escaped e (c # s) = ends_escaped (\<not> e \<and> c = CHR 0x5C) s"

lemma ends_escaped_snoc: "ends_escaped e (s @ [c]) \<longleftrightarrow> \<not> ends_escaped e s \<and> c = CHR 0x5C"
  by (induction s arbitrary: e) auto

lemma trailing_backslashes: "ends_escaped False s \<longleftrightarrow> odd (length (takeWhile (\<lambda>c. c = CHR 0x5C) (rev s)))"
  by (induction s rule: rev_induct) (auto simp: ends_escaped_snoc)

definition quotable :: "char \<Rightarrow> string \<Rightarrow> bool" where
  "quotable d v \<longleftrightarrow> (d = CHR 0x22 \<or> d = CHR 0x27) \<and> \<not> contains_unescaped v d \<and> \<not> ends_escaped False v"

lemma pick_quote_quotable: "pick_quote_delimiter v = Some d \<Longrightarrow> quotable d v"
  by (auto simp: pick_quote_delimiter_def quotable_def trailing_backslashes Let_def odd_iff_mod_2_eq_one split: if_splits)

lemma closing_quote_at:
  assumes "q \<noteq> CHR 0x5C"
  shows "\<not> contains_unescaped_from False v q \<Longrightarrow> \<not> ends_escaped False v \<Longrightarrow> closing_quote q i (v @ q # r) = Some (i + length v)"
proof (induction v arbitrary: i rule: length_induct)
  case (1 v)
  show ?case
  proof (cases v)
    case Nil
    then show ?thesis using assms by simp
  next
    case (Cons c s)
    show ?thesis
    proof (cases "c = CHR 0x5C")
      case True
      then obtain d s' where s: "s = d # s'" using 1(3) Cons by (cases s) auto
      then have "closing_quote q (i + 2) (s' @ q # r) = Some (i + 2 + length s')"
        using 1(1) [rule_format, of s' "i + 2"] 1(2,3) Cons True by simp
      then show ?thesis using Cons True s by simp
    next
      case False
      then have "closing_quote q (i + 1) (s @ q # r) = Some (i + 1 + length s)"
        using 1(1) [rule_format, of s "i + 1"] 1(2,3) Cons by (auto split: if_splits)
      then show ?thesis using Cons False 1(2) by (auto split: if_splits)
    qed
  qed
qed

lemma str_find_char: "str_find s [c] = (if c \<in> set s then Some (length (takeWhile (\<lambda>x. x \<noteq> c) s)) else None)"
  by (induction s) auto

lemma closing_quote_plain:
  "CHR 0x5C \<notin> set s \<Longrightarrow> closing_quote q i s = (if q \<in> set s then Some (i + length (takeWhile (\<lambda>x. x \<noteq> q) s)) else None)"
  by (induction s arbitrary: i) auto

text \<open>The fast path without escapes finds what the scan finds.\<close>

lemma parse_quoted_scan:
  "parse_quoted_string_with_escapes q (q # input) = (case closing_quote q 0 input of
     Some pos \<Rightarrow> Some (drop (pos + 1) input, take pos input) | None \<Rightarrow> None)"
  by (auto simp: parse_quoted_string_with_escapes_def closing_quote_plain str_find_char)

lemma parse_quoted: "quotable q v \<Longrightarrow> parse_quoted_string_with_escapes q (q # v @ q # r) = Some (r, v)"
  using closing_quote_at [of q v 0 r] by (auto simp: parse_quoted_scan quotable_def contains_unescaped_def)

lemma unescape_loop_escape: "unescape_loop (escape_bracket_value s) = s"
  by (induction s) (auto simp: escape_bracket_value_def)

lemma unescape_escape: "unescape_string (escape_bracket_value s) = s"
proof (cases "CHR 0x5C \<in> set (escape_bracket_value s)")
  case False
  then have "escape_bracket_value s = s" by (induction s) (auto simp: escape_bracket_value_def split: if_splits)
  with False show ?thesis by (simp add: unescape_string_def)
qed (simp add: unescape_string_def unescape_loop_escape)

lemma escape_scan: "\<not> contains_unescaped_from False (escape_bracket_value s) CHR 0x22 \<and> \<not> ends_escaped False (escape_bracket_value s)"
  by (induction s) (auto simp: escape_bracket_value_def)

lemma escape_quotable: "quotable CHR 0x22 (escape_bracket_value s)"
  using escape_scan [of s] by (simp add: quotable_def contains_unescaped_def)

section \<open>Pairs\<close>

definition plain_key :: "string \<Rightarrow> bool" where
  "plain_key k \<longleftrightarrow> k \<noteq> [] \<and> list_all (\<lambda>c. is_ascii_lowercase c \<or> is_ascii_digit c \<or> c = CHR ''_'') k"

text \<open>A value as it is written: in quotes, or a list of plain elements in brackets.\<close>

definition value_text :: "string \<Rightarrow> string \<Rightarrow> bool" where
  "value_text v t \<longleftrightarrow> (\<exists>d. quotable d v \<and> t = d # v @ [d])
     \<or> t = ''['' @ v @ '']'' \<and> set v \<inter> set [CHR ''['', CHR '']'', CHR 0x22, CHR 0x27, CHR ''#'', CHR '';''] = {}"

lemma parse_value_text:
  assumes ws: "takes_multispace0 ws" and t: "value_text v t" and r: "r = [] \<or> hd r \<notin> set [CHR '' '', CHR 0x09, CHR 0x0D, CHR 0x0A]"
  shows "parse_value ws (t @ r) = Some (r, v)"
proof -
  have wsr: "ws r = r" using ws r by (cases r) (auto simp: takes_multispace0_def)
  from t consider (quoted) d where "quotable d v" "t = d # v @ [d]"
    | (list) "t = ''['' @ v @ '']''" "set v \<inter> set [CHR ''['', CHR '']'', CHR 0x22, CHR 0x27, CHR ''#'', CHR '';''] = {}"
    unfolding value_text_def by blast
  then show ?thesis
  proof cases
    case quoted
    then have d: "d = CHR 0x22 \<or> d = CHR 0x27" by (simp add: quotable_def)
    then have "ws (t @ r) = d # v @ d # r" using multispace_id [OF ws, of d] quoted(2) by auto
    moreover have "parse_quoted_string_with_escapes d (d # v @ d # r) = Some (r, v)" by (rule parse_quoted [OF quoted(1)])
    moreover have "d = CHR 0x27 \<Longrightarrow> parse_quoted_string_with_escapes CHR 0x22 (d # v @ d # r) = None"
      by (simp add: parse_quoted_string_with_escapes_def)
    ultimately show ?thesis using d wsr by (auto simp: parse_value_def)
  next
    case list
    then have "ws (t @ r) = CHR ''['' # v @ CHR '']'' # r" using multispace_id [OF ws, of "CHR ''[''"] by simp
    moreover have "str_find (v @ CHR '']'' # r) '']'' = Some (length v)"
    proof -
      have "takeWhile (\<lambda>x. x \<noteq> CHR '']'') (v @ CHR '']'' # r) = v"
        using list(2) by (subst takeWhile_append2) auto
      then show ?thesis by (simp add: str_find_char)
    qed
    then have "parse_bracketed_value (CHR ''['' # v @ CHR '']'' # r) = Some (r, v)" by (simp add: parse_bracketed_value_def)
    ultimately show ?thesis
      using wsr by (simp add: parse_value_def parse_quoted_string_with_escapes_def)
  qed
qed


lemma plain_key_char:
  assumes "is_ascii_lowercase c \<or> is_ascii_digit c \<or> c = CHR ''_''"
  shows "of_char c < (128 :: nat)" "c \<notin> set [CHR '' '', CHR 0x09, CHR 0x0D, CHR 0x0A]"
    "c \<notin> set [CHR ''['', CHR '']'', CHR 0x22, CHR 0x27, CHR ''#'', CHR '';'']"
  using assms by (auto simp: is_ascii_lowercase_def is_ascii_digit_def)

lemma key_prefix:
  assumes "ascii_tables ut" "list_all (\<lambda>c. is_ascii_lowercase c \<or> is_ascii_digit c \<or> c = CHR ''_'') k"
  shows "concat (takeWhile (is_key_char ut) (chars (k @ CHR ''='' # r))) = k"
  using assms(2)
proof (induction k)
  case Nil
  have "chars (CHR ''='' # r) = ''='' # chars r" by (rule chars_ascii) simp
  moreover have "\<not> is_key_char ut ''=''"
    using assms(1) [unfolded ascii_tables_def, rule_format, of "CHR ''=''"]
    by (simp add: is_key_char_def is_ascii_alphabetic_def is_ascii_lowercase_def is_ascii_uppercase_def is_ascii_digit_def)
  ultimately show ?case by simp
next
  case (Cons c k)
  then have c: "is_ascii_lowercase c \<or> is_ascii_digit c \<or> c = CHR ''_''" by simp
  have "is_key_char ut [c]"
    using assms(1) plain_key_char(1) [OF c] c by (auto simp: is_key_char_def ascii_tables_def is_ascii_alphabetic_def is_ascii_lowercase_def)
  then show ?case using Cons chars_ascii [OF plain_key_char(1) [OF c], of "k @ CHR ''='' # r"] by simp
qed

lemma parse_key_plain:
  assumes "takes_multispace0 ws" "ascii_tables ut" "plain_key k"
  shows "parse_key ws ut (k @ CHR ''='' # r) = (CHR ''='' # r, k)"
proof -
  from assms(3) obtain c k' where k: "k = c # k'" and c: "is_ascii_lowercase c \<or> is_ascii_digit c \<or> c = CHR ''_''"
    by (cases k) (auto simp: plain_key_def)
  have "ws (k @ CHR ''='' # r) = k @ CHR ''='' # r" using multispace_id [OF assms(1) plain_key_char(2) [OF c]] k by simp
  moreover have "ws (CHR ''='' # r) = CHR ''='' # r" by (rule multispace_id [OF assms(1)]) simp
  ultimately show ?thesis
    using key_prefix [OF assms(2), of k r] assms(3) by (simp add: parse_key_def plain_key_def)
qed

definition pair_text :: "string \<Rightarrow> string \<Rightarrow> string" where
  "pair_text k t = k @ CHR ''='' # t"

lemma parse_pair:
  assumes "takes_multispace0 ws" "ascii_tables ut" "plain_key k" "value_text v t"
    and "r = [] \<or> hd r \<notin> set [CHR '' '', CHR 0x09, CHR 0x0D, CHR 0x0A]"
  shows "parse_key_value ws ut (pair_text k t @ r) = Some (r, k, v)"
  using parse_key_plain [OF assms(1-3), of "t @ r"] parse_value_text [OF assms(1,4,5)]
  by (simp add: parse_key_value_def pair_text_def)

text \<open>A list of keys, values and the texts of the values, as the renderer writes it.\<close>

type_synonym written = "(string \<times> string \<times> string) list"

fun written_ok :: "written \<Rightarrow> bool" where
  "written_ok [] = True"
| "written_ok ((k, v, t) # ps) = (plain_key k \<and> value_text v t \<and> written_ok ps)"

definition pair_texts :: "written \<Rightarrow> string list" where
  "pair_texts ps = map (\<lambda>(k, v, t). pair_text k t) ps"

definition pairs_of :: "written \<Rightarrow> (string \<times> string) list" where
  "pairs_of ps = map (\<lambda>(k, v, t). (k, v)) ps"

lemma pair_text_start: "plain_key k \<Longrightarrow> takes_multispace0 ws \<Longrightarrow> ws (pair_text k t @ r) = pair_text k t @ r"
  using multispace_id plain_key_char(2) by (cases k) (auto simp: plain_key_def pair_text_def)

lemma join_with_Cons: "ss \<noteq> [] \<Longrightarrow> join_with sep (s # ss) = s @ sep @ join_with sep ss"
  by (cases ss) simp_all

lemma parse_pairs_rest:
  assumes "takes_multispace0 ws" "ascii_tables ut"
  shows "written_ok ps \<Longrightarrow> length ps < n \<Longrightarrow>
    key_values_rest n ws ut (concat (map (\<lambda>s. '','' @ s) (pair_texts ps)) @ '']'') = Some ('']'', pairs_of ps)"
proof (induction ps arbitrary: n)
  case Nil
  have "ws '']'' = '']''" by (rule multispace_id [OF assms(1)]) simp
  then show ?case using Nil by (cases n) (simp_all add: pair_texts_def pairs_of_def)
next
  case (Cons p ps)
  obtain k v t where p: "p = (k, v, t)" by (cases p)
  obtain m where n: "n = Suc m" using Cons.prems by (cases n) auto
  let ?r = "concat (map (\<lambda>s. '','' @ s) (pair_texts ps)) @ '']''"
  have r: "?r = [] \<or> hd ?r \<notin> set [CHR '' '', CHR 0x09, CHR 0x0D, CHR 0x0A]"
    by (cases ps) (auto simp: pair_texts_def)
  have "ws ('','' @ pair_text k t @ ?r) = '','' @ pair_text k t @ ?r" using multispace_id [OF assms(1), of "CHR '',''"] by simp
  moreover have "ws (pair_text k t @ ?r) = pair_text k t @ ?r"
    using pair_text_start [OF _ assms(1)] Cons.prems p by simp
  moreover have "parse_key_value ws ut (pair_text k t @ ?r) = Some (?r, k, v)"
    using parse_pair [OF assms _ _ r] Cons.prems p by simp
  ultimately show ?case using Cons n p by (simp add: pair_texts_def pairs_of_def)
qed

lemma join_comma: "join_with '','' (s # ss) = s @ concat (map (\<lambda>s. '','' @ s) ss)"
  by (induction ss arbitrary: s) (simp_all add: join_with_Cons)

lemma length_pairs: "length ps \<le> length (concat (map (\<lambda>s. '','' @ s) (pair_texts ps)) @ '']'')"
  by (induction ps) (auto simp: pair_texts_def)

lemma parse_bracket_list_pairs:
  assumes "takes_multispace0 ws" "ascii_tables ut" "written_ok ps" "ps \<noteq> []"
  shows "parse_bracket_list ws ut (''['' @ join_with '','' (pair_texts ps) @ '']'') = Some (Inr (pairs_of ps))"
proof -
  obtain k v t qs where ps: "ps = (k, v, t) # qs" using assms(4) by (cases ps) auto
  let ?r = "concat (map (\<lambda>s. '','' @ s) (pair_texts qs)) @ '']''"
  have texts: "join_with '','' (pair_texts ps) @ '']'' = pair_text k t @ ?r"
    using join_comma [of "pair_text k t" "pair_texts qs"] ps by (simp add: pair_texts_def)
  have r: "?r = [] \<or> hd ?r \<notin> set [CHR '' '', CHR 0x09, CHR 0x0D, CHR 0x0A]"
    by (cases qs) (auto simp: pair_texts_def)
  have "parse_key_value ws ut (pair_text k t @ ?r) = Some (?r, k, v)"
    using parse_pair [OF assms(1,2) _ _ r] assms(3) ps by simp
  moreover have "key_values_rest (Suc (length ?r)) ws ut ?r = Some ('']'', pairs_of qs)"
    using assms(3) ps length_pairs [of qs] by (intro parse_pairs_rest [OF assms(1,2)]) simp_all
  ultimately have "parse_key_value_list ws ut (pair_text k t @ ?r) = Some ('']'', pairs_of ps)"
    by (simp only: parse_key_value_list_def option.case prod.case) (simp add: ps pairs_of_def)
  then have "parse_key_value_list ws ut (join_with '','' (pair_texts ps) @ '']'') = Some ('']'', pairs_of ps)" by (simp only: texts)
  then show ?thesis by (simp add: parse_bracket_list_def)
qed


section \<open>The bracket section\<close>

lemma scan_plain:
  "set s \<inter> set [CHR ''['', CHR '']'', CHR 0x22, CHR 0x27, CHR ''#'', CHR '';''] = {} \<Longrightarrow>
    bracket_scan n i depth opened None (s @ r) = bracket_scan n (i + length s) depth opened None r"
  by (induction s arbitrary: i) auto

lemma scan_name:
  "set s \<inter> set ''[]'' = {} \<Longrightarrow> bracket_scan n i 0 opened None (s @ r) = bracket_scan n (i + length s) 0 opened None r"
  by (induction s arbitrary: i) auto

lemma scan_quoted:
  assumes "q \<noteq> CHR 0x5C"
  shows "\<not> contains_unescaped_from False v q \<Longrightarrow> \<not> ends_escaped False v \<Longrightarrow>
    bracket_scan n i depth opened (Some q) (v @ q # r) = bracket_scan n (i + length v + 1) depth opened None r"
proof (induction v arbitrary: i rule: length_induct)
  case (1 v)
  show ?case
  proof (cases v)
    case Nil
    then show ?thesis using assms by simp
  next
    case (Cons c s)
    show ?thesis
    proof (cases "c = CHR 0x5C")
      case True
      then obtain d s' where s: "s = d # s'" using 1(3) Cons by (cases s) auto
      then show ?thesis using 1(1) [rule_format, of s' "i + 2"] 1(2,3) Cons True by simp
    next
      case False
      then show ?thesis using 1(1) [rule_format, of s "i + 1"] 1(2,3) Cons by (auto split: if_splits)
    qed
  qed
qed

lemma scan_value:
  assumes "value_text v t" "0 < depth"
  shows "bracket_scan n i depth opened None (t @ r) = bracket_scan n (i + length t) depth opened None r"
proof -
  from assms(1) consider (quoted) d where "quotable d v" "t = d # v @ [d]"
    | (list) "t = ''['' @ v @ '']''" "set v \<inter> set [CHR ''['', CHR '']'', CHR 0x22, CHR 0x27, CHR ''#'', CHR '';''] = {}"
    unfolding value_text_def by blast
  then show ?thesis
  proof cases
    case quoted
    then have d: "d = CHR 0x22 \<or> d = CHR 0x27" and v: "\<not> contains_unescaped_from False v d" "\<not> ends_escaped False v"
      by (simp_all add: quotable_def contains_unescaped_def)
    then have "bracket_scan n i depth opened None (t @ r) = bracket_scan n (i + 1) depth opened (Some d) (v @ d # r)"
      using quoted(2) assms(2) by auto
    also have "\<dots> = bracket_scan n (i + length t) depth opened None r"
      using scan_quoted [OF _ v, of n "i + 1"] d quoted(2) by auto
    finally show ?thesis .
  next
    case list
    then have "bracket_scan n i depth opened None (t @ r) = bracket_scan n (i + 1) (depth + 1) opened None (v @ CHR '']'' # r)"
      using assms(2) by simp
    also have "\<dots> = bracket_scan n (i + 1 + length v) (depth + 1) opened None (CHR '']'' # r)" by (rule scan_plain [OF list(2)])
    also have "\<dots> = bracket_scan n (i + length t) depth opened None r" using assms(2) list(1) by simp
    finally show ?thesis .
  qed
qed

lemma key_equals_plain:
  assumes "plain_key k"
  shows "set (k @ ''='') \<inter> set [CHR ''['', CHR '']'', CHR 0x22, CHR 0x27, CHR ''#'', CHR '';''] = {}"
proof -
  have "c \<notin> set [CHR ''['', CHR '']'', CHR 0x22, CHR 0x27, CHR ''#'', CHR '';'']" if "c \<in> set k" for c
    using that assms by (intro plain_key_char(3)) (simp add: plain_key_def list_all_iff)
  then show ?thesis by auto
qed

lemma scan_pair:
  assumes "plain_key k" "value_text v t" "0 < depth"
  shows "bracket_scan n i depth opened None (pair_text k t @ r) = bracket_scan n (i + length (pair_text k t)) depth opened None r"
proof -
  have "set (k @ ''='') \<inter> set [CHR ''['', CHR '']'', CHR 0x22, CHR 0x27, CHR ''#'', CHR '';''] = {}"
    by (rule key_equals_plain [OF assms(1)])
  then have "bracket_scan n i depth opened None ((k @ ''='') @ t @ r) = bracket_scan n (i + length (k @ ''='')) depth opened None (t @ r)"
    by (rule scan_plain)
  then show ?thesis using scan_value [OF assms(2,3), of n "i + length (k @ ''='')"] by (simp add: pair_text_def add.assoc)
qed

lemma scan_pairs:
  assumes "written_ok ps" "0 < depth"
  shows "bracket_scan n i depth opened None (join_with '','' (pair_texts ps) @ r)
       = bracket_scan n (i + length (join_with '','' (pair_texts ps))) depth opened None r"
  using assms(1)
proof (induction ps arbitrary: i)
  case Nil
  then show ?case by (simp add: pair_texts_def)
next
  case (Cons p ps)
  obtain k v t where p: "p = (k, v, t)" by (cases p)
  have pair: "bracket_scan n i depth opened None (pair_text k t @ s) = bracket_scan n (i + length (pair_text k t)) depth opened None s" for s
    using scan_pair [of k v t depth n i opened s] assms(2) Cons.prems p by simp
  show ?case
  proof (cases "ps = []")
    case True
    then show ?thesis using pair [of r] p by (simp add: pair_texts_def)
  next
    case False
    let ?s = "join_with '','' (pair_texts ps)"
    have texts: "join_with '','' (pair_texts (p # ps)) = pair_text k t @ '','' @ ?s"
      using False p by (simp add: pair_texts_def join_with_Cons)
    have "bracket_scan n i depth opened None (pair_text k t @ '','' @ ?s @ r)
        = bracket_scan n (i + length (pair_text k t) + 1) depth opened None (?s @ r)"
      using pair [of "'','' @ ?s @ r"] by simp
    also have "\<dots> = bracket_scan n (i + length (pair_text k t) + 1 + length ?s) depth opened None r"
      using Cons p by simp
    finally show ?thesis by (simp add: texts add.assoc)
  qed
qed

lemma strip_brackets_written:
  assumes "takes_multispace0 ws" "ascii_tables ut" "written_ok ps" "set name \<inter> set ''[]'' = {}"
  shows "strip_brackets ws ut (name @ (if ps = [] then [] else ''['' @ join_with '','' (pair_texts ps) @ '']''))
       = Some (Inr (name, pairs_of ps))"
proof (cases "ps = []")
  case True
  then show ?thesis using assms(4) by (auto simp: strip_brackets_def pairs_of_def dest: last_in_set)
next
  case False
  let ?inner = "join_with '','' (pair_texts ps)"
  let ?section = "''['' @ ?inner @ '']''"
  let ?n = "length (name @ ?section)"
  have "bracket_scan ?n 0 0 None None (name @ ?section) = bracket_scan ?n (length name) 0 None None ?section"
    using scan_name [OF assms(4), of ?n 0 None ?section] by simp
  also have "\<dots> = bracket_scan ?n (length name + 1) 1 (Some (length name)) None (?inner @ '']'')" by simp
  also have "\<dots> = bracket_scan ?n (length name + 1 + length ?inner) 1 (Some (length name)) None '']''"
    by (rule scan_pairs [OF assms(3)]) simp
  also have "\<dots> = (0, Some (length name), None)" by simp
  finally have "bracket_scan ?n 0 0 None None (name @ ?section) = (0, Some (length name), None)" .
  moreover have "parse_bracket_list ws ut ?section = Some (Inr (pairs_of ps))"
    by (rule parse_bracket_list_pairs [OF assms(1-3) False])
  ultimately show ?thesis using False by (simp add: strip_brackets_def)
qed


section \<open>Comments and semicolons\<close>

text \<open>Neither a comment nor a semicolon is found in what the renderer writes.\<close>

definition separator_char :: "char \<Rightarrow> bool" where
  "separator_char c \<longleftrightarrow> c = CHR ''#'' \<or> c = CHR '';''"

lemma unquoted_plain:
  "separator_char c \<Longrightarrow> set s \<inter> set [CHR ''['', CHR '']'', CHR 0x22, CHR 0x27, CHR ''#'', CHR '';''] = {} \<Longrightarrow>
    unquoted_scan ut input c l i depth None (s @ r) = unquoted_scan ut input c l (i + length s) depth None r"
  by (induction s arbitrary: i) (auto simp: separator_char_def)

lemma unquoted_name:
  "separator_char c \<Longrightarrow> set s \<inter> set ''[]#;'' = {} \<Longrightarrow>
    unquoted_scan ut input c l i 0 None (s @ r) = unquoted_scan ut input c l (i + length s) 0 None r"
  by (induction s arbitrary: i) (auto simp: separator_char_def)

lemma unquoted_quoted:
  assumes "q \<noteq> CHR 0x5C"
  shows "\<not> contains_unescaped_from False v q \<Longrightarrow> \<not> ends_escaped False v \<Longrightarrow>
    unquoted_scan ut input c l i depth (Some q) (v @ q # r) = unquoted_scan ut input c l (i + length v + 1) depth None r"
proof (induction v arbitrary: i rule: length_induct)
  case (1 v)
  show ?case
  proof (cases v)
    case Nil
    then show ?thesis using assms by simp
  next
    case (Cons x s)
    show ?thesis
    proof (cases "x = CHR 0x5C")
      case True
      then obtain d s' where s: "s = d # s'" using 1(3) Cons by (cases s) auto
      then show ?thesis using 1(1) [rule_format, of s' "i + 2"] 1(2,3) Cons True by simp
    next
      case False
      then show ?thesis using 1(1) [rule_format, of s "i + 1"] 1(2,3) Cons by (auto split: if_splits)
    qed
  qed
qed

lemma white_space_ends: "w \<in> set white_space \<Longrightarrow> hd w \<notin> set ''^*-_.[=$'' \<and> last w \<notin> set ''^*-_.]=$''
    \<and> \<not> is_ascii_lowercase (hd w) \<and> \<not> is_ascii_uppercase (hd w) \<and> \<not> is_ascii_digit (hd w)
    \<and> \<not> is_ascii_lowercase (last w) \<and> \<not> is_ascii_uppercase (last w) \<and> \<not> is_ascii_digit (last w)"
  by (auto simp: white_space_def is_ascii_lowercase_def is_ascii_uppercase_def is_ascii_digit_def)

lemma equals_opens_quote: "opens_quote (pre @ CHR ''='' # r) (length pre + 1)"
proof -
  have "\<not> ends_with_space (pre @ ''='')"
    using white_space_ends white_space_nonempty by (force simp: ends_with_space_iff dest: arg_cong [of _ _ last])
  then show ?thesis by (simp add: opens_quote_def trim_end_id)
qed

lemma unquoted_value:
  assumes "separator_char c" "value_text v t" "0 < depth" "opens_quote input i"
  shows "unquoted_scan ut input c l i depth None (t @ r) = unquoted_scan ut input c l (i + length t) depth None r"
proof -
  from assms(2) consider (quoted) d where "quotable d v" "t = d # v @ [d]"
    | (list) "t = ''['' @ v @ '']''" "set v \<inter> set [CHR ''['', CHR '']'', CHR 0x22, CHR 0x27, CHR ''#'', CHR '';''] = {}"
    unfolding value_text_def by blast
  then show ?thesis
  proof cases
    case quoted
    then have d: "d = CHR 0x22 \<or> d = CHR 0x27" and v: "\<not> contains_unescaped_from False v d" "\<not> ends_escaped False v"
      by (simp_all add: quotable_def contains_unescaped_def)
    then have "unquoted_scan ut input c l i depth None (t @ r) = unquoted_scan ut input c l (i + 1) depth (Some d) (v @ d # r)"
      using quoted(2) assms(3,4) by auto
    also have "\<dots> = unquoted_scan ut input c l (i + length t) depth None r"
      using unquoted_quoted [OF _ v, of ut input c l "i + 1"] d quoted(2) by auto
    finally show ?thesis .
  next
    case list
    then have "unquoted_scan ut input c l i depth None (t @ r) = unquoted_scan ut input c l (i + 1) (depth + 1) None (v @ CHR '']'' # r)"
      using assms(3) by simp
    also have "\<dots> = unquoted_scan ut input c l (i + 1 + length v) (depth + 1) None (CHR '']'' # r)"
      by (rule unquoted_plain [OF assms(1) list(2)])
    also have "\<dots> = unquoted_scan ut input c l (i + length t) depth None r" using list(1) by simp
    finally show ?thesis .
  qed
qed

lemma unquoted_pair:
  assumes "separator_char c" "plain_key k" "value_text v t" "0 < depth"
  shows "unquoted_scan ut (pre @ pair_text k t @ r') c l (length pre) depth None (pair_text k t @ r)
       = unquoted_scan ut (pre @ pair_text k t @ r') c l (length pre + length (pair_text k t)) depth None r"
proof -
  let ?input = "pre @ pair_text k t @ r'"
  have "set (k @ ''='') \<inter> set [CHR ''['', CHR '']'', CHR 0x22, CHR 0x27, CHR ''#'', CHR '';''] = {}"
    by (rule key_equals_plain [OF assms(2)])
  then have "unquoted_scan ut ?input c l (length pre) depth None ((k @ ''='') @ t @ r)
    = unquoted_scan ut ?input c l (length pre + length (k @ ''='')) depth None (t @ r)"
    by (rule unquoted_plain [OF assms(1)])
  moreover have "opens_quote ?input (length pre + length (k @ ''=''))"
    using equals_opens_quote [of "pre @ k" "t @ r'"] by (simp add: pair_text_def)
  ultimately show ?thesis
    using unquoted_value [OF assms(1,3,4), of ?input "length pre + length (k @ ''='')"] by (simp add: pair_text_def add.assoc)
qed

lemma unquoted_pairs:
  assumes "separator_char c" "written_ok ps" "0 < depth"
  shows "unquoted_scan ut (pre @ join_with '','' (pair_texts ps) @ r) c l (length pre) depth None (join_with '','' (pair_texts ps) @ r)
       = unquoted_scan ut (pre @ join_with '','' (pair_texts ps) @ r) c l (length pre + length (join_with '','' (pair_texts ps))) depth None r"
  using assms(2)
proof (induction ps arbitrary: pre)
  case Nil
  then show ?case by (simp add: pair_texts_def)
next
  case (Cons p ps)
  obtain k v t where p: "p = (k, v, t)" by (cases p)
  have pair: "unquoted_scan ut (pre @ pair_text k t @ s) c l (length pre) depth None (pair_text k t @ s)
    = unquoted_scan ut (pre @ pair_text k t @ s) c l (length pre + length (pair_text k t)) depth None s" for s
    using unquoted_pair [of c k v t depth ut pre s l s] assms(1,3) Cons.prems p by simp
  show ?case
  proof (cases "ps = []")
    case True
    then show ?thesis using pair [of r] p by (simp add: pair_texts_def)
  next
    case False
    let ?s = "join_with '','' (pair_texts ps)"
    let ?pre = "pre @ pair_text k t @ '',''"
    have texts: "join_with '','' (pair_texts (p # ps)) = pair_text k t @ '','' @ ?s"
      using False p by (simp add: pair_texts_def join_with_Cons)
    have "unquoted_scan ut (pre @ pair_text k t @ '','' @ ?s @ r) c l (length pre) depth None (pair_text k t @ '','' @ ?s @ r)
        = unquoted_scan ut (?pre @ ?s @ r) c l (length ?pre) depth None (?s @ r)"
      using pair [of "'','' @ ?s @ r"] assms(1) by (auto simp: separator_char_def)
    also have "\<dots> = unquoted_scan ut (?pre @ ?s @ r) c l (length ?pre + length ?s) depth None r"
      by (rule Cons.IH) (use Cons.prems p in simp)
    finally show ?thesis by (simp add: texts add.assoc)
  qed
qed

lemma pairs_start_fields:
  assumes "ascii_tables ut" "written_ok ps" "ps \<noteq> []"
  shows "starts_bracket_fields ut (''['' @ join_with '','' (pair_texts ps) @ r)"
proof -
  obtain k v t qs where ps: "ps = (k, v, t) # qs" using assms(3) by (cases ps) auto
  obtain r' where r': "join_with '','' (pair_texts ps) @ r = k @ CHR ''='' # r'"
    using join_comma [of "pair_text k t" "pair_texts qs"] ps by (simp add: pair_texts_def pair_text_def)
  have k: "plain_key k" using assms(2) ps by simp
  then have "\<not> starts_with_space (k @ CHR ''='' # r')" and "\<not> starts_with_space (CHR ''='' # r')"
    using white_space_ends white_space_nonempty
    by (cases k; force simp: plain_key_def starts_with_space_iff Cons_eq_append_conv)+
  then show ?thesis
    using key_prefix [OF assms(1), of k r'] k r' by (simp add: starts_bracket_fields_def trim_start_id Let_def plain_key_def del: concat_eq_Nil_conv)
qed

lemma no_separator_written:
  assumes "separator_char c" "ascii_tables ut" "written_ok ps" "set name \<inter> set ''[]#;'' = {}"
  shows "unquoted_positions ut (name @ (if ps = [] then [] else ''['' @ join_with '','' (pair_texts ps) @ '']'')) c l = []"
proof (cases "ps = []")
  case True
  then show ?thesis using unquoted_name [OF assms(1,4), of ut name l 0 "[]"] by (simp add: unquoted_positions_def)
next
  case False
  let ?inner = "join_with '','' (pair_texts ps)"
  let ?pre = "name @ ''[''"
  let ?input = "?pre @ ?inner @ '']''"
  have "unquoted_scan ut ?input c l 0 0 None ?input = unquoted_scan ut ?input c l (length name) 0 None (''['' @ ?inner @ '']'')"
    using unquoted_name [OF assms(1,4), of ut ?input l 0] by simp
  also have "\<dots> = unquoted_scan ut ?input c l (length ?pre) 1 None (?inner @ '']'')"
    using pairs_start_fields [OF assms(2,3) False, of "'']''"] by simp
  also have "\<dots> = unquoted_scan ut ?input c l (length ?pre + length ?inner) 1 None '']''"
    by (rule unquoted_pairs [OF assms(1,3)]) simp
  also have "\<dots> = []" by simp
  finally show ?thesis using False by (simp add: unquoted_positions_def)
qed

section \<open>The canonical form\<close>

text \<open>The key of a field and the value the parser is to read for it.\<close>

fun field_key :: "field \<Rightarrow> string" where
  "field_key F_Version = ''version''"
| "field_key F_Build = ''build''"
| "field_key F_BuildNumber = ''build_number''"
| "field_key F_FileName = ''fn''"
| "field_key F_Extras = ''extras''"
| "field_key F_Flags = ''flags''"
| "field_key F_Channel = ''channel''"
| "field_key F_Subdir = ''subdir''"
| "field_key F_Namespace = ''namespace''"
| "field_key F_Md5 = ''md5''"
| "field_key F_Sha256 = ''sha256''"
| "field_key F_Url = ''url''"
| "field_key F_License = ''license''"
| "field_key F_LicenseFamily = ''license_family''"
| "field_key F_When = ''when''"
| "field_key F_TrackFeatures = ''track_features''"

fun field_value :: "format_env \<Rightarrow> string \<Rightarrow> spec_view \<Rightarrow> field \<Rightarrow> string" where
  "field_value env when_text v F_Version = spec_display (the (sv_version v))"
| "field_value env when_text v F_Build = string_matcher_display (the (sv_build v))"
| "field_value env when_text v F_BuildNumber = build_number_spec_display (the (sv_build_number v))"
| "field_value env when_text v F_FileName = the (sv_file_name v)"
| "field_value env when_text v F_Extras = join_with '','' (the (sv_extras v))"
| "field_value env when_text v F_Flags = join_with '','' (map string_matcher_display (the (sv_flags v)))"
| "field_value env when_text v F_Channel = projr (canonical_channel_value env (the (sv_channel v)))"
| "field_value env when_text v F_Subdir = the (sv_subdir v)"
| "field_value env when_text v F_Namespace = the (sv_namespace v)"
| "field_value env when_text v F_Md5 = fe_hex_encode env (the (sv_md5 v))"
| "field_value env when_text v F_Sha256 = fe_hex_encode env (the (sv_sha256 v))"
| "field_value env when_text v F_Url = strip_url_for_serialization (fe_url env) (the (sv_url v))"
| "field_value env when_text v F_License = the (sv_license v)"
| "field_value env when_text v F_LicenseFamily = the (sv_license_family v)"
| "field_value env when_text v F_When = escape_bracket_value when_text"
| "field_value env when_text v F_TrackFeatures = join_with '' '' (the (sv_track_features v))"

definition renders_pair :: "string \<Rightarrow> string \<Rightarrow> string \<Rightarrow> bool" where
  "renders_pair k v s \<longleftrightarrow> (\<exists>t. value_text v t \<and> s = pair_text k t)"

lemma canonical_bracket_value_text: "canonical_bracket_value v = Inr t \<Longrightarrow> value_text v t"
  using pick_quote_quotable by (fastforce simp: canonical_bracket_value_def value_text_def split: option.splits)

lemma write_scalar_pair:
  "dc_style ctx = DS_Canonical \<Longrightarrow> write_scalar ctx k v = Inr s \<Longrightarrow> renders_pair k v s"
  using canonical_bracket_value_text by (fastforce simp: write_scalar_def renders_pair_def pair_text_def split: sum.splits)

lemma join_with_chars: "set (join_with sep ss) \<subseteq> (\<Union>s \<in> set ss. set s) \<union> set sep"
proof (induction ss)
  case (Cons s ss)
  then show ?case by (cases ss) auto
qed simp

lemma write_list_pair:
  assumes "dc_style ctx = DS_Canonical" "write_list ctx k elements ok = Inr s"
    and "\<forall>e \<in> set elements. ok e \<and> set e \<inter> set [CHR ''['', CHR '']'', CHR 0x22, CHR 0x27, CHR ''#'', CHR '';''] = {}"
  shows "renders_pair k (join_with '','' elements) s"
proof -
  have "map (list_element ok) elements = elements" using assms(3) by (intro map_idI) (simp add: list_element_def)
  then have "s = pair_text k (''['' @ join_with '','' elements @ '']'')"
    using assms(1,2) by (simp add: write_list_def pair_text_def list_separator_def field_separator_def)
  moreover have "set (join_with '','' elements) \<inter> set [CHR ''['', CHR '']'', CHR 0x22, CHR 0x27, CHR ''#'', CHR '';''] = {}"
    using join_with_chars [of "'',''" elements] assms(3) by fastforce
  ultimately show ?thesis unfolding renders_pair_def value_text_def by blast
qed

lemma extra_name_chars: "is_valid_extra_group_name e \<Longrightarrow> set e \<inter> set [CHR ''['', CHR '']'', CHR 0x22, CHR 0x27, CHR ''#'', CHR '';''] = {}"
  by (auto simp: is_valid_extra_group_name_def list_all_iff is_ascii_lowercase_def is_ascii_digit_def)

lemma flag_part_chars: "is_valid_flag_part s g \<Longrightarrow> set s \<inter> set [CHR ''['', CHR '']'', CHR 0x22, CHR 0x27, CHR ''#'', CHR '';''] = {}"
  by (auto simp: is_valid_flag_part_def list_all_iff is_ascii_lowercase_def is_ascii_digit_def)

lemma split_char_chars: "set s \<subseteq> (\<Union>p \<in> set (split_char c s). set p) \<union> {c}"
proof (induction s)
  case (Cons x s)
  then show ?case by (cases "split_char c s") auto
qed simp

lemma flag_chars: "is_valid_matchspec_flag f \<Longrightarrow> set f \<inter> set [CHR ''['', CHR '']'', CHR 0x22, CHR 0x27, CHR ''#'', CHR '';''] = {}"
proof -
  assume "is_valid_matchspec_flag f"
  then have "\<forall>p \<in> set (split_char CHR '':'' f). is_valid_flag_part p True"
    by (auto simp: is_valid_matchspec_flag_def is_valid_flag_def split: list.splits if_splits)
  then have "\<forall>p \<in> set (split_char CHR '':'' f). set p \<inter> set [CHR ''['', CHR '']'', CHR 0x22, CHR 0x27, CHR ''#'', CHR '';''] = {}"
    using flag_part_chars by blast
  then show ?thesis using split_char_chars [of f "CHR '':''"] by fastforce
qed

lemma invalid_or_empty_None: "invalid_or_empty bad sh xs = None \<Longrightarrow> \<forall>x \<in> set xs. \<not> bad x"
  by (auto simp: invalid_or_empty_def find_None_iff split: option.splits if_splits)

lemma plain_field_key: "plain_key (field_key f)"
  by (cases f) (simp_all add: plain_key_def is_ascii_lowercase_def is_ascii_digit_def)

lemma fmt_field_pair:
  assumes "dc_style ctx = DS_Canonical" "fmt_field env ctx (Inr w) v f = Inr s"
  shows "renders_pair (field_key f) (field_value env w v f) s"
proof (cases f)
  case F_Extras
  have "invalid_or_empty (\<lambda>e. \<not> is_valid_extra_group_name e) (\<lambda>e. e) (the (sv_extras v)) = None"
    and w: "write_list ctx ''extras'' (the (sv_extras v)) is_valid_extra_group_name = Inr s"
    using assms F_Extras by (simp_all add: Let_def split: option.splits)
  then have "\<forall>e \<in> set (the (sv_extras v)). is_valid_extra_group_name e" using invalid_or_empty_None by blast
  then show ?thesis using write_list_pair [OF assms(1) w] extra_name_chars F_Extras by simp
next
  case F_Flags
  have "invalid_or_empty (\<lambda>f. \<not> is_valid_matchspec_flag (string_matcher_display f) \<or> \<not> string_matcher_is_canonical f)
      string_matcher_display (the (sv_flags v)) = None"
    and w: "write_list ctx ''flags'' (map string_matcher_display (the (sv_flags v))) is_valid_matchspec_flag = Inr s"
    using assms F_Flags by (simp_all add: Let_def split: option.splits)
  then have "\<forall>f \<in> set (the (sv_flags v)). is_valid_matchspec_flag (string_matcher_display f)" using invalid_or_empty_None by blast
  then show ?thesis using write_list_pair [OF assms(1) w] flag_chars F_Flags by simp
next
  case F_Channel
  then obtain c where "canonical_channel_value env (the (sv_channel v)) = Inr c" "write_scalar ctx ''channel'' c = Inr s"
    using assms by (auto simp: Let_def write_scalar_def split: sum.splits)
  then show ?thesis using write_scalar_pair [OF assms(1)] F_Channel by simp
next
  case F_When
  then have "s = pair_text ''when'' (CHR 0x22 # escape_bracket_value w @ [CHR 0x22])" using assms by (simp add: pair_text_def)
  then show ?thesis using F_When escape_quotable by (auto simp: renders_pair_def value_text_def)
qed (use assms write_scalar_pair [OF assms(1)] in \<open>auto simp: Let_def split: if_splits option.splits\<close>)


lemma collect_fields_Inr: "collect_fields f xs = Inr ss \<Longrightarrow> list_all2 (\<lambda>x s. f x = Inr s) xs ss"
  by (induction xs arbitrary: ss) (auto split: sum.splits)

lemma written_pairs:
  assumes "list_all2 (\<lambda>f s. renders_pair (key f) (val f) s) fs ss" "\<And>f. plain_key (key f)"
  obtains ps where "written_ok ps" "pair_texts ps = ss" "pairs_of ps = map (\<lambda>f. (key f, val f)) fs"
proof -
  have "\<exists>ps. written_ok ps \<and> pair_texts ps = ss \<and> pairs_of ps = map (\<lambda>f. (key f, val f)) fs"
    using assms(1)
  proof (induction rule: list_all2_induct)
    case Nil
    show ?case by (intro exI [of _ "[]"]) (simp add: pair_texts_def pairs_of_def)
  next
    case (Cons f fs s ss)
    then obtain ps t where "written_ok ps" "pair_texts ps = ss" "pairs_of ps = map (\<lambda>f. (key f, val f)) fs"
      "value_text (val f) t" "s = pair_text (key f) t"
      by (auto simp: renders_pair_def)
    then show ?case using assms(2)
      by (intro exI [of _ "(key f, val f, t) # ps"]) (simp add: pair_texts_def pairs_of_def)
  qed
  then show ?thesis using that by blast
qed

definition condition_text :: "format_env \<Rightarrow> match_spec \<Rightarrow> rendered" where
  "condition_text env s = (case ms_condition s of None \<Rightarrow> Inr [] | Some c \<Rightarrow> cond_fmt env DS_Canonical 0 False c)"

definition canonical_pairs :: "format_env \<Rightarrow> match_spec \<Rightarrow> (string \<times> string) list" where
  "canonical_pairs env s = map (\<lambda>f. (field_key f, field_value env (projr (condition_text env s)) (view_of_spec s) f))
     (filter (view_has (view_of_spec s)) CANONICAL_BRACKET_FIELDS)"

definition canonical_name_text :: "match_spec \<Rightarrow> string" where
  "canonical_name_text s = package_name_matcher_display (ms_name s)"

lemma not_positional: "\<not> is_positional placement_default f"
  by (cases f) (simp_all add: placement_default_def)

lemma canonical_view:
  "to_canonical_string env s = view_fmt env CANONICAL (condition_text env s) (view_of_spec s)"
  by (cases s) (simp add: to_canonical_string_def condition_text_def CANONICAL_def cong: option.case_cong)

lemma list_all2_memD: "list_all2 P xs ys \<Longrightarrow> x \<in> set xs \<Longrightarrow> \<exists>y. P x y"
  by (induction rule: list_all2_induct) auto

lemma when_rendered:
  "ms_condition s = Some c \<Longrightarrow> F_When \<in> set (filter (view_has (view_of_spec s)) CANONICAL_BRACKET_FIELDS)"
  unfolding set_filter by (simp add: CANONICAL_BRACKET_FIELDS_def view_of_spec_def)

lemma canonical_written:
  assumes "to_canonical_string env s = Inr t"
  obtains ps where "written_ok ps" "pairs_of ps = canonical_pairs env s" "name_matcher_is_canonical (ms_name s)"
    "t = canonical_name_text s @ (if ps = [] then [] else ''['' @ join_with '','' (pair_texts ps) @ '']'')"
    "isl (condition_text env s) = False"
proof -
  let ?v = "view_of_spec s"
  let ?fs = "filter (view_has ?v) CANONICAL_BRACKET_FIELDS"
  have fs: "filter (\<lambda>field. view_has ?v field \<and> \<not> is_positional (view_placement env CANONICAL ?v) field) (bracket_fields CANONICAL) = ?fs"
    by (simp add: view_placement_def CANONICAL_def bracket_fields_def not_positional)
  have name: "fmt_head env CANONICAL ?v pl b = (case fmt_canonical_name (ms_name s) of Inl e \<Rightarrow> Inl e | Inr x \<Rightarrow> Inr (x, False))" for pl b
    by (simp add: fmt_head_def CANONICAL_def view_of_spec_def)
  have head: "fmt_canonical_name (ms_name s) = Inr (canonical_name_text s)"
  proof (cases "name_matcher_is_canonical (ms_name s)")
    case False
    then obtain e where "fmt_canonical_name (ms_name s) = Inl e" by (simp add: fmt_canonical_name_def)
    then have "to_canonical_string env s = Inl e" unfolding canonical_view view_fmt_def Let_def fs name by simp
    then show ?thesis using assms by simp
  qed (simp add: fmt_canonical_name_def canonical_name_text_def)
  have "to_canonical_string env s = (case collect_fields (fmt_field env CANONICAL (condition_text env s) ?v) ?fs of
      Inl e \<Rightarrow> Inl e
    | Inr texts \<Rightarrow> Inr (canonical_name_text s @ (if texts = [] then [] else ''['' @ join_with (field_separator CANONICAL) texts @ '']'')))"
    unfolding canonical_view view_fmt_def Let_def fs name head by simp
  with assms obtain ss
    where ss: "collect_fields (fmt_field env CANONICAL (condition_text env s) ?v) ?fs = Inr ss"
      and t: "t = canonical_name_text s @ (if ss = [] then [] else ''['' @ join_with (field_separator CANONICAL) ss @ '']'')"
    by (cases "collect_fields (fmt_field env CANONICAL (condition_text env s) ?v) ?fs") auto
  have fields: "list_all2 (\<lambda>f x. fmt_field env CANONICAL (condition_text env s) ?v f = Inr x) ?fs ss"
    by (rule collect_fields_Inr [OF ss])
  obtain w where cond: "condition_text env s = Inr w"
  proof (cases "ms_condition s")
    case (Some c)
    from list_all2_memD [OF fields when_rendered [OF this]]
    obtain x where "fmt_field env CANONICAL (condition_text env s) ?v F_When = Inr x" by blast
    then show ?thesis using that by (auto split: sum.splits)
  qed (use that in \<open>simp add: condition_text_def\<close>)
  have "list_all2 (\<lambda>f x. renders_pair (field_key f) (field_value env w ?v f) x) ?fs ss"
    using fields [unfolded cond]
    by (rule list_all2_mono) (rule fmt_field_pair [of CANONICAL], simp add: CANONICAL_def)
  from written_pairs [OF this plain_field_key] obtain ps
    where ps: "written_ok ps" "pair_texts ps = ss" "pairs_of ps = canonical_pairs env s"
    unfolding canonical_pairs_def cond sum.sel by blast
  moreover have "ps = [] \<longleftrightarrow> ss = []" using ps(2) by (auto simp: pair_texts_def)
  moreover have "field_separator CANONICAL = '',''" by (simp add: field_separator_def CANONICAL_def)
  moreover have "name_matcher_is_canonical (ms_name s)" using head by (simp add: fmt_canonical_name_def split: if_splits)
  ultimately show ?thesis by (intro that [of ps]) (simp_all add: t cond)
qed

lemma canonical_condition:
  assumes "to_canonical_string env s = Inr t" "ms_condition s = Some c"
  shows "\<exists>w. cond_fmt env DS_Canonical 0 False c = Inr w \<and> (''when'', escape_bracket_value w) \<in> set (canonical_pairs env s)"
proof -
  obtain w where w: "cond_fmt env DS_Canonical 0 False c = Inr w" "projr (condition_text env s) = w"
  proof -
    have "\<not> isl (condition_text env s)" by (rule canonical_written [OF assms(1)]) simp
    then show ?thesis using that assms(2) by (cases "cond_fmt env DS_Canonical 0 False c") (simp_all add: condition_text_def)
  qed
  from when_rendered [OF assms(2)] have "(field_key F_When, field_value env w (view_of_spec s) F_When) \<in> set (canonical_pairs env s)"
    unfolding canonical_pairs_def w(2) set_map by (rule imageI)
  then show ?thesis using w by simp
qed


lemma bracket_not_space: "w \<in> set white_space \<Longrightarrow> CHR ''['' \<notin> set w \<and> CHR '']'' \<notin> set w"
  by (auto simp: white_space_def)

lemma starts_with_space_bracket:
  assumes "starts_with_space (a @ CHR ''['' # b)"
  shows "starts_with_space a"
proof -
  from assms obtain w r where w: "w \<in> set white_space" "a @ CHR ''['' # b = w @ r" by (auto simp: starts_with_space_iff)
  then consider us where "a = w @ us" | us where "w = a @ us" "us @ r = CHR ''['' # b" by (auto simp: append_eq_append_conv2)
  then show ?thesis
  proof cases
    case 1
    then show ?thesis using w(1) by (auto simp: starts_with_space_iff)
  next
    case 2
    then have "us = []" using bracket_not_space [OF w(1)] by (cases us) auto
    then show ?thesis using 2 w(1) by (auto simp: starts_with_space_iff)
  qed
qed

text \<open>The text of a canonical name, where an exact name has the characters of package names.\<close>

definition exact_name_ok :: "package_name_matcher \<Rightarrow> bool" where
  "exact_name_ok m = (case m of PNM_Exact n \<Rightarrow> list_all valid_name_byte (as_normalized n) | _ \<Rightarrow> True)"

lemma valid_name_space:
  assumes "list_all valid_name_byte s"
  shows "\<not> starts_with_space s" "\<not> ends_with_space s"
proof -
  have bytes: "valid_name_byte c" if "c \<in> set s" for c using that assms by (simp add: list_all_iff)
  have w: "\<not> valid_name_byte (hd w)" "\<not> valid_name_byte (last w)" "w \<noteq> []" if "w \<in> set white_space" for w
    using white_space_ends [OF that] white_space_nonempty [OF that] by (simp_all add: valid_name_byte_def)
  show "\<not> starts_with_space s" using bytes w by (fastforce simp: starts_with_space_iff)
  show "\<not> ends_with_space s" using bytes w by (fastforce simp: ends_with_space_iff)
qed

lemma canonical_name_plain:
  assumes "name_matcher_is_canonical m" "exact_name_ok m"
  shows "set (package_name_matcher_display m) \<inter> set ''[]#;'' = {}
    \<and> \<not> starts_with_space (package_name_matcher_display m) \<and> \<not> ends_with_space (package_name_matcher_display m)"
proof (cases m)
  case (PNM_Exact n)
  then show ?thesis using assms valid_name_space [of "as_normalized n"]
    by (auto simp: exact_name_ok_def list_all_iff valid_name_byte_def is_ascii_lowercase_def is_ascii_uppercase_def is_ascii_digit_def)
next
  case (PNM_Glob s)
  then show ?thesis using assms(1) no_space_ends [of s]
    by (auto simp: name_matcher_is_canonical_def is_safe_positional_value_def contains_any_def list_ex_iff)
next
  case (PNM_Regex s)
  then have s: "classifies_as_regex s" "set s \<inter> set ''[]#;'' = {}"
    using assms(1) by (auto simp: name_matcher_is_canonical_def contains_any_def list_ex_iff)
  then have ends: "s \<noteq> []" "hd s = CHR ''^''" "last s = CHR ''$''" by (auto simp: classifies_as_regex_def)
  have "\<not> starts_with_space s" "\<not> ends_with_space s"
    using ends white_space_ends white_space_nonempty by (fastforce simp: starts_with_space_iff ends_with_space_iff)+
  then show ?thesis using s PNM_Regex by simp
qed

lemma trim_written:
  assumes "\<not> starts_with_space name" "\<not> ends_with_space name"
  shows "trim (name @ (if b then [] else ''['' @ s @ '']'')) = name @ (if b then [] else ''['' @ s @ '']'')"
proof (cases b)
  case False
  have "\<not> starts_with_space (name @ ''['' @ s @ '']'')" using starts_with_space_bracket [of name "s @ '']''"] assms(1) by auto
  moreover have "\<not> ends_with_space (name @ ''['' @ s @ '']'')"
  proof
    assume "ends_with_space (name @ ''['' @ s @ '']'')"
    then obtain w r where w: "w \<in> set white_space" "name @ ''['' @ s @ '']'' = r @ w" by (auto simp: ends_with_space_iff)
    have "last (r @ w) = CHR '']''" unfolding w(2) [symmetric] by simp
    then show False using white_space_ends [OF w(1)] white_space_nonempty [OF w(1)] by simp
  qed
  ultimately show ?thesis using False by (simp add: trim_id)
qed (simp add: trim_id assms)

section \<open>The round trip\<close>

text \<open>
  C40. The parser takes a canonical spec apart as it was written: no part of it is read as a comment or a
  semicolon, the text in front of the brackets is the name, and the pairs in the brackets are the fields the
  spec has, in the canonical order, each with its value. The value of the condition is unescaped to the
  rendering of the condition.
\<close>

theorem canonical_string_sections:
  assumes "to_canonical_string env s = Inr t" "exact_name_ok (ms_name s)" "takes_multispace0 ws" "ascii_tables ut"
  shows "match_spec_sections ws ut t = Some (Inr (package_name_matcher_display (ms_name s), canonical_pairs env s))
    \<and> (\<forall>c. ms_condition s = Some c \<longrightarrow> (\<exists>w. cond_fmt env DS_Canonical 0 False c = Inr w
         \<and> (''when'', escape_bracket_value w) \<in> set (canonical_pairs env s) \<and> unescape_string (escape_bracket_value w) = w))"
proof -
  obtain ps where ps: "written_ok ps" "pairs_of ps = canonical_pairs env s" "name_matcher_is_canonical (ms_name s)"
    and t: "t = canonical_name_text s @ (if ps = [] then [] else ''['' @ join_with '','' (pair_texts ps) @ '']'')"
    by (rule canonical_written [OF assms(1)])
  have name: "set (canonical_name_text s) \<inter> set ''[]#;'' = {}" "\<not> starts_with_space (canonical_name_text s)"
    "\<not> ends_with_space (canonical_name_text s)"
    using canonical_name_plain [OF ps(3) assms(2)] by (simp_all add: canonical_name_text_def)
  have none: "unquoted_positions ut t c l = []" if "separator_char c" for c l
    unfolding t by (rule no_separator_written [OF that assms(4) ps(1) name(1)])
  have "trim t = t" unfolding t by (rule trim_written [OF name(2,3)])
  moreover have "strip_brackets ws ut t = Some (Inr (canonical_name_text s, canonical_pairs env s))"
    unfolding t ps(2) [symmetric] by (rule strip_brackets_written [OF assms(3,4) ps(1)]) (use name(1) in auto)
  ultimately have "match_spec_sections ws ut t = Some (Inr (canonical_name_text s, canonical_pairs env s))"
    using none [of "CHR ''#''"] none [of "CHR '';''"]
    by (simp add: match_spec_sections_def strip_comment_def reject_deprecated_if_syntax_def separator_char_def)
  moreover have "\<exists>w. cond_fmt env DS_Canonical 0 False c = Inr w \<and> (''when'', escape_bracket_value w) \<in> set (canonical_pairs env s)
      \<and> unescape_string (escape_bracket_value w) = w" if "ms_condition s = Some c" for c
    using canonical_condition [OF assms(1) that] unescape_escape by blast
  ultimately show ?thesis by (simp add: canonical_name_text_def)
qed


definition sample_conditional :: match_spec where
  "sample_conditional = MatchSpec (PNM_Exact (new_unchecked ''foo'')) None None None (Some ''a#b;c'') None None None None None None None None
     None None (Some (MSC_Or (MSC_MatchSpec (match_spec_from_name (new_unchecked ''bar'')))
       (MSC_MatchSpec (match_spec_from_name (new_unchecked ''baz''))))) None"

theorem canonical_string_sections_witness:
  "\<exists>t. to_canonical_string sample_format sample_conditional = Inr t
     \<and> match_spec_sections ascii_spaces ascii_unicode t = Some (Inr (''foo'', [(''fn'', ''a#b;c''), (''when'', ''bar or baz'')]))"
proof -
  have t: "to_canonical_string sample_format sample_conditional
      = Inr (''foo[fn='' @ [CHR 0x22] @ ''a#b;c'' @ [CHR 0x22] @ '',when='' @ [CHR 0x22] @ ''bar or baz'' @ [CHR 0x22] @ '']'')"
    by code_simp
  have "exact_name_ok (ms_name sample_conditional)" by code_simp
  moreover have "takes_multispace0 ascii_spaces" by (rule ascii_instances)
  moreover have "ascii_tables ascii_unicode" by (rule ascii_instances)
  moreover have "canonical_pairs sample_format sample_conditional = [(''fn'', ''a#b;c''), (''when'', ''bar or baz'')]"
    by code_simp
  moreover have "package_name_matcher_display (ms_name sample_conditional) = ''foo''" by code_simp
  ultimately show ?thesis using t canonical_string_sections [OF t] by simp
qed

end
