(* ===== verification/Spec2Isabelle.thy ===== *)
theory Spec2Isabelle
  imports Version_Spec_Round_Trip Build_Spec Transaction_Properties Clobber_Properties Prefix_Replacement
    Match_Spec_Round_Trip
begin

text \<open>
  A verification development for rattler, the Rust library for conda packages: versions and their
  constraints, package names and records, match specs, channels and urls, the ordering of packages, the
  computation of environment changes, the ownership of installed files and the replacement of the install
  prefix in them. Paths below are under \<open>src/crates\<close>.

  \<^bold>\<open>How the program works.\<close> A version string is parsed into a packed vector of components
  (\<open>rattler_conda_version/src/version\<close>); versions are compared, edited and matched against constraint
  trees, which have a parser of their own (\<open>rattler_conda_version/src/version_spec\<close>). Package records
  (\<open>rattler_conda_types/src/repo_data\<close>) carry a name, a version, a build string and dependencies. A match
  spec (\<open>rattler_conda_types/src/match_spec\<close>) selects records by matchers on their fields and is
  written and read as text; a channel (\<open>rattler_conda_types/src/channel\<close>) resolves a name, a path or a url to
  the place packages come from, and urls lose their credentials before they are shown or stored
  (\<open>rattler_redaction\<close>). A solver chooses records; \<open>Transaction::from_current_and_desired\<close>
  (\<open>rattler/src/install/transaction.rs\<close>) compares them with what is installed and lists the operations; the
  packages are sorted so that dependencies come first (\<open>rattler_conda_types/src/repo_data/topological_sort.rs\<close>).
  \<open>PathResolver\<close> (\<open>path_resolver/src/lib.rs\<close>) and the clobber registry above it
  (\<open>rattler/src/install/clobber_registry.rs\<close>) record which package owns which file, so that files of several
  packages can be moved aside and back. When a file is linked, the prefix it was built with is replaced by the
  prefix it is installed to (\<open>rattler/src/install/prefix_replacement\<close>, \<open>rattler/src/install/link.rs\<close>), at
  offsets the package records or at those a search finds.

  \<^bold>\<open>The theories, in the order of the imports.\<close>

  \<^item> \<open>Rattler_Prelude\<close>, \<open>Rust_Text\<close>, \<open>Rust_Path\<close>: three-valued orderings and the locale
    \<open>total_preorder_cmp\<close> of the laws of \<open>Ord::cmp\<close>, which every comparison of the development
    interprets; panics as values of type \<open>rust\<close>; the iterator, text, number and path functions of the
    standard library that the crates call.
  \<^item> \<open>Version_Bits\<close>: \<open>Segment\<close> and \<open>Flags\<close> (\<open>version/segment.rs\<close>, \<open>version/flags.rs\<close>)
    as machine words; every field reads back what was stored.
  \<^item> \<open>Version_Model\<close>, \<open>Version_Order\<close>: \<open>Version\<close> with its vectors as stored
    (\<open>version/mod.rs\<close>), the segment iterators, equality, order, hash, prefix matching and display,
    \<open>StrictVersion\<close> and \<open>VersionWithSource\<close>, with the invariant \<open>version_ok\<close>; equality, order and hash
    read on the zero-padded grid of components.
  \<^item> \<open>Version_Edit\<close>, \<open>Version_Bump\<close>, \<open>Version_Prefix\<close>, \<open>Version_Properties\<close>: the operations
    that build a new version (\<open>with_segments\<close>, \<open>pop_segments\<close>, \<open>extend_to_length\<close>, \<open>bump\<close> and
    others), specified by the parts of the version they change; prefixes and compatibility; the properties of
    versions, and the inputs on which an operation misses its documented behaviour.
  \<^item> \<open>Version_Parse\<close>, \<open>Version_Syntax\<close>, \<open>Version_Literal\<close>: the parser of version literals
    (\<open>version/parse.rs\<close>), the abstract syntax of a literal, and parser and printer as inverse functions.
  \<^item> \<open>Version_Spec\<close>, \<open>Version_Spec_Parse\<close>, \<open>Version_Spec_Round_Trip\<close>: constraint trees
    (\<open>version_spec/mod.rs\<close>), their evaluation, complements, flattening and display; their parser in both
    strictness modes (\<open>version_spec/parse.rs\<close>, \<open>version_spec/constraint.rs\<close>), which is total and the
    inverse of the display.
  \<^item> \<open>Package_Name\<close>, \<open>Package_Record\<close>, \<open>Build_Spec\<close>, \<open>Subdir\<close>, \<open>Archive_Identifier\<close>,
    \<open>Prefix_Record\<close>: names and their extraction from match specs, records with their order, build strings,
    build number constraints with their parser, platforms, archive file names, records of installed packages.
  \<^item> \<open>Topological_Sort\<close>, \<open>Topological_Order\<close>: the sort with its search for cycles and its explicit
    stack; the result is a permutation with dependencies first.
  \<^item> \<open>Path_Trie\<close>, \<open>Path_Ownership\<close>, \<open>Path_Resolver\<close>: the trie of path components, its laws, and the
    resolver with its invariant. The locale \<open>ownership_registry\<close> states what clients rely on; its
    interpretation \<open>trie\<close> is on the resolver's own operations.
  \<^item> \<open>Clobber_Registry\<close>, \<open>Clobber_Properties\<close>: the registry of files that several packages install, a
    client of the resolver and of the sort; building, unregistering and unclobbering.
  \<^item> \<open>Python_Info\<close>, \<open>Transaction\<close>, \<open>Transaction_Plan\<close>, \<open>Transaction_Properties\<close>: the python
    interpreter of an environment, the computation of a transaction by its two loops, the plan it is shown to
    follow, and its properties.
  \<^item> \<open>Offset_Encoding\<close>: prefix placeholders with recorded offsets (\<open>package/paths.rs\<close>), their validation,
    and how they are read from and written to \<open>paths.json\<close>.
  \<^item> \<open>Byte_Search\<close>, \<open>Prefix_Binary\<close>, \<open>Prefix_Splice\<close>, \<open>Prefix_Binary_Properties\<close>, \<open>Prefix_Text\<close>,
    \<open>Prefix_Text_Properties\<close>, \<open>Prefix_Replacement\<close>: the search for the placeholder under all encodings,
    the splices for binary and text files, shebang lines, the validation of recorded offsets and the dispatch in
    \<open>link.rs\<close>; patches are disjoint, lengths are kept, and recorded offsets and the search agree.
  \<^item> \<open>String_Matcher\<close>: exact, glob and regular expression matchers with their fast paths.
  \<^item> \<open>Url_Redaction\<close>, \<open>Url_Laws\<close>, \<open>File_Url\<close>: removal of credentials from urls and texts, and the
    conversion of paths to \<open>file\<close> urls and back (\<open>file_url/src/lib.rs\<close>).
  \<^item> \<open>Channel\<close>, \<open>Channel_Properties\<close>: channels, named channels and the channel configuration.
  \<^item> \<open>Match_Spec\<close>, \<open>Match_Spec_Format\<close>, \<open>Match_Spec_Properties\<close>: match specs, what they match,
    specs made from urls, and the renderer with its dialects.
  \<^item> \<open>Text_Scanners\<close>, \<open>Match_Spec_Parse\<close>, \<open>Match_Spec_Round_Trip\<close>: the stages of the match spec
    parser that split a text into its sections and key-value pairs, shown to invert the canonical renderer.

  \<^bold>\<open>Conventions.\<close> Rust integers are words of their width, or natural numbers where no arithmetic can
  wrap; strings are byte strings; a \<open>HashMap\<close> is an association list with distinct keys or a function, a
  \<open>HashSet\<close> a set. \<open>Result\<close> is a sum with the error on the left, \<open>Option\<close> an option, and a function that
  can panic returns type \<open>rust\<close>. Recursion that is not structural has fuel, and an outer \<open>None\<close> is a run
  that has not ended within it. The fuel is never a hypothesis: it is fixed by the definitions (one more than the
  number of packages, the length of the text or the length of the file) and shown to be enough, since the theorems
  conclude \<open>Some (Done _)\<close>.

  \<^bold>\<open>Parameters.\<close> Code outside the repository is an argument of the definitions that use it, and what is
  relied on is a named hypothesis or a locale with an interpretation: the scanners of \<open>nom\<close> and the Unicode
  tables (\<open>scanner_laws\<close>, \<open>spec_env_laws\<close>), \<open>memchr\<close> (\<open>memchr_laws\<close>), glob patterns
  (\<open>glob_laws\<close>), the \<open>url\<close> crate (\<open>url_laws\<close>, \<open>file_url_laws\<close>, \<open>channel_laws\<close> and its extension
  \<open>channel_name_laws\<close>; those for paths include percent encoding), and without any law regular expressions. JSON values are
  a parameter with the laws of their readers. The reading of a full record from disk, and in unclobbering the
  moving of files and the writing of records (\<open>sync_clobbers\<close>, \<open>update_conda_meta\<close>), are arbitrary functions.

  \<^bold>\<open>Not modelled.\<close> Serialisation with serde, the positional grammar of match specs and the meaning of the
  pairs in their brackets, the solver back ends, and everything that works on the network, on archives, on lock
  files or on the file system (\<open>rattler_networking\<close>, \<open>rattler_repodata_gateway\<close>,
  \<open>rattler_package_streaming\<close>, \<open>rattler_cache\<close>, \<open>rattler_lock\<close>, the installer of \<open>rattler\<close>): their
  behaviour is that of other crates or of the operating system. Writing the replaced file never fails in the
  model, and paths are those of Unix.
\<close>

section \<open>Dependency order and file ownership\<close>

text \<open>
  C23. The clobber registry of an environment with distinct package names, whose packages record only
  relative and non-empty paths, is built without a panic and knows exactly the files of every package. When the
  dependencies have no cycle, a package takes precedence over its dependencies: where a package and one of its
  dependencies have the same file, the dependency is not the winner.
\<close>

theorem clobber_registry_of_environment:
  assumes names: "distinct (map record_key ps)" and valid: "\<forall>p \<in> set ps. paths_valid (record_paths p)"
  shows "\<exists>reg. clobber_registry_new ps = Some (Done reg) \<and> registry_ok reg
    \<and> (\<forall>q. owned (cr_path_trie reg) q = {record_key p | p. p \<in> set ps \<and> q \<in> set (record_paths p)})
    \<and> (acyclic_deps (collect_packages (map px_package_record ps)) \<longrightarrow>
        (\<forall>p \<in> set ps. \<forall>dep \<in> set ps. \<forall>q. record_key dep \<in> set (dep_names (px_package_record p))
           \<and> q \<in> set (record_paths p) \<longrightarrow>
           find (\<lambda>k. k \<in> owned (cr_path_trie reg) q) (rv_packages (cr_path_trie reg)) \<noteq> Some (record_key dep)))"
proof -
  obtain out reg where reg: "clobber_registry_new ps = Some (Done reg)" "registry_ok reg" "mset out = mset ps"
    "sort_topologically (map px_package_record ps) = Some (Done (map px_package_record out))"
    "rv_packages (cr_path_trie reg) = rev (map record_key out)"
    "\<forall>q. owned (cr_path_trie reg) q = {record_key p | p. p \<in> set ps \<and> q \<in> set (record_paths p)}"
    using clobber_registry_new_result [OF names valid] by blast
  have "find (\<lambda>k. k \<in> owned (cr_path_trie reg) q) (rv_packages (cr_path_trie reg)) \<noteq> Some (record_key dep)"
    if acyclic: "acyclic_deps (collect_packages (map px_package_record ps))"
      and p: "p \<in> set ps" "dep \<in> set ps" "record_key dep \<in> set (dep_names (px_package_record p))"
        "q \<in> set (record_paths p)" for p dep q
    by (rule dependency_not_winner [OF names reg(3-6) acyclic p])
  with reg(1,2,6) show ?thesis by blast
qed

theorem clobber_registry_of_environment_witness:
  "\<exists>reg. clobber_registry_new [sample_package] = Some (Done reg) \<and> registry_ok reg
     \<and> owned (cr_path_trie reg) [''d'', ''x''] = {''a''}"
proof -
  have "distinct (map record_key [sample_package])" by simp
  moreover have "\<forall>p \<in> set [sample_package]. paths_valid (record_paths p)"
    unfolding list.set ball_simps sample_package_paths by code_simp
  ultimately show ?thesis
    using clobber_registry_of_environment [of "[sample_package]"] sample_package_paths by fastforce
qed

end
